(* ===== verification/IbrPrelude.thy ===== *)
theory IbrPrelude
  imports Main "HOL-Library.Word" "HOL-Library.Char_ord" "HOL-Library.List_Lexorder"
begin

unbundle bit_operations_syntax

text \<open>
  Shared vocabulary of the development: machine words, byte streams, the exceptions of
  the C++ code as values, readers over byte streams, bytes and characters, flag words, and
  the two contracts every wire format of the program obeys (a decoder undoes its encoder;
  the predicted length is the number of bytes written).
\<close>

section \<open>Types\<close>

type_synonym byte = "8 word"

text \<open>\<open>u_int64_t\<close> and \<open>size_t\<close> are both 64 bits wide.\<close>

type_synonym u64 = "64 word"

named_theorems model_defs \<open>definitions that a proof over a component unfolds\<close>

named_theorems wire_simps \<open>what a decoder does on the output of its encoder\<close>

section \<open>Exceptions\<close>

text \<open>
  One constructor per exception class the modelled code throws (messages are dropped).
  Three more are no exceptions: \<open>StreamFailed\<close> is an output stream that went into its
  failed state, so that nothing written later reaches it; \<open>EndOfStream\<close> is a read past
  the end of an input stream, after which the code goes on with whatever the variable held,
  unless the stream is set to throw; \<open>Indeterminate\<close> marks an execution in which the C++ code reads
  memory it never wrote or writes past a buffer, so that the source does not determine
  what happens.
\<close>

datatype ibr_error =
    InvalidDataException
  | InvalidProtocolException
  | SerializationFailedException
  | RejectedException
  | NoSuchBlockFoundException
  | IbrException
  | IOException
  | StreamFailed
  | EndOfStream
  | Indeterminate

text \<open>The classes a \<open>catch (const dtn::InvalidDataException&)\<close> clause catches.\<close>

definition is_invalid_data :: "ibr_error \<Rightarrow> bool" where
  "is_invalid_data e =
     (e \<in> {InvalidDataException, InvalidProtocolException, SerializationFailedException,
            RejectedException})"

section \<open>Readers over byte streams\<close>

text \<open>
  An input stream is the list of the bytes not yet read. A reader returns the value read
  and the rest of the stream, or the error that ended the reading and the rest of the
  stream where it was thrown, since some callers catch it and read on.
\<close>

type_synonym 'a reader = "byte list \<Rightarrow> (ibr_error \<times> byte list) + 'a \<times> byte list"

definition rret :: "'a \<Rightarrow> 'a reader" where
  "rret x s = Inr (x, s)"

definition rfail :: "ibr_error \<Rightarrow> 'a reader" where
  "rfail e s = Inl (e, s)"

definition rbind :: "'a reader \<Rightarrow> ('a \<Rightarrow> 'b reader) \<Rightarrow> 'b reader" where
  "rbind m f s = (case m s of Inl e \<Rightarrow> Inl e | Inr (x, s') \<Rightarrow> f x s')"

text \<open>\<open>stream.get(c)\<close>: at the end of the stream the variable keeps whatever it held.\<close>

fun rbyte :: "byte reader" where
  "rbyte [] = Inl (EndOfStream, [])"
| "rbyte (b # s) = Inr (b, s)"

text \<open>\<open>stream.read(buf, n)\<close>: with fewer than \<open>n\<close> bytes left the buffer is not filled.\<close>

definition rtake :: "nat \<Rightarrow> byte list reader" where
  "rtake n s = (if n \<le> length s then Inr (take n s, drop n s) else Inl (EndOfStream, s))"

fun rrepeat :: "nat \<Rightarrow> 'a reader \<Rightarrow> 'a list reader" where
  "rrepeat 0 m s = Inr ([], s)"
| "rrepeat (Suc n) m s = rbind m (\<lambda>x. rbind (rrepeat n m) (\<lambda>xs. rret (x # xs))) s"

lemma rret_simp [simp]: "rret x s = Inr (x, s)"
  by (simp add: rret_def)

lemma rfail_simp [simp]: "rfail e s = Inl (e, s)"
  by (simp add: rfail_def)

lemma rbind_Inr [simp]: "m s = Inr (x, s') \<Longrightarrow> rbind m f s = f x s'"
  by (simp add: rbind_def)

lemma rbind_Inl [simp]: "m s = Inl e \<Longrightarrow> rbind m f s = Inl e"
  by (simp add: rbind_def)

lemma rbind_eq_Inr:
  "rbind m f s = Inr r \<longleftrightarrow> (\<exists>x s'. m s = Inr (x, s') \<and> f x s' = Inr r)"
  by (auto simp: rbind_def split: sum.splits prod.splits)

lemma rtake_append [wire_simps]: "n = length xs \<Longrightarrow> rtake n (xs @ s) = Inr (xs, s)"
  by (simp add: rtake_def)

text \<open>The stream behind a reader, whether it succeeded or not; a reader only takes bytes.\<close>

definition rest_of :: "(ibr_error \<times> byte list) + 'a \<times> byte list \<Rightarrow> byte list" where
  "rest_of r = (case r of Inl (e, s) \<Rightarrow> s | Inr (x, s) \<Rightarrow> s)"

lemma rest_of_simps [simp]: "rest_of (Inl (e, s)) = s" "rest_of (Inr (x, s)) = s"
  by (simp_all add: rest_of_def)

definition nonincreasing :: "'a reader \<Rightarrow> bool" where
  "nonincreasing m \<longleftrightarrow> (\<forall>s. length (rest_of (m s)) \<le> length s)"

lemma nonincreasingI: "(\<And>s. length (rest_of (m s)) \<le> length s) \<Longrightarrow> nonincreasing m"
  by (simp add: nonincreasing_def)

lemma nonincreasing_rest: "nonincreasing m \<Longrightarrow> length (rest_of (m s)) \<le> length s"
  by (simp add: nonincreasing_def)

lemma nonincreasingD: "nonincreasing m \<Longrightarrow> m s = Inr (x, s') \<Longrightarrow> length s' \<le> length s"
  using nonincreasing_rest [of m s] by simp

lemma nonincreasing_errorD: "nonincreasing m \<Longrightarrow> m s = Inl (e, s') \<Longrightarrow> length s' \<le> length s"
  using nonincreasing_rest [of m s] by simp

lemma nonincreasing_rret [intro, simp]: "nonincreasing (rret x)"
  by (simp add: nonincreasing_def)

lemma nonincreasing_rfail [intro, simp]: "nonincreasing (rfail e)"
  by (simp add: nonincreasing_def)

lemma nonincreasing_rbyte [intro, simp]: "nonincreasing rbyte"
proof (rule nonincreasingI)
  show "length (rest_of (rbyte s)) \<le> length s" for s by (cases s) auto
qed

lemma nonincreasing_rtake [intro, simp]: "nonincreasing (rtake n)"
  by (simp add: nonincreasing_def rtake_def)

lemma nonincreasing_rbind [intro]:
  assumes m: "nonincreasing m" and f: "\<And>x. nonincreasing (f x)"
  shows "nonincreasing (rbind m f)"
proof (rule nonincreasingI)
  fix s
  show "length (rest_of (rbind m f s)) \<le> length s"
  proof (cases "m s")
    case (Inl e)
    then show ?thesis using nonincreasing_rest [OF m, of s] by (cases e) simp
  next
    case (Inr r)
    then obtain x s' where r: "m s = Inr (x, s')" by (cases r) simp
    with nonincreasingD [OF m r] nonincreasing_rest [OF f, of x s'] show ?thesis by simp
  qed
qed

lemma nonincreasing_if [intro]:
  "nonincreasing m \<Longrightarrow> nonincreasing m' \<Longrightarrow> nonincreasing (if b then m else m')"
  by simp

lemma nonincreasing_rrepeat [intro]:
  assumes "nonincreasing m"
  shows "nonincreasing (rrepeat n m)"
proof (induction n)
  case 0
  then show ?case by (simp add: nonincreasing_def)
next
  case (Suc n)
  have "nonincreasing (\<lambda>s. rrepeat (Suc n) m s)"
    using assms Suc.IH by (auto simp del: rbind_Inr)
  then show ?case .
qed

section \<open>The contract of a wire format\<close>

locale codec =
  fixes enc :: "'a \<Rightarrow> byte list"
    and dec :: "byte list \<Rightarrow> (ibr_error \<times> byte list) + 'a \<times> byte list"
    and wf :: "'a \<Rightarrow> bool"
  assumes dec_enc: "wf x \<Longrightarrow> dec (enc x @ s) = Inr (x, s)"
begin

lemma dec_enc_end: "wf x \<Longrightarrow> dec (enc x) = Inr (x, [])"
  using dec_enc [of x "[]"] by simp

lemma enc_prefix_free:
  assumes "wf x" and "wf y" and "enc x @ s = enc y @ t"
  shows "x = y \<and> s = t"
proof -
  have "Inr (x, s) = dec (enc y @ t)"
    using dec_enc [OF assms(1), of s] assms(3) by simp
  then show ?thesis using dec_enc [OF assms(2), of t] by simp
qed

lemma enc_inj: "wf x \<Longrightarrow> wf y \<Longrightarrow> enc x = enc y \<Longrightarrow> x = y"
  using enc_prefix_free [of x y "[]" "[]"] by simp

lemma rbind_dec: "wf x \<Longrightarrow> rbind dec f (enc x @ s) = f x s"
  by (simp add: dec_enc)

lemma rrepeat_dec:
  "list_all wf xs \<Longrightarrow> rrepeat (length xs) dec (concat (map enc xs) @ s) = Inr (xs, s)"
  by (induction xs) (simp_all add: dec_enc)

end

text \<open>\<open>getLength()\<close> predicts what the encoder writes.\<close>

locale sized_codec = codec +
  fixes len :: "'a \<Rightarrow> nat"
  assumes length_enc: "wf x \<Longrightarrow> length (enc x) = len x"
begin

lemma length_concat_enc:
  "list_all wf xs \<Longrightarrow> length (concat (map enc xs)) = sum_list (map len xs)"
  by (induction xs) (simp_all add: length_enc)

end

section \<open>Characters and bytes\<close>

definition byte_of :: "char \<Rightarrow> byte" where
  "byte_of c = word_of_nat (of_char c)"

definition chr_of :: "byte \<Rightarrow> char" where
  "chr_of b = char_of (unat b)"

lemma unat_byte_of: "unat (byte_of c) = of_char c"
  by (simp add: byte_of_def unat_of_nat)

lemma chr_of_byte_of [simp]: "chr_of (byte_of c) = c"
  by (simp add: chr_of_def unat_byte_of)

lemma byte_of_chr_of [simp]: "byte_of (chr_of b) = b"
proof (rule word_unat_eq_iff [THEN iffD2])
  have "unat b < 256" using unsigned_less [of b, where ?'a = nat] by simp
  then show "unat (byte_of (chr_of b)) = unat b"
    by (simp add: unat_byte_of chr_of_def)
qed

lemma map_chr_of_byte_of [simp]: "map (chr_of \<circ> byte_of) s = s"
  by (simp add: comp_def)

definition str_bytes :: "string \<Rightarrow> byte list" where
  "str_bytes s = map byte_of s"

definition bytes_str :: "byte list \<Rightarrow> string" where
  "bytes_str bs = map chr_of bs"

lemma bytes_str_str_bytes [simp]: "bytes_str (str_bytes s) = s"
  by (simp add: bytes_str_def str_bytes_def)

lemma str_bytes_Nil [simp]: "str_bytes [] = []"
  by (simp add: str_bytes_def)

lemma length_str_bytes [simp]: "length (str_bytes s) = length s"
  by (simp add: str_bytes_def)

lemma length_bytes_str [simp]: "length (bytes_str s) = length s"
  by (simp add: bytes_str_def)

lemma byte_of_eq_0: "byte_of c = 0 \<longleftrightarrow> c = CHR 0x00"
proof
  have "chr_of 0 = CHR 0x00" by (simp add: chr_of_def char_of_def)
  moreover assume "byte_of c = 0"
  ultimately show "c = CHR 0x00" by (metis chr_of_byte_of)
qed (simp add: byte_of_def)

lemma zero_in_str_bytes: "0 \<in> set (str_bytes s) \<longleftrightarrow> CHR 0x00 \<in> set s"
  by (induction s) (auto simp: str_bytes_def byte_of_eq_0 dest: sym [THEN byte_of_eq_0 [THEN iffD1]])

section \<open>Flag words\<close>

text \<open>
  \<open>procflags |= flag\<close>, \<open>procflags &= ~(flag)\<close> and \<open>procflags & flag\<close>, shared by
  the primary block, the blocks and the stream block.
\<close>

definition set_flag :: "u64 \<Rightarrow> bool \<Rightarrow> u64 \<Rightarrow> u64" where
  "set_flag f v w = (if v then w OR f else w AND NOT f)"

definition get_flag :: "u64 \<Rightarrow> u64 \<Rightarrow> bool" where
  "get_flag f w \<longleftrightarrow> w AND f \<noteq> 0"

text \<open>\<open>1 << n\<close>, the value of a flag.\<close>

definition bit_flag :: "nat \<Rightarrow> u64" where
  "bit_flag n = push_bit n 1"

lemma get_flag_bit: "get_flag (bit_flag n) w \<longleftrightarrow> bit w n"
  by (simp only: get_flag_def bit_flag_def bit_iff_and_push_bit_not_eq_0)

lemma bit_bit_flag: "n < 64 \<Longrightarrow> bit (bit_flag n) m \<longleftrightarrow> m = n"
  by (auto simp: bit_flag_def bit_simps)

lemma bit_set_flag:
  "bit (set_flag (bit_flag n) v w) m \<longleftrightarrow> (if m = n \<and> n < 64 then v else bit w m)"
  using bit_imp_le_length [of w m]
  by (auto simp: set_flag_def bit_flag_def bit_simps)

lemma get_set_flag:
  "n < 64 \<Longrightarrow> get_flag (bit_flag m) (set_flag (bit_flag n) v w)
     = (if m = n then v else get_flag (bit_flag m) w)"
  by (auto simp: get_flag_bit bit_set_flag)

lemma set_flag_id: "get_flag (bit_flag n) w = v \<Longrightarrow> set_flag (bit_flag n) v w = w"
  by (rule bit_eqI) (auto simp: bit_set_flag get_flag_bit)

lemma set_flag_set_flag [simp]: "set_flag f v (set_flag f v' w) = set_flag f v w"
  by (rule bit_eqI) (auto simp: set_flag_def bit_simps)

end
