(* ===== verification/Sdnv.thy ===== *)
theory Sdnv
  imports IbrPrelude
begin

text \<open>
  Self-describing numeric values (\<open>ibrdtn/data/SDNV.cpp\<close>): seven bits per byte, most
  significant group first, the high bit of a byte set on all but the last. The loops of the
  code are the recursive functions below; a buffer is the list of its bytes.
\<close>

section \<open>Encoding\<close>

definition MAX_LENGTH :: nat where
  "MAX_LENGTH = 10"

text \<open>The first loop of \<open>encode\<close>: how many bytes the value needs.\<close>

function sdnv_count :: "u64 \<Rightarrow> nat" where
  "sdnv_count tmp =
     (let tmp' = drop_bit 7 tmp in if tmp' \<noteq> 0 then Suc (sdnv_count tmp') else 1)"
  by pat_completeness auto

lemma unat_drop_bit7: "unat (drop_bit 7 (v :: u64)) = unat v div 128"
  by (simp add: drop_bit_eq_div unat_div_distrib)

lemma drop_bit7_less: "drop_bit 7 v \<noteq> 0 \<Longrightarrow> unat (drop_bit 7 (v :: u64)) < unat v"
  unfolding unat_drop_bit7 by (cases "v = 0") (auto simp: unat_gt_0)

termination sdnv_count
  by (relation "measure unat") (auto simp: drop_bit7_less)

text \<open>
  The second loop of \<open>encode\<close> walks backwards from the end of the encoding; the bytes
  behind \<open>bp\<close> are \<open>acc\<close>.
\<close>

function sdnv_fill :: "byte \<Rightarrow> u64 \<Rightarrow> byte list \<Rightarrow> byte list" where
  "sdnv_fill high_bit val acc =
     (let b = high_bit OR ucast (val AND 0x7F); val' = drop_bit 7 val
      in if val' \<noteq> 0 then sdnv_fill 0x80 val' (b # acc) else b # acc)"
  by pat_completeness auto

termination sdnv_fill
  by (relation "measure (\<lambda>(h, v, acc). unat v)") (auto simp: drop_bit7_less)

declare sdnv_count.simps [simp del] sdnv_fill.simps [simp del]

text \<open>
  \<open>encode(val, bp, len)\<close>: \<open>Inr None\<close> is the return value -1 (the buffer is too
  short), \<open>Inr (Some bs)\<close> the bytes written; the number of bytes is the return value.
\<close>

definition sdnv_encode :: "u64 \<Rightarrow> nat \<Rightarrow> ibr_error + byte list option" where
  "sdnv_encode val len =
     (let val_len = sdnv_count val
      in if \<not> val_len > 0 then Inl InvalidDataException
         else if \<not> val_len \<le> MAX_LENGTH then Inl InvalidDataException
         else if len < val_len then Inr None
         else let bs = sdnv_fill 0 val []
              in if length bs \<noteq> val_len then Inl InvalidDataException else Inr (Some bs))"

definition encoding_len :: "u64 \<Rightarrow> ibr_error + nat" where
  "encoding_len val =
     (case sdnv_encode val 16 of
        Inl e \<Rightarrow> Inl e
      | Inr None \<Rightarrow> Inl InvalidDataException
      | Inr (Some bs) \<Rightarrow> if length bs = 0 then Inl InvalidDataException else Inr (length bs))"

text \<open>
  \<open>operator<<\<close>: a zeroed buffer of \<open>getLength()\<close> bytes, filled by \<open>encode\<close>.
\<close>

definition sdnv_put :: "u64 \<Rightarrow> ibr_error + byte list" where
  "sdnv_put val =
     (case encoding_len val of
        Inl e \<Rightarrow> Inl e
      | Inr n \<Rightarrow> (case sdnv_encode val n of
                    Inl e \<Rightarrow> Inl e
                  | Inr None \<Rightarrow> Inr (replicate n 0)
                  | Inr (Some bs) \<Rightarrow> Inr bs))"

section \<open>Decoding\<close>

text \<open>
  The loop of \<open>decode\<close> over a buffer, with the value and the number of bytes so far;
  \<open>None\<close> is the return value -1. The value is written through a pointer as the loop
  runs, so it is returned in both cases.
\<close>

fun sdnv_decode_loop :: "byte list \<Rightarrow> u64 \<Rightarrow> nat \<Rightarrow> u64 \<times> nat option" where
  "sdnv_decode_loop [] val n = (val, None)"
| "sdnv_decode_loop (b # bp) val n =
     (let val' = push_bit 7 val OR ucast (b AND 0x7F)
      in if b AND 0x80 = 0 then (val', Some (Suc n)) else sdnv_decode_loop bp val' (Suc n))"

definition sdnv_decode :: "byte list \<Rightarrow> ibr_error + u64 \<times> nat option" where
  "sdnv_decode bp =
     (case sdnv_decode_loop bp 0 0 of
        (val, None) \<Rightarrow> Inr (val, None)
      | (val, Some n) \<Rightarrow>
          if n > MAX_LENGTH \<or> n = MAX_LENGTH \<and> hd bp \<noteq> 0x81 then Inl InvalidDataException
          else Inr (val, Some n))"

text \<open>The overloads for 32 and 16 bit results share the range check.\<close>

definition sdnv_decode32 :: "byte list \<Rightarrow> ibr_error + 32 word \<times> nat option" where
  "sdnv_decode32 bp =
     (case sdnv_decode bp of
        Inl e \<Rightarrow> Inl e
      | Inr (lval, ret) \<Rightarrow>
          if lval > 0xFFFFFFFF then Inl InvalidDataException else Inr (ucast lval, ret))"

definition sdnv_decode16 :: "byte list \<Rightarrow> ibr_error + 16 word \<times> nat option" where
  "sdnv_decode16 bp =
     (case sdnv_decode bp of
        Inl e \<Rightarrow> Inl e
      | Inr (lval, ret) \<Rightarrow>
          if lval > 0xFFFFFFFF then Inl InvalidDataException else Inr (ucast lval, ret))"

text \<open>
  \<open>operator>>\<close> reads byte by byte into a buffer of \<open>MAX_LENGTH\<close> bytes; \<open>room\<close> is
  what is left of it. Nothing stops the loop when the buffer is full.
\<close>

fun sdnv_read :: "nat \<Rightarrow> byte list \<Rightarrow> byte list reader" where
  "sdnv_read room buf [] = Inl (EndOfStream, [])"
| "sdnv_read 0 buf (b # s) = Inl (Indeterminate, s)"
| "sdnv_read (Suc room) buf (b # s) =
     (if b AND 0x80 \<noteq> 0 then sdnv_read room (buf @ [b]) s else Inr (buf @ [b], s))"

definition get_sdnv :: "u64 reader" where
  "get_sdnv s =
     (case sdnv_read MAX_LENGTH [] s of
        Inl e \<Rightarrow> Inl e
      | Inr (sdnv, s') \<Rightarrow>
          (case sdnv_decode sdnv of Inl e \<Rightarrow> Inl (e, s') | Inr (val, ret) \<Rightarrow> Inr (val, s')))"

text \<open>The value that \<open>decode\<close> has stored when it throws.\<close>

definition sdnv_left :: "byte list \<Rightarrow> u64" where
  "sdnv_left s =
     (case sdnv_read MAX_LENGTH [] s of
        Inl e \<Rightarrow> 0
      | Inr (sdnv, s') \<Rightarrow> fst (sdnv_decode_loop sdnv 0 0))"

text \<open>\<open>SDNV::len\<close>: the length of the encoding a pointer points to.\<close>

fun sdnv_len :: "byte list \<Rightarrow> nat option" where
  "sdnv_len [] = None"
| "sdnv_len (b # bp) = (if b AND 0x80 \<noteq> 0 then map_option Suc (sdnv_len bp) else Some 1)"

section \<open>Arithmetic on values\<close>

definition sdnv_plus :: "u64 \<Rightarrow> u64 \<Rightarrow> u64" where
  "sdnv_plus this value = value + this"

definition sdnv_minus :: "u64 \<Rightarrow> u64 \<Rightarrow> u64" where
  "sdnv_minus this value = value - this"

definition sdnv_minus_assign :: "u64 \<Rightarrow> u64 \<Rightarrow> u64" where
  "sdnv_minus_assign this value = this - value"


section \<open>The encoder\<close>

text \<open>Every exception \<open>encode\<close> can throw is unreachable, and what it writes.\<close>

definition sdnv_bytes :: "u64 \<Rightarrow> byte list" where
  "sdnv_bytes val = sdnv_fill 0 val []"

lemma length_sdnv_fill: "length (sdnv_fill h v acc) = sdnv_count v + length acc"
proof (induction h v acc rule: sdnv_fill.induct)
  case (1 h v acc)
  then show ?case
    by (cases "drop_bit 7 v = 0")
       (simp_all add: sdnv_fill.simps [of h v] sdnv_count.simps [of v] Let_def)
qed

lemma sdnv_count_pos [simp]: "0 < sdnv_count v"
  by (subst sdnv_count.simps) (simp add: Let_def)

lemma sdnv_count_le: "0 < k \<Longrightarrow> unat v < 128 ^ k \<Longrightarrow> sdnv_count v \<le> k"
proof (induction k arbitrary: v)
  case 0
  then show ?case by simp
next
  case (Suc k)
  show ?case
  proof (cases "drop_bit 7 v = 0")
    case True
    then show ?thesis by (subst sdnv_count.simps) simp
  next
    case False
    have "unat v div 128 < 128 ^ k"
      using Suc.prems(2) by (simp add: less_mult_imp_div_less mult.commute)
    moreover have "0 < k"
      using False Suc.prems(2) unat_drop_bit7 [of v]
      by (cases k) (auto simp: unsigned_eq_0_iff)
    ultimately have "sdnv_count (drop_bit 7 v) \<le> k"
      using Suc.IH by (simp add: unat_drop_bit7)
    with False show ?thesis by (subst sdnv_count.simps) (simp add: Let_def)
  qed
qed

lemma sdnv_count_max: "sdnv_count v \<le> MAX_LENGTH"
proof -
  have "unat v < 2 ^ 64" using unsigned_less [of v, where ?'a = nat] by simp
  then have "unat v < 128 ^ 10" by simp
  then show ?thesis unfolding MAX_LENGTH_def by (intro sdnv_count_le) simp_all
qed

lemma sdnv_encode_eq:
  "sdnv_encode v len = Inr (if len < sdnv_count v then None else Some (sdnv_bytes v))"
  using sdnv_count_max [of v]
  by (simp add: sdnv_encode_def sdnv_bytes_def length_sdnv_fill Let_def)

lemma length_sdnv_bytes: "length (sdnv_bytes v) = sdnv_count v"
  by (simp add: sdnv_bytes_def length_sdnv_fill)

lemma encoding_len_eq: "encoding_len v = Inr (sdnv_count v)"
  using sdnv_count_max [of v]
  by (simp add: encoding_len_def sdnv_encode_eq length_sdnv_bytes MAX_LENGTH_def)

lemma sdnv_put_eq: "sdnv_put v = Inr (sdnv_bytes v)"
  by (simp add: sdnv_put_def encoding_len_eq sdnv_encode_eq)

section \<open>Decoding what was encoded\<close>

lemma sdnv_fill_append:
  "sdnv_fill h v acc =
     (if drop_bit 7 v \<noteq> 0 then sdnv_fill 0x80 (drop_bit 7 v) [] else [])
     @ (h OR ucast (v AND 0x7F)) # acc"
proof -
  have app: "sdnv_fill h v (xs @ ys) = sdnv_fill h v xs @ ys" for h v xs ys
  proof (induction h v xs arbitrary: ys rule: sdnv_fill.induct)
    case (1 h v xs)
    show ?case
      using "1.IH" [of _ _ ys]
      by (cases "drop_bit 7 v = 0")
         (simp_all add: sdnv_fill.simps [of h v] Let_def)
  qed
  show ?thesis
    using app [of "0x80" "drop_bit 7 v" "[]" "(h OR ucast (v AND 0x7F)) # acc"]
    by (subst sdnv_fill.simps) (simp add: Let_def)
qed

lemma seven_bits: "(0x7F :: u64) = mask 7" "(0x7F :: byte) = mask 7"
  by (simp_all add: mask_eq_exp_minus_1)

lemma bit_0x80: "bit (0x80 :: int) n \<longleftrightarrow> n = 7"
  using bit_exp_iff [where ?'a = int, of 7 n] by auto

lemma push_drop_bit7: "push_bit 7 (drop_bit 7 v) OR (v AND 0x7F) = (v :: u64)"
  unfolding seven_bits by (rule bit_eqI) (auto simp: bit_simps)

lemma low7_fill:
  "h \<in> {0, 0x80} \<Longrightarrow>
     ucast ((h OR ucast (v AND 0x7F)) AND 0x7F :: byte) = v AND (0x7F :: u64)"
  unfolding seven_bits by (rule bit_eqI) (auto simp: bit_simps bit_0x80)

lemma high_bit_fill:
  "(0x80 OR ucast (v AND (0x7F :: u64))) AND 0x80 = (0x80 :: byte)"
  "(0 OR ucast (v AND (0x7F :: u64))) AND 0x80 = (0 :: byte)"
  unfolding seven_bits by (rule bit_eqI; auto simp: bit_simps bit_0x80)+

text \<open>Continuation bytes push the higher groups into the value.\<close>

lemma sdnv_decode_loop_fill:
  "sdnv_decode_loop (sdnv_fill 0x80 v [] @ bs) 0 n = sdnv_decode_loop bs v (n + sdnv_count v)"
proof (induction v arbitrary: bs n rule: sdnv_count.induct)
  case (1 v)
  let ?b = "0x80 OR ucast (v AND 0x7F) :: byte"
  have step: "sdnv_decode_loop (?b # bs) w m = sdnv_decode_loop bs (push_bit 7 w OR (v AND 0x7F)) (Suc m)"
    for w m
    using high_bit_fill(1) [of v] low7_fill [of "0x80" v] by simp
  show ?case
  proof (cases "drop_bit 7 v = 0")
    case True
    then show ?thesis
      using step [of 0 n] push_drop_bit7 [of v]
      by (simp add: sdnv_fill_append [of _ v] sdnv_count.simps [of v])
  next
    case False
    then show ?thesis
      using "1.IH" [OF refl] step push_drop_bit7 [of v]
      by (subst sdnv_fill_append) (simp add: sdnv_count.simps [of v] Let_def)
  qed
qed

lemma sdnv_decode_loop_bytes:
  "sdnv_decode_loop (sdnv_bytes v @ bs) 0 0 = (v, Some (sdnv_count v))"
proof (cases "drop_bit 7 v = 0")
  case True
  then show ?thesis
    using high_bit_fill(2) [of v] low7_fill [of 0 v] push_drop_bit7 [of v]
    by (simp add: sdnv_bytes_def sdnv_fill_append [of 0 v] sdnv_count.simps [of v])
next
  case False
  then show ?thesis
    using high_bit_fill(2) [of v] low7_fill [of 0 v] push_drop_bit7 [of v]
    by (simp add: sdnv_bytes_def sdnv_fill_append [of 0 v] sdnv_decode_loop_fill
        sdnv_count.simps [of v] Let_def)
qed

text \<open>A ten byte encoding starts with 0x81: only the 64th bit is left for its first byte.\<close>

lemma hd_sdnv_fill:
  "hd (sdnv_fill h v acc) =
     (if sdnv_count v = 1 then h else 0x80) OR ucast (drop_bit (7 * (sdnv_count v - 1)) v AND 0x7F)"
proof (induction h v acc rule: sdnv_fill.induct)
  case (1 h v acc)
  show ?case
  proof (cases "drop_bit 7 v = 0")
    case True
    then show ?thesis by (simp add: sdnv_fill.simps [of h v] sdnv_count.simps [of v])
  next
    case False
    have "7 + 7 * (sdnv_count (drop_bit 7 v) - 1) = 7 * sdnv_count (drop_bit 7 v)"
      using sdnv_count_pos [of "drop_bit 7 v"] by linarith
    with False "1.IH" show ?thesis
      by (simp add: sdnv_fill.simps [of h v] sdnv_count.simps [of v] Let_def add.commute)
  qed
qed

lemma sdnv_count_gt: "k < sdnv_count v \<Longrightarrow> 0 < k \<Longrightarrow> 128 ^ k \<le> unat v"
  using sdnv_count_le [of k v] by linarith

lemma hd_sdnv_bytes_max:
  assumes "sdnv_count v = MAX_LENGTH"
  shows "hd (sdnv_bytes v) = 0x81"
proof -
  have "128 ^ 9 \<le> unat v"
    using assms by (intro sdnv_count_gt) (simp_all add: MAX_LENGTH_def)
  moreover have "unat v < 2 ^ 64" using unsigned_less [of v, where ?'a = nat] by simp
  ultimately have "unat v div 2 ^ 63 = 1" by (simp add: div_nat_eqI)
  then have "unat (drop_bit 63 v) = 1"
    by (simp add: drop_bit_eq_div unat_div_distrib)
  then have "drop_bit 63 v = 1"
    by (simp add: word_unat_eq_iff)
  then show ?thesis
    using assms by (simp add: sdnv_bytes_def hd_sdnv_fill MAX_LENGTH_def)
qed

lemma sdnv_decode_bytes: "sdnv_decode (sdnv_bytes v) = Inr (v, Some (sdnv_count v))"
  using sdnv_decode_loop_bytes [of v "[]"] sdnv_count_max [of v] hd_sdnv_bytes_max [of v]
  by (auto simp: sdnv_decode_def)


section \<open>The stream operators\<close>

lemma sdnv_read_fill:
  "sdnv_count v \<le> room \<Longrightarrow>
     sdnv_read room buf (sdnv_fill 0x80 v [] @ s)
       = sdnv_read (room - sdnv_count v) (buf @ sdnv_fill 0x80 v []) s"
proof (induction v arbitrary: room buf s rule: sdnv_count.induct)
  case (1 v)
  let ?b = "0x80 OR ucast (v AND 0x7F) :: byte"
  have step: "sdnv_read (Suc r) bf (?b # s) = sdnv_read r (bf @ [?b]) s" for r bf
    using high_bit_fill(1) [of v] by simp
  show ?case
  proof (cases "drop_bit 7 v = 0")
    case True
    then have "sdnv_count v = 1" by (simp add: sdnv_count.simps [of v])
    with "1.prems" True show ?thesis
      using step [of "room - 1" buf] by (simp add: sdnv_fill_append [of _ v])
  next
    case False
    then have cnt: "sdnv_count v = Suc (sdnv_count (drop_bit 7 v))"
      by (simp add: sdnv_count.simps [of v] Let_def)
    with "1.prems" have "Suc (room - sdnv_count v) = room - sdnv_count (drop_bit 7 v)"
      by simp
    with False cnt "1.prems" "1.IH" [OF refl] show ?thesis
      by (subst (1 2) sdnv_fill_append) (simp add: step flip: \<open>Suc _ = _\<close>)
  qed
qed

lemma sdnv_read_bytes:
  assumes "sdnv_count v \<le> room"
  shows "sdnv_read room [] (sdnv_bytes v @ s) = Inr (sdnv_bytes v, s)"
proof -
  let ?b = "0 OR ucast (v AND 0x7F) :: byte"
  have last: "sdnv_read (Suc r) bf (?b # s) = Inr (bf @ [?b], s)" for r bf
    using high_bit_fill(2) [of v] by simp
  obtain r where r: "room = Suc r"
    using assms sdnv_count_pos [of v] by (cases room) auto
  show ?thesis
  proof (cases "drop_bit 7 v = 0")
    case True
    then show ?thesis
      using last by (simp add: sdnv_bytes_def sdnv_fill_append [of 0 v] r)
  next
    case False
    let ?w = "drop_bit 7 v"
    have "sdnv_count ?w \<le> r"
      using assms False r by (simp add: sdnv_count.simps [of v] Let_def)
    then have "room - sdnv_count ?w = Suc (r - sdnv_count ?w)"
      using r by simp
    with False \<open>sdnv_count ?w \<le> r\<close> show ?thesis
      using last sdnv_read_fill [of ?w room "[]" "?b # s"] r
      by (simp add: sdnv_bytes_def sdnv_fill_append [of 0 v])
  qed
qed

lemma get_sdnv_bytes [wire_simps]: "get_sdnv (sdnv_bytes v @ s) = Inr (v, s)"
  by (simp add: get_sdnv_def sdnv_read_bytes [OF sdnv_count_max] sdnv_decode_bytes)

interpretation sdnv: sized_codec sdnv_bytes get_sdnv "\<lambda>_. True" sdnv_count
  by unfold_locales (simp_all add: get_sdnv_bytes length_sdnv_bytes)

lemma sdnv_read_length: "sdnv_read room buf s = Inr (sdnv, s') \<Longrightarrow> length s' < length s"
  by (induction room buf s rule: sdnv_read.induct) (auto split: if_splits)

lemma get_sdnv_less: "get_sdnv s = Inr (v, s') \<Longrightarrow> length s' < length s"
  by (auto simp: get_sdnv_def split: sum.splits prod.splits dest: sdnv_read_length)

lemma sdnv_read_rest: "length (rest_of (sdnv_read room buf s)) \<le> length s"
  by (induction room buf s rule: sdnv_read.induct) auto

lemma nonincreasing_get_sdnv [intro, simp]: "nonincreasing get_sdnv"
proof (rule nonincreasingI)
  show "length (rest_of (get_sdnv s)) \<le> length s" for s
    using sdnv_read_rest [of MAX_LENGTH "[]" s]
    by (auto simp: get_sdnv_def split: sum.splits)
qed

section \<open>What the decoder accepts\<close>

text \<open>The number an encoding stands for, without a bound on its size.\<close>

definition sdnv_group :: "byte \<Rightarrow> nat" where
  "sdnv_group b = unat (b AND 0x7F)"

definition sdnv_number :: "byte list \<Rightarrow> nat" where
  "sdnv_number bs = foldl (\<lambda>a b. a * 128 + sdnv_group b) 0 bs"

lemma sdnv_group_less: "sdnv_group b < 128"
proof -
  have "unat (take_bit 7 b) = unat b mod 128"
    by (simp add: take_bit_eq_mod unat_mod_distrib)
  then show ?thesis by (simp add: sdnv_group_def seven_bits flip: take_bit_eq_mask)
qed

lemma unat_sdnv_step:
  "unat (push_bit 7 val OR ucast (b AND 0x7F) :: u64) = (unat val * 128 + sdnv_group b) mod 2 ^ 64"
proof -
  let ?lo = "ucast (b AND 0x7F) :: u64"
  have "push_bit 7 val AND ?lo = 0"
    unfolding seven_bits by (rule bit_eqI) (auto simp: bit_simps)
  then have "push_bit 7 val OR ?lo = push_bit 7 val + ?lo"
    by (simp add: disjunctive_add_eq_or)
  moreover have "unat ?lo = sdnv_group b"
    using sdnv_group_less [of b] unfolding sdnv_group_def
    by (simp only: unsigned_ucast_eq) (simp add: take_bit_nat_eq_self)
  moreover have "unat (push_bit 7 val) = unat val * 128 mod 2 ^ 64"
    by (simp add: push_bit_eq_mult unat_word_ariths)
  ultimately show ?thesis by (simp add: unat_word_ariths mod_add_left_eq)
qed


text \<open>The value wraps around at 64 bits; the number does not.\<close>

lemma foldl_sdnv_mod:
  "foldl (\<lambda>a b. a * 128 + sdnv_group b) (a mod M) xs mod M
     = foldl (\<lambda>a b. a * 128 + sdnv_group b) a xs mod M"
proof (induction xs arbitrary: a)
  case Nil
  then show ?case by simp
next
  case (Cons x xs)
  have "(a mod M * 128 + sdnv_group x) mod M = (a * 128 + sdnv_group x) mod M"
    by (metis mod_add_left_eq mod_mult_left_eq)
  then show ?case
    using Cons [of "a mod M * 128 + sdnv_group x"] Cons [of "a * 128 + sdnv_group x"] by simp
qed

lemma sdnv_decode_loop_Some:
  assumes "sdnv_decode_loop bp val n = (v, Some m)"
  shows "\<exists>used rest. bp = used @ rest \<and> m = n + length used \<and> used \<noteq> []
           \<and> unat v = foldl (\<lambda>a b. a * 128 + sdnv_group b) (unat val) used mod 2 ^ 64"
  using assms
proof (induction bp val n rule: sdnv_decode_loop.induct)
  case (1 val n)
  then show ?case by simp
next
  case (2 b bp val n)
  let ?f = "\<lambda>a b. a * 128 + sdnv_group b"
  let ?val = "push_bit 7 val OR ucast (b AND 0x7F) :: u64"
  show ?case
  proof (cases "b AND 0x80 = 0")
    case True
    with "2.prems" show ?thesis
      by (intro exI [of _ "[b]"] exI [of _ bp]) (auto simp: unat_sdnv_step)
  next
    case False
    with "2.prems" "2.IH" [OF refl False] obtain used rest where
      u: "bp = used @ rest" "m = Suc n + length used" "used \<noteq> []"
        "unat v = foldl ?f (unat ?val) used mod 2 ^ 64"
      by auto
    show ?thesis
      using u by (intro exI [of _ "b # used"] exI [of _ rest]) (simp add: unat_sdnv_step foldl_sdnv_mod)
  qed
qed

lemma foldl_sdnv_less:
  "foldl (\<lambda>a b. a * 128 + sdnv_group b) a xs < (a + 1) * 128 ^ length xs"
proof (induction xs rule: rev_induct)
  case Nil
  then show ?case by simp
next
  case (snoc x xs)
  let ?F = "foldl (\<lambda>a b. a * 128 + sdnv_group b) a xs"
  have "?F * 128 + sdnv_group x < (?F + 1) * 128"
    using sdnv_group_less [of x] by simp
  also have "\<dots> \<le> (a + 1) * 128 ^ length xs * 128"
    using snoc by (intro mult_right_mono) simp_all
  finally show ?case by (simp add: ac_simps)
qed

lemma sdnv_decode_number:
  assumes "sdnv_decode bp = Inr (v, Some m)"
  shows "m \<le> length bp \<and> unat v = sdnv_number (take m bp)"
proof -
  let ?f = "\<lambda>a b. a * 128 + sdnv_group b"
  from assms have loop: "sdnv_decode_loop bp 0 0 = (v, Some m)"
    and ok: "m \<le> MAX_LENGTH" "m = MAX_LENGTH \<Longrightarrow> hd bp = 0x81"
    by (auto simp: sdnv_decode_def split: prod.splits option.splits if_splits)
  from sdnv_decode_loop_Some [OF loop] obtain used rest where
    u: "bp = used @ rest" "m = length used" "used \<noteq> []" "unat v = sdnv_number used mod 2 ^ 64"
    by (auto simp: sdnv_number_def)
  have "sdnv_number used < 2 ^ 64"
  proof (cases "m = MAX_LENGTH")
    case True
    obtain x xs where used: "used = x # xs" using u(3) by (cases used) auto
    have "sdnv_group x = 1"
      using ok(2) [OF True] u(1) used by (simp add: sdnv_group_def)
    then have "sdnv_number used = foldl ?f 1 xs"
      by (simp add: sdnv_number_def used)
    also have "\<dots> < 2 * 128 ^ 9"
      using foldl_sdnv_less [of 1 xs] True u(2) used by (simp add: MAX_LENGTH_def)
    finally show ?thesis by simp
  next
    case False
    then have "length used \<le> 9" using ok(1) u(2) by (simp add: MAX_LENGTH_def)
    have "sdnv_number used < 128 ^ length used"
      using foldl_sdnv_less [of 0 used] by (simp add: sdnv_number_def)
    also have "\<dots> \<le> 128 ^ 9"
      using \<open>length used \<le> 9\<close> by (intro power_increasing) simp_all
    finally show ?thesis by simp
  qed
  with u show ?thesis by simp
qed

section \<open>Correctness\<close>

text \<open>C36: an SDNV that was written is read back; the writer never fails, the number of bytes
  is the predicted one, and it stays within the ten bytes of the reader's buffer.\<close>

theorem sdnv_roundtrip:
  "sdnv_put v = Inr (sdnv_bytes v) \<and> encoding_len v = Inr (length (sdnv_bytes v))
   \<and> length (sdnv_bytes v) \<le> MAX_LENGTH \<and> get_sdnv (sdnv_bytes v @ s) = Inr (v, s)"
  using sdnv_put_eq encoding_len_eq sdnv.length_enc sdnv_count_max sdnv.dec_enc by simp

text \<open>C37: whatever \<open>decode\<close> accepts is exact. The value is the number that the accepted
  bytes denote, without wrap-around at 64 bits.\<close>

theorem sdnv_decode_exact:
  assumes "sdnv_decode bp = Inr (v, Some m)"
  shows "m \<le> length bp \<and> unat v = sdnv_number (take m bp)"
  using assms by (rule sdnv_decode_number)

theorem sdnv_decode_exact_witness:
  "sdnv_decode [0x81, 0x02, 0xFF] = Inr (130, Some 2)
   \<and> unat (130 :: u64) = sdnv_number (take 2 [0x81, 0x02, 0xFF])"
proof -
  have "sdnv_decode [0x81, 0x02, 0xFF] = Inr (130, Some 2)" by code_simp
  with sdnv_decode_exact [OF this] show ?thesis by simp
qed

end
