(* ===== verification/Clock.thy ===== *)
theory Clock
  imports Sdnv
begin

text \<open>
  The clock of the library (\<open>ibrdtn/utils/Clock.cpp\<close>) and DTN timestamps
  (\<open>ibrdtn/data/DTNTime.cpp\<close>). The operating system's time of day is an argument.
  The clock quality is a C++ float; the model keeps the two things the code derives from
  it: whether it is zero, and the slack \<open>lifetime * (1 - quality)\<close> as a function of the
  lifetime, which may be any function.
\<close>

section \<open>Time values\<close>

record timeval =
  tv_sec :: int
  tv_usec :: int

text \<open>The \<open>timeradd\<close> and \<open>timersub\<close> macros of \<open>sys/time.h\<close>.\<close>

definition timeradd :: "timeval \<Rightarrow> timeval \<Rightarrow> timeval" where
  "timeradd a b =
     (let s = tv_sec a + tv_sec b; u = tv_usec a + tv_usec b
      in if 1000000 \<le> u then \<lparr>tv_sec = s + 1, tv_usec = u - 1000000\<rparr>
         else \<lparr>tv_sec = s, tv_usec = u\<rparr>)"

definition timersub :: "timeval \<Rightarrow> timeval \<Rightarrow> timeval" where
  "timersub a b =
     (let s = tv_sec a - tv_sec b; u = tv_usec a - tv_usec b
      in if u < 0 then \<lparr>tv_sec = s - 1, tv_usec = u + 1000000\<rparr>
         else \<lparr>tv_sec = s, tv_usec = u\<rparr>)"

section \<open>The clock\<close>

record clock =
  clk_timezone :: int
  clk_quality_zero :: bool
  clk_sigma :: "u64 \<Rightarrow> u64"
  clk_badclock :: bool
  clk_offset :: timeval
  clk_modify :: bool

definition TIMEVAL_CONVERSION :: int where
  "TIMEVAL_CONVERSION = 946684800"

text \<open>
  The static offset is zero from the start (\<open>_offset_init\<close> only guards clearing it once).
\<close>

definition clock_gettimeofday :: "clock \<Rightarrow> timeval \<Rightarrow> timeval" where
  "clock_gettimeofday c sys = (if \<not> clk_modify c then timersub sys (clk_offset c) else sys)"

definition clock_getTime :: "clock \<Rightarrow> timeval \<Rightarrow> u64" where
  "clock_getTime c sys =
     (let now = clock_gettimeofday c sys; offset = clk_timezone c * 3600
      in if tv_sec now mod 2 ^ 32 < TIMEVAL_CONVERSION then 0
         else word_of_int (tv_sec now - TIMEVAL_CONVERSION + offset))"

definition clock_getUnixTimestamp :: "clock \<Rightarrow> timeval \<Rightarrow> u64" where
  "clock_getUnixTimestamp c sys =
     word_of_int (tv_sec (clock_gettimeofday c sys) + clk_timezone c * 3600)"

text \<open>
  \<open>setOffset\<close> and \<open>settimeofday\<close> return the clock and, where they set the system's
  time, the new system time.
\<close>

definition clock_setOffset :: "clock \<Rightarrow> timeval \<Rightarrow> timeval \<Rightarrow> clock \<times> timeval" where
  "clock_setOffset c sys tv =
     (if \<not> clk_modify c then (c\<lparr>clk_offset := timeradd (clk_offset c) tv\<rparr>, sys)
      else (c, timersub sys tv))"

definition clock_settimeofday :: "clock \<Rightarrow> timeval \<Rightarrow> timeval \<Rightarrow> clock \<times> timeval" where
  "clock_settimeofday c sys tv =
     (if \<not> clk_modify c then (c\<lparr>clk_offset := timersub sys tv\<rparr>, sys)
      else (c, tv))"

definition clock_getExpireTime :: "clock \<Rightarrow> u64 \<Rightarrow> u64 \<Rightarrow> u64" where
  "clock_getExpireTime c timestamp lifetime =
     (if clk_quality_zero c then timestamp + lifetime
      else timestamp + lifetime + clk_sigma c lifetime)"

definition clock_getExpireTime_now :: "clock \<Rightarrow> timeval \<Rightarrow> u64 \<Rightarrow> u64" where
  "clock_getExpireTime_now c sys lifetime = clock_getExpireTime c (clock_getTime c sys) lifetime"

definition clock_isExpired :: "clock \<Rightarrow> timeval \<Rightarrow> u64 \<Rightarrow> u64 \<Rightarrow> bool" where
  "clock_isExpired c sys timestamp lifetime \<longleftrightarrow>
     \<not> (clk_quality_zero c \<or> clk_badclock c)
     \<and> timestamp + lifetime + clk_sigma c lifetime < clock_getTime c sys"

section \<open>DTN timestamps\<close>

record dtntime =
  dt_seconds :: u64
  dt_nanoseconds :: u64

definition dtntime_set :: "clock \<Rightarrow> timeval \<Rightarrow> dtntime" where
  "dtntime_set c sys =
     (let tv = clock_gettimeofday c sys
      in \<lparr>dt_seconds = word_of_int (tv_sec tv), dt_nanoseconds = word_of_int (tv_usec tv * 1000)\<rparr>)"

definition dtntime_getLength :: "dtntime \<Rightarrow> nat" where
  "dtntime_getLength t = sdnv_count (dt_seconds t) + sdnv_count (dt_nanoseconds t)"

definition dtntime_bytes :: "dtntime \<Rightarrow> byte list" where
  "dtntime_bytes t = sdnv_bytes (dt_seconds t) @ sdnv_bytes (dt_nanoseconds t)"

definition get_dtntime :: "dtntime reader" where
  "get_dtntime =
     rbind get_sdnv (\<lambda>s. rbind get_sdnv (\<lambda>ns. rret \<lparr>dt_seconds = s, dt_nanoseconds = ns\<rparr>))"

definition dtntime_add :: "dtntime \<Rightarrow> u64 \<Rightarrow> dtntime" where
  "dtntime_add t v = t\<lparr>dt_seconds := dt_seconds t + v\<rparr>"

section \<open>Properties\<close>

definition tv_normal :: "timeval \<Rightarrow> bool" where
  "tv_normal t \<longleftrightarrow> 0 \<le> tv_usec t \<and> tv_usec t < 1000000"

definition tv_micros :: "timeval \<Rightarrow> int" where
  "tv_micros t = tv_sec t * 1000000 + tv_usec t"

lemma tv_micros_div_mod:
  "tv_normal a \<Longrightarrow> tv_sec a = tv_micros a div 1000000 \<and> tv_usec a = tv_micros a mod 1000000"
  by (simp add: tv_normal_def tv_micros_def)

lemma tv_micros_inj:
  assumes "tv_normal a" and "tv_normal b" and "tv_micros a = tv_micros b"
  shows "a = b"
  using tv_micros_div_mod [OF assms(1)] tv_micros_div_mod [OF assms(2)] assms(3)
  by (cases a; cases b) simp

lemma timersub_normal: "tv_normal a \<Longrightarrow> tv_normal b \<Longrightarrow> tv_normal (timersub a b)"
  by (auto simp: tv_normal_def timersub_def Let_def)

lemma timeradd_normal: "tv_normal a \<Longrightarrow> tv_normal b \<Longrightarrow> tv_normal (timeradd a b)"
  by (auto simp: tv_normal_def timeradd_def Let_def)

lemma tv_micros_timersub: "tv_micros (timersub a b) = tv_micros a - tv_micros b"
  by (simp add: tv_micros_def timersub_def Let_def)

lemma tv_micros_timeradd: "tv_micros (timeradd a b) = tv_micros a + tv_micros b"
  by (simp add: tv_micros_def timeradd_def Let_def)

lemma get_dtntime_bytes [wire_simps]: "get_dtntime (dtntime_bytes t @ s) = Inr (t, s)"
  by (simp add: get_dtntime_def dtntime_bytes_def wire_simps)

interpretation dtntime: sized_codec dtntime_bytes get_dtntime "\<lambda>_. True" dtntime_getLength
  by unfold_locales
     (simp_all add: get_dtntime_bytes, simp add: dtntime_bytes_def dtntime_getLength_def length_sdnv_bytes)

lemma nonincreasing_get_dtntime [intro, simp]: "nonincreasing get_dtntime"
  unfolding get_dtntime_def by (intro nonincreasing_rbind) auto

text \<open>Setting the clock: right afterwards the clock shows the time that was set.\<close>

lemma clock_settimeofday_gettimeofday:
  assumes "clock_settimeofday c sys tv = (c', sys')" and "tv_normal sys" and "tv_normal tv"
  shows "clock_gettimeofday c' sys' = tv"
proof (cases "clk_modify c")
  case True
  with assms(1) show ?thesis by (auto simp: clock_settimeofday_def clock_gettimeofday_def)
next
  case False
  have "timersub sys (timersub sys tv) = tv"
    using assms(2,3)
    by (intro tv_micros_inj) (simp_all add: timersub_normal tv_micros_timersub)
  with False assms(1) show ?thesis
    by (auto simp: clock_settimeofday_def clock_gettimeofday_def)
qed

text \<open>An offset moves the clock back by that much.\<close>

lemma clock_setOffset_gettimeofday:
  assumes "clock_setOffset c sys tv = (c', sys')"
  shows "tv_micros (clock_gettimeofday c' sys') = tv_micros (clock_gettimeofday c sys) - tv_micros tv"
  using assms
  by (auto simp: clock_setOffset_def clock_gettimeofday_def tv_micros_timersub tv_micros_timeradd
      split: if_splits)

section \<open>Correctness\<close>

text \<open>A clock that keeps an offset.\<close>

definition sample_clock :: clock where
  "sample_clock = \<lparr>clk_timezone = 0, clk_quality_zero = False, clk_sigma = (\<lambda>_. 0),
     clk_badclock = False, clk_offset = \<lparr>tv_sec = 0, tv_usec = 0\<rparr>, clk_modify = False\<rparr>"

text \<open>Right after the time was set, the clock shows it, whether the clock keeps an offset
  or sets the operating system's time.\<close>

theorem clock_set_then_read:
  assumes "clock_settimeofday c sys tv = (c', sys')" and "tv_normal sys" and "tv_normal tv"
  shows "clock_gettimeofday c' sys' = tv"
  using assms by (rule clock_settimeofday_gettimeofday)

theorem clock_set_then_read_witness:
  "clock_gettimeofday (fst (clock_settimeofday sample_clock \<lparr>tv_sec = 100, tv_usec = 3\<rparr> \<lparr>tv_sec = 40, tv_usec = 5\<rparr>))
     \<lparr>tv_sec = 100, tv_usec = 3\<rparr> = \<lparr>tv_sec = 40, tv_usec = 5\<rparr>"
  by (rule clock_set_then_read [where sys = "\<lparr>tv_sec = 100, tv_usec = 3\<rparr>" and c = sample_clock])
     (auto simp: clock_settimeofday_def tv_normal_def sample_clock_def)

end
