(* ===== verification/Eid.thy ===== *)
theory Eid
  imports IbrPrelude
begin

text \<open>
  Endpoint identifiers (\<open>ibrdtn/data/EID.cpp\<close>) and the string helpers they use
  (\<open>ibrdtn/utils/Utils.cpp\<close>). A \<open>std::string\<close> is a list of characters; searching
  for a character and cutting there is \<open>takeWhile\<close> and \<open>dropWhile\<close>; the
  lexicographic order of \<open>std::string\<close> is the order of \<open>List_Lexorder\<close>.
\<close>

section \<open>Trimming\<close>

definition is_blank :: "char \<Rightarrow> bool" where
  "is_blank c \<longleftrightarrow> c = CHR '' '' \<or> c = CHR 0x09"

text \<open>A string of blanks only has no position to cut at and is left as it is.\<close>

definition ltrim :: "string \<Rightarrow> string" where
  "ltrim str = (let t = dropWhile is_blank str in if t = [] then str else t)"

definition rtrim :: "string \<Rightarrow> string" where
  "rtrim str = (let t = rev (dropWhile is_blank (rev str)) in if t = [] then str else t)"

definition trim :: "string \<Rightarrow> string" where
  "trim str = rtrim (ltrim str)"

section \<open>Decimal numbers on string streams\<close>

text \<open>\<open>stream << n\<close> for a \<open>size_t\<close>.\<close>

definition digit_char :: "nat \<Rightarrow> char" where
  "digit_char d = char_of (48 + d)"

fun show_nat :: "nat \<Rightarrow> string" where
  "show_nat n = (if n < 10 then [digit_char n] else show_nat (n div 10) @ [digit_char (n mod 10)])"

declare show_nat.simps [simp del]

definition show_size :: "u64 \<Rightarrow> string" where
  "show_size n = show_nat (unat n)"

text \<open>
  \<open>stream >> n\<close> for a \<open>size_t\<close>: white space is skipped, a sign is allowed, no digit
  gives 0, a number out of range gives the largest value.
\<close>

definition is_space :: "char \<Rightarrow> bool" where
  "is_space c \<longleftrightarrow> c = CHR '' '' \<or> (9 \<le> (of_char c :: nat) \<and> (of_char c :: nat) \<le> 13)"

definition is_digit :: "char \<Rightarrow> bool" where
  "is_digit c \<longleftrightarrow> 48 \<le> (of_char c :: nat) \<and> (of_char c :: nat) \<le> 57"

definition digits_value :: "string \<Rightarrow> nat" where
  "digits_value ds = foldl (\<lambda>a c. 10 * a + (of_char c - 48)) 0 ds"

definition read_size :: "string \<Rightarrow> u64" where
  "read_size str =
     (let s = dropWhile is_space str;
          neg = (case s of c # _ \<Rightarrow> c = CHR ''-'' | [] \<Rightarrow> False);
          s' = (case s of c # t \<Rightarrow> if c = CHR ''-'' \<or> c = CHR ''+'' then t else s | [] \<Rightarrow> s);
          ds = takeWhile is_digit s';
          n = digits_value ds
      in if ds = [] then 0
         else if 2 ^ 64 \<le> n then - 1
         else if neg then - word_of_nat n
         else word_of_nat n)"

section \<open>Endpoint identifiers\<close>

record eid =
  scheme :: string
  ssp :: string

definition DEFAULT_SCHEME :: string where
  "DEFAULT_SCHEME = ''dtn''"

definition CBHE_SCHEME :: string where
  "CBHE_SCHEME = ''ipn''"

definition eid_none :: eid where
  "eid_none = \<lparr>scheme = DEFAULT_SCHEME, ssp = ''none''\<rparr>"

text \<open>\<open>EID(scheme, ssp)\<close>\<close>

definition eid_make :: "string \<Rightarrow> string \<Rightarrow> eid" where
  "eid_make sch sp = \<lparr>scheme = trim sch, ssp = trim sp\<rparr>"

text \<open>\<open>EID(value)\<close>: without a colon the constructor falls back to \<open>dtn:none\<close>.\<close>

definition eid_parse :: "string \<Rightarrow> eid" where
  "eid_parse value =
     (let v = trim value
      in if CHR '':'' \<notin> set v then eid_none
         else \<lparr>scheme = takeWhile (\<lambda>c. c \<noteq> CHR '':'') v,
               ssp = tl (dropWhile (\<lambda>c. c \<noteq> CHR '':'') v)\<rparr>)"

text \<open>\<open>EID(node, application)\<close>, for compressed bundle headers.\<close>

definition eid_cbhe :: "u64 \<Rightarrow> u64 \<Rightarrow> eid" where
  "eid_cbhe node application =
     (if node = 0 then eid_none
      else \<lparr>scheme = CBHE_SCHEME, ssp = show_size node @ ''.'' @ show_size application\<rparr>)"

definition eid_getString :: "eid \<Rightarrow> string" where
  "eid_getString e = scheme e @ '':'' @ ssp e"

definition eid_append :: "eid \<Rightarrow> string \<Rightarrow> eid" where
  "eid_append e suffix = eid_parse (eid_getString e @ suffix)"

definition eid_less :: "eid \<Rightarrow> eid \<Rightarrow> bool" where
  "eid_less a b \<longleftrightarrow> eid_getString a < eid_getString b"

text \<open>
  \<open>getApplication\<close> and \<open>getHost\<close>: with the \<open>ipn\<close> scheme the delimiter is a dot;
  otherwise leading slashes belong to the host, and a name of slashes only is an error.
\<close>

definition eid_getApplication :: "eid \<Rightarrow> ibr_error + string" where
  "eid_getApplication e =
     (if scheme e = CBHE_SCHEME then Inr (tl (dropWhile (\<lambda>c. c \<noteq> CHR ''.'') (ssp e)))
      else let rest = dropWhile (\<lambda>c. c = CHR ''/'') (ssp e)
           in if rest = [] then Inl IbrException
              else Inr (dropWhile (\<lambda>c. c \<noteq> CHR ''/'') rest))"

definition eid_getHost :: "eid \<Rightarrow> ibr_error + string" where
  "eid_getHost e =
     (if scheme e = CBHE_SCHEME then Inr (takeWhile (\<lambda>c. c \<noteq> CHR ''.'') (ssp e))
      else let rest = dropWhile (\<lambda>c. c = CHR ''/'') (ssp e)
           in if rest = [] then Inl IbrException
              else Inr (takeWhile (\<lambda>c. c = CHR ''/'') (ssp e) @ takeWhile (\<lambda>c. c \<noteq> CHR ''/'') rest))"

definition eid_hasApplication :: "eid \<Rightarrow> ibr_error + bool" where
  "eid_hasApplication e =
     (if scheme e = CBHE_SCHEME then Inr (CHR ''.'' \<in> set (ssp e))
      else let rest = dropWhile (\<lambda>c. c = CHR ''/'') (ssp e)
           in if rest = [] then Inl IbrException
              else Inr (CHR ''/'' \<in> set rest))"

definition eid_getNode :: "eid \<Rightarrow> ibr_error + eid" where
  "eid_getNode e =
     (case eid_getHost e of
        Inl x \<Rightarrow> Inl x
      | Inr host \<Rightarrow> Inr (eid_parse (scheme e @ '':'' @ host)))"

definition eid_sameHost :: "eid \<Rightarrow> eid \<Rightarrow> ibr_error + bool" where
  "eid_sameHost e other =
     (case eid_getNode other of
        Inl x \<Rightarrow> Inl x
      | Inr n \<Rightarrow> (case eid_getNode e of Inl x \<Rightarrow> Inl x | Inr n' \<Rightarrow> Inr (n = n')))"

definition eid_isNone :: "eid \<Rightarrow> bool" where
  "eid_isNone e \<longleftrightarrow> scheme e = DEFAULT_SCHEME \<and> ssp e = ''none''"

definition eid_isCompressable :: "eid \<Rightarrow> bool" where
  "eid_isCompressable e \<longleftrightarrow>
     scheme e = DEFAULT_SCHEME \<and> ssp e = ''none'' \<or> scheme e = CBHE_SCHEME"

definition eid_getCompressed :: "eid \<Rightarrow> ibr_error + u64 \<times> u64" where
  "eid_getCompressed e =
     (if eid_isCompressable e then
        (case eid_getHost e of
           Inl x \<Rightarrow> Inl x
         | Inr host \<Rightarrow>
             (case eid_hasApplication e of
                Inl x \<Rightarrow> Inl x
              | Inr has \<Rightarrow>
                  if has then
                    (case eid_getApplication e of
                       Inl x \<Rightarrow> Inl x
                     | Inr app \<Rightarrow> Inr (read_size host, read_size app))
                  else Inr (read_size host, 0)))
      else Inr (0, 0))"

text \<open>No branch throws (\<open>eid_getCompressed_total\<close>), so serializers use the pair itself.\<close>

definition eid_compressed :: "eid \<Rightarrow> u64 \<times> u64" where
  "eid_compressed e = (case eid_getCompressed e of Inr p \<Rightarrow> p | Inl _ \<Rightarrow> (0, 0))"

section \<open>Trimming and parsing\<close>

definition trimmed :: "string \<Rightarrow> bool" where
  "trimmed s \<longleftrightarrow> s = [] \<or> \<not> is_blank (hd s) \<and> \<not> is_blank (last s)"

lemma ltrim_trimmed: "s = [] \<or> \<not> is_blank (hd s) \<Longrightarrow> ltrim s = s"
  by (cases s) (auto simp: ltrim_def)

lemma rtrim_trimmed: "s = [] \<or> \<not> is_blank (last s) \<Longrightarrow> rtrim s = s"
proof (cases s rule: rev_cases)
  case Nil
  then show ?thesis by (simp add: rtrim_def)
next
  case (snoc ys y)
  then show "s = [] \<or> \<not> is_blank (last s) \<Longrightarrow> ?thesis" by (auto simp: rtrim_def)
qed

lemma trim_trimmed [simp]: "trimmed s \<Longrightarrow> trim s = s"
  by (auto simp: trimmed_def trim_def ltrim_trimmed rtrim_trimmed)

text \<open>An identifier that its own string form denotes.\<close>

definition eid_canonical :: "eid \<Rightarrow> bool" where
  "eid_canonical e \<longleftrightarrow>
     CHR '':'' \<notin> set (scheme e)
     \<and> (scheme e = [] \<or> \<not> is_blank (hd (scheme e)))
     \<and> (ssp e = [] \<or> \<not> is_blank (last (ssp e)))"

text \<open>An identifier whose parts survive \<open>EID(scheme, ssp)\<close>.\<close>

definition eid_trimmed :: "eid \<Rightarrow> bool" where
  "eid_trimmed e \<longleftrightarrow> trimmed (scheme e) \<and> trimmed (ssp e)"

lemma is_blank_colon [simp]: "\<not> is_blank CHR '':''"
  by (simp add: is_blank_def)

lemma takeWhile_colon:
  "c \<notin> set xs \<Longrightarrow> takeWhile (\<lambda>x. x \<noteq> c) (xs @ c # ys) = xs"
  "c \<notin> set xs \<Longrightarrow> dropWhile (\<lambda>x. x \<noteq> c) (xs @ c # ys) = c # ys"
  by (induction xs) auto

lemma trimmed_getString:
  "eid_canonical e \<Longrightarrow> trimmed (eid_getString e)"
  by (cases "scheme e"; cases "ssp e" rule: rev_cases)
     (auto simp: eid_canonical_def trimmed_def eid_getString_def)

lemma eid_parse_getString: "eid_canonical e \<Longrightarrow> eid_parse (eid_getString e) = e"
  using trimmed_getString [of e] takeWhile_colon [of "CHR '':''" "scheme e" "ssp e"]
  by (simp add: eid_parse_def eid_getString_def eid_canonical_def)

lemma eid_make_trimmed: "eid_trimmed e \<Longrightarrow> eid_make (scheme e) (ssp e) = e"
  by (simp add: eid_make_def eid_trimmed_def)


section \<open>Numbers\<close>

lemma of_char_digit: "d < 10 \<Longrightarrow> (of_char (digit_char d) :: nat) = 48 + d"
  by (simp add: digit_char_def)

lemma is_digit_digit_char: "d < 10 \<Longrightarrow> is_digit (digit_char d)"
  by (simp add: is_digit_def of_char_digit)

lemma show_nat_digits: "list_all is_digit (show_nat n)"
proof (induction n rule: show_nat.induct)
  case (1 n)
  then show ?case
    by (subst show_nat.simps) (auto simp: is_digit_digit_char)
qed

lemma show_nat_nonempty: "show_nat n \<noteq> []"
  by (subst show_nat.simps) simp

lemma digits_value_show_nat: "digits_value (show_nat n) = n"
proof (induction n rule: show_nat.induct)
  case (1 n)
  then show ?case
    by (subst show_nat.simps)
       (auto simp: digits_value_def of_char_digit)
qed

lemma takeWhile_digits: "list_all P xs \<Longrightarrow> takeWhile P xs = xs"
  by (simp add: list_all_iff)

lemma is_digitD: "is_digit c \<Longrightarrow> \<not> is_space c \<and> c \<noteq> CHR ''-'' \<and> c \<noteq> CHR ''+'' \<and> c \<noteq> CHR ''.''"
  by (auto simp: is_digit_def is_space_def)

lemma read_show_size: "read_size (show_size n) = n"
proof -
  let ?s = "show_size n"
  have digits: "list_all is_digit ?s" and ne: "?s \<noteq> []"
    by (simp_all add: show_size_def show_nat_digits show_nat_nonempty)
  from ne obtain c t where ct: "?s = c # t" by (cases ?s) auto
  with digits have c: "\<not> is_space c" "c \<noteq> CHR ''-''" "c \<noteq> CHR ''+''"
    using is_digitD [of c] by auto
  have "takeWhile is_digit ?s = ?s" using digits by (rule takeWhile_digits)
  moreover have "digits_value ?s = unat n"
    by (simp add: show_size_def digits_value_show_nat)
  moreover have "unat n < 2 ^ 64" using unsigned_less [of n, where ?'a = nat] by simp
  ultimately show ?thesis
    using c ct by (simp add: read_size_def Let_def)
qed

lemma show_size_no_dot: "CHR ''.'' \<notin> set (show_size n)"
  using show_nat_digits [of "unat n"] is_digitD by (auto simp: show_size_def list_all_iff)

section \<open>Compressed identifiers\<close>

lemma schemes_distinct [simp]: "DEFAULT_SCHEME \<noteq> CBHE_SCHEME" "CBHE_SCHEME \<noteq> DEFAULT_SCHEME"
  by (simp_all add: DEFAULT_SCHEME_def CBHE_SCHEME_def)

lemma eid_getCompressed_cbhe:
  assumes "node \<noteq> 0"
  shows "eid_getCompressed (eid_cbhe node app) = Inr (node, app)"
  using assms show_size_no_dot [of node] takeWhile_colon [of "CHR ''.''" "show_size node"]
  by (simp add: eid_getCompressed_def eid_cbhe_def eid_isCompressable_def eid_getHost_def
      eid_hasApplication_def eid_getApplication_def read_show_size)

lemma eid_getCompressed_none: "eid_getCompressed eid_none = Inr (0, 0)"
  by (simp add: eid_getCompressed_def eid_none_def eid_isCompressable_def eid_getHost_def
      eid_hasApplication_def read_size_def is_space_def is_digit_def)

text \<open>No branch of \<open>getCompressed\<close> throws.\<close>

lemma eid_getCompressed_total: "\<exists>p. eid_getCompressed e = Inr p"
proof (cases "scheme e = CBHE_SCHEME")
  case True
  then show ?thesis
    by (simp add: eid_getCompressed_def eid_getHost_def eid_hasApplication_def eid_getApplication_def)
next
  case False
  show ?thesis
  proof (cases "eid_isNone e")
    case True
    then have "e = eid_none" by (simp add: eid_isNone_def eid_none_def)
    then show ?thesis using eid_getCompressed_none by simp
  next
    case False
    with \<open>scheme e \<noteq> CBHE_SCHEME\<close> show ?thesis
      by (auto simp add: eid_getCompressed_def eid_isCompressable_def eid_isNone_def)
  qed
qed

section \<open>Host and application\<close>

lemma eid_host_application:
  assumes "scheme e \<noteq> CBHE_SCHEME" and "eid_getHost e = Inr host" and "eid_getApplication e = Inr app"
  shows "host @ app = ssp e"
  using assms
  by (auto simp: eid_getHost_def eid_getApplication_def Let_def split: if_splits)

lemma eid_getHost_error:
  "eid_getHost e = Inl x \<longleftrightarrow>
     x = IbrException \<and> scheme e \<noteq> CBHE_SCHEME \<and> set (ssp e) \<subseteq> {CHR ''/''}"
  by (auto simp: eid_getHost_def Let_def split: if_splits)

lemma takeWhile_dropWhile_host:
  assumes "rest = dropWhile (\<lambda>c. c = d) s" and "rest \<noteq> []"
  shows "dropWhile (\<lambda>c. c = d) (takeWhile (\<lambda>c. c = d) s @ takeWhile (\<lambda>c. c \<noteq> d) rest)
           = takeWhile (\<lambda>c. c \<noteq> d) rest"
    and "takeWhile (\<lambda>c. c = d) (takeWhile (\<lambda>c. c = d) s @ takeWhile (\<lambda>c. c \<noteq> d) rest)
           = takeWhile (\<lambda>c. c = d) s"
proof -
  obtain c t where r: "rest = c # t" using assms(2) by (cases rest) auto
  have c: "c \<noteq> d" using r assms(1) by (metis (mono_tags) hd_dropWhile list.discI list.sel(1))
  have all: "\<forall>x \<in> set (takeWhile (\<lambda>c. c = d) s). x = d" by (auto dest: set_takeWhileD)
  show "dropWhile (\<lambda>c. c = d) (takeWhile (\<lambda>c. c = d) s @ takeWhile (\<lambda>c. c \<noteq> d) rest)
           = takeWhile (\<lambda>c. c \<noteq> d) rest"
    using all c r by (subst dropWhile_append2) auto
  show "takeWhile (\<lambda>c. c = d) (takeWhile (\<lambda>c. c = d) s @ takeWhile (\<lambda>c. c \<noteq> d) rest)
           = takeWhile (\<lambda>c. c = d) s"
    using all c r by (subst takeWhile_append2) auto
qed

lemma eid_getHost_idem:
  assumes "eid_getHost e = Inr host"
  shows "eid_getHost (e\<lparr>ssp := host\<rparr>) = Inr host"
proof (cases "scheme e = CBHE_SCHEME")
  case True
  with assms show ?thesis by (auto simp: eid_getHost_def dest: set_takeWhileD)
next
  case False
  let ?rest = "dropWhile (\<lambda>c. c = CHR ''/'') (ssp e)"
  from assms False have ne: "?rest \<noteq> []"
    and host: "host = takeWhile (\<lambda>c. c = CHR ''/'') (ssp e) @ takeWhile (\<lambda>c. c \<noteq> CHR ''/'') ?rest"
    by (auto simp: eid_getHost_def Let_def split: if_splits)
  have "takeWhile (\<lambda>c. c \<noteq> CHR ''/'') ?rest \<noteq> []"
    using ne by (metis (mono_tags, lifting) hd_dropWhile takeWhile_eq_Nil_iff)
  with False ne show ?thesis
    using takeWhile_dropWhile_host [OF refl ne]
    by (simp add: eid_getHost_def host Let_def)
qed


text \<open>An identifier without blanks, as every name in use is.\<close>

definition eid_plain :: "eid \<Rightarrow> bool" where
  "eid_plain e \<longleftrightarrow>
     CHR '':'' \<notin> set (scheme e) \<and> list_all (\<lambda>c. \<not> is_blank c) (scheme e)
     \<and> list_all (\<lambda>c. \<not> is_blank c) (ssp e)"

lemma eid_plain_canonical [simp]: "eid_plain e \<Longrightarrow> eid_canonical e"
  by (auto simp: eid_plain_def eid_canonical_def list_all_iff)

lemma eid_plain_trimmed [simp]: "eid_plain e \<Longrightarrow> eid_trimmed e"
  by (auto simp: eid_plain_def eid_trimmed_def trimmed_def list_all_iff)

lemma set_takeWhile_sub: "x \<in> set (takeWhile P xs) \<Longrightarrow> x \<in> set xs"
  by (rule conjunct1 [OF set_takeWhileD])

lemma set_getHost: "eid_getHost e = Inr host \<Longrightarrow> set host \<subseteq> set (ssp e)"
  by (auto simp: eid_getHost_def Let_def split: if_splits
      dest: set_takeWhile_sub set_takeWhile_sub [THEN set_dropWhileD])

lemma eid_plain_host: "eid_plain e \<Longrightarrow> eid_getHost e = Inr host \<Longrightarrow> eid_plain (e\<lparr>ssp := host\<rparr>)"
  using set_getHost [of e host] by (auto simp: eid_plain_def list_all_iff)

lemma eid_getNode_plain:
  assumes "eid_plain e"
  shows "eid_getNode e = (case eid_getHost e of Inl x \<Rightarrow> Inl x | Inr host \<Rightarrow> Inr (e\<lparr>ssp := host\<rparr>))"
proof (cases "eid_getHost e")
  case (Inl x)
  then show ?thesis by (simp add: eid_getNode_def)
next
  case (Inr host)
  then have "eid_canonical (e\<lparr>ssp := host\<rparr>)"
    using assms eid_plain_host by simp
  then have "eid_parse (eid_getString (e\<lparr>ssp := host\<rparr>)) = e\<lparr>ssp := host\<rparr>"
    by (rule eid_parse_getString)
  then show ?thesis using Inr by (simp add: eid_getNode_def eid_getString_def)
qed

lemma eid_getNode_idem:
  assumes "eid_plain e" and "eid_getNode e = Inr n"
  shows "eid_plain n \<and> eid_getNode n = Inr n"
proof -
  from assms obtain host where h: "eid_getHost e = Inr host" and n: "n = e\<lparr>ssp := host\<rparr>"
    by (auto simp: eid_getNode_plain split: sum.splits)
  have "eid_plain n" using eid_plain_host [OF assms(1) h] n by simp
  then show ?thesis using eid_getHost_idem [OF h] n by (simp add: eid_getNode_plain)
qed

section \<open>Correctness\<close>

text \<open>An endpoint identifier printed and parsed again is the same identifier, provided
  its scheme has no colon and no blank starts or ends the string.\<close>

theorem eid_string_roundtrip:
  assumes "eid_canonical e"
  shows "eid_parse (eid_getString e) = e"
  using assms by (rule eid_parse_getString)

theorem eid_string_roundtrip_witness:
  "eid_parse (eid_getString \<lparr>scheme = ''dtn'', ssp = ''//node/app''\<rparr>) = \<lparr>scheme = ''dtn'', ssp = ''//node/app''\<rparr>"
  by (rule eid_string_roundtrip) (simp add: eid_canonical_def is_blank_def)

text \<open>The two numbers of a compressed identifier are recovered from the identifier that is
  built of them.\<close>

theorem eid_compressed_roundtrip:
  assumes "node \<noteq> 0"
  shows "eid_isCompressable (eid_cbhe node app) \<and> eid_getCompressed (eid_cbhe node app) = Inr (node, app)"
  using eid_getCompressed_cbhe [OF assms] assms
  by (simp add: eid_isCompressable_def eid_cbhe_def)

theorem eid_compressed_roundtrip_witness:
  "eid_getCompressed (eid_cbhe 7 12) = Inr (7, 12)"
  using eid_compressed_roundtrip [of 7 12] by simp

text \<open>The node of an identifier is well defined. The host and the application make up the
  scheme-specific part, and taking the node twice changes nothing.\<close>

theorem eid_node_split:
  assumes "eid_plain e" and "scheme e \<noteq> CBHE_SCHEME" and "eid_getNode e = Inr n"
  shows "\<exists>host app. eid_getHost e = Inr host \<and> eid_getApplication e = Inr app \<and> ssp e = host @ app
           \<and> n = e\<lparr>ssp := host\<rparr> \<and> eid_getNode n = Inr n"
proof -
  obtain host where host: "eid_getHost e = Inr host" and n: "n = e\<lparr>ssp := host\<rparr>"
    using assms(1,3) by (auto simp: eid_getNode_plain split: sum.splits)
  obtain app where app: "eid_getApplication e = Inr app"
    using host assms(2) by (auto simp: eid_getHost_def eid_getApplication_def Let_def split: if_splits)
  show ?thesis
    using eid_host_application [OF assms(2) host app] eid_getNode_idem [OF assms(1,3)] host app n by simp
qed

theorem eid_node_split_witness:
  "\<exists>host app. eid_getHost \<lparr>scheme = ''dtn'', ssp = ''//n/a''\<rparr> = Inr host
     \<and> eid_getApplication \<lparr>scheme = ''dtn'', ssp = ''//n/a''\<rparr> = Inr app \<and> ''//n/a'' = host @ app"
proof -
  have "eid_getNode \<lparr>scheme = ''dtn'', ssp = ''//n/a''\<rparr> = Inr \<lparr>scheme = ''dtn'', ssp = ''//n''\<rparr>"
    by code_simp
  from eid_node_split [OF _ _ this] show ?thesis
    by (auto simp: eid_plain_def is_blank_def CBHE_SCHEME_def)
qed

end
