(* ===== verification/Dictionary.thy ===== *)
theory Dictionary
  imports Sdnv Eid
begin

text \<open>
  The dictionary of a bundle header (\<open>ibrdtn/data/Dictionary.cpp\<close>): a string stream
  of zero-terminated strings, addressed by byte offsets. The model keeps what the C++
  \<open>stringstream\<close> keeps: its bytes, its read position and its failed state.
\<close>

section \<open>State and operations\<close>

record dictionary =
  dict_bytes :: "byte list"
  dict_gpos :: nat
  dict_fail :: bool

definition dict_new :: dictionary where
  "dict_new = \<lparr>dict_bytes = [], dict_gpos = 0, dict_fail = False\<rparr>"

text \<open>\<open>_bytestream.str("")\<close> resets content and positions, not the failed state.\<close>

definition dict_clear :: "dictionary \<Rightarrow> dictionary" where
  "dict_clear d = d\<lparr>dict_bytes := [], dict_gpos := 0\<rparr>"

text \<open>
  Copying reads the source through its buffer, from its read position to the end, and
  leaves the source's read position at the end; inserting nothing fails the copy's stream.
\<close>

definition dict_copy :: "dictionary \<Rightarrow> dictionary \<times> dictionary" where
  "dict_copy d =
     (\<lparr>dict_bytes = drop (dict_gpos d) (dict_bytes d), dict_gpos = 0,
       dict_fail = (drop (dict_gpos d) (dict_bytes d) = [])\<rparr>,
      d\<lparr>dict_gpos := length (dict_bytes d)\<rparr>)"

text \<open>
  The search loop of \<open>get(value)\<close> and of \<open>exists(value)\<close>; the two differ in the
  bound on the position only.
\<close>

function dict_scan :: "nat \<Rightarrow> byte list \<Rightarrow> string \<Rightarrow> nat \<Rightarrow> nat option" where
  "dict_scan bound bytes value pos =
     (if pos < bound then
        let dictstr = takeWhile (\<lambda>b. b \<noteq> 0) (drop pos bytes)
        in if bytes_str dictstr = value then Some pos
           else dict_scan bound bytes value (pos + length dictstr + 1)
      else None)"
  by pat_completeness auto

termination dict_scan
  by (relation "measure (\<lambda>(bound, bytes, value, pos). bound - pos)") auto

declare dict_scan.simps [simp del]

definition dict_find :: "dictionary \<Rightarrow> string \<Rightarrow> nat option" where
  "dict_find d value =
     (if dict_bytes d = [] then None
      else dict_scan (length (dict_bytes d) + 1) (dict_bytes d) value 0)"

definition dict_exists :: "dictionary \<Rightarrow> string \<Rightarrow> bool" where
  "dict_exists d value \<longleftrightarrow>
     dict_bytes d \<noteq> [] \<and> dict_scan (length (dict_bytes d)) (dict_bytes d) value 0 \<noteq> None"

text \<open>A failed stream takes no more bytes.\<close>

definition dict_add :: "dictionary \<Rightarrow> string \<Rightarrow> dictionary" where
  "dict_add d value =
     (if dict_exists d value \<or> dict_fail d then d
      else d\<lparr>dict_bytes := dict_bytes d @ str_bytes value @ [0]\<rparr>)"

definition dict_add_eid :: "dictionary \<Rightarrow> eid \<Rightarrow> dictionary" where
  "dict_add_eid d e = dict_add (dict_add d (scheme e)) (ssp e)"

definition dict_add_list :: "dictionary \<Rightarrow> eid list \<Rightarrow> dictionary" where
  "dict_add_list d es = foldl dict_add_eid d es"

text \<open>\<open>std::string::npos\<close> is the largest \<open>size_t\<close>.\<close>

definition dict_pos :: "dictionary \<Rightarrow> string \<Rightarrow> u64" where
  "dict_pos d value = (case dict_find d value of None \<Rightarrow> - 1 | Some p \<Rightarrow> word_of_nat p)"

definition dict_getRef :: "dictionary \<Rightarrow> eid \<Rightarrow> u64 \<times> u64" where
  "dict_getRef d e = (dict_pos d (scheme e), dict_pos d (ssp e))"

text \<open>
  \<open>seekg(pos); get(buffer, 1024, 0)\<close>: a position behind the end, or no character before
  the terminator, fails the stream, and a failed stream reads empty strings.
\<close>

definition dict_read :: "dictionary \<Rightarrow> u64 \<Rightarrow> string \<times> dictionary" where
  "dict_read d pos =
     (if dict_fail d then ([], d)
      else if length (dict_bytes d) < unat pos then ([], d\<lparr>dict_fail := True\<rparr>)
      else let t = take 1023 (takeWhile (\<lambda>b. b \<noteq> 0) (drop (unat pos) (dict_bytes d)))
           in (bytes_str t, d\<lparr>dict_gpos := unat pos + length t, dict_fail := (t = [])\<rparr>))"

definition dict_get :: "dictionary \<Rightarrow> u64 \<Rightarrow> u64 \<Rightarrow> eid \<times> dictionary" where
  "dict_get d sch sp =
     (let (scheme_str, d1) = dict_read d sch; (ssp_str, d2) = dict_read d1 sp
      in (eid_make scheme_str ssp_str, d2))"

definition dict_getSize :: "dictionary \<Rightarrow> nat" where
  "dict_getSize d = length (dict_bytes d)"

text \<open>\<open>operator<<\<close>: the size, then the bytes from the read position on.\<close>

definition dict_put :: "dictionary \<Rightarrow> ibr_error + byte list \<times> dictionary" where
  "dict_put d =
     (let content = drop (dict_gpos d) (dict_bytes d)
      in if content = [] then Inl StreamFailed
         else Inr (sdnv_bytes (word_of_nat (dict_getSize d)) @ content,
                   d\<lparr>dict_gpos := length (dict_bytes d)\<rparr>))"

text \<open>\<open>operator>>\<close>: an empty dictionary marks a compressed header.\<close>

definition get_dict :: "dictionary \<Rightarrow> dictionary reader" where
  "get_dict d =
     rbind get_sdnv (\<lambda>len.
       if len = 0 then rfail InvalidDataException
       else rbind (rtake (unat len)) (\<lambda>data.
         rret (if dict_fail d then dict_clear d
               else (dict_clear d)\<lparr>dict_bytes := data\<rparr>)))"

section \<open>Length-prefixed strings\<close>

text \<open>\<open>ibrdtn/data/BundleString.cpp\<close>\<close>

definition bstr_bytes :: "string \<Rightarrow> byte list" where
  "bstr_bytes str = sdnv_bytes (word_of_nat (length str)) @ str_bytes str"

definition bstr_getLength :: "string \<Rightarrow> nat" where
  "bstr_getLength str = sdnv_count (word_of_nat (length str)) + length str"

text \<open>
  \<open>std::streamsize\<close> is signed: a length with the top bit set is negative and reads
  nothing.
\<close>

definition get_bstr :: "string reader" where
  "get_bstr =
     rbind get_sdnv (\<lambda>length.
       if 0 < sint length then rbind (rtake (unat length)) (\<lambda>data. rret (bytes_str data))
       else rret [])"


section \<open>The dictionary as a list of strings\<close>

definition str_ok :: "string \<Rightarrow> bool" where
  "str_ok s \<longleftrightarrow> CHR 0x00 \<notin> set s"

definition dict_enc :: "string list \<Rightarrow> byte list" where
  "dict_enc ss = concat (map (\<lambda>s. str_bytes s @ [0]) ss)"

definition dict_rep :: "dictionary \<Rightarrow> string list \<Rightarrow> bool" where
  "dict_rep d ss \<longleftrightarrow> dict_bytes d = dict_enc ss \<and> list_all str_ok ss \<and> \<not> dict_fail d"

lemma dict_enc_simps [simp]:
  "dict_enc [] = []" "dict_enc (s # ss) = str_bytes s @ 0 # dict_enc ss"
  "dict_enc (xs @ ys) = dict_enc xs @ dict_enc ys"
  by (simp_all add: dict_enc_def)

lemma dict_enc_Nil_iff [simp]: "dict_enc ss = [] \<longleftrightarrow> ss = []"
  by (cases ss) auto

lemma takeWhile_str_bytes:
  assumes "str_ok s"
  shows "takeWhile (\<lambda>b. b \<noteq> 0) (str_bytes s @ 0 # bs) = str_bytes s"
proof -
  have "\<forall>b \<in> set (str_bytes s). b \<noteq> 0"
    using assms zero_in_str_bytes [of s] by (auto simp: str_ok_def)
  then show ?thesis by (subst takeWhile_append2) auto
qed

text \<open>One turn of the search loop moves to the next string.\<close>

lemma dict_scan_step:
  assumes "str_ok s" and "bytes = dict_enc (pre @ s # ss)" and "length (dict_enc pre) < bound"
  shows "dict_scan bound bytes value (length (dict_enc pre)) =
     (if s = value then Some (length (dict_enc pre))
      else dict_scan bound bytes value (length (dict_enc (pre @ [s]))))"
proof -
  have "takeWhile (\<lambda>b. b \<noteq> 0) (drop (length (dict_enc pre)) bytes) = str_bytes s"
    using assms(1,2) by (simp add: takeWhile_str_bytes)
  then show ?thesis
    using assms(3) by (subst dict_scan.simps) simp
qed

lemma dict_scan_found:
  assumes "list_all str_ok ss" and "value \<in> set ss" and "bytes = dict_enc (pre @ ss)"
    and "length bytes \<le> bound"
  shows "dict_scan bound bytes value (length (dict_enc pre))
           = Some (length (dict_enc (pre @ takeWhile (\<lambda>s. s \<noteq> value) ss)))"
  using assms
proof (induction ss arbitrary: pre)
  case Nil
  then show ?case by simp
next
  case (Cons s ss)
  have "dict_scan bound bytes value (length (dict_enc pre)) =
     (if s = value then Some (length (dict_enc pre))
      else dict_scan bound bytes value (length (dict_enc (pre @ [s]))))"
    using Cons.prems by (intro dict_scan_step [of s bytes pre ss]) auto
  then show ?case
    using Cons.prems Cons.IH [of "pre @ [s]"] by auto
qed

lemma dict_scan_missing:
  assumes "list_all str_ok ss" and "value \<notin> set ss" and "bytes = dict_enc (pre @ ss)"
    and "length bytes \<le> bound"
  shows "dict_scan bound bytes value (length (dict_enc pre))
           = dict_scan bound bytes value (length bytes)"
  using assms
proof (induction ss arbitrary: pre)
  case Nil
  then show ?case by simp
next
  case (Cons s ss)
  have "dict_scan bound bytes value (length (dict_enc pre)) =
     (if s = value then Some (length (dict_enc pre))
      else dict_scan bound bytes value (length (dict_enc (pre @ [s]))))"
    using Cons.prems by (intro dict_scan_step [of s bytes pre ss]) auto
  then show ?case
    using Cons.prems Cons.IH [of "pre @ [s]"] by auto
qed

lemma dict_exists_rep:
  assumes "dict_rep d ss"
  shows "dict_exists d value \<longleftrightarrow> value \<in> set ss"
proof (cases "value \<in> set ss")
  case True
  then show ?thesis
    using assms dict_scan_found [of ss "value" "dict_bytes d" "[]"]
    by (auto simp: dict_exists_def dict_rep_def)
next
  case False
  have "dict_scan (length (dict_bytes d)) (dict_bytes d) value (length (dict_bytes d)) = None"
    by (subst dict_scan.simps) simp
  then show ?thesis
    using False assms dict_scan_missing [of ss "value" "dict_bytes d" "[]" "length (dict_bytes d)"]
    by (auto simp: dict_exists_def dict_rep_def)
qed

lemma dict_find_rep:
  assumes "dict_rep d ss" and "value \<in> set ss"
  shows "dict_find d value = Some (length (dict_enc (takeWhile (\<lambda>s. s \<noteq> value) ss)))"
  using assms dict_scan_found [of ss "value" "dict_bytes d" "[]"]
  by (auto simp: dict_find_def dict_rep_def)

text \<open>Adding a string is the set insertion at the end of the list.\<close>

lemma dict_add_rep:
  assumes "dict_rep d ss" and "str_ok value"
  shows "dict_rep (dict_add d value) (if value \<in> set ss then ss else ss @ [value])"
  using assms dict_exists_rep [OF assms(1), of "value"]
  by (auto simp: dict_add_def dict_rep_def)

lemma dict_new_rep: "dict_rep dict_new []"
  by (simp add: dict_new_def dict_rep_def)

lemma dict_clear_rep: "\<not> dict_fail d \<Longrightarrow> dict_rep (dict_clear d) []"
  by (simp add: dict_clear_def dict_rep_def)


section \<open>What a bundle header relies on\<close>

text \<open>
  The writer of a header adds identifiers to a table and writes references; the reader
  resolves them in a table with the same content. Resolving may change the state of the
  reader's table but not its content.
\<close>

locale eid_table =
  fixes inv :: "'t \<Rightarrow> bool"
    and fits :: "'t \<Rightarrow> bool"
    and has :: "'t \<Rightarrow> eid \<Rightarrow> bool"
    and add :: "'t \<Rightarrow> eid \<Rightarrow> 't"
    and ref :: "'t \<Rightarrow> eid \<Rightarrow> u64 \<times> u64"
    and deref :: "'t \<Rightarrow> u64 \<Rightarrow> u64 \<Rightarrow> eid \<times> 't"
    and same :: "'t \<Rightarrow> 't \<Rightarrow> bool"
    and ok :: "eid \<Rightarrow> bool"
  assumes inv_add: "inv t \<Longrightarrow> ok e \<Longrightarrow> inv (add t e)"
    and has_add: "inv t \<Longrightarrow> ok e \<Longrightarrow> has (add t e) e"
    and has_mono: "inv t \<Longrightarrow> ok e' \<Longrightarrow> has t e \<Longrightarrow> has (add t e') e"
    and deref_ref: "inv t \<Longrightarrow> fits t \<Longrightarrow> ok e \<Longrightarrow> has t e \<Longrightarrow> same t u \<Longrightarrow>
          \<exists>u'. deref u (fst (ref t e)) (snd (ref t e)) = (e, u') \<and> same t u'"
begin

lemma fold_add:
  assumes "inv t" and "list_all ok es"
  shows "inv (foldl add t es) \<and> (\<forall>e. has t e \<or> e \<in> set es \<longrightarrow> has (foldl add t es) e)"
  using assms
proof (induction es arbitrary: t)
  case Nil
  then show ?case by simp
next
  case (Cons x es)
  have "inv (add t x)" using Cons.prems inv_add by simp
  moreover have "has (add t x) e" if "has t e \<or> e = x" for e
    using that Cons.prems has_add has_mono by auto
  ultimately show ?case using Cons.IH [of "add t x"] Cons.prems(2) by auto
qed

end

definition eid_ok :: "eid \<Rightarrow> bool" where
  "eid_ok e \<longleftrightarrow>
     str_ok (scheme e) \<and> str_ok (ssp e) \<and> scheme e \<noteq> [] \<and> ssp e \<noteq> []
     \<and> length (scheme e) < 1024 \<and> length (ssp e) < 1024 \<and> eid_trimmed e"

definition dict_inv :: "dictionary \<Rightarrow> bool" where
  "dict_inv d \<longleftrightarrow> (\<exists>ss. dict_rep d ss)"

definition dict_has :: "dictionary \<Rightarrow> eid \<Rightarrow> bool" where
  "dict_has d e \<longleftrightarrow> (\<exists>ss. dict_rep d ss \<and> scheme e \<in> set ss \<and> ssp e \<in> set ss)"

definition dict_fits :: "dictionary \<Rightarrow> bool" where
  "dict_fits d \<longleftrightarrow> length (dict_bytes d) < 2 ^ 64"

definition dict_same :: "dictionary \<Rightarrow> dictionary \<Rightarrow> bool" where
  "dict_same d u \<longleftrightarrow> dict_bytes u = dict_bytes d \<and> \<not> dict_fail u"

lemma dict_add_has:
  assumes "dict_rep d ss" and "str_ok v"
  shows "\<exists>ss'. dict_rep (dict_add d v) ss' \<and> insert v (set ss) \<subseteq> set ss'"
proof (intro exI conjI)
  show "dict_rep (dict_add d v) (if v \<in> set ss then ss else ss @ [v])"
    using assms by (rule dict_add_rep)
  show "insert v (set ss) \<subseteq> set (if v \<in> set ss then ss else ss @ [v])" by auto
qed

lemma dict_add_eid_has:
  assumes "dict_rep d ss" and "eid_ok e"
  shows "\<exists>ss'. dict_rep (dict_add_eid d e) ss' \<and> set ss \<union> {scheme e, ssp e} \<subseteq> set ss'"
proof -
  obtain s1 where s1: "dict_rep (dict_add d (scheme e)) s1" "insert (scheme e) (set ss) \<subseteq> set s1"
    using dict_add_has [OF assms(1), of "scheme e"] assms(2) by (auto simp: eid_ok_def)
  obtain s2 where "dict_rep (dict_add_eid d e) s2" "insert (ssp e) (set s1) \<subseteq> set s2"
    using dict_add_has [OF s1(1), of "ssp e"] assms(2) by (auto simp: eid_ok_def dict_add_eid_def)
  with s1(2) show ?thesis by blast
qed

lemma dict_read_pos:
  assumes "dict_rep d ss" and "dict_fits d" and "v \<in> set ss" and "v \<noteq> []" and "length v < 1024"
    and "dict_same d u"
  shows "\<exists>u'. dict_read u (dict_pos d v) = (v, u') \<and> dict_same d u'"
proof -
  obtain pre post where ss: "ss = pre @ v # post" and "v \<notin> set pre"
    using assms(3) by (metis split_list_first)
  then have pre: "takeWhile (\<lambda>s. s \<noteq> v) ss = pre"
    by (simp add: takeWhile_colon)
  have pos: "dict_find d v = Some (length (dict_enc pre))"
    using dict_find_rep [OF assms(1,3)] by (simp add: pre)
  have bytes: "dict_bytes d = dict_enc pre @ str_bytes v @ 0 # dict_enc post"
    using assms(1) by (simp add: dict_rep_def ss)
  have "length (dict_enc pre) < 2 ^ 64"
    using assms(2) bytes by (simp add: dict_fits_def)
  then have p: "unat (dict_pos d v) = length (dict_enc pre)"
    by (simp add: dict_pos_def pos unat_of_nat)
  have "str_ok v" using assms(1,3) by (auto simp: dict_rep_def list_all_iff)
  then have t: "take 1023 (takeWhile (\<lambda>b. b \<noteq> 0) (drop (length (dict_enc pre)) (dict_bytes d)))
                 = str_bytes v"
    using assms(5) by (simp add: bytes takeWhile_str_bytes)
  have "dict_read u (dict_pos d v) = (v, u\<lparr>dict_gpos := length (dict_enc pre) + length v\<rparr>)"
    using assms(4,6) p t bytes
    by (auto simp: dict_read_def dict_same_def Let_def simp flip: length_0_conv [of "str_bytes v"])
  then show ?thesis using assms(6) by (simp add: dict_same_def)
qed


interpretation dict: eid_table dict_inv dict_fits dict_has dict_add_eid dict_getRef dict_get dict_same eid_ok
proof
  show "dict_inv (dict_add_eid t e)" if "dict_inv t" "eid_ok e" for t e
    using that dict_add_eid_has [of t _ e] by (fastforce simp: dict_inv_def)
  show "dict_has (dict_add_eid t e) e" if "dict_inv t" "eid_ok e" for t e
    using that dict_add_eid_has [of t _ e] by (fastforce simp: dict_inv_def dict_has_def)
  show "dict_has (dict_add_eid t e') e" if "dict_inv t" "eid_ok e'" "dict_has t e" for t e e'
    using that dict_add_eid_has [of t _ e'] by (fastforce simp: dict_has_def)
  show "\<exists>u'. dict_get u (fst (dict_getRef t e)) (snd (dict_getRef t e)) = (e, u') \<and> dict_same t u'"
    if "dict_inv t" and fits: "dict_fits t" and ok: "eid_ok e" and has: "dict_has t e"
      and same: "dict_same t u" for t e u
  proof -
    obtain ss where rep: "dict_rep t ss" and mem: "scheme e \<in> set ss" "ssp e \<in> set ss"
      using has by (auto simp: dict_has_def)
    obtain u1 where u1: "dict_read u (dict_pos t (scheme e)) = (scheme e, u1)" "dict_same t u1"
      using dict_read_pos [OF rep fits mem(1) _ _ same] ok by (auto simp: eid_ok_def)
    obtain u2 where "dict_read u1 (dict_pos t (ssp e)) = (ssp e, u2)" "dict_same t u2"
      using dict_read_pos [OF rep fits mem(2) _ _ u1(2)] ok by (auto simp: eid_ok_def)
    with u1 show ?thesis
      using ok by (simp add: dict_get_def dict_getRef_def eid_make_trimmed eid_ok_def)
  qed
qed

section \<open>Dictionaries and strings on the wire\<close>

lemma get_dict_put:
  assumes "dict_put d = Inr (bs, d')" and "dict_fits d" and "dict_gpos d = 0" and "\<not> dict_fail r"
  shows "\<exists>r'. get_dict r (bs @ s) = Inr (r', s) \<and> dict_same d r'"
proof -
  let ?n = "word_of_nat (dict_getSize d) :: u64"
  from assms(1,3) have ne: "dict_bytes d \<noteq> []" and bs: "bs = sdnv_bytes ?n @ dict_bytes d"
    by (auto simp: dict_put_def Let_def split: if_splits)
  have n: "unat ?n = length (dict_bytes d)"
    using assms(2) by (simp add: dict_getSize_def dict_fits_def unat_of_nat)
  with ne have "?n \<noteq> 0" by (metis length_0_conv unsigned_0)
  then show ?thesis
    using assms(4) n by (simp add: get_dict_def bs wire_simps dict_same_def dict_clear_def)
qed

lemma get_bstr_bytes [wire_simps]:
  assumes "length str < 2 ^ 63"
  shows "get_bstr (bstr_bytes str @ s) = Inr (str, s)"
proof -
  let ?n = "word_of_nat (length str) :: u64"
  have n: "unat ?n = length str" using assms by (simp add: unat_of_nat)
  have "?n = word_of_int (int (length str))" by simp
  then have "sint ?n = int (length str)"
    using assms by (simp only: sint_sbintrunc') (simp add: signed_take_bit_int_eq_self)
  then show ?thesis
    using n by (cases "str = []") (simp_all add: get_bstr_def bstr_bytes_def wire_simps)
qed

interpretation bstr: sized_codec bstr_bytes get_bstr "\<lambda>str. length str < 2 ^ 63" bstr_getLength
proof
  show "get_bstr (bstr_bytes str @ s) = Inr (str, s)" if "length str < 2 ^ 63" for str s
    using that by (rule get_bstr_bytes)
qed (simp add: bstr_bytes_def bstr_getLength_def length_sdnv_bytes)

lemma nonincreasing_get_bstr [intro, simp]: "nonincreasing get_bstr"
  unfolding get_bstr_def by (intro nonincreasing_rbind nonincreasing_if) auto

section \<open>Correctness\<close>

text \<open>Identifiers collected in a dictionary, written, read by another node and looked up
  under the references of the writer are the identifiers that were collected.\<close>

theorem dictionary_roundtrip:
  assumes ok: "list_all eid_ok es" and e: "e \<in> set es"
    and fits: "length (dict_bytes (dict_add_list dict_new es)) < 2 ^ 64"
  shows "\<exists>bytes d' r r'. dict_put (dict_add_list dict_new es) = Inr (bytes, d')
           \<and> get_dict dict_new (bytes @ s) = Inr (r, s)
           \<and> dict_get r (fst (dict_getRef (dict_add_list dict_new es) e))
               (snd (dict_getRef (dict_add_list dict_new es) e)) = (e, r')"
proof -
  let ?d = "dict_add_list dict_new es"
  have inv: "dict_inv ?d" and has: "dict_has ?d e"
    using dict.fold_add [OF _ ok, of dict_new] dict_new_rep e
    by (auto simp: dict_inv_def dict_add_list_def)
  then have ne: "dict_bytes ?d \<noteq> []" by (auto simp: dict_has_def dict_rep_def dest: sym)
  have "dict_gpos (foldl dict_add_eid d es) = dict_gpos d" for d
    by (induction es arbitrary: d) (simp_all add: dict_add_eid_def dict_add_def)
  then have pos: "dict_gpos ?d = 0" by (simp add: dict_add_list_def dict_new_def)
  then obtain bytes d' where put: "dict_put ?d = Inr (bytes, d')"
    using ne by (auto simp: dict_put_def Let_def)
  obtain r where r: "get_dict dict_new (bytes @ s) = Inr (r, s)" "dict_same ?d r"
    using get_dict_put [OF put _ pos, of dict_new s] fits by (auto simp: dict_fits_def dict_new_def)
  have "eid_ok e" using ok e by (auto simp: list_all_iff)
  then obtain r' where "dict_get r (fst (dict_getRef ?d e)) (snd (dict_getRef ?d e)) = (e, r')"
    using dict.deref_ref [OF inv _ _ has r(2)] fits by (auto simp: dict_fits_def)
  with put r show ?thesis by blast
qed

theorem dictionary_roundtrip_witness:
  "\<exists>bytes d' r r'. dict_put (dict_add_list dict_new [eid_none]) = Inr (bytes, d')
     \<and> get_dict dict_new (bytes @ []) = Inr (r, [])
     \<and> dict_get r (fst (dict_getRef (dict_add_list dict_new [eid_none]) eid_none))
         (snd (dict_getRef (dict_add_list dict_new [eid_none]) eid_none)) = (eid_none, r')"
proof (rule dictionary_roundtrip)
  show "list_all eid_ok [eid_none]"
    by (simp add: eid_ok_def str_ok_def eid_none_def DEFAULT_SCHEME_def eid_trimmed_def trimmed_def is_blank_def)
  have "length (dict_bytes (dict_add_list dict_new [eid_none])) = 9" by code_simp
  then show "length (dict_bytes (dict_add_list dict_new [eid_none])) < 2 ^ 64" by simp
qed simp

end
