(* ===== verification/Primary.thy ===== *)
theory Primary
  imports Clock Dictionary
begin

text \<open>
  The primary block of a bundle (\<open>ibrdtn/data/PrimaryBlock.cpp\<close>): processing flags,
  identity, order and labelling.
\<close>

section \<open>Processing flags\<close>

definition FRAGMENT :: u64 where "FRAGMENT = bit_flag 0"

definition APPDATA_IS_ADMRECORD :: u64 where "APPDATA_IS_ADMRECORD = bit_flag 1"

definition DONT_FRAGMENT :: u64 where "DONT_FRAGMENT = bit_flag 2"

definition CUSTODY_REQUESTED :: u64 where "CUSTODY_REQUESTED = bit_flag 3"

definition DESTINATION_IS_SINGLETON :: u64 where "DESTINATION_IS_SINGLETON = bit_flag 4"

definition ACKOFAPP_REQUESTED :: u64 where "ACKOFAPP_REQUESTED = bit_flag 5"

definition PRIORITY_BIT1 :: u64 where "PRIORITY_BIT1 = bit_flag 7"

definition PRIORITY_BIT2 :: u64 where "PRIORITY_BIT2 = bit_flag 8"

definition REQUEST_REPORT_OF_BUNDLE_RECEPTION :: u64 where
  "REQUEST_REPORT_OF_BUNDLE_RECEPTION = bit_flag 14"

definition REQUEST_REPORT_OF_CUSTODY_ACCEPTANCE :: u64 where
  "REQUEST_REPORT_OF_CUSTODY_ACCEPTANCE = bit_flag 15"

definition REQUEST_REPORT_OF_BUNDLE_FORWARDING :: u64 where
  "REQUEST_REPORT_OF_BUNDLE_FORWARDING = bit_flag 16"

definition REQUEST_REPORT_OF_BUNDLE_DELIVERY :: u64 where
  "REQUEST_REPORT_OF_BUNDLE_DELIVERY = bit_flag 17"

definition REQUEST_REPORT_OF_BUNDLE_DELETION :: u64 where
  "REQUEST_REPORT_OF_BUNDLE_DELETION = bit_flag 18"

section \<open>The block\<close>

record primary =
  p_procflags :: u64
  p_timestamp :: u64
  p_sequencenumber :: u64
  p_lifetime :: u64
  p_fragmentoffset :: u64
  p_appdatalength :: u64
  p_source :: eid
  p_destination :: eid
  p_reportto :: eid
  p_custodian :: eid

definition primary_get :: "u64 \<Rightarrow> ('a primary_scheme) \<Rightarrow> bool" where
  "primary_get flag p = get_flag flag (p_procflags p)"

definition primary_set :: "u64 \<Rightarrow> bool \<Rightarrow> ('a primary_scheme) \<Rightarrow> 'a primary_scheme" where
  "primary_set flag v p = p\<lparr>p_procflags := set_flag flag v (p_procflags p)\<rparr>"

text \<open>
  \<open>relabel\<close> takes the next number of the process-wide counter, which is passed in and
  out.
\<close>

definition primary_relabel ::
  "clock \<Rightarrow> timeval \<Rightarrow> u64 \<Rightarrow> ('a primary_scheme) \<Rightarrow> 'a primary_scheme \<times> u64" where
  "primary_relabel c sys seqno p =
     (p\<lparr>p_timestamp := (if clk_badclock c then 0 else clock_getTime c sys),
        p_sequencenumber := seqno\<rparr>,
      seqno + 1)"

definition primary_new :: "clock \<Rightarrow> timeval \<Rightarrow> u64 \<Rightarrow> primary \<times> u64" where
  "primary_new c sys seqno =
     primary_relabel c sys seqno
       \<lparr>p_procflags = 0, p_timestamp = 0, p_sequencenumber = 0, p_lifetime = 3600,
        p_fragmentoffset = 0, p_appdatalength = 0, p_source = eid_none, p_destination = eid_none,
        p_reportto = eid_none, p_custodian = eid_none\<rparr>"

definition primary_eq :: "('a primary_scheme) \<Rightarrow> ('b primary_scheme) \<Rightarrow> bool" where
  "primary_eq this other \<longleftrightarrow>
     (if p_timestamp other \<noteq> p_timestamp this then False
      else if p_sequencenumber other \<noteq> p_sequencenumber this then False
      else if p_source other \<noteq> p_source this then False
      else if primary_get FRAGMENT other then
        (if \<not> primary_get FRAGMENT this then False
         else if p_fragmentoffset other \<noteq> p_fragmentoffset this then False
         else if p_appdatalength other \<noteq> p_appdatalength this then False
         else True)
      else if primary_get FRAGMENT this then False
      else True)"

definition primary_less :: "('a primary_scheme) \<Rightarrow> ('b primary_scheme) \<Rightarrow> bool" where
  "primary_less this other \<longleftrightarrow>
     (if eid_less (p_source this) (p_source other) then True
      else if p_source this \<noteq> p_source other then False
      else if p_timestamp this < p_timestamp other then True
      else if p_timestamp this \<noteq> p_timestamp other then False
      else if p_sequencenumber this < p_sequencenumber other then True
      else if p_sequencenumber this \<noteq> p_sequencenumber other then False
      else if primary_get FRAGMENT other \<and> p_fragmentoffset this < p_fragmentoffset other then True
      else False)"

definition primary_greater :: "('a primary_scheme) \<Rightarrow> ('b primary_scheme) \<Rightarrow> bool" where
  "primary_greater this other \<longleftrightarrow> \<not> (primary_less this other \<or> primary_eq this other)"

text \<open>The deprecated expiry test counts the lifetime twice.\<close>

definition primary_isExpired :: "clock \<Rightarrow> timeval \<Rightarrow> ('a primary_scheme) \<Rightarrow> bool" where
  "primary_isExpired c sys p = clock_isExpired c sys (p_lifetime p + p_timestamp p) (p_lifetime p)"

definition primary_toString :: "('a primary_scheme) \<Rightarrow> string" where
  "primary_toString p =
     ''['' @ show_size (p_timestamp p) @ ''.'' @ show_size (p_sequencenumber p)
     @ (if primary_get FRAGMENT p then ''.'' @ show_size (p_fragmentoffset p) else [])
     @ ''] '' @ eid_getString (p_source p) @ '' -> '' @ eid_getString (p_destination p)"

section \<open>Flags\<close>

lemmas flag_defs =
  FRAGMENT_def APPDATA_IS_ADMRECORD_def DONT_FRAGMENT_def CUSTODY_REQUESTED_def
  DESTINATION_IS_SINGLETON_def ACKOFAPP_REQUESTED_def PRIORITY_BIT1_def PRIORITY_BIT2_def
  REQUEST_REPORT_OF_BUNDLE_RECEPTION_def REQUEST_REPORT_OF_CUSTODY_ACCEPTANCE_def
  REQUEST_REPORT_OF_BUNDLE_FORWARDING_def REQUEST_REPORT_OF_BUNDLE_DELIVERY_def
  REQUEST_REPORT_OF_BUNDLE_DELETION_def

lemma primary_get_set:
  "n < 64 \<Longrightarrow> primary_get (bit_flag m) (primary_set (bit_flag n) v p)
     = (if m = n then v else primary_get (bit_flag m) p)"
  by (simp add: primary_get_def primary_set_def get_set_flag)

end
