(* ===== verification/Admin.thy ===== *)
theory Admin
  imports Primary
begin

text \<open>
  Administrative records: status reports (\<open>ibrdtn/data/StatusReportBlock.cpp\<close>) and
  custody signals (\<open>ibrdtn/data/CustodySignalBlock.cpp\<close>), the two payloads a node
  writes about another bundle.
\<close>

section \<open>Formatted character input\<close>

text \<open>
  Both records read their single bytes with \<open>stream >> c\<close>. That is formatted input: no
  stream of the program has \<open>skipws\<close> switched off, so white space is skipped first.
\<close>

definition byte_is_space :: "byte \<Rightarrow> bool" where
  "byte_is_space b \<longleftrightarrow> b = 0x20 \<or> 0x09 \<le> b \<and> b \<le> 0x0D"

fun rchar :: "byte reader" where
  "rchar [] = Inl (EndOfStream, [])"
| "rchar (b # s) = (if byte_is_space b then rchar s else Inr (b, s))"

text \<open>A field that is on the wire only under a flag keeps its old value otherwise.\<close>

definition ropt :: "bool \<Rightarrow> 'a reader \<Rightarrow> 'a \<Rightarrow> 'a reader" where
  "ropt b m x = (if b then m else rret x)"

definition wopt :: "bool \<Rightarrow> byte list \<Rightarrow> byte list" where
  "wopt b bs = (if b then bs else [])"

definition byte_flag :: "byte \<Rightarrow> nat \<Rightarrow> bool" where
  "byte_flag b n = bit b n"

section \<open>Status reports\<close>

record status_report =
  sr_admfield :: byte
  sr_status :: byte
  sr_reasoncode :: byte
  sr_fragment_offset :: u64
  sr_fragment_length :: u64
  sr_timeof_receipt :: dtntime
  sr_timeof_custodyaccept :: dtntime
  sr_timeof_forwarding :: dtntime
  sr_timeof_delivery :: dtntime
  sr_timeof_deletion :: dtntime
  sr_bundle_timestamp :: u64
  sr_bundle_sequence :: u64
  sr_source :: eid

text \<open>The constructor; \<open>DTNTime()\<close> takes the current time.\<close>

definition sr_new :: "dtntime \<Rightarrow> status_report" where
  "sr_new now =
     \<lparr>sr_admfield = 16, sr_status = 0, sr_reasoncode = 0, sr_fragment_offset = 0,
      sr_fragment_length = 0, sr_timeof_receipt = now, sr_timeof_custodyaccept = now,
      sr_timeof_forwarding = now, sr_timeof_delivery = now, sr_timeof_deletion = now,
      sr_bundle_timestamp = 0, sr_bundle_sequence = 0, sr_source = eid_none\<rparr>"

definition sr_getLength :: "status_report \<Rightarrow> nat" where
  "sr_getLength r =
     1 + 1 + 1
     + (if byte_flag (sr_admfield r) 0
        then sdnv_count (sr_fragment_offset r) + sdnv_count (sr_fragment_length r) else 0)
     + (if byte_flag (sr_status r) 0 then dtntime_getLength (sr_timeof_receipt r) else 0)
     + (if byte_flag (sr_status r) 1 then dtntime_getLength (sr_timeof_custodyaccept r) else 0)
     + (if byte_flag (sr_status r) 2 then dtntime_getLength (sr_timeof_forwarding r) else 0)
     + (if byte_flag (sr_status r) 3 then dtntime_getLength (sr_timeof_delivery r) else 0)
     + (if byte_flag (sr_status r) 4 then dtntime_getLength (sr_timeof_deletion r) else 0)
     + sdnv_count (sr_bundle_timestamp r)
     + sdnv_count (sr_bundle_sequence r)
     + bstr_getLength (eid_getString (sr_source r))"

definition sr_bytes :: "status_report \<Rightarrow> byte list" where
  "sr_bytes r =
     sr_admfield r # sr_status r # sr_reasoncode r
     # wopt (byte_flag (sr_admfield r) 0)
         (sdnv_bytes (sr_fragment_offset r) @ sdnv_bytes (sr_fragment_length r))
     @ wopt (byte_flag (sr_status r) 0) (dtntime_bytes (sr_timeof_receipt r))
     @ wopt (byte_flag (sr_status r) 1) (dtntime_bytes (sr_timeof_custodyaccept r))
     @ wopt (byte_flag (sr_status r) 2) (dtntime_bytes (sr_timeof_forwarding r))
     @ wopt (byte_flag (sr_status r) 3) (dtntime_bytes (sr_timeof_delivery r))
     @ wopt (byte_flag (sr_status r) 4) (dtntime_bytes (sr_timeof_deletion r))
     @ sdnv_bytes (sr_bundle_timestamp r)
     @ sdnv_bytes (sr_bundle_sequence r)
     @ bstr_bytes (eid_getString (sr_source r))"

definition get_pair :: "(u64 \<times> u64) reader" where
  "get_pair = rbind get_sdnv (\<lambda>a. rbind get_sdnv (\<lambda>b. rret (a, b)))"

definition get_sr :: "status_report \<Rightarrow> status_report reader" where
  "get_sr r =
     rbind rchar (\<lambda>adm. rbind rchar (\<lambda>status. rbind rchar (\<lambda>reason.
     rbind (ropt (byte_flag adm 0) get_pair (sr_fragment_offset r, sr_fragment_length r)) (\<lambda>frag.
     rbind (ropt (byte_flag status 0) get_dtntime (sr_timeof_receipt r)) (\<lambda>t0.
     rbind (ropt (byte_flag status 1) get_dtntime (sr_timeof_custodyaccept r)) (\<lambda>t1.
     rbind (ropt (byte_flag status 2) get_dtntime (sr_timeof_forwarding r)) (\<lambda>t2.
     rbind (ropt (byte_flag status 3) get_dtntime (sr_timeof_delivery r)) (\<lambda>t3.
     rbind (ropt (byte_flag status 4) get_dtntime (sr_timeof_deletion r)) (\<lambda>t4.
     rbind get_sdnv (\<lambda>ts. rbind get_sdnv (\<lambda>seq. rbind get_bstr (\<lambda>source.
     rret \<lparr>sr_admfield = adm, sr_status = status, sr_reasoncode = reason,
           sr_fragment_offset = fst frag, sr_fragment_length = snd frag,
           sr_timeof_receipt = t0, sr_timeof_custodyaccept = t1, sr_timeof_forwarding = t2,
           sr_timeof_delivery = t3, sr_timeof_deletion = t4,
           sr_bundle_timestamp = ts, sr_bundle_sequence = seq,
           sr_source = eid_parse source\<rparr>))))))))))))"

section \<open>Custody signals\<close>

record custody_signal =
  cs_admfield :: byte
  cs_accepted :: bool
  cs_reason :: byte
  cs_fragment_offset :: u64
  cs_fragment_length :: u64
  cs_timeofsignal :: dtntime
  cs_bundle_timestamp :: u64
  cs_bundle_sequence :: u64
  cs_source :: eid

definition cs_new :: "dtntime \<Rightarrow> custody_signal" where
  "cs_new now =
     \<lparr>cs_admfield = 32, cs_accepted = False, cs_reason = 0, cs_fragment_offset = 0,
      cs_fragment_length = 0, cs_timeofsignal = now, cs_bundle_timestamp = 0,
      cs_bundle_sequence = 0, cs_source = eid_none\<rparr>"

definition cs_getLength :: "custody_signal \<Rightarrow> nat" where
  "cs_getLength c =
     1 + 1
     + (if byte_flag (cs_admfield c) 0
        then sdnv_count (cs_fragment_offset c) + sdnv_count (cs_fragment_length c) else 0)
     + dtntime_getLength (cs_timeofsignal c)
     + sdnv_count (cs_bundle_timestamp c)
     + sdnv_count (cs_bundle_sequence c)
     + bstr_getLength (eid_getString (cs_source c))"

text \<open>The status byte: the reason shifted up by one, the acceptance in the lowest bit.\<close>

definition cs_status :: "custody_signal \<Rightarrow> byte" where
  "cs_status c = push_bit 1 (cs_reason c) OR (if cs_accepted c then 1 else 0)"

definition cs_bytes :: "custody_signal \<Rightarrow> byte list" where
  "cs_bytes c =
     cs_admfield c # cs_status c
     # wopt (byte_flag (cs_admfield c) 0)
         (sdnv_bytes (cs_fragment_offset c) @ sdnv_bytes (cs_fragment_length c))
     @ dtntime_bytes (cs_timeofsignal c)
     @ sdnv_bytes (cs_bundle_timestamp c)
     @ sdnv_bytes (cs_bundle_sequence c)
     @ bstr_bytes (eid_getString (cs_source c))"

text \<open>\<open>status >> 1\<close> on a signed \<open>char\<close>.\<close>

definition get_cs :: "custody_signal \<Rightarrow> custody_signal reader" where
  "get_cs c =
     rbind rchar (\<lambda>adm. rbind rchar (\<lambda>status.
     rbind (ropt (byte_flag adm 0) get_pair (cs_fragment_offset c, cs_fragment_length c)) (\<lambda>frag.
     rbind get_dtntime (\<lambda>t. rbind get_sdnv (\<lambda>ts. rbind get_sdnv (\<lambda>seq. rbind get_bstr (\<lambda>source.
     rret \<lparr>cs_admfield = adm, cs_accepted = byte_flag status 0,
           cs_reason = signed_drop_bit 1 status,
           cs_fragment_offset = fst frag, cs_fragment_length = snd frag, cs_timeofsignal = t,
           cs_bundle_timestamp = ts, cs_bundle_sequence = seq,
           cs_source = eid_parse source\<rparr>)))))))"

text \<open>
  \<open>setMatch\<close>, for a bundle or for its meta data: the signal names a bundle by its
  timestamp, sequence number, source and, for a fragment, offset and length.
\<close>

definition cs_setMatch ::
  "custody_signal \<Rightarrow> bool \<Rightarrow> u64 \<Rightarrow> u64 \<Rightarrow> u64 \<Rightarrow> u64 \<Rightarrow> eid \<Rightarrow> custody_signal" where
  "cs_setMatch c is_fragment offset appdatalength timestamp seqno source =
     (let c1 = (if is_fragment
                then c\<lparr>cs_fragment_offset := offset, cs_fragment_length := appdatalength,
                       cs_admfield := (if \<not> byte_flag (cs_admfield c) 0
                                       then cs_admfield c + 1 else cs_admfield c)\<rparr>
                else c)
      in c1\<lparr>cs_bundle_timestamp := timestamp, cs_bundle_sequence := seqno, cs_source := source\<rparr>)"

definition cs_setMatch_bundle :: "custody_signal \<Rightarrow> 'a primary_scheme \<Rightarrow> custody_signal" where
  "cs_setMatch_bundle c other =
     cs_setMatch c (primary_get FRAGMENT other) (p_fragmentoffset other) (p_appdatalength other)
       (p_timestamp other) (p_sequencenumber other) (p_source other)"

definition cs_match :: "custody_signal \<Rightarrow> 'a primary_scheme \<Rightarrow> bool" where
  "cs_match c other \<longleftrightarrow>
     (if cs_bundle_timestamp c \<noteq> p_timestamp other then False
      else if cs_bundle_sequence c \<noteq> p_sequencenumber other then False
      else if cs_source c \<noteq> p_source other then False
      else if primary_get FRAGMENT other then
        (if \<not> byte_flag (cs_admfield c) 0 then False
         else if cs_fragment_offset c \<noteq> p_fragmentoffset other then False
         else if cs_fragment_length c \<noteq> p_appdatalength other then False
         else True)
      else True)"

section \<open>Lengths\<close>

lemma length_wopt [simp]: "length (wopt b bs) = (if b then length bs else 0)"
  by (simp add: wopt_def)

lemma length_sr_bytes: "length (sr_bytes r) = sr_getLength r"
  by (simp add: sr_bytes_def sr_getLength_def dtntime.length_enc length_sdnv_bytes
      bstr_bytes_def bstr_getLength_def)

lemma length_cs_bytes: "length (cs_bytes c) = cs_getLength c"
  by (simp add: cs_bytes_def cs_getLength_def dtntime.length_enc length_sdnv_bytes
      bstr_bytes_def bstr_getLength_def)

section \<open>Round trips\<close>

lemma rbind_ropt:
  "(b \<Longrightarrow> m (bs @ s) = Inr (y, s)) \<Longrightarrow>
     rbind (ropt b m x) f (wopt b bs @ s) = f (if b then y else x) s"
  by (simp add: ropt_def wopt_def rbind_def)

lemma rchar_Cons: "\<not> byte_is_space b \<Longrightarrow> rchar (b # s) = Inr (b, s)"
  by simp

lemma get_pair_bytes: "get_pair ((sdnv_bytes a @ sdnv_bytes b) @ s) = Inr ((a, b), s)"
  by (simp add: get_pair_def wire_simps)

lemma rbind_ropt_pair:
  "rbind (ropt b get_pair x) f (wopt b (sdnv_bytes u @ sdnv_bytes v) @ s)
     = f (if b then (u, v) else x) s"
  by (rule rbind_ropt) (rule get_pair_bytes)

lemma rbind_ropt_time:
  "rbind (ropt b get_dtntime x) f (wopt b (dtntime_bytes t) @ s) = f (if b then t else x) s"
  by (rule rbind_ropt) (rule get_dtntime_bytes)

text \<open>What the reader of a report can know: the unflagged fields are those of the object read into.\<close>

definition sr_seen :: "status_report \<Rightarrow> status_report \<Rightarrow> status_report" where
  "sr_seen r0 r =
     r\<lparr>sr_fragment_offset := (if byte_flag (sr_admfield r) 0 then sr_fragment_offset r else sr_fragment_offset r0),
       sr_fragment_length := (if byte_flag (sr_admfield r) 0 then sr_fragment_length r else sr_fragment_length r0),
       sr_timeof_receipt := (if byte_flag (sr_status r) 0 then sr_timeof_receipt r else sr_timeof_receipt r0),
       sr_timeof_custodyaccept := (if byte_flag (sr_status r) 1 then sr_timeof_custodyaccept r else sr_timeof_custodyaccept r0),
       sr_timeof_forwarding := (if byte_flag (sr_status r) 2 then sr_timeof_forwarding r else sr_timeof_forwarding r0),
       sr_timeof_delivery := (if byte_flag (sr_status r) 3 then sr_timeof_delivery r else sr_timeof_delivery r0),
       sr_timeof_deletion := (if byte_flag (sr_status r) 4 then sr_timeof_deletion r else sr_timeof_deletion r0)\<rparr>"

definition sr_readable :: "status_report \<Rightarrow> bool" where
  "sr_readable r \<longleftrightarrow>
     \<not> byte_is_space (sr_admfield r) \<and> \<not> byte_is_space (sr_status r)
     \<and> \<not> byte_is_space (sr_reasoncode r) \<and> eid_canonical (sr_source r)
     \<and> length (eid_getString (sr_source r)) < 2 ^ 63"

lemma get_sr_bytes:
  assumes "sr_readable r"
  shows "get_sr r0 (sr_bytes r @ s) = Inr (sr_seen r0 r, s)"
  using assms
  by (simp add: get_sr_def sr_bytes_def sr_readable_def rbind_ropt_pair rbind_ropt_time
      get_sdnv_bytes get_bstr_bytes eid_parse_getString sr_seen_def)

definition cs_seen :: "custody_signal \<Rightarrow> custody_signal \<Rightarrow> custody_signal" where
  "cs_seen c0 c =
     c\<lparr>cs_fragment_offset := (if byte_flag (cs_admfield c) 0 then cs_fragment_offset c else cs_fragment_offset c0),
       cs_fragment_length := (if byte_flag (cs_admfield c) 0 then cs_fragment_length c else cs_fragment_length c0)\<rparr>"

definition cs_readable :: "custody_signal \<Rightarrow> bool" where
  "cs_readable c \<longleftrightarrow>
     \<not> byte_is_space (cs_admfield c) \<and> \<not> byte_is_space (cs_status c) \<and> cs_reason c < 0x40
     \<and> eid_canonical (cs_source c) \<and> length (eid_getString (cs_source c)) < 2 ^ 63"

lemma bit_cs_status:
  "bit (cs_status c) n \<longleftrightarrow> (if n = 0 then cs_accepted c else n < 8 \<and> bit (cs_reason c) (n - 1))"
  unfolding cs_status_def bit_or_iff bit_push_bit_iff by (auto simp: bit_1_iff)

lemma cs_status_accepted: "byte_flag (cs_status c) 0 = cs_accepted c"
  by (simp add: byte_flag_def bit_cs_status)

lemma cs_status_reason:
  assumes "cs_reason c < 0x40"
  shows "signed_drop_bit 1 (cs_status c) = cs_reason c"
proof -
  have "take_bit 6 (unat (cs_reason c)) = unat (cs_reason c)"
    using assms by (intro take_bit_nat_eq_self) (simp add: word_less_nat_alt)
  then have "take_bit 6 (cs_reason c) = cs_reason c"
    by (simp only: word_unat_eq_iff unsigned_take_bit_eq)
  then have small: "bit (cs_reason c) n \<Longrightarrow> n < 6" for n
    by (metis bit_take_bit_iff)
  show ?thesis
    by (rule bit_eqI) (auto simp: bit_signed_drop_bit_iff bit_cs_status dest: small)
qed

lemma get_cs_bytes:
  assumes "cs_readable c"
  shows "get_cs c0 (cs_bytes c @ s) = Inr (cs_seen c0 c, s)"
  using assms
  by (simp add: get_cs_def cs_bytes_def cs_readable_def rbind_ropt_pair get_dtntime_bytes
      get_sdnv_bytes get_bstr_bytes eid_parse_getString cs_seen_def cs_status_accepted
      cs_status_reason [simplified])

text \<open>No custody signal that is read has the administrative field 0x20 it was built with.\<close>

lemma rchar_not_space: "rchar s = Inr (b, s') \<Longrightarrow> \<not> byte_is_space b"
  by (induction s rule: rchar.induct) (auto split: if_splits)

lemma get_cs_admfield: "get_cs c0 s = Inr (c, s') \<Longrightarrow> \<not> byte_is_space (cs_admfield c)"
  by (auto simp: get_cs_def rbind_eq_Inr dest: rchar_not_space)


section \<open>Matching\<close>

lemma byte_flag_0_add_1: "\<not> byte_flag b 0 \<Longrightarrow> byte_flag (b + 1) 0"
  by (simp add: byte_flag_def bit_0)

lemma cs_match_setMatch: "cs_match (cs_setMatch_bundle c b) b"
  using byte_flag_0_add_1 [of "cs_admfield c"]
  by (simp add: cs_match_def cs_setMatch_bundle_def cs_setMatch_def Let_def)

section \<open>Correctness\<close>

text \<open>A status report is read back with every field its flags announce; the other fields
  keep the values of the object read into. The bytes written are as many as announced.\<close>

theorem status_report_roundtrip:
  assumes "sr_readable r"
  shows "length (sr_bytes r) = sr_getLength r \<and> get_sr r0 (sr_bytes r @ s) = Inr (sr_seen r0 r, s)"
  using length_sr_bytes get_sr_bytes [OF assms] by simp

definition sample_time :: dtntime where
  "sample_time = \<lparr>dt_seconds = 12, dt_nanoseconds = 7\<rparr>"

theorem status_report_roundtrip_witness:
  "get_sr (sr_new sample_time) (sr_bytes (sr_new sample_time) @ []) = Inr (sr_new sample_time, [])"
  using status_report_roundtrip [of "sr_new sample_time" "sr_new sample_time" "[]"]
  by (simp add: sr_readable_def sr_new_def byte_is_space_def eid_canonical_def eid_none_def
      DEFAULT_SCHEME_def is_blank_def eid_getString_def sr_seen_def)

text \<open>A custody signal made out for a bundle still matches that bundle after its way over
  the wire.\<close>

theorem custody_signal_match:
  assumes "cs_readable (cs_setMatch_bundle c b)"
  shows "\<exists>c'. get_cs c0 (cs_bytes (cs_setMatch_bundle c b) @ s) = Inr (c', s) \<and> cs_match c' b"
proof -
  have "cs_match (cs_seen c0 (cs_setMatch_bundle c b)) b"
    using cs_match_setMatch [of c b] by (auto simp: cs_match_def cs_seen_def split: if_splits)
  then show ?thesis using get_cs_bytes [OF assms] by blast
qed

definition sample_primary :: primary where
  "sample_primary =
     \<lparr>p_procflags = FRAGMENT, p_timestamp = 300, p_sequencenumber = 1, p_lifetime = 3600,
      p_fragmentoffset = 100, p_appdatalength = 500, p_source = eid_none, p_destination = eid_none,
      p_reportto = eid_none, p_custodian = eid_none\<rparr>"

theorem custody_signal_match_witness:
  "\<exists>c'. get_cs (cs_new sample_time) (cs_bytes (cs_setMatch_bundle (cs_new sample_time) sample_primary) @ [])
          = Inr (c', []) \<and> cs_match c' sample_primary"
proof (rule custody_signal_match)
  have "\<not> byte_is_space (cs_admfield (cs_setMatch_bundle (cs_new sample_time) sample_primary))
        \<and> \<not> byte_is_space (cs_status (cs_setMatch_bundle (cs_new sample_time) sample_primary))
        \<and> cs_reason (cs_setMatch_bundle (cs_new sample_time) sample_primary) < 0x40"
    by code_simp
  then show "cs_readable (cs_setMatch_bundle (cs_new sample_time) sample_primary)"
    by (simp add: cs_readable_def)
       (simp add: cs_setMatch_bundle_def cs_setMatch_def sample_primary_def eid_canonical_def eid_none_def
         DEFAULT_SCHEME_def is_blank_def eid_getString_def Let_def)
qed

text \<open>A custody signal for a bundle that is no fragment is lost on the wire. Its
  administrative field is 0x20, which the formatted input of the reader skips as white space, so
  no reader ever returns a signal with that field.\<close>

theorem custody_signal_admfield_lost:
  assumes "\<not> primary_get FRAGMENT b" and "get_cs c0 s = Inr (c, s')"
  shows "cs_admfield (cs_setMatch_bundle (cs_new now) b) = 0x20
         \<and> cs_admfield c \<noteq> cs_admfield (cs_setMatch_bundle (cs_new now) b)"
proof -
  have "cs_admfield (cs_setMatch_bundle (cs_new now) b) = 0x20"
    using assms(1) by (simp add: cs_setMatch_bundle_def cs_setMatch_def cs_new_def Let_def)
  then show ?thesis using get_cs_admfield [OF assms(2)] by (auto simp: byte_is_space_def)
qed

theorem custody_signal_admfield_lost_witness:
  "\<exists>c s'. get_cs (cs_new sample_time) [0x21, 1, 2, 3, 4, 5, 6, 7, 0] = Inr (c, s')
     \<and> cs_admfield c \<noteq> cs_admfield (cs_setMatch_bundle (cs_new sample_time) (sample_primary\<lparr>p_procflags := 0\<rparr>))"
proof -
  let ?r = "get_cs (cs_new sample_time) [0x21, 1, 2, 3, 4, 5, 6, 7, 0]"
  have "\<not> isl ?r" by code_simp
  then obtain c s' where r: "?r = Inr (c, s')" by (cases ?r) auto
  have "\<not> primary_get FRAGMENT (sample_primary\<lparr>p_procflags := 0\<rparr>)" by (simp add: primary_get_def get_flag_def)
  from custody_signal_admfield_lost [OF this r] r show ?thesis by blast
qed

end
