(* ===== verification/Block.thy ===== *)
theory Block
  imports Admin
begin

text \<open>
  Bundle blocks: the common header (\<open>ibrdtn/data/Block.cpp\<close>), the payload of each block
  class (\<open>PayloadBlock\<close>, \<open>ExtensionBlock\<close>, \<open>AgeBlock\<close>,
  \<open>ScopeControlHopLimitBlock\<close>, \<open>StreamBlock\<close> and the administrative records) and the
  registry of block factories.

  BLOBs belong to another library: a BLOB is the bytes it holds, and \<open>BLOB::copy\<close>, which
  moves a number of bytes from a stream into a BLOB, is the parameter \<open>copy\<close>.
\<close>

section \<open>Block flags\<close>

definition REPLICATE_IN_EVERY_FRAGMENT :: u64 where "REPLICATE_IN_EVERY_FRAGMENT = bit_flag 0"

definition DELETE_BUNDLE_IF_NOT_PROCESSED :: u64 where "DELETE_BUNDLE_IF_NOT_PROCESSED = bit_flag 2"

definition LAST_BLOCK :: u64 where "LAST_BLOCK = bit_flag 3"

definition DISCARD_IF_NOT_PROCESSED :: u64 where "DISCARD_IF_NOT_PROCESSED = bit_flag 4"

definition FORWARDED_WITHOUT_PROCESSED :: u64 where "FORWARDED_WITHOUT_PROCESSED = bit_flag 5"

definition BLOCK_CONTAINS_EIDS :: u64 where "BLOCK_CONTAINS_EIDS = bit_flag 6"

lemmas block_flag_defs =
  REPLICATE_IN_EVERY_FRAGMENT_def DELETE_BUNDLE_IF_NOT_PROCESSED_def LAST_BLOCK_def
  DISCARD_IF_NOT_PROCESSED_def FORWARDED_WITHOUT_PROCESSED_def BLOCK_CONTAINS_EIDS_def

section \<open>Block payloads\<close>

text \<open>
  An age block carries a stopwatch of another library; its readings in \<open>getLength()\<close> and
  in \<open>serialize()\<close> are the last two components of \<open>AgeBody\<close>.
\<close>

datatype block_body =
    PayloadBody "byte list"
  | ExtensionBody "byte list"
  | StatusReportBody status_report
  | CustodySignalBody custody_signal
  | AgeBody u64 u64 u64
  | HopLimitBody u64 u64
  | StreamBody u64 u64

record block =
  blk_type :: byte
  blk_eids :: "eid list"
  blk_flags :: u64
  blk_body :: block_body

definition PAYLOAD_BLOCK_TYPE :: byte where "PAYLOAD_BLOCK_TYPE = 1"

definition AGE_BLOCK_TYPE :: byte where "AGE_BLOCK_TYPE = 10"

definition HOPLIMIT_BLOCK_TYPE :: byte where "HOPLIMIT_BLOCK_TYPE = 199"

definition STREAM_BLOCK_TYPE :: byte where "STREAM_BLOCK_TYPE = 242"

definition block_get :: "u64 \<Rightarrow> block \<Rightarrow> bool" where
  "block_get flag b = get_flag flag (blk_flags b)"

definition block_set :: "u64 \<Rightarrow> bool \<Rightarrow> block \<Rightarrow> block" where
  "block_set flag v b = b\<lparr>blk_flags := set_flag flag v (blk_flags b)\<rparr>"

definition block_addEID :: "eid \<Rightarrow> block \<Rightarrow> block" where
  "block_addEID e b =
     b\<lparr>blk_eids := blk_eids b @ [e], blk_flags := blk_flags b OR BLOCK_CONTAINS_EIDS\<rparr>"

text \<open>The class of a new block; the constructors follow.\<close>

datatype block_kind = PayloadK | ExtensionK | StatusReportK | CustodySignalK | AgeK | HopLimitK | StreamK

definition block_new :: "byte \<Rightarrow> block_body \<Rightarrow> block" where
  "block_new t body = \<lparr>blk_type = t, blk_eids = [], blk_flags = 0, blk_body = body\<rparr>"

definition age_new :: block where [simp]:
  "age_new =
     block_set REPLICATE_IN_EVERY_FRAGMENT True (block_new AGE_BLOCK_TYPE (AgeBody 0 0 0))"

definition hoplimit_new :: block where [simp]:
  "hoplimit_new =
     block_set REPLICATE_IN_EVERY_FRAGMENT True (block_new HOPLIMIT_BLOCK_TYPE (HopLimitBody 0 0))"

definition stream_new :: block where [simp]:
  "stream_new = block_new STREAM_BLOCK_TYPE (StreamBody 0 0)"

fun block_create :: "dtntime \<Rightarrow> block_kind \<Rightarrow> block" where
  "block_create now PayloadK = block_new PAYLOAD_BLOCK_TYPE (PayloadBody [])"
| "block_create now ExtensionK = block_new 0 (ExtensionBody [])"
| "block_create now StatusReportK = block_new PAYLOAD_BLOCK_TYPE (StatusReportBody (sr_new now))"
| "block_create now CustodySignalK = block_new PAYLOAD_BLOCK_TYPE (CustodySignalBody (cs_new now))"
| "block_create now AgeK = age_new"
| "block_create now HopLimitK = hoplimit_new"
| "block_create now StreamK = stream_new"

fun body_kind :: "block_body \<Rightarrow> block_kind" where
  "body_kind (PayloadBody _) = PayloadK"
| "body_kind (ExtensionBody _) = ExtensionK"
| "body_kind (StatusReportBody _) = StatusReportK"
| "body_kind (CustodySignalBody _) = CustodySignalK"
| "body_kind (AgeBody _ _ _) = AgeK"
| "body_kind (HopLimitBody _ _) = HopLimitK"
| "body_kind (StreamBody _ _) = StreamK"

section \<open>Age blocks\<close>

definition age_getMicroseconds :: "u64 \<Rightarrow> u64 \<Rightarrow> u64" where
  "age_getMicroseconds age elapsed = age + elapsed"

definition age_getSeconds :: "u64 \<Rightarrow> u64 \<Rightarrow> u64" where
  "age_getSeconds age elapsed = (age + elapsed) div 1000000"

definition age_addSeconds :: "u64 \<Rightarrow> u64 \<Rightarrow> u64" where
  "age_addSeconds age v = age + v * 1000000"

definition age_setSeconds :: "u64 \<Rightarrow> u64" where
  "age_setSeconds v = v * 1000000"

section \<open>Hop limits\<close>

definition hoplimit_getHopsToLive :: "u64 \<Rightarrow> u64 \<Rightarrow> u64" where
  "hoplimit_getHopsToLive count limit = (if limit < count then 0 else limit - count)"

definition hoplimit_increment :: "u64 \<Rightarrow> u64 \<Rightarrow> u64 \<Rightarrow> u64 \<times> u64" where
  "hoplimit_increment hops count limit = (count + hops, limit)"

definition hoplimit_setLimit :: "u64 \<Rightarrow> u64 \<times> u64" where
  "hoplimit_setLimit hops = (0, hops)"

section \<open>Stream blocks\<close>

definition stream_set :: "u64 \<Rightarrow> bool \<Rightarrow> u64 \<Rightarrow> u64" where
  "stream_set flag v streamflags = set_flag flag v streamflags"

definition stream_get :: "u64 \<Rightarrow> u64 \<Rightarrow> bool" where
  "stream_get flag streamflags = get_flag flag streamflags"

section \<open>Serializing payloads\<close>

definition payload_getLength :: "byte list \<Rightarrow> nat" where [simp]:
  "payload_getLength bs = length bs"

definition payload_serialize :: "byte list \<Rightarrow> byte list" where [simp]:
  "payload_serialize bs = bs"

definition extension_getLength :: "byte list \<Rightarrow> nat" where [simp]:
  "extension_getLength bs = length bs"

definition extension_serialize :: "byte list \<Rightarrow> byte list" where [simp]:
  "extension_serialize bs = bs"

definition age_getLength :: "u64 \<Rightarrow> u64 \<Rightarrow> nat" where [simp]:
  "age_getLength age elapsed = sdnv_count (age_getMicroseconds age elapsed)"

definition age_serialize :: "u64 \<Rightarrow> u64 \<Rightarrow> byte list" where [simp]:
  "age_serialize age elapsed = sdnv_bytes (age_getMicroseconds age elapsed)"

definition hoplimit_getLength :: "u64 \<Rightarrow> u64 \<Rightarrow> nat" where [simp]:
  "hoplimit_getLength count limit = sdnv_count count + sdnv_count limit"

definition hoplimit_serialize :: "u64 \<Rightarrow> u64 \<Rightarrow> byte list" where [simp]:
  "hoplimit_serialize count limit = sdnv_bytes count @ sdnv_bytes limit"

definition stream_getLength :: "u64 \<Rightarrow> u64 \<Rightarrow> nat" where [simp]:
  "stream_getLength streamflags seq = sdnv_count streamflags + sdnv_count seq"

definition stream_serialize :: "u64 \<Rightarrow> u64 \<Rightarrow> byte list" where [simp]:
  "stream_serialize streamflags seq = sdnv_bytes streamflags @ sdnv_bytes seq"

text \<open>The virtual methods \<open>getLength\<close> and \<open>serialize\<close>.\<close>

fun body_getLength :: "block_body \<Rightarrow> nat" where
  "body_getLength (PayloadBody bs) = payload_getLength bs"
| "body_getLength (ExtensionBody bs) = extension_getLength bs"
| "body_getLength (StatusReportBody r) = sr_getLength r"
| "body_getLength (CustodySignalBody c) = cs_getLength c"
| "body_getLength (AgeBody age t_len t_ser) = age_getLength age t_len"
| "body_getLength (HopLimitBody count limit) = hoplimit_getLength count limit"
| "body_getLength (StreamBody flags seq) = stream_getLength flags seq"

fun body_bytes :: "block_body \<Rightarrow> byte list" where
  "body_bytes (PayloadBody bs) = payload_serialize bs"
| "body_bytes (ExtensionBody bs) = extension_serialize bs"
| "body_bytes (StatusReportBody r) = sr_bytes r"
| "body_bytes (CustodySignalBody c) = cs_bytes c"
| "body_bytes (AgeBody age t_len t_ser) = age_serialize age t_ser"
| "body_bytes (HopLimitBody count limit) = hoplimit_serialize count limit"
| "body_bytes (StreamBody flags seq) = stream_serialize flags seq"

text \<open>
  \<open>deserialize(stream, length)\<close> of each class, on the block it is called on. Payload
  and extension blocks take \<open>length\<close> bytes; the others ignore the length. A failing
  \<open>BLOB::copy\<close> is reported as a serialization failure.
\<close>

definition get_blob :: "(nat \<Rightarrow> byte list reader) \<Rightarrow> nat \<Rightarrow> byte list reader" where
  "get_blob copy n s =
     (case copy n s of
        Inl (e, s') \<Rightarrow> Inl (if e = IOException then SerializationFailedException else e, s')
      | Inr r \<Rightarrow> Inr r)"

definition payload_deserialize :: "(nat \<Rightarrow> byte list reader) \<Rightarrow> block \<Rightarrow> nat \<Rightarrow> block reader" where [simp]:
  "payload_deserialize copy b len =
     rbind (get_blob copy len) (\<lambda>bs.
       rret (block_set FORWARDED_WITHOUT_PROCESSED False (b\<lparr>blk_body := PayloadBody bs\<rparr>)))"

definition extension_deserialize :: "(nat \<Rightarrow> byte list reader) \<Rightarrow> block \<Rightarrow> nat \<Rightarrow> block reader" where [simp]:
  "extension_deserialize copy b len =
     rbind (get_blob copy len) (\<lambda>bs.
       rret (block_set FORWARDED_WITHOUT_PROCESSED True (b\<lparr>blk_body := ExtensionBody bs\<rparr>)))"

definition age_deserialize :: "block \<Rightarrow> block reader" where [simp]:
  "age_deserialize b = rbind get_sdnv (\<lambda>age. rret (b\<lparr>blk_body := AgeBody age 0 0\<rparr>))"

definition hoplimit_deserialize :: "block \<Rightarrow> block reader" where [simp]:
  "hoplimit_deserialize b =
     rbind get_sdnv (\<lambda>count. rbind get_sdnv (\<lambda>limit. rret (b\<lparr>blk_body := HopLimitBody count limit\<rparr>)))"

definition stream_deserialize :: "block \<Rightarrow> block reader" where [simp]:
  "stream_deserialize b =
     rbind get_sdnv (\<lambda>flags. rbind get_sdnv (\<lambda>seq. rret (b\<lparr>blk_body := StreamBody flags seq\<rparr>)))"

fun block_deserialize :: "(nat \<Rightarrow> byte list reader) \<Rightarrow> block \<Rightarrow> nat \<Rightarrow> block_body \<Rightarrow> block reader" where
  "block_deserialize copy b len (PayloadBody _) = payload_deserialize copy b len"
| "block_deserialize copy b len (ExtensionBody _) = extension_deserialize copy b len"
| "block_deserialize copy b len (StatusReportBody r) =
     rbind (get_sr r) (\<lambda>r'.
       rret (block_set FORWARDED_WITHOUT_PROCESSED False (b\<lparr>blk_body := StatusReportBody r'\<rparr>)))"
| "block_deserialize copy b len (CustodySignalBody c) =
     rbind (get_cs c) (\<lambda>c'.
       rret (block_set FORWARDED_WITHOUT_PROCESSED False (b\<lparr>blk_body := CustodySignalBody c'\<rparr>)))"
| "block_deserialize copy b len (AgeBody _ _ _) = age_deserialize b"
| "block_deserialize copy b len (HopLimitBody _ _) = hoplimit_deserialize b"
| "block_deserialize copy b len (StreamBody _ _) = stream_deserialize b"

text \<open>
  What a \<open>deserialize\<close> that throws leaves in the block: values are stored as they are
  decoded. Only the classes with a factory are ever looked at afterwards.
\<close>

fun body_left :: "block_body \<Rightarrow> byte list \<Rightarrow> block_body" where
  "body_left (AgeBody age t_len t_ser) s = AgeBody (sdnv_left s) t_len t_ser"
| "body_left (HopLimitBody count limit) s =
     (case get_sdnv s of
        Inl _ \<Rightarrow> HopLimitBody (sdnv_left s) limit
      | Inr (count', s') \<Rightarrow> HopLimitBody count' (sdnv_left s'))"
| "body_left (StreamBody flags seq) s =
     (case get_sdnv s of
        Inl _ \<Rightarrow> StreamBody flags seq
      | Inr (flags', s') \<Rightarrow> StreamBody flags' (sdnv_left s'))"
| "body_left body s = body"

section \<open>Block factories\<close>

text \<open>
  \<open>ExtensionBlock::FactoryList\<close>: \<open>add\<close> throws inside the \<open>try\<close> whose handler
  registers the factory, so the second registration of a type replaces the first.
\<close>

type_synonym factories = "byte \<rightharpoonup> block_kind"

definition factory_get :: "factories \<Rightarrow> byte \<Rightarrow> ibr_error + block_kind" where
  "factory_get f t = (case f t of None \<Rightarrow> Inl IbrException | Some k \<Rightarrow> Inr k)"

definition factory_add :: "factories \<Rightarrow> byte \<Rightarrow> block_kind \<Rightarrow> factories" where
  "factory_add f t k = (case factory_get f t of Inl _ \<Rightarrow> f(t \<mapsto> k) | Inr _ \<Rightarrow> f(t \<mapsto> k))"

definition factory_remove :: "factories \<Rightarrow> byte \<Rightarrow> factories" where
  "factory_remove f t = f(t := None)"

text \<open>
  The factories that the headers of the modelled block classes register statically (the
  compressed payload block and the security blocks register theirs in the same way).
\<close>

definition default_factories :: factories where
  "default_factories =
     factory_add (factory_add (factory_add Map.empty AGE_BLOCK_TYPE AgeK)
       HOPLIMIT_BLOCK_TYPE HopLimitK) STREAM_BLOCK_TYPE StreamK"


section \<open>What arrives\<close>

text \<open>The documented behaviour of \<open>BLOB::copy\<close>: it moves exactly the bytes it is asked for.\<close>

definition blob_copy_ok :: "(nat \<Rightarrow> byte list reader) \<Rightarrow> bool" where
  "blob_copy_ok copy \<longleftrightarrow>
     (\<forall>xs s. copy (length xs) (xs @ s) = Inr (xs, s)) \<and> (\<forall>n. nonincreasing (copy n))"

lemma blob_copy_ok_rtake: "blob_copy_ok rtake"
  by (simp add: blob_copy_ok_def rtake_append)

lemma get_blob_bytes: "blob_copy_ok copy \<Longrightarrow> get_blob copy (length xs) (xs @ s) = Inr (xs, s)"
  by (simp add: blob_copy_ok_def get_blob_def)

lemma nonincreasing_get_blob: "blob_copy_ok copy \<Longrightarrow> nonincreasing (get_blob copy n)"
  by (auto simp: blob_copy_ok_def get_blob_def nonincreasing_def rest_of_def split: sum.splits prod.splits
      dest!: spec [of _ n])

fun body_readable :: "block_body \<Rightarrow> bool" where
  "body_readable (StatusReportBody r) = sr_readable r"
| "body_readable (CustodySignalBody c) = cs_readable c"
| "body_readable _ = True"

fun body_arrived :: "dtntime \<Rightarrow> block_body \<Rightarrow> block_body" where
  "body_arrived now (StatusReportBody r) = StatusReportBody (sr_seen (sr_new now) r)"
| "body_arrived now (CustodySignalBody c) = CustodySignalBody (cs_seen (cs_new now) c)"
| "body_arrived now (AgeBody age t_len t_ser) = AgeBody (age + t_ser) 0 0"
| "body_arrived now body = body"

text \<open>The flag that says whether a node processed the block, as the reader sets it.\<close>

fun body_mark :: "block_body \<Rightarrow> block \<Rightarrow> block" where
  "body_mark (PayloadBody _) b = block_set FORWARDED_WITHOUT_PROCESSED False b"
| "body_mark (ExtensionBody _) b = block_set FORWARDED_WITHOUT_PROCESSED True b"
| "body_mark (StatusReportBody _) b = block_set FORWARDED_WITHOUT_PROCESSED False b"
| "body_mark (CustodySignalBody _) b = block_set FORWARDED_WITHOUT_PROCESSED False b"
| "body_mark _ b = b"

lemma block_deserialize_bytes:
  assumes "blob_copy_ok copy" and "body_readable body"
  shows "block_deserialize copy b (body_getLength body) (blk_body (block_create now (body_kind body)))
           (body_bytes body @ s)
         = Inr (body_mark body (b\<lparr>blk_body := body_arrived now body\<rparr>), s)"
  using assms
  by (cases body)
     (simp_all add: get_blob_bytes get_sr_bytes get_cs_bytes get_sdnv_bytes
       block_new_def block_set_def age_getMicroseconds_def)

lemma block_deserialize_type:
  "block_deserialize copy b n body s = Inr (b', s') \<Longrightarrow> blk_type b' = blk_type b \<and> blk_eids b' = blk_eids b"
  by (cases body) (auto simp: rbind_eq_Inr block_set_def)

lemma nonincreasing_rchar [intro, simp]: "nonincreasing rchar"
proof -
  have "length (rest_of (rchar s)) \<le> length s" for s
    by (induction s rule: rchar.induct) auto
  then show ?thesis by (rule nonincreasingI)
qed

lemma nonincreasing_ropt [intro]: "nonincreasing m \<Longrightarrow> nonincreasing (ropt b m x)"
  by (simp add: ropt_def)

lemma nonincreasing_get_pair [intro, simp]: "nonincreasing get_pair"
  unfolding get_pair_def by (intro nonincreasing_rbind) auto

lemma nonincreasing_get_sr [intro, simp]: "nonincreasing (get_sr r)"
  unfolding get_sr_def by (intro nonincreasing_rbind nonincreasing_ropt) auto

lemma nonincreasing_get_cs [intro, simp]: "nonincreasing (get_cs c)"
  unfolding get_cs_def by (intro nonincreasing_rbind nonincreasing_ropt) auto

lemma nonincreasing_block_deserialize:
  "blob_copy_ok copy \<Longrightarrow> nonincreasing (block_deserialize copy b n body)"
  by (cases body)
     (auto intro!: nonincreasing_get_blob simp del: rbind_Inr)

text \<open>
  \<open>getLength()\<close> is the number of bytes \<open>serialize()\<close> writes, provided the stopwatch
  of an age block does not move the age into the next size between the two calls.
\<close>

fun body_steady :: "block_body \<Rightarrow> bool" where
  "body_steady (AgeBody age t_len t_ser) =
     (sdnv_count (age_getMicroseconds age t_len) = sdnv_count (age_getMicroseconds age t_ser))"
| "body_steady _ = True"

lemma length_body_bytes: "body_steady body \<Longrightarrow> length (body_bytes body) = body_getLength body"
  by (cases body) (simp_all add: length_sr_bytes length_cs_bytes length_sdnv_bytes)

section \<open>Flags and kinds\<close>

lemma block_get_set:
  "n < 64 \<Longrightarrow> block_get (bit_flag m) (block_set (bit_flag n) v b)
     = (if m = n then v else block_get (bit_flag m) b)"
  by (simp add: block_get_def block_set_def get_set_flag)

lemma block_set_sel [simp]:
  "blk_type (block_set f v b) = blk_type b" "blk_eids (block_set f v b) = blk_eids b"
  "blk_body (block_set f v b) = blk_body b" "blk_flags (block_set f v b) = set_flag f v (blk_flags b)"
  by (simp_all add: block_set_def)

lemma body_kind_create [simp]: "body_kind (blk_body (block_create now k)) = k"
  by (cases k) (simp_all add: block_new_def)

lemma hoplimit_bounds:
  "hoplimit_getHopsToLive count limit \<le> limit"
  by (auto simp: hoplimit_getHopsToLive_def word_sub_le)

section \<open>Correctness\<close>

text \<open>The payload of every block class is read back as it was written (an age block with the
  age it had reached), the class-specific processing flag is set, and no byte of what follows is
  consumed.\<close>

theorem block_body_roundtrip:
  assumes "blob_copy_ok copy" and "body_readable body"
  shows "block_deserialize copy b (body_getLength body) (blk_body (block_create now (body_kind body)))
           (body_bytes body @ s)
         = Inr (body_mark body (b\<lparr>blk_body := body_arrived now body\<rparr>), s)"
  using assms by (rule block_deserialize_bytes)

theorem block_body_roundtrip_witness:
  "block_deserialize rtake age_new 2 (AgeBody 0 0 0) (sdnv_bytes 300 @ []) = Inr (age_new\<lparr>blk_body := AgeBody 300 0 0\<rparr>, [])"
proof -
  have "sdnv_count 300 = 2" by code_simp
  then show ?thesis
    using block_body_roundtrip [OF blob_copy_ok_rtake, of "AgeBody 300 0 0" age_new sample_time "[]"]
    by (simp add: age_getMicroseconds_def block_new_def)
qed

text \<open>\<open>getLength()\<close> of every block class is the number of bytes that \<open>serialize()\<close>
  writes, provided an age block does not grow by a byte between the two calls.\<close>

theorem block_body_length:
  assumes "body_steady body"
  shows "length (body_bytes body) = body_getLength body"
  using assms by (rule length_body_bytes)

theorem block_body_length_witness:
  "length (body_bytes (AgeBody 5 100 122)) = body_getLength (AgeBody 5 100 122)"
proof (rule block_body_length)
  show "body_steady (AgeBody 5 100 122)" by code_simp
qed

end
