(* ===== verification/Serializer.thy ===== *)
theory Serializer
  imports Block
begin

text \<open>
  Bundles and their default wire format (\<open>DefaultSerializer\<close> and
  \<open>DefaultDeserializer\<close> of \<open>ibrdtn/data/Serializer.cpp\<close>). A serializer holds a
  dictionary and the decision to compress the header; a deserializer holds a dictionary and
  whether the header was compressed. A validator is three predicates; rejecting throws.
\<close>

section \<open>Bundles\<close>

record dtn_bundle = primary +
  b_blocks :: "block list"

text \<open>\<open>BlockList::push_back\<close> on the list of the blocks themselves.\<close>

definition blocks_set_last :: "bool \<Rightarrow> block list \<Rightarrow> block list" where
  "blocks_set_last v bs =
     (if bs = [] then [] else butlast bs @ [block_set LAST_BLOCK v (last bs)])"

definition blocks_push_back :: "block list \<Rightarrow> block \<Rightarrow> block list" where
  "blocks_push_back bs b = blocks_set_last False bs @ [block_set LAST_BLOCK True b]"

text \<open>\<open>BlockList::remove\<close> of the block that was appended last.\<close>

definition blocks_pop :: "block list \<Rightarrow> block list" where
  "blocks_pop bs = blocks_set_last True (butlast bs)"

text \<open>\<open>dictionary = all EIDs of the bundle\<close>, in the order the code adds them.\<close>

definition bundle_eids :: "dtn_bundle \<Rightarrow> eid list" where
  "bundle_eids b =
     [p_destination b, p_source b, p_reportto b, p_custodian b] @ concat (map blk_eids (b_blocks b))"

section \<open>The serializer\<close>

record serializer =
  ser_dict :: dictionary
  ser_compressable :: bool

definition ser_new :: serializer where
  "ser_new = \<lparr>ser_dict = dict_new, ser_compressable = False\<rparr>"

definition ser_rebuildDictionary :: "serializer \<Rightarrow> dtn_bundle \<Rightarrow> serializer" where
  "ser_rebuildDictionary st obj =
     st\<lparr>ser_dict :=
       foldl dict_add_list
         (dict_add_eid (dict_add_eid (dict_add_eid (dict_add_eid (dict_clear (ser_dict st))
            (p_destination obj)) (p_source obj)) (p_reportto obj)) (p_custodian obj))
         (map blk_eids (b_blocks obj))\<rparr>"

definition ser_isCompressable :: "dtn_bundle \<Rightarrow> bool" where
  "ser_isCompressable obj \<longleftrightarrow>
     (eid_isCompressable (p_source obj) \<and> eid_isCompressable (p_destination obj)
      \<and> eid_isCompressable (p_reportto obj) \<and> eid_isCompressable (p_custodian obj))
     \<and> list_all (\<lambda>b. list_all eid_isCompressable (blk_eids b)) (b_blocks obj)"

definition ser_ref :: "serializer \<Rightarrow> eid \<Rightarrow> u64 \<times> u64" where
  "ser_ref st e = (if ser_compressable st then eid_compressed e else dict_getRef (ser_dict st) e)"

definition pair_bytes :: "u64 \<times> u64 \<Rightarrow> byte list" where
  "pair_bytes r = sdnv_bytes (fst r) @ sdnv_bytes (snd r)"

definition pair_count :: "u64 \<times> u64 \<Rightarrow> nat" where
  "pair_count r = sdnv_count (fst r) + sdnv_count (snd r)"

definition BUNDLE_VERSION :: byte where "BUNDLE_VERSION = 6"

text \<open>The size field of the primary block: what follows it.\<close>

definition primary_size :: "serializer \<Rightarrow> primary \<Rightarrow> nat" where
  "primary_size st obj =
     (if ser_compressable st then 0 else dict_getSize (ser_dict st))
     + pair_count (ser_ref st (p_destination obj)) + pair_count (ser_ref st (p_source obj))
     + pair_count (ser_ref st (p_reportto obj)) + pair_count (ser_ref st (p_custodian obj))
     + sdnv_count (p_timestamp obj) + sdnv_count (p_sequencenumber obj) + sdnv_count (p_lifetime obj)
     + sdnv_count (if ser_compressable st then 0 else word_of_nat (dict_getSize (ser_dict st)))
     + (if primary_get FRAGMENT obj
        then sdnv_count (p_fragmentoffset obj) + sdnv_count (p_appdatalength obj) else 0)"

definition ser_primary :: "serializer \<Rightarrow> primary \<Rightarrow> ibr_error + byte list \<times> serializer" where
  "ser_primary st obj =
     (case (if ser_compressable st then Inr (sdnv_bytes 0, ser_dict st) else dict_put (ser_dict st)) of
        Inl e \<Rightarrow> Inl e
      | Inr (dict, d') \<Rightarrow>
          Inr (BUNDLE_VERSION # sdnv_bytes (p_procflags obj)
               @ sdnv_bytes (word_of_nat (primary_size st obj))
               @ pair_bytes (ser_ref st (p_destination obj)) @ pair_bytes (ser_ref st (p_source obj))
               @ pair_bytes (ser_ref st (p_reportto obj)) @ pair_bytes (ser_ref st (p_custodian obj))
               @ sdnv_bytes (p_timestamp obj) @ sdnv_bytes (p_sequencenumber obj)
               @ sdnv_bytes (p_lifetime obj) @ dict
               @ wopt (primary_get FRAGMENT obj)
                   (sdnv_bytes (p_fragmentoffset obj) @ sdnv_bytes (p_appdatalength obj)),
               st\<lparr>ser_dict := d'\<rparr>))"

definition eidrefs_bytes :: "serializer \<Rightarrow> eid list \<Rightarrow> byte list" where
  "eidrefs_bytes st es =
     sdnv_bytes (word_of_nat (length es)) @ concat (map (\<lambda>e. pair_bytes (ser_ref st e)) es)"

definition ser_block_header :: "serializer \<Rightarrow> block \<Rightarrow> byte list" where
  "ser_block_header st obj =
     blk_type obj # sdnv_bytes (blk_flags obj)
     @ wopt (block_get BLOCK_CONTAINS_EIDS obj) (eidrefs_bytes st (blk_eids obj))"

definition ser_block :: "serializer \<Rightarrow> block \<Rightarrow> byte list" where
  "ser_block st obj =
     ser_block_header st obj @ sdnv_bytes (word_of_nat (body_getLength (blk_body obj)))
     @ body_bytes (blk_body obj)"

definition ser_bundle :: "serializer \<Rightarrow> dtn_bundle \<Rightarrow> ibr_error + byte list \<times> serializer" where
  "ser_bundle st obj =
     (let st1 = (ser_rebuildDictionary st obj)\<lparr>ser_compressable := ser_isCompressable obj\<rparr>
      in case ser_primary st1 (primary.truncate obj) of
           Inl e \<Rightarrow> Inl e
         | Inr (bs, st2) \<Rightarrow> Inr (bs @ concat (map (ser_block st2) (b_blocks obj)), st2))"

text \<open>
  A fragment: the payload is clipped; other blocks are written if they follow the payload
  block or are marked to be replicated.
\<close>

definition ser_payload_clip ::
  "(nat \<Rightarrow> byte list reader) \<Rightarrow> serializer \<Rightarrow> block \<Rightarrow> byte list \<Rightarrow> u64 \<Rightarrow> u64 \<Rightarrow> ibr_error + byte list" where
  "ser_payload_clip copy st obj data clip_offset clip_length =
     (case get_blob copy (unat clip_length) (drop (unat clip_offset) data) of
        Inl (e, _) \<Rightarrow> Inl e
      | Inr (bs, _) \<Rightarrow> Inr (ser_block_header st obj @ sdnv_bytes clip_length @ bs))"

fun ser_fragment_blocks ::
  "(nat \<Rightarrow> byte list reader) \<Rightarrow> serializer \<Rightarrow> u64 \<Rightarrow> u64 \<Rightarrow> bool \<Rightarrow> block list \<Rightarrow> ibr_error + byte list" where
  "ser_fragment_blocks copy st off len post_payload [] = Inr []"
| "ser_fragment_blocks copy st off len post_payload (b # bs) =
     (case blk_body b of
        PayloadBody data \<Rightarrow>
          (case ser_payload_clip copy st b data off len of
             Inl e \<Rightarrow> Inl e
           | Inr x \<Rightarrow> (case ser_fragment_blocks copy st off len True bs of
                         Inl e \<Rightarrow> Inl e
                       | Inr y \<Rightarrow> Inr (x @ y)))
      | _ \<Rightarrow>
          (case ser_fragment_blocks copy st off len post_payload bs of
             Inl e \<Rightarrow> Inl e
           | Inr y \<Rightarrow>
               Inr ((if post_payload \<or> block_get REPLICATE_IN_EVERY_FRAGMENT b
                     then ser_block st b else []) @ y)))"

definition fragment_primary :: "dtn_bundle \<Rightarrow> u64 \<Rightarrow> u64 \<Rightarrow> primary" where
  "fragment_primary obj off len =
     (let prim = primary_set FRAGMENT True (primary.truncate obj)
      in prim\<lparr>p_appdatalength := len, p_fragmentoffset := p_fragmentoffset prim + off\<rparr>)"

definition ser_fragment ::
  "(nat \<Rightarrow> byte list reader) \<Rightarrow> serializer \<Rightarrow> dtn_bundle \<Rightarrow> u64 \<Rightarrow> u64 \<Rightarrow> ibr_error + byte list \<times> serializer" where
  "ser_fragment copy st obj off len =
     (let st1 = (ser_rebuildDictionary st obj)\<lparr>ser_compressable := ser_isCompressable obj\<rparr>
      in case ser_primary st1 (fragment_primary obj off len) of
           Inl e \<Rightarrow> Inl e
         | Inr (bs, st2) \<Rightarrow>
             (case ser_fragment_blocks copy st2 off len False (b_blocks obj) of
                Inl e \<Rightarrow> Inl e
              | Inr ys \<Rightarrow> Inr (bs @ ys, st2)))"

section \<open>Predicted lengths\<close>

text \<open>
  \<open>getLength\<close> of a primary block: its own size estimate starts with the version and the
  flags, and the size field is estimated from that sum.
\<close>

definition ser_getLength_primary :: "serializer \<Rightarrow> primary \<Rightarrow> nat" where
  "ser_getLength_primary st obj =
     (let len = 1 + sdnv_count (p_procflags obj) + primary_size st obj
      in len + sdnv_count (word_of_nat len))"

definition ser_getLength_block :: "serializer \<Rightarrow> block \<Rightarrow> nat" where
  "ser_getLength_block st obj =
     1 + sdnv_count (blk_flags obj)
     + (if block_get BLOCK_CONTAINS_EIDS obj
        then sdnv_count (word_of_nat (length (blk_eids obj)))
             + sum_list (map (\<lambda>e. pair_count (dict_getRef (ser_dict st) e)) (blk_eids obj))
        else 0)
     + body_getLength (blk_body obj)"

definition ser_getLength_bundle :: "serializer \<Rightarrow> dtn_bundle \<Rightarrow> nat \<times> serializer" where
  "ser_getLength_bundle st obj =
     (let st1 = ser_rebuildDictionary st obj
      in (ser_getLength_primary st1 (primary.truncate obj)
          + sum_list (map (ser_getLength_block st1) (b_blocks obj)),
          st1))"

section \<open>Lengths and bytes\<close>

lemma length_pair_bytes: "length (pair_bytes r) = pair_count r"
  by (simp add: pair_bytes_def pair_count_def length_sdnv_bytes)

text \<open>The size field of a primary block counts exactly the bytes that follow it.\<close>

lemma ser_primary_size:
  assumes "ser_primary st obj = Inr (bs, st')" and "dict_gpos (ser_dict st) = 0"
  shows "\<exists>tail. bs = BUNDLE_VERSION # sdnv_bytes (p_procflags obj)
                   @ sdnv_bytes (word_of_nat (primary_size st obj)) @ tail
               \<and> length tail = primary_size st obj"
proof -
  obtain dict d' where dict: "(if ser_compressable st then Inr (sdnv_bytes 0, ser_dict st)
                               else dict_put (ser_dict st)) = Inr (dict, d')"
    using assms(1) by (auto simp: ser_primary_def split: sum.splits)
  then have "length dict = (if ser_compressable st then 0 else dict_getSize (ser_dict st))
      + sdnv_count (if ser_compressable st then 0 else word_of_nat (dict_getSize (ser_dict st)))"
    using assms(2)
    by (auto simp: dict_put_def dict_getSize_def length_sdnv_bytes Let_def split: if_splits)
  then show ?thesis
    using assms(1) dict
    by (auto simp: ser_primary_def primary_size_def length_pair_bytes length_sdnv_bytes)
qed

lemma ser_getLength_primary_bytes:
  assumes "ser_primary st obj = Inr (bs, st')" and "dict_gpos (ser_dict st) = 0"
  shows "ser_getLength_primary st obj + sdnv_count (word_of_nat (primary_size st obj))
         = length bs + sdnv_count (word_of_nat (1 + sdnv_count (p_procflags obj) + primary_size st obj))"
  using ser_primary_size [OF assms]
  by (auto simp: ser_getLength_primary_def length_sdnv_bytes Let_def)

text \<open>The predicted length of a block misses the field that holds the size of its payload.\<close>

lemma length_eidrefs:
  "\<not> ser_compressable st \<Longrightarrow> length (eidrefs_bytes st es) = sdnv_count (word_of_nat (length es))
     + sum_list (map (\<lambda>e. pair_count (dict_getRef (ser_dict st) e)) es)"
  by (simp add: eidrefs_bytes_def length_sdnv_bytes length_concat length_pair_bytes ser_ref_def comp_def)

lemma length_ser_block:
  assumes "body_steady (blk_body b)" and "block_get BLOCK_CONTAINS_EIDS b \<Longrightarrow> \<not> ser_compressable st"
  shows "length (ser_block st b)
         = ser_getLength_block st b + sdnv_count (word_of_nat (body_getLength (blk_body b)))"
  using assms
  by (simp add: ser_block_def ser_block_header_def ser_getLength_block_def length_body_bytes
      length_sdnv_bytes wopt_def length_eidrefs)

section \<open>Correctness\<close>

text \<open>The size field of a primary block is the number of bytes behind it, in both header
  forms, with and without fragment fields.\<close>

theorem primary_size_field:
  assumes "ser_primary st obj = Inr (bs, st')" and "dict_gpos (ser_dict st) = 0"
  shows "\<exists>tail. bs = BUNDLE_VERSION # sdnv_bytes (p_procflags obj)
                   @ sdnv_bytes (word_of_nat (primary_size st obj)) @ tail
               \<and> length tail = primary_size st obj"
  using assms by (rule ser_primary_size)

theorem primary_size_field_witness:
  "\<exists>bs st' tail. ser_primary \<lparr>ser_dict = dict_new, ser_compressable = True\<rparr> sample_primary = Inr (bs, st')
     \<and> bs = BUNDLE_VERSION # sdnv_bytes (p_procflags sample_primary)
          @ sdnv_bytes (word_of_nat (primary_size \<lparr>ser_dict = dict_new, ser_compressable = True\<rparr> sample_primary)) @ tail"
proof -
  let ?st = "\<lparr>ser_dict = dict_new, ser_compressable = True\<rparr>"
  obtain bs st' where r: "ser_primary ?st sample_primary = Inr (bs, st')" by (simp add: ser_primary_def)
  have "dict_gpos (ser_dict ?st) = 0" by (simp add: dict_new_def)
  from primary_size_field [OF r this] r show ?thesis by blast
qed

text \<open>The length predicted for a block falls short of what is written by exactly the field
  that holds the size of its payload, which the prediction leaves out.\<close>

theorem block_length_short:
  assumes "body_steady (blk_body b)" and "block_get BLOCK_CONTAINS_EIDS b \<longrightarrow> \<not> ser_compressable st"
  shows "length (ser_block st b)
         = ser_getLength_block st b + sdnv_count (word_of_nat (body_getLength (blk_body b)))
         \<and> ser_getLength_block st b < length (ser_block st b)"
proof -
  have "0 < sdnv_count v" for v by (subst sdnv_count.simps) (simp add: Let_def)
  then show ?thesis using length_ser_block [of b st] assms by simp
qed

theorem block_length_short_witness:
  "ser_getLength_block ser_new (block_new PAYLOAD_BLOCK_TYPE (PayloadBody [1, 2, 3]))
     < length (ser_block ser_new (block_new PAYLOAD_BLOCK_TYPE (PayloadBody [1, 2, 3])))"
  using block_length_short [of "block_new PAYLOAD_BLOCK_TYPE (PayloadBody [1, 2, 3])" ser_new]
  by (simp add: block_new_def ser_new_def)

end
