(* ===== verification/Deserializer.thy ===== *)
theory Deserializer
  imports Serializer
begin

text \<open>
  \<open>DefaultDeserializer\<close> of \<open>ibrdtn/data/Serializer.cpp\<close>, and that it reads back
  what the serializer wrote.
\<close>

section \<open>State\<close>

record deserializer =
  des_dict :: dictionary
  des_compressed :: bool

definition des_new :: deserializer where
  "des_new = \<lparr>des_dict = dict_new, des_compressed = False\<rparr>"

record validator =
  val_primary :: "primary \<Rightarrow> bool"
  val_block :: "block \<Rightarrow> u64 \<Rightarrow> bool"
  val_bundle :: "dtn_bundle \<Rightarrow> bool"

definition accept_validator :: validator where
  "accept_validator =
     \<lparr>val_primary = (\<lambda>_. True), val_block = (\<lambda>_ _. True), val_bundle = (\<lambda>_. True)\<rparr>"

section \<open>Primary block\<close>

text \<open>
  The dictionary and the four references: an error while reading the dictionary is taken
  for a compressed header, and reading goes on where the error was thrown.
\<close>

definition des_eids ::
  "deserializer \<Rightarrow> (u64 \<times> u64) \<times> (u64 \<times> u64) \<times> (u64 \<times> u64) \<times> (u64 \<times> u64) \<Rightarrow>
     ((eid \<times> eid \<times> eid \<times> eid) \<times> deserializer) reader" where
  "des_eids st refs s =
     (case refs of (r0, r1, r2, r3) \<Rightarrow>
       (case get_dict (des_dict st) s of
          Inr (d, s') \<Rightarrow>
            (let (e0, d0) = dict_get d (fst r0) (snd r0);
                 (e1, d1) = dict_get d0 (fst r1) (snd r1);
                 (e2, d2) = dict_get d1 (fst r2) (snd r2);
                 (e3, d3) = dict_get d2 (fst r3) (snd r3)
             in Inr (((e0, e1, e2, e3), \<lparr>des_dict = d3, des_compressed = False\<rparr>), s'))
        | Inl (x, s') \<Rightarrow>
            if is_invalid_data x then
              Inr (((eid_cbhe (fst r0) (snd r0), eid_cbhe (fst r1) (snd r1),
                     eid_cbhe (fst r2) (snd r2), eid_cbhe (fst r3) (snd r3)),
                    st\<lparr>des_compressed := True\<rparr>), s')
            else Inl (x, s')))"

text \<open>Fields that are not on the wire keep the value they had in the object read into.\<close>

definition des_primary :: "validator \<Rightarrow> deserializer \<Rightarrow> primary \<Rightarrow> (primary \<times> deserializer) reader" where
  "des_primary v st obj =
     rbind rbyte (\<lambda>version.
     if version \<noteq> BUNDLE_VERSION then rfail InvalidProtocolException else
     rbind get_sdnv (\<lambda>procflags. rbind get_sdnv (\<lambda>blocklength.
     rbind get_pair (\<lambda>r0. rbind get_pair (\<lambda>r1. rbind get_pair (\<lambda>r2. rbind get_pair (\<lambda>r3.
     rbind get_sdnv (\<lambda>timestamp. rbind get_sdnv (\<lambda>seqno. rbind get_sdnv (\<lambda>lifetime.
     rbind (des_eids st (r0, r1, r2, r3)) (\<lambda>((dest, source, reportto, custodian), st').
     rbind (ropt (get_flag FRAGMENT procflags) get_pair
              (p_fragmentoffset obj, p_appdatalength obj)) (\<lambda>frag.
     let p = \<lparr>p_procflags = procflags, p_timestamp = timestamp, p_sequencenumber = seqno,
              p_lifetime = lifetime, p_fragmentoffset = fst frag, p_appdatalength = snd frag,
              p_source = source, p_destination = dest, p_reportto = reportto,
              p_custodian = custodian\<rparr>
     in if val_primary v p then rret (p, st') else rfail RejectedException))))))))))))"

section \<open>Blocks\<close>

text \<open>
  Reading into a block: on an exception the block read so far is part of the result,
  because one caller keeps it.
\<close>

type_synonym block_result =
  "(ibr_error \<times> block \<times> deserializer \<times> byte list) + (block \<times> deserializer \<times> byte list)"

text \<open>Resolving a reference of a block.\<close>

definition des_ref :: "deserializer \<Rightarrow> u64 \<times> u64 \<Rightarrow> eid \<times> deserializer" where
  "des_ref st r =
     (if des_compressed st then (eid_cbhe (fst r) (snd r), st)
      else let (e, d) = dict_get (des_dict st) (fst r) (snd r) in (e, st\<lparr>des_dict := d\<rparr>))"

text \<open>
  The loop counter of the source has 32 bits; a count beyond that needs as many references,
  two bytes each, in the stream.
\<close>

fun des_block_eids :: "nat \<Rightarrow> deserializer \<Rightarrow> block \<Rightarrow> byte list \<Rightarrow> block_result" where
  "des_block_eids 0 st b s = Inr (b, st, s)"
| "des_block_eids (Suc n) st b s =
     (case get_pair s of
        Inl (e, s') \<Rightarrow> Inl (e, b, st, s')
      | Inr (r, s') \<Rightarrow>
          (let (e, st') = des_ref st r in des_block_eids n st' (block_addEID e b) s'))"

text \<open>The payload of the block, behind its size.\<close>

definition des_block_body ::
  "(nat \<Rightarrow> byte list reader) \<Rightarrow> validator \<Rightarrow> deserializer \<Rightarrow> block \<Rightarrow> byte list \<Rightarrow> block_result" where
  "des_block_body copy v st b s =
     (case get_sdnv s of
        Inl (e, s') \<Rightarrow> Inl (e, b, st, s')
      | Inr (block_size, s') \<Rightarrow>
          if \<not> val_block v b block_size then Inl (RejectedException, b, st, s')
          else
            (case block_deserialize copy b (unat block_size) (blk_body b) s' of
               Inl (e, s'') \<Rightarrow> Inl (e, b\<lparr>blk_body := body_left (blk_body b) s'\<rparr>, st, s'')
             | Inr (b', s'') \<Rightarrow> Inr (b', st, s'')))"

text \<open>
  \<open>operator>>(Block&)\<close>: the flags of the wire replace those of the block, except that
  the last-block flag is set only if it was set before.
\<close>

definition des_block ::
  "(nat \<Rightarrow> byte list reader) \<Rightarrow> validator \<Rightarrow> deserializer \<Rightarrow> block \<Rightarrow> byte list \<Rightarrow> block_result" where
  "des_block copy v st obj s =
     (case rbyte s of
        Inl (e, s') \<Rightarrow> Inl (e, obj, st, s')
      | Inr (t, s1) \<Rightarrow>
          (let b1 = obj\<lparr>blk_type := t\<rparr>
           in case get_sdnv s1 of
                Inl (e, s') \<Rightarrow> Inl (e, b1, st, s')
              | Inr (flags, s2) \<Rightarrow>
                  (let b2 = b1\<lparr>blk_flags := flags AND (NOT LAST_BLOCK OR blk_flags obj)\<rparr>
                   in if block_get BLOCK_CONTAINS_EIDS b2 then
                        (case get_sdnv s2 of
                           Inl (e, s') \<Rightarrow> Inl (e, b2, st, s')
                         | Inr (eidcount, s3) \<Rightarrow>
                             (case des_block_eids (unat eidcount) st b2 s3 of
                                Inl x \<Rightarrow> Inl x
                              | Inr (b3, st3, s4) \<Rightarrow> des_block_body copy v st3 b3 s4))
                      else des_block_body copy v st b2 s2)))"

section \<open>Bundles\<close>

text \<open>One block of the bundle: the block list, the state and whether it was the last block.\<close>

type_synonym next_result =
  "(ibr_error \<times> byte list) + (block list \<times> deserializer \<times> bool \<times> byte list)"

text \<open>A block of a class is appended to the list first and then read.\<close>

definition des_append ::
  "(nat \<Rightarrow> byte list reader) \<Rightarrow> validator \<Rightarrow> deserializer \<Rightarrow> block list \<Rightarrow> block \<Rightarrow> byte list \<Rightarrow> next_result" where
  "des_append copy v st bs new s =
     (let bs1 = blocks_push_back bs new
      in case des_block copy v st (last bs1) s of
           Inl (e, _, _, s') \<Rightarrow> Inl (e, s')
         | Inr (b, st', s') \<Rightarrow> Inr (butlast bs1 @ [b], st', block_get LAST_BLOCK b, s'))"

text \<open>
  An administrative record: the block is read as an extension block, written to a string
  stream and read again as the class its first byte names. Both helper objects take copies
  of the dictionary. An unknown record is dropped and does not count as the last block.
\<close>

definition des_admin ::
  "(nat \<Rightarrow> byte list reader) \<Rightarrow> validator \<Rightarrow> dtntime \<Rightarrow> deserializer \<Rightarrow> block list \<Rightarrow> byte list \<Rightarrow> next_result" where
  "des_admin copy v now st bs s =
     (let bs1 = blocks_push_back bs (block_create now ExtensionK)
      in case des_block copy v st (last bs1) s of
           Inl (e, _, _, s') \<Rightarrow> Inl (e, s')
         | Inr (tmp, st1, s') \<Rightarrow>
             (case blk_body tmp of
                ExtensionBody (admfield # _) \<Rightarrow>
                  (let (d1, dA) = dict_copy (des_dict st1);
                       (d2, dB) = dict_copy dA;
                       st2 = st1\<lparr>des_dict := dB\<rparr>;
                       ss = ser_block \<lparr>ser_dict = d1, ser_compressable = False\<rparr> tmp;
                       bs2 = blocks_pop (butlast bs1 @ [tmp]);
                       kind = (if drop_bit 4 admfield = 1 then Some StatusReportK
                               else if drop_bit 4 admfield = 2 then Some CustodySignalK else None)
                   in case kind of
                        None \<Rightarrow> Inr (bs2, st2, False, s')
                      | Some k \<Rightarrow>
                          (case des_append copy accept_validator \<lparr>des_dict = d2, des_compressed = False\<rparr>
                                  bs2 (block_create now k) ss of
                             Inl (e, _) \<Rightarrow> Inl (e, s')
                           | Inr (bs3, _, lst, _) \<Rightarrow> Inr (bs3, st2, lst, s')))
              | _ \<Rightarrow> Inl (Indeterminate, s')))"

text \<open>A block of an unknown type: it is removed again if its flags ask for that.\<close>

definition des_unknown ::
  "(nat \<Rightarrow> byte list reader) \<Rightarrow> validator \<Rightarrow> dtntime \<Rightarrow> deserializer \<Rightarrow> block list \<Rightarrow> byte list \<Rightarrow> next_result" where
  "des_unknown copy v now st bs s =
     (case des_append copy v st bs (block_create now ExtensionK) s of
        Inl e \<Rightarrow> Inl e
      | Inr (bs1, st1, lst, s') \<Rightarrow>
          if block_get DISCARD_IF_NOT_PROCESSED (last bs1) then Inr (blocks_pop bs1, st1, lst, s')
          else Inr (bs1, st1, lst, s'))"

text \<open>The exception classes, as opposed to the marks that are no exceptions.\<close>

definition is_exception :: "ibr_error \<Rightarrow> bool" where
  "is_exception e \<longleftrightarrow> e \<noteq> EndOfStream \<and> e \<noteq> Indeterminate \<and> e \<noteq> StreamFailed"

text \<open>
  An extension block: an exception out of reading a known block is caught by the handler
  meant for unknown types, which reads the next bytes as one more block.
\<close>

definition des_extension ::
  "(nat \<Rightarrow> byte list reader) \<Rightarrow> validator \<Rightarrow> factories \<Rightarrow> dtntime \<Rightarrow> deserializer \<Rightarrow> block list \<Rightarrow> byte
     \<Rightarrow> byte list \<Rightarrow> next_result" where
  "des_extension copy v fs now st bs block_type s =
     (case factory_get fs block_type of
        Inl _ \<Rightarrow> des_unknown copy v now st bs s
      | Inr k \<Rightarrow>
          (let bs1 = blocks_push_back bs (block_create now k)
           in case des_block copy v st (last bs1) s of
                Inr (b, st', s') \<Rightarrow> Inr (butlast bs1 @ [b], st', block_get LAST_BLOCK b, s')
              | Inl (e, b, st', s') \<Rightarrow>
                  if is_exception e then des_unknown copy v now st' (butlast bs1 @ [b]) s'
                  else Inl (e, s')))"

definition des_next ::
  "(nat \<Rightarrow> byte list reader) \<Rightarrow> validator \<Rightarrow> factories \<Rightarrow> dtntime \<Rightarrow> bool \<Rightarrow> deserializer \<Rightarrow> block list
     \<Rightarrow> byte list \<Rightarrow> next_result" where
  "des_next copy v fs now admrecord st bs s =
     (case s of
        [] \<Rightarrow> Inl (EndOfStream, [])
      | block_type # _ \<Rightarrow>
          if block_type = 0 then Inl (InvalidDataException, s)
          else if block_type = PAYLOAD_BLOCK_TYPE then
            (if admrecord then des_admin copy v now st bs s
             else des_append copy v st bs (block_create now PayloadK) s)
          else des_extension copy v fs now st bs block_type s)"

text \<open>
  The loop over the blocks. Every turn reads at least the type of a block
  (\<open>des_next_less\<close>), so the test that the stream got shorter always succeeds.
\<close>

function des_blocks ::
  "(nat \<Rightarrow> byte list reader) \<Rightarrow> validator \<Rightarrow> factories \<Rightarrow> dtntime \<Rightarrow> bool \<Rightarrow> deserializer \<Rightarrow> block list
     \<Rightarrow> (block list \<times> deserializer) reader" where
  "des_blocks copy v fs now admrecord st bs s =
     (case des_next copy v fs now admrecord st bs s of
        Inl e \<Rightarrow> Inl e
      | Inr (bs', st', lastblock, s') \<Rightarrow>
          if lastblock then Inr ((bs', st'), s')
          else if length s' < length s then des_blocks copy v fs now admrecord st' bs' s'
          else Inl (Indeterminate, s'))"
  by pat_completeness auto

termination des_blocks
  by (relation "measure (\<lambda>(copy, v, fs, now, adm, st, bs, s). length s)") auto

declare des_blocks.simps [simp del]

definition des_bundle ::
  "(nat \<Rightarrow> byte list reader) \<Rightarrow> validator \<Rightarrow> factories \<Rightarrow> dtntime \<Rightarrow> deserializer \<Rightarrow> dtn_bundle
     \<Rightarrow> (dtn_bundle \<times> deserializer) reader" where
  "des_bundle copy v fs now st obj =
     rbind (des_primary v st (primary.truncate obj)) (\<lambda>(p, st1).
     rbind (des_blocks copy v fs now (primary_get APPDATA_IS_ADMRECORD p) st1 []) (\<lambda>(bs, st2).
     let b = primary.extend p \<lparr>b_blocks = bs\<rparr>
     in if val_bundle v b then rret (b, st2) else rfail RejectedException))"

section \<open>Every turn of the loop reads\<close>

text \<open>The stream behind a block read, whether it succeeded or not.\<close>

definition block_rest :: "block_result \<Rightarrow> byte list" where
  "block_rest r = (case r of Inl (e, b, st, s) \<Rightarrow> s | Inr (b, st, s) \<Rightarrow> s)"

lemma block_rest_simps [simp]: "block_rest (Inl (e, b, st, s)) = s" "block_rest (Inr (b, st, s)) = s"
  by (simp_all add: block_rest_def)

lemma get_sdnv_rest: "length (rest_of (get_sdnv s)) \<le> length s"
  by (rule nonincreasing_rest) simp

lemma des_block_eids_rest: "length (block_rest (des_block_eids n st b s)) \<le> length s"
proof (induction n arbitrary: st b s)
  case (Suc n)
  have "length (rest_of (get_pair s)) \<le> length s"
    by (rule nonincreasing_rest) simp
  then show ?case
    by (auto split: sum.splits prod.splits intro: order_trans [OF Suc.IH])
qed simp

lemma des_block_body_rest:
  assumes "blob_copy_ok copy"
  shows "length (block_rest (des_block_body copy v st b s)) \<le> length s"
proof -
  have "length (rest_of (block_deserialize copy b n body s')) \<le> length s'" for n body s'
    using assms by (intro nonincreasing_rest nonincreasing_block_deserialize)
  from this [of _ "blk_body b"] show ?thesis
    using get_sdnv_rest [of s]
    by (fastforce simp: des_block_body_def rest_of_def split: sum.splits prod.splits intro: order_trans)
qed

lemma des_block_rest:
  assumes "blob_copy_ok copy"
  shows "length (block_rest (des_block copy v st b s)) \<le> length s"
    and "des_block copy v st b s = Inr (b', st', s') \<Longrightarrow> length s' < length s"
proof -
  have eids: "length s1 \<le> length s0"
    if "des_block_eids n st0 b0 s0 = Inl (e, b1, st1, s1) \<or> des_block_eids n st0 b0 s0 = Inr (b1, st1, s1)"
    for n st0 b0 s0 e b1 st1 s1
    using des_block_eids_rest [of n st0 b0 s0] that by auto
  have sdnv: "length s1 \<le> length s0" if "get_sdnv s0 = Inl (e, s1) \<or> get_sdnv s0 = Inr (x, s1)"
    for s0 s1 e x
    using get_sdnv_rest [of s0] that by auto
  have *: "length (block_rest (des_block copy v st b (t # s))) \<le> length s" for t s
    using get_sdnv_rest [of s]
    by (auto simp: des_block_def Let_def split: sum.splits
        intro!: order_trans [OF des_block_body_rest [OF assms]])
       (meson eids sdnv order_trans)+
  show "length (block_rest (des_block copy v st b s)) \<le> length s"
    using * by (cases s) (auto simp: des_block_def intro: le_SucI)
  show "length s' < length s" if "des_block copy v st b s = Inr (b', st', s')"
    using * [of "hd s" "tl s"] that by (cases s) (auto simp: des_block_def)
qed

lemma des_append_less:
  "blob_copy_ok copy \<Longrightarrow> des_append copy v st bs new s = Inr (bs', st', l, s') \<Longrightarrow> length s' < length s"
  by (auto simp: des_append_def Let_def split: sum.splits dest: des_block_rest(2))

lemma des_unknown_less:
  "blob_copy_ok copy \<Longrightarrow> des_unknown copy v now st bs s = Inr (bs', st', l, s') \<Longrightarrow> length s' < length s"
  by (auto simp: des_unknown_def split: sum.splits if_splits dest: des_append_less)

lemma des_admin_less:
  assumes copy: "blob_copy_ok copy" and r: "des_admin copy v now st bs s = Inr (bs', st', l, s')"
  shows "length s' < length s"
proof -
  let ?b = "last (blocks_push_back bs (block_create now ExtensionK))"
  obtain tmp st1 s1 where b: "des_block copy v st ?b s = Inr (tmp, st1, s1)"
    using r by (auto simp: des_admin_def Let_def split: sum.splits)
  then have "s' = s1"
    using r by (auto simp: des_admin_def Let_def split: block_body.splits list.splits prod.splits
        option.splits sum.splits if_splits)
  then show ?thesis using des_block_rest(2) [OF copy b] by simp
qed

lemma des_extension_less:
  assumes copy: "blob_copy_ok copy" and r: "des_extension copy v fs now st bs t s = Inr (bs', st', l, s')"
  shows "length s' < length s"
proof (cases "factory_get fs t")
  case (Inl e)
  then show ?thesis using r des_unknown_less [OF copy] by (simp add: des_extension_def)
next
  case (Inr k)
  let ?r = "des_block copy v st (last (blocks_push_back bs (block_create now k))) s"
  show ?thesis
  proof (cases ?r)
    case (Inl x)
    have "length (block_rest ?r) \<le> length s" by (rule des_block_rest(1) [OF copy])
    then show ?thesis
      using r Inr Inl
      by (auto simp: des_extension_def Let_def split: if_splits prod.splits
          dest!: des_unknown_less [OF copy])
  next
    case x: (Inr x)
    then show ?thesis
      using r Inr by (auto simp: des_extension_def Let_def split: prod.splits
          dest!: des_block_rest(2) [OF copy])
  qed
qed

lemma des_next_less:
  assumes "blob_copy_ok copy" and "des_next copy v fs now adm st bs s = Inr (bs', st', l, s')"
  shows "length s' < length s"
  using assms des_admin_less [of copy] des_append_less [of copy] des_extension_less [of copy]
  by (fastforce simp: des_next_def split: list.splits if_splits)

text \<open>So the loop is the plain recursion of the source.\<close>

lemma des_blocks_loop:
  assumes "blob_copy_ok copy"
  shows "des_blocks copy v fs now adm st bs s =
     (case des_next copy v fs now adm st bs s of
        Inl e \<Rightarrow> Inl e
      | Inr (bs', st', lastblock, s') \<Rightarrow>
          if lastblock then Inr ((bs', st'), s') else des_blocks copy v fs now adm st' bs' s')"
  by (subst des_blocks.simps) (auto split: sum.split prod.split dest: des_next_less [OF assms])

section \<open>Correctness\<close>

text \<open>C35: reading the blocks of a bundle always ends. Every turn of the loop takes at least one
  byte from the stream, also when an exception inside it is caught, so the loop is the recursion
  of the source and needs no bound.\<close>

theorem bundle_loop_reads:
  assumes "blob_copy_ok copy"
  shows "(\<forall>bs' st' l s'. des_next copy v fs now adm st bs s = Inr (bs', st', l, s') \<longrightarrow> length s' < length s)
         \<and> des_blocks copy v fs now adm st bs s =
           (case des_next copy v fs now adm st bs s of
              Inl e \<Rightarrow> Inl e
            | Inr (bs', st', lastblock, s') \<Rightarrow>
                if lastblock then Inr ((bs', st'), s') else des_blocks copy v fs now adm st' bs' s')"
  using des_next_less [OF assms] des_blocks_loop [OF assms] by blast

theorem bundle_loop_reads_witness:
  "\<exists>bs' st' l s'. des_next rtake accept_validator default_factories sample_time False des_new []
       [1, 8, 1, 65, 66] = Inr (bs', st', l, s') \<and> length s' < length [1, 8, 1, 65, 66 :: byte]"
proof -
  let ?r = "des_next rtake accept_validator default_factories sample_time False des_new [] [1, 8, 1, 65, 66]"
  have "\<not> isl ?r" by code_simp
  then obtain bs' st' l s' where r: "?r = Inr (bs', st', l, s')" by (cases ?r) auto
  then have "length s' < length [1, 8, 1, 65, 66 :: byte]"
    using bundle_loop_reads [OF blob_copy_ok_rtake] by blast
  with r show ?thesis by blast
qed

text \<open>Only bundles that the validator accepts leave the deserializer, and their primary
  blocks were accepted before any other block was read.\<close>

theorem bundle_validated:
  assumes "des_bundle copy v fs now st obj s = Inr ((b, st'), s')"
  shows "val_bundle v b \<and> val_primary v (primary.truncate b)"
proof -
  obtain p st1 s1 bs where p: "des_primary v st (primary.truncate obj) s = Inr ((p, st1), s1)"
      and b: "b = primary.extend p \<lparr>b_blocks = bs\<rparr>" "val_bundle v b"
    using assms by (auto simp: des_bundle_def rbind_eq_Inr Let_def split: if_splits)
  have "val_primary v p"
    using p by (auto simp: des_primary_def rbind_eq_Inr Let_def split: if_splits prod.splits)
  moreover have "primary.truncate b = p"
    using b(1) by (simp add: primary.truncate_def primary.extend_def)
  ultimately show ?thesis using b(2) by simp
qed

definition sample_wire :: "byte list" where
  "sample_wire = [6, 16, 13, 0, 0, 0, 0, 0, 0, 0, 0, 5, 1, 9, 0, 1, 8, 2, 65, 66]"

definition sample_object :: dtn_bundle where
  "sample_object = primary.extend sample_primary \<lparr>b_blocks = []\<rparr>"

theorem bundle_validated_witness:
  "\<exists>b st'. des_bundle rtake accept_validator default_factories sample_time des_new sample_object sample_wire
              = Inr ((b, st'), []) \<and> val_primary accept_validator (primary.truncate b)"
proof -
  let ?r = "des_bundle rtake accept_validator default_factories sample_time des_new sample_object sample_wire"
  have "case ?r of Inl _ \<Rightarrow> False | Inr (_, s) \<Rightarrow> s = []" by code_simp
  then obtain b st' where r: "?r = Inr ((b, st'), [])"
    by (cases ?r) auto
  from bundle_validated [OF r] r show ?thesis by blast
qed

text \<open>A stream that does not start with the protocol version is refused before anything is
  read into the bundle, and a block of type zero ends the reading with an error.\<close>

theorem bundle_malformed:
  assumes "version \<noteq> BUNDLE_VERSION"
  shows "des_bundle copy v fs now st obj (version # s) = Inl (InvalidProtocolException, s)
         \<and> des_blocks copy v fs now adm st bs (0 # s) = Inl (InvalidDataException, 0 # s)"
  using assms
  by (simp add: des_bundle_def des_primary_def des_blocks.simps des_next_def)

theorem bundle_malformed_witness:
  "des_bundle rtake accept_validator default_factories sample_time des_new sample_object [5, 16]
     = Inl (InvalidProtocolException, [16])"
  using bundle_malformed [of 5 rtake accept_validator default_factories sample_time des_new sample_object "[16]"]
  by (simp add: BUNDLE_VERSION_def)

end
