(* ===== verification/RoundTrip.thy ===== *)
theory RoundTrip
  imports Deserializer
begin

text \<open>
  What the serializer writes is what the deserializer reads: references, primary block,
  blocks and whole bundles.
\<close>

section \<open>References\<close>

text \<open>
  Writer and reader agree: the reader's stream works, they took the same decision on compression, and without it the
  reader's dictionary has the bytes of the writer's.
\<close>

definition linked :: "serializer \<Rightarrow> deserializer \<Rightarrow> bool" where
  "linked w r \<longleftrightarrow> des_compressed r = ser_compressable w \<and> \<not> dict_fail (des_dict r)
     \<and> (\<not> ser_compressable w \<longrightarrow> dict_same (ser_dict w) (des_dict r))"

text \<open>An identifier the reader can restore: exact in CBHE form, or in the dictionary.\<close>

definition eid_exact :: "eid \<Rightarrow> bool" where
  "eid_exact e \<longleftrightarrow> eid_cbhe (fst (eid_compressed e)) (snd (eid_compressed e)) = e"

definition eid_sent :: "serializer \<Rightarrow> eid \<Rightarrow> bool" where
  "eid_sent w e \<longleftrightarrow>
     (if ser_compressable w then eid_exact e
      else dict_inv (ser_dict w) \<and> dict_fits (ser_dict w) \<and> eid_ok e \<and> dict_has (ser_dict w) e)"

lemma des_ref_ser_ref:
  assumes "linked w r" and "eid_sent w e"
  shows "\<exists>r'. des_ref r (ser_ref w e) = (e, r') \<and> linked w r'"
proof (cases "ser_compressable w")
  case True
  then show ?thesis using assms by (auto simp: linked_def eid_sent_def eid_exact_def des_ref_def ser_ref_def)
next
  case False
  then obtain d where "dict_get (des_dict r) (fst (dict_getRef (ser_dict w) e)) (snd (dict_getRef (ser_dict w) e))
      = (e, d)" "dict_same (ser_dict w) d"
    using assms dict.deref_ref [of "ser_dict w" e "des_dict r"] by (auto simp: linked_def eid_sent_def)
  then show ?thesis using False assms(1) by (auto simp: linked_def des_ref_def ser_ref_def dict_same_def)
qed

lemma get_pair_pair_bytes: "get_pair (pair_bytes r @ s) = Inr (r, s)"
  by (cases r) (simp add: pair_bytes_def get_pair_def wire_simps)

text \<open>Writing the dictionary moves its read position only.\<close>

lemma dict_put_same: "dict_put d = Inr (bs, d') \<Longrightarrow> d' = d\<lparr>dict_gpos := length (dict_bytes d)\<rparr>"
  by (auto simp: dict_put_def Let_def split: if_splits)

lemma dict_gpos_irrelevant [simp]:
  "dict_getRef (d\<lparr>dict_gpos := n\<rparr>) e = dict_getRef d e"
  "dict_same (d\<lparr>dict_gpos := n\<rparr>) = dict_same d"
  "dict_fits (d\<lparr>dict_gpos := n\<rparr>) = dict_fits d"
  "dict_rep (d\<lparr>dict_gpos := n\<rparr>) = dict_rep d"
  by (auto simp: dict_getRef_def dict_pos_def dict_find_def dict_same_def dict_fits_def dict_rep_def)

lemma dict_gpos_irrelevant2 [simp]:
  "dict_inv (d\<lparr>dict_gpos := n\<rparr>) = dict_inv d" "dict_has (d\<lparr>dict_gpos := n\<rparr>) = dict_has d"
  by (auto simp: dict_inv_def dict_has_def)

section \<open>Primary blocks\<close>

definition primary_arrived :: "primary \<Rightarrow> primary \<Rightarrow> primary" where
  "primary_arrived obj p =
     (if primary_get FRAGMENT p then p
      else p\<lparr>p_fragmentoffset := p_fragmentoffset obj, p_appdatalength := p_appdatalength obj\<rparr>)"

lemma primary_arrived_eq:
  "primary_arrived obj p =
     (let frag = (if get_flag FRAGMENT (p_procflags p) then (p_fragmentoffset p, p_appdatalength p)
                  else (p_fragmentoffset obj, p_appdatalength obj))
      in \<lparr>p_procflags = p_procflags p, p_timestamp = p_timestamp p, p_sequencenumber = p_sequencenumber p,
          p_lifetime = p_lifetime p, p_fragmentoffset = fst frag, p_appdatalength = snd frag,
          p_source = p_source p, p_destination = p_destination p, p_reportto = p_reportto p,
          p_custodian = p_custodian p\<rparr>)"
  by (simp add: primary_arrived_def primary_get_def Let_def)

definition primary_sent :: "serializer \<Rightarrow> primary \<Rightarrow> bool" where
  "primary_sent w p \<longleftrightarrow> eid_sent w (p_destination p) \<and> eid_sent w (p_source p)
     \<and> eid_sent w (p_reportto p) \<and> eid_sent w (p_custodian p)"

lemma des_eids_plain:
  assumes put: "dict_put (ser_dict w) = Inr (bs, d')" and pos: "dict_gpos (ser_dict w) = 0"
    and w: "\<not> ser_compressable w" and r: "\<not> dict_fail (des_dict r)" and p: "primary_sent w p"
  shows "\<exists>r'. des_eids r (ser_ref w (p_destination p), ser_ref w (p_source p), ser_ref w (p_reportto p),
                 ser_ref w (p_custodian p)) (bs @ s)
           = Inr (((p_destination p, p_source p, p_reportto p, p_custodian p), r'), s) \<and> linked w r'"
proof -
  let ?d = "ser_dict w"
  have step: "\<exists>u'. dict_get u (fst (ser_ref w e)) (snd (ser_ref w e)) = (e, u') \<and> dict_same ?d u'"
    if "eid_sent w e" "dict_same ?d u" for e u
    using that w dict.deref_ref [of ?d e u] by (auto simp: eid_sent_def ser_ref_def)
  have fits: "dict_fits ?d" using p w by (simp add: primary_sent_def eid_sent_def)
  obtain u where u: "get_dict (des_dict r) (bs @ s) = Inr (u, s)" "dict_same ?d u"
    using get_dict_put [OF put fits pos r] by blast
  obtain u0 where u0: "dict_get u (fst (ser_ref w (p_destination p))) (snd (ser_ref w (p_destination p)))
      = (p_destination p, u0)" "dict_same ?d u0"
    using step [OF _ u(2), of "p_destination p"] p by (auto simp: primary_sent_def)
  obtain u1 where u1: "dict_get u0 (fst (ser_ref w (p_source p))) (snd (ser_ref w (p_source p)))
      = (p_source p, u1)" "dict_same ?d u1"
    using step [OF _ u0(2), of "p_source p"] p by (auto simp: primary_sent_def)
  obtain u2 where u2: "dict_get u1 (fst (ser_ref w (p_reportto p))) (snd (ser_ref w (p_reportto p)))
      = (p_reportto p, u2)" "dict_same ?d u2"
    using step [OF _ u1(2), of "p_reportto p"] p by (auto simp: primary_sent_def)
  obtain u3 where u3: "dict_get u2 (fst (ser_ref w (p_custodian p))) (snd (ser_ref w (p_custodian p)))
      = (p_custodian p, u3)" "dict_same ?d u3"
    using step [OF _ u2(2), of "p_custodian p"] p by (auto simp: primary_sent_def)
  show ?thesis
    using u u0 u1 u2 u3 w by (simp add: des_eids_def linked_def dict_same_def)
qed

lemma des_eids_compressed:
  assumes "ser_compressable w" and "primary_sent w p"
  shows "des_eids r (ser_ref w (p_destination p), ser_ref w (p_source p), ser_ref w (p_reportto p),
                 ser_ref w (p_custodian p)) (sdnv_bytes 0 @ s)
           = Inr (((p_destination p, p_source p, p_reportto p, p_custodian p),
                   r\<lparr>des_compressed := True\<rparr>), s)"
  using assms
  by (simp add: des_eids_def get_dict_def wire_simps is_invalid_data_def primary_sent_def eid_sent_def
      eid_exact_def ser_ref_def)

lemma des_primary_ser_primary:
  assumes ser: "ser_primary w p = Inr (bs, w')" and pos: "dict_gpos (ser_dict w) = 0"
    and r: "\<not> dict_fail (des_dict r)" and p: "primary_sent w p"
    and v: "val_primary v (primary_arrived obj p)"
  shows "\<exists>r'. des_primary v r obj (bs @ s) = Inr ((primary_arrived obj p, r'), s) \<and> linked w' r'"
proof -
  let ?refs = "(ser_ref w (p_destination p), ser_ref w (p_source p), ser_ref w (p_reportto p),
                ser_ref w (p_custodian p))"
  let ?eids = "(p_destination p, p_source p, p_reportto p, p_custodian p)"
  obtain dict d' where dict: "(if ser_compressable w then Inr (sdnv_bytes 0, ser_dict w)
                               else dict_put (ser_dict w)) = Inr (dict, d')"
    using ser by (auto simp: ser_primary_def split: sum.splits)
  have link: "\<exists>r'. des_eids r ?refs (dict @ t) = Inr ((?eids, r'), t)
                \<and> linked (w\<lparr>ser_dict := d'\<rparr>) r'" for t
  proof (cases "ser_compressable w")
    case True
    then show ?thesis using dict r des_eids_compressed [OF True p] by (auto simp: linked_def)
  next
    case False
    then have put: "dict_put (ser_dict w) = Inr (dict, d')" using dict by simp
    then show ?thesis
      using des_eids_plain [OF put pos False r p, of t] dict_put_same [OF put]
      by (auto simp: linked_def)
  qed
  obtain r' where r': "des_eids r ?refs (dict @ wopt (primary_get FRAGMENT p)
           (sdnv_bytes (p_fragmentoffset p) @ sdnv_bytes (p_appdatalength p)) @ s)
        = Inr ((?eids, r'), wopt (primary_get FRAGMENT p)
           (sdnv_bytes (p_fragmentoffset p) @ sdnv_bytes (p_appdatalength p)) @ s)"
      "linked (w\<lparr>ser_dict := d'\<rparr>) r'"
    using link by blast
  have "des_primary v r obj (bs @ s) = Inr ((primary_arrived obj p, r'), s)"
    using ser dict v r'(1)
    by (auto simp: ser_primary_def des_primary_def get_sdnv_bytes get_pair_pair_bytes
        rbind_ropt_pair primary_get_def primary_arrived_eq Let_def split: if_splits)
  moreover have "w' = w\<lparr>ser_dict := d'\<rparr>" using ser dict by (simp add: ser_primary_def)
  ultimately show ?thesis using r'(2) by blast
qed

section \<open>Blocks\<close>

definition block_arrived :: "dtntime \<Rightarrow> block \<Rightarrow> block" where
  "block_arrived now b = body_mark (blk_body b) (b\<lparr>blk_body := body_arrived now (blk_body b)\<rparr>)"

text \<open>
  A block the wire format can carry: its identifiers are announced by the flag, they can be
  restored, its counts fit in a word and its payload can be read back.
\<close>

definition block_sent :: "serializer \<Rightarrow> block \<Rightarrow> bool" where
  "block_sent w b \<longleftrightarrow>
     (block_get BLOCK_CONTAINS_EIDS b \<or> blk_eids b = []) \<and> list_all (eid_sent w) (blk_eids b)
     \<and> length (blk_eids b) < 2 ^ 64 \<and> body_getLength (blk_body b) < 2 ^ 64
     \<and> body_readable (blk_body b)"

lemma flags_keep_last: "flags AND (NOT f OR (w OR f)) = (flags :: u64)"
  by (rule bit_eqI) (auto simp: bit_simps)

lemma block_addEID_fold:
  assumes "block_get BLOCK_CONTAINS_EIDS b"
  shows "foldl (\<lambda>b e. block_addEID e b) b es = b\<lparr>blk_eids := blk_eids b @ es\<rparr>"
  using assms
proof (induction es arbitrary: b)
  case (Cons e es)
  have *: "blk_flags b OR BLOCK_CONTAINS_EIDS = blk_flags b"
    using Cons.prems set_flag_id [of 6 "blk_flags b" True]
    by (simp add: block_get_def BLOCK_CONTAINS_EIDS_def set_flag_def)
  then show ?case
    using Cons.IH [of "block_addEID e b"] Cons.prems
    by (simp add: block_addEID_def block_get_def)
qed simp

lemma des_block_eids_bytes:
  assumes "linked w r" and "list_all (eid_sent w) es"
  shows "\<exists>r'. des_block_eids (length es) r b (concat (map (\<lambda>e. pair_bytes (ser_ref w e)) es) @ s)
           = Inr (foldl (\<lambda>b e. block_addEID e b) b es, r', s) \<and> linked w r'"
  using assms
proof (induction es arbitrary: r b)
  case (Cons e es)
  obtain r1 where "des_ref r (ser_ref w e) = (e, r1)" "linked w r1"
    using des_ref_ser_ref [OF Cons.prems(1)] Cons.prems(2) by auto
  then show ?case
    using Cons.IH [of r1 "block_addEID e b"] Cons.prems(2)
    by (simp add: get_pair_pair_bytes)
qed simp

lemma des_block_body_bytes:
  assumes "blob_copy_ok copy" and "body_readable body" and "body_getLength body < 2 ^ 64"
    and "blk_body b = blk_body (block_create now (body_kind body))" and "\<And>n. val_block v b n"
  shows "des_block_body copy v st b (sdnv_bytes (word_of_nat (body_getLength body)) @ body_bytes body @ s)
         = Inr (body_mark body (b\<lparr>blk_body := body_arrived now body\<rparr>), st, s)"
  using assms block_deserialize_bytes [OF assms(1,2), of b now s]
  by (simp add: des_block_body_def get_sdnv_bytes unat_of_nat)

text \<open>The object read into is one that was just appended to a block list.\<close>

definition block_fresh :: "dtntime \<Rightarrow> block_kind \<Rightarrow> block \<Rightarrow> bool" where
  "block_fresh now k b \<longleftrightarrow> (\<exists>w. blk_flags b = w OR LAST_BLOCK) \<and> blk_eids b = []
     \<and> blk_body b = blk_body (block_create now k)"

lemma des_block_ser_block:
  assumes copy: "blob_copy_ok copy" and link: "block_get BLOCK_CONTAINS_EIDS b \<Longrightarrow> linked w r"
    and sent: "block_sent w b"
    and obj: "block_fresh now (body_kind (blk_body b)) obj" and v: "\<And>b n. val_block v b n"
  shows "\<exists>r'. des_block copy v r obj (ser_block w b @ s) = Inr (block_arrived now b, r', s)
           \<and> (linked w r \<longrightarrow> linked w r')"
proof -
  let ?tail = "sdnv_bytes (word_of_nat (body_getLength (blk_body b))) @ body_bytes (blk_body b) @ s"
  obtain f where obj': "blk_flags obj = f OR LAST_BLOCK" "blk_eids obj = []"
      "blk_body obj = blk_body (block_create now (body_kind (blk_body b)))"
    using obj by (auto simp: block_fresh_def)
  let ?b2 = "obj\<lparr>blk_type := blk_type b, blk_flags := blk_flags b\<rparr>"
  have flag: "block_get BLOCK_CONTAINS_EIDS ?b2 = block_get BLOCK_CONTAINS_EIDS b"
    by (simp add: block_get_def)
  have same: "?b2\<lparr>blk_eids := blk_eids b, blk_body := x\<rparr> = b\<lparr>blk_body := x\<rparr>" for x
    by (rule block.equality) simp_all
  have body: "des_block_body copy v st (?b2\<lparr>blk_eids := blk_eids b\<rparr>) ?tail
      = Inr (block_arrived now b, st, s)" for st
    using des_block_body_bytes [OF copy, of "blk_body b" "?b2\<lparr>blk_eids := blk_eids b\<rparr>" now v st s]
      sent v obj' same by (simp add: block_sent_def block_arrived_def)
  show ?thesis
  proof (cases "block_get BLOCK_CONTAINS_EIDS b")
    case True
    obtain r' where r': "des_block_eids (length (blk_eids b)) r ?b2
          (concat (map (\<lambda>e. pair_bytes (ser_ref w e)) (blk_eids b)) @ ?tail)
        = Inr (foldl (\<lambda>b e. block_addEID e b) ?b2 (blk_eids b), r', ?tail)" "linked w r'"
      using des_block_eids_bytes [OF link [OF True], of "blk_eids b"] sent by (auto simp: block_sent_def)
    have n: "unat (word_of_nat (length (blk_eids b)) :: u64) = length (blk_eids b)"
      using sent by (simp add: block_sent_def unat_of_nat)
    have "des_block copy v r obj (ser_block w b @ s) = Inr (block_arrived now b, r', s)"
      using r'(1) True flag body [of r'] block_addEID_fold [of ?b2 "blk_eids b"] obj'
      by (simp add: des_block_def ser_block_def ser_block_header_def wopt_def eidrefs_bytes_def
          get_sdnv_bytes flags_keep_last n)
    then show ?thesis using r'(2) by blast
  next
    case False
    then have "blk_eids b = []" using sent by (simp add: block_sent_def)
    then have "?b2\<lparr>blk_eids := blk_eids b\<rparr> = ?b2" using obj' by simp
    then have "des_block copy v r obj (ser_block w b @ s) = Inr (block_arrived now b, r, s)"
      using False flag body [of r] obj'
      by (simp add: des_block_def ser_block_def ser_block_header_def wopt_def
          get_sdnv_bytes flags_keep_last)
    then show ?thesis by blast
  qed
qed

section \<open>Block lists\<close>

lemma blocks_set_last_set_last [simp]:
  "blocks_set_last v (blocks_set_last v' bs) = blocks_set_last v bs"
  by (simp add: blocks_set_last_def block_set_def)

lemma blocks_set_last_append [simp]: "blocks_set_last v (bs @ [b]) = bs @ [block_set LAST_BLOCK v b]"
  by (simp add: blocks_set_last_def)

lemma blocks_set_last_Nil [simp]: "blocks_set_last v [] = []"
  by (simp add: blocks_set_last_def)

lemma block_set_id: "block_get LAST_BLOCK b = v \<Longrightarrow> block_set LAST_BLOCK v b = b"
  by (simp add: block_get_def block_set_def LAST_BLOCK_def set_flag_id)

lemma butlast_push_back [simp]: "butlast (blocks_push_back bs b) = blocks_set_last False bs"
  by (simp add: blocks_push_back_def)

lemma last_push_back [simp]: "last (blocks_push_back bs b) = block_set LAST_BLOCK True b"
  by (simp add: blocks_push_back_def)

lemma block_fresh_create: "block_fresh now k (block_set LAST_BLOCK True (block_create now k))"
proof -
  have "blk_eids (block_create now k) = []" by (cases k) (simp_all add: block_new_def)
  then show ?thesis by (auto simp: block_fresh_def set_flag_def)
qed

lemma block_mark_get [simp]:
  "block_get LAST_BLOCK (body_mark body b) = block_get LAST_BLOCK b"
  "block_get DISCARD_IF_NOT_PROCESSED (body_mark body b) = block_get DISCARD_IF_NOT_PROCESSED b"
  "block_get BLOCK_CONTAINS_EIDS (body_mark body b) = block_get BLOCK_CONTAINS_EIDS b"
  by (cases body; simp add: block_flag_defs block_get_set)+

lemma block_arrived_get [simp]:
  "block_get LAST_BLOCK (block_arrived now b) = block_get LAST_BLOCK b"
  "block_get DISCARD_IF_NOT_PROCESSED (block_arrived now b) = block_get DISCARD_IF_NOT_PROCESSED b"
  by (simp_all add: block_arrived_def) (simp_all add: block_get_def)

text \<open>Reading a block that is appended to the list.\<close>

lemma des_append_ser_block:
  assumes "blob_copy_ok copy" and "block_get BLOCK_CONTAINS_EIDS b \<Longrightarrow> linked w r"
    and "block_sent w b" and "\<And>b n. val_block v b n" and "k = body_kind (blk_body b)"
  shows "\<exists>r'. des_append copy v r bs (block_create now k) (ser_block w b @ s)
           = Inr (blocks_set_last False bs @ [block_arrived now b], r', block_get LAST_BLOCK b, s)
         \<and> (linked w r \<longrightarrow> linked w r')"
  using des_block_ser_block [OF assms(1-3) block_fresh_create [of now "body_kind (blk_body b)"], of v s] assms(4,5)
  by (auto simp: des_append_def Let_def)

text \<open>The class a block is read as, given what the factories know.\<close>

definition block_class_ok :: "factories \<Rightarrow> bool \<Rightarrow> block \<Rightarrow> bool" where
  "block_class_ok fs adm b \<longleftrightarrow>
     blk_type b \<noteq> 0 \<and>
     (if blk_type b = PAYLOAD_BLOCK_TYPE then
        (if adm then blk_eids b = [] \<and> \<not> block_get BLOCK_CONTAINS_EIDS b \<and>
           (case blk_body b of
              StatusReportBody r \<Rightarrow> drop_bit 4 (sr_admfield r) = 1
            | CustodySignalBody c \<Rightarrow> drop_bit 4 (cs_admfield c) = 2
            | _ \<Rightarrow> False)
         else body_kind (blk_body b) = PayloadK)
      else (case fs (blk_type b) of
              Some k \<Rightarrow> body_kind (blk_body b) = k
            | None \<Rightarrow> body_kind (blk_body b) = ExtensionK))"

text \<open>Blocks of unknown type that ask to be discarded do not arrive.\<close>

definition block_kept :: "factories \<Rightarrow> block \<Rightarrow> bool" where
  "block_kept fs b \<longleftrightarrow>
     blk_type b = PAYLOAD_BLOCK_TYPE \<or> fs (blk_type b) \<noteq> None \<or> \<not> block_get DISCARD_IF_NOT_PROCESSED b"

section \<open>Administrative records\<close>

lemma ser_block_no_eids:
  "\<not> block_get BLOCK_CONTAINS_EIDS b \<Longrightarrow> ser_block w b = ser_block w' b"
  by (simp add: ser_block_def ser_block_header_def wopt_def)

lemma ser_block_as_extension:
  "length (body_bytes (blk_body b)) = body_getLength (blk_body b) \<Longrightarrow>
     ser_block w (b\<lparr>blk_body := ExtensionBody (body_bytes (blk_body b))\<rparr>) = ser_block w b"
  by (simp add: ser_block_def ser_block_header_def block_get_def)

lemma linked_dict_copy: "linked w r \<Longrightarrow> linked w (r\<lparr>des_dict := snd (dict_copy (des_dict r))\<rparr>)"
  by (simp add: linked_def dict_copy_def dict_same_def)

lemma set_forwarded:
  "block_set FORWARDED_WITHOUT_PROCESSED v (block_set FORWARDED_WITHOUT_PROCESSED v' b)
     = block_set FORWARDED_WITHOUT_PROCESSED v b"
  by (simp add: block_set_def)

lemma set_body_swap:
  "(block_set f v b)\<lparr>blk_body := x\<rparr> = block_set f v (b\<lparr>blk_body := x\<rparr>)"
  by (simp add: block_set_def)

lemma des_admin_ser_block:
  assumes copy: "blob_copy_ok copy" and link: "linked w r" and sent: "block_sent w b"
    and v: "\<And>b n. val_block v b n" and no: "\<not> block_get BLOCK_CONTAINS_EIDS b"
    and adm: "body_bytes (blk_body b) = admfield # bytes"
    and k: "kind = body_kind (blk_body b)"
    and kind: "kind = StatusReportK \<and> drop_bit 4 admfield = 1 \<or> kind = CustodySignalK \<and> drop_bit 4 admfield = 2"
  shows "\<exists>r'. des_admin copy v now r bs (ser_block w b @ s)
           = Inr (blocks_set_last False bs @ [block_arrived now b], r', block_get LAST_BLOCK b, s)
         \<and> linked w r'"
proof -
  let ?body = "blk_body b"
  let ?fwd = "block_set FORWARDED_WITHOUT_PROCESSED True b"
  let ?ext = "b\<lparr>blk_body := ExtensionBody (body_bytes ?body)\<rparr>"
  have len: "length (body_bytes ?body) = body_getLength ?body"
    using kind k by (cases ?body) (auto simp: length_sr_bytes length_cs_bytes)
  have sent_ext: "block_sent w ?ext" and no_ext: "\<not> block_get BLOCK_CONTAINS_EIDS ?ext"
    using sent len no by (auto simp: block_sent_def block_get_def)
  have fresh: "block_fresh now (body_kind (blk_body ?ext)) (block_set LAST_BLOCK True (block_create now ExtensionK))"
    using block_fresh_create [of now ExtensionK] by simp
  obtain r1 where r1: "des_block copy v r (block_set LAST_BLOCK True (block_create now ExtensionK))
       (ser_block w b @ s) = Inr (block_arrived now ?ext, r1, s)" "linked w r1"
    using des_block_ser_block [OF copy _ sent_ext fresh, of r v s] v link ser_block_as_extension [OF len]
    by (auto simp del: block_create.simps)
  have no_fwd: "\<not> block_get BLOCK_CONTAINS_EIDS ?fwd"
    using no by (simp add: block_flag_defs block_get_set)
  have ext: "block_arrived now ?ext = ?fwd\<lparr>blk_body := ExtensionBody (body_bytes ?body)\<rparr>"
    by (simp add: block_arrived_def set_body_swap)
  have ss: "ser_block w0 (block_arrived now ?ext) = ser_block w ?fwd @ []" for w0
    using ser_block_as_extension [of ?fwd w0] ser_block_no_eids [OF no_fwd, of w0 w] len
    by (simp add: ext)
  have fwd: "block_arrived now ?fwd = block_arrived now b"
    using kind k by (cases ?body) (auto simp: block_arrived_def set_body_swap set_forwarded)
  have last: "block_get LAST_BLOCK ?fwd = block_get LAST_BLOCK b"
    by (simp add: block_flag_defs block_get_set)
  have sent_fwd: "block_sent w ?fwd" using sent no no_fwd by (simp add: block_sent_def)
  have r2: "\<exists>r2. des_append copy accept_validator r0 bs' (block_create now kind) (ser_block w ?fwd @ [])
      = Inr (blocks_set_last False bs' @ [block_arrived now b], r2, block_get LAST_BLOCK b, [])" for r0 bs'
    using des_append_ser_block [OF copy _ sent_fwd, of r0 accept_validator kind bs' now "[]"] no_fwd fwd last k
    by (auto simp: accept_validator_def)
  have body: "blk_body (block_arrived now ?ext) = ExtensionBody (admfield # bytes)"
    using ext adm by simp
  obtain d1 dA where c1: "dict_copy (des_dict r1) = (d1, dA)" by fastforce
  obtain d2 dB where c2: "dict_copy dA = (d2, dB)" by fastforce
  have "linked w (r1\<lparr>des_dict := dB\<rparr>)"
    using linked_dict_copy [OF linked_dict_copy [OF r1(2)]] c1 c2 by simp
  moreover have "blocks_pop (blocks_set_last False bs @ [block_arrived now ?ext]) = blocks_set_last True bs"
    by (simp add: blocks_pop_def)
  ultimately show ?thesis
    using r1(1) r2 [of "\<lparr>des_dict = d2, des_compressed = False\<rparr>" "blocks_set_last True bs"] kind
    by (auto simp: des_admin_def body c1 c2 ss simp del: block_create.simps)
qed

section \<open>Bundles\<close>

lemma ser_block_Cons: "\<exists>bytes. ser_block w b = blk_type b # bytes"
  by (simp add: ser_block_def ser_block_header_def)

definition blocks_next :: "factories \<Rightarrow> dtntime \<Rightarrow> block \<Rightarrow> block list \<Rightarrow> block list" where
  "blocks_next fs now b bs =
     (if block_kept fs b then blocks_set_last False bs @ [block_arrived now b] else blocks_set_last True bs)"

lemma des_unknown_ser_block:
  assumes "blob_copy_ok copy" and "linked w r" and "block_sent w b" and "\<And>b n. val_block v b n"
    and "body_kind (blk_body b) = ExtensionK"
  shows "\<exists>r'. des_unknown copy v now r bs (ser_block w b @ s)
           = Inr (if block_get DISCARD_IF_NOT_PROCESSED b then blocks_set_last True bs
                  else blocks_set_last False bs @ [block_arrived now b],
                  r', block_get LAST_BLOCK b, s) \<and> linked w r'"
  using des_append_ser_block [OF assms(1) _ assms(3), of r v ExtensionK bs now s] assms(2,4,5)
  by (auto simp: des_unknown_def blocks_pop_def simp del: block_create.simps)

lemma des_next_ser_block:
  assumes copy: "blob_copy_ok copy" and link: "linked w r" and sent: "block_sent w b"
    and v: "\<And>b n. val_block v b n" and ok: "block_class_ok fs adm b"
  shows "\<exists>r'. des_next copy v fs now adm r bs (ser_block w b @ s)
           = Inr (blocks_next fs now b bs, r', block_get LAST_BLOCK b, s) \<and> linked w r'"
proof -
  have nonzero: "blk_type b \<noteq> 0" using ok by (simp add: block_class_ok_def)
  obtain bytes where ser: "ser_block w b @ s = blk_type b # bytes"
    using ser_block_Cons [of w b] by auto
  have append: "\<exists>r'. des_append copy v r bs (block_create now k) (ser_block w b @ s)
       = Inr (blocks_set_last False bs @ [block_arrived now b], r', block_get LAST_BLOCK b, s) \<and> linked w r'"
    if "k = body_kind (blk_body b)" for k
    using des_append_ser_block [OF copy _ sent, of r v k bs now s] link v that by auto
  consider (adm) "blk_type b = PAYLOAD_BLOCK_TYPE" adm | (payload) "blk_type b = PAYLOAD_BLOCK_TYPE" "\<not> adm"
    | (unknown) "blk_type b \<noteq> PAYLOAD_BLOCK_TYPE" "fs (blk_type b) = None"
    | (known) k where "blk_type b \<noteq> PAYLOAD_BLOCK_TYPE" "fs (blk_type b) = Some k"
    by (cases "fs (blk_type b)") auto
  then show ?thesis
  proof cases
    case adm
    obtain a tl where a: "body_bytes (blk_body b) = a # tl"
        "body_kind (blk_body b) = StatusReportK \<and> drop_bit 4 a = 1
         \<or> body_kind (blk_body b) = CustodySignalK \<and> drop_bit 4 a = 2"
      using ok adm by (cases "blk_body b") (auto simp: block_class_ok_def sr_bytes_def cs_bytes_def)
    have "\<not> block_get BLOCK_CONTAINS_EIDS b" using ok adm by (simp add: block_class_ok_def)
    from des_admin_ser_block [OF copy link sent v this a(1) refl a(2), of now bs s]
    show ?thesis
      using adm nonzero ser by (auto simp: des_next_def blocks_next_def block_kept_def)
  next
    case payload
    then show ?thesis
      using append [of PayloadK] ok nonzero ser
      by (auto simp: des_next_def blocks_next_def block_kept_def block_class_ok_def simp del: block_create.simps)
  next
    case unknown
    then show ?thesis
      using des_unknown_ser_block [OF copy link sent v, where s = s and bs = bs and now = now] ok nonzero ser
      by (auto simp: des_next_def des_extension_def factory_get_def blocks_next_def block_kept_def
          block_class_ok_def)
  next
    case known
    then show ?thesis
      using append [of k] ok nonzero ser
      by (auto simp: des_next_def des_extension_def des_append_def factory_get_def blocks_next_def
          block_kept_def block_class_ok_def Let_def split: sum.splits)
  qed
qed

text \<open>Exactly the last block of a well-formed list carries the last-block flag.\<close>

definition blocks_last_ok :: "block list \<Rightarrow> bool" where
  "blocks_last_ok bs \<longleftrightarrow> bs \<noteq> [] \<and> block_get LAST_BLOCK (last bs)
     \<and> list_all (\<lambda>b. \<not> block_get LAST_BLOCK b) (butlast bs)"

definition blocks_arrived :: "factories \<Rightarrow> dtntime \<Rightarrow> block list \<Rightarrow> block list" where
  "blocks_arrived fs now bs = blocks_set_last True (map (block_arrived now) (filter (block_kept fs) bs))"

lemma foldl_blocks_next:
  assumes "list_all (\<lambda>b. \<not> block_get LAST_BLOCK b) bs"
  shows "blocks_set_last False (foldl (\<lambda>acc b. blocks_next fs now b acc) acc bs)
         = blocks_set_last False acc @ map (block_arrived now) (filter (block_kept fs) bs)"
  using assms
  by (induction bs arbitrary: acc) (auto simp: blocks_next_def block_set_id)

lemma foldl_blocks_next_all:
  assumes "blocks_last_ok bs"
  shows "foldl (\<lambda>acc b. blocks_next fs now b acc) [] bs = blocks_arrived fs now bs"
proof -
  obtain pre b where bs: "bs = pre @ [b]" and b: "block_get LAST_BLOCK b"
      and pre: "list_all (\<lambda>b. \<not> block_get LAST_BLOCK b) pre"
    using assms by (cases bs rule: rev_cases) (auto simp: blocks_last_ok_def)
  let ?acc = "foldl (\<lambda>acc b. blocks_next fs now b acc) [] pre"
  let ?xs = "map (block_arrived now) (filter (block_kept fs) pre)"
  have acc: "blocks_set_last False ?acc = ?xs"
    using foldl_blocks_next [OF pre, of fs now "[]"] by simp
  then have "blocks_set_last True ?acc = blocks_set_last True ?xs"
    by (metis blocks_set_last_set_last)
  with acc show ?thesis
    using b by (auto simp: bs blocks_next_def blocks_arrived_def block_set_id)
qed

lemma des_blocks_ser_blocks:
  assumes copy: "blob_copy_ok copy" and v: "\<And>b n. val_block v b n"
    and "linked w r" and "list_all (\<lambda>b. block_sent w b \<and> block_class_ok fs adm b) bs"
    and "blocks_last_ok bs"
  shows "\<exists>r'. des_blocks copy v fs now adm r acc (concat (map (ser_block w) bs) @ s)
           = Inr ((foldl (\<lambda>acc b. blocks_next fs now b acc) acc bs, r'), s) \<and> linked w r'"
  using assms(3-5)
proof (induction bs arbitrary: r acc)
  case Nil
  then show ?case by (simp add: blocks_last_ok_def)
next
  case (Cons b bs)
  let ?rest = "concat (map (ser_block w) bs) @ s"
  obtain r1 where r1: "des_next copy v fs now adm r acc (ser_block w b @ ?rest)
      = Inr (blocks_next fs now b acc, r1, block_get LAST_BLOCK b, ?rest)" "linked w r1"
    using des_next_ser_block [OF copy Cons.prems(1) _ v, of b fs adm now acc ?rest] Cons.prems(2) by auto
  show ?case
  proof (cases "bs = []")
    case True
    then have "block_get LAST_BLOCK b" using Cons.prems(3) by (simp add: blocks_last_ok_def)
    then show ?thesis using r1 True by (subst des_blocks_loop [OF copy]) simp
  next
    case False
    then have "\<not> block_get LAST_BLOCK b" and "blocks_last_ok bs"
      using Cons.prems(3) by (auto simp: blocks_last_ok_def)
    then show ?thesis
      using r1 Cons.IH [OF r1(2), of "blocks_next fs now b acc"] Cons.prems(2)
      by (subst des_blocks_loop [OF copy]) simp
  qed
qed

text \<open>The dictionary of a bundle holds all its identifiers.\<close>

lemma foldl_add_list: "foldl dict_add_list d ess = foldl dict_add_eid d (concat ess)"
  by (induction ess arbitrary: d) (simp_all add: dict_add_list_def)

lemma rebuildDictionary_eq:
  "ser_dict (ser_rebuildDictionary w b) = foldl dict_add_eid (dict_clear (ser_dict w)) (bundle_eids b)"
  by (simp add: ser_rebuildDictionary_def bundle_eids_def foldl_add_list)

lemma rebuildDictionary_has:
  assumes "\<not> dict_fail (ser_dict w)" and "list_all eid_ok (bundle_eids b)"
  shows "dict_inv (ser_dict (ser_rebuildDictionary w b))"
    and "e \<in> set (bundle_eids b) \<Longrightarrow> dict_has (ser_dict (ser_rebuildDictionary w b)) e"
proof -
  have "dict_inv (dict_clear (ser_dict w))"
    using dict_clear_rep [OF assms(1)] by (auto simp: dict_inv_def)
  from dict.fold_add [OF this assms(2)]
  show "dict_inv (ser_dict (ser_rebuildDictionary w b))"
    and "e \<in> set (bundle_eids b) \<Longrightarrow> dict_has (ser_dict (ser_rebuildDictionary w b)) e"
    by (auto simp: rebuildDictionary_eq)
qed

lemma dict_add_gpos: "dict_gpos (dict_add d v) = dict_gpos d"
  by (simp add: dict_add_def)

lemma rebuildDictionary_gpos: "dict_gpos (ser_dict (ser_rebuildDictionary w b)) = 0"
proof -
  have "dict_gpos (foldl dict_add_eid d es) = dict_gpos d" for d es
    by (induction es arbitrary: d) (simp_all add: dict_add_eid_def dict_add_gpos)
  then show ?thesis by (simp add: rebuildDictionary_eq dict_clear_def)
qed

text \<open>A bundle that can be written and read back exactly.\<close>

definition bundle_sendable :: "factories \<Rightarrow> dtn_bundle \<Rightarrow> bool" where
  "bundle_sendable fs b \<longleftrightarrow>
     (if ser_isCompressable b then list_all eid_exact (bundle_eids b)
      else list_all eid_ok (bundle_eids b)
           \<and> length (dict_bytes (foldl dict_add_eid dict_new (bundle_eids b))) < 2 ^ 64)
     \<and> blocks_last_ok (b_blocks b)
     \<and> list_all (\<lambda>x. block_class_ok fs (primary_get APPDATA_IS_ADMRECORD b) x
          \<and> (block_get BLOCK_CONTAINS_EIDS x \<or> blk_eids x = [])
          \<and> length (blk_eids x) < 2 ^ 64 \<and> body_getLength (blk_body x) < 2 ^ 64
          \<and> body_readable (blk_body x)) (b_blocks b)"

text \<open>The serializer when it starts to write a bundle.\<close>

definition ser_start :: "serializer \<Rightarrow> dtn_bundle \<Rightarrow> serializer" where
  "ser_start w b = (ser_rebuildDictionary w b)\<lparr>ser_compressable := ser_isCompressable b\<rparr>"

lemma ser_start_sent:
  assumes "\<not> dict_fail (ser_dict w)" and "bundle_sendable fs b" and "e \<in> set (bundle_eids b)"
  shows "eid_sent (ser_start w b) e"
proof (cases "ser_isCompressable b")
  case True
  then show ?thesis using assms by (auto simp: eid_sent_def ser_start_def bundle_sendable_def list_all_iff)
next
  case False
  then have ok: "list_all eid_ok (bundle_eids b)" using assms(2) by (simp add: bundle_sendable_def)
  have "dict_clear (ser_dict w) = dict_new"
    using assms(1) by (cases "ser_dict w") (simp add: dict_clear_def dict_new_def)
  then have "dict_fits (ser_dict (ser_rebuildDictionary w b))"
    using assms(2) False by (simp add: bundle_sendable_def dict_fits_def rebuildDictionary_eq)
  then show ?thesis
    using False rebuildDictionary_has [OF assms(1) ok] assms(3) ok
    by (auto simp: eid_sent_def ser_start_def list_all_iff)
qed

lemma ser_primary_ok:
  assumes "eid_sent w e" and "dict_gpos (ser_dict w) = 0"
  shows "\<exists>bs d'. ser_primary w p = Inr (bs, w\<lparr>ser_dict := d'\<rparr>) \<and> (\<exists>n. d' = (ser_dict w)\<lparr>dict_gpos := n\<rparr>)"
proof (cases "ser_compressable w")
  case True
  then show ?thesis
    by (auto simp: ser_primary_def intro!: exI [of _ "ser_dict w"] exI [of _ "dict_gpos (ser_dict w)"])
next
  case False
  then have "dict_has (ser_dict w) e" using assms(1) by (simp add: eid_sent_def)
  then have "dict_bytes (ser_dict w) \<noteq> []" by (auto simp: dict_has_def dict_rep_def dest: sym)
  then show ?thesis using False assms(2) by (auto simp: ser_primary_def dict_put_def Let_def)
qed

lemma eid_sent_put [simp]: "eid_sent (w\<lparr>ser_dict := (ser_dict w)\<lparr>dict_gpos := n\<rparr>\<rparr>) e = eid_sent w e"
  by (simp add: eid_sent_def)

definition bundle_arrived :: "factories \<Rightarrow> dtntime \<Rightarrow> dtn_bundle \<Rightarrow> dtn_bundle \<Rightarrow> dtn_bundle" where
  "bundle_arrived fs now obj b =
     primary.extend (primary_arrived (primary.truncate obj) (primary.truncate b))
       \<lparr>b_blocks = blocks_arrived fs now (b_blocks b)\<rparr>"

lemma truncate_sel [simp]:
  "p_procflags (primary.truncate b) = p_procflags b" "p_source (primary.truncate b) = p_source b"
  "p_destination (primary.truncate b) = p_destination b" "p_reportto (primary.truncate b) = p_reportto b"
  "p_custodian (primary.truncate b) = p_custodian b"
  by (simp_all add: primary.truncate_def)

lemma primary_arrived_get [simp]: "primary_get f (primary_arrived obj p) = primary_get f p"
  by (simp add: primary_arrived_def primary_get_def)

lemma primary_truncate_get [simp]: "primary_get f (primary.truncate b) = primary_get f b"
  by (simp add: primary_get_def)

text \<open>Reading a primary block and the blocks written behind it.\<close>

lemma des_bundle_written:
  assumes copy: "blob_copy_ok copy" and ser: "ser_primary w p = Inr (bs, w')"
    and pos: "dict_gpos (ser_dict w) = 0" and r: "\<not> dict_fail (des_dict r)" and p: "primary_sent w p"
    and blocks: "list_all (\<lambda>x. block_sent w' x \<and> block_class_ok fs (primary_get APPDATA_IS_ADMRECORD p) x) bl"
    and last: "blocks_last_ok bl"
  shows "\<exists>r'. des_bundle copy accept_validator fs now r obj (bs @ concat (map (ser_block w') bl) @ s)
           = Inr ((primary.extend (primary_arrived (primary.truncate obj) p)
                     \<lparr>b_blocks = blocks_arrived fs now bl\<rparr>, r'), s) \<and> linked w' r'"
proof -
  let ?rest = "concat (map (ser_block w') bl) @ s" and ?o = "primary.truncate obj"
  obtain r1 where r1: "des_primary accept_validator r ?o (bs @ ?rest) = Inr ((primary_arrived ?o p, r1), ?rest)"
      "linked w' r1"
    using des_primary_ser_primary [OF ser pos r p, of accept_validator ?o ?rest]
    by (auto simp: accept_validator_def)
  obtain r2 where "des_blocks copy accept_validator fs now (primary_get APPDATA_IS_ADMRECORD p) r1 [] ?rest
      = Inr ((blocks_arrived fs now bl, r2), s)" "linked w' r2"
    using des_blocks_ser_blocks [OF copy _ r1(2) blocks last, of accept_validator now "[]" s]
      foldl_blocks_next_all [OF last, of fs now]
    by (auto simp: accept_validator_def)
  then show ?thesis
    using r1(1) by (simp add: des_bundle_def accept_validator_def Let_def)
qed

lemma ser_start_written:
  assumes w: "\<not> dict_fail (ser_dict w)" and b: "bundle_sendable fs b"
  shows "\<exists>bs n. ser_primary (ser_start w b) p
           = Inr (bs, (ser_start w b)\<lparr>ser_dict := (ser_dict (ser_start w b))\<lparr>dict_gpos := n\<rparr>\<rparr>)
         \<and> dict_gpos (ser_dict (ser_start w b)) = 0
         \<and> list_all (\<lambda>x. block_sent ((ser_start w b)\<lparr>ser_dict := (ser_dict (ser_start w b))\<lparr>dict_gpos := n\<rparr>\<rparr>) x
              \<and> block_class_ok fs (primary_get APPDATA_IS_ADMRECORD b) x) (b_blocks b)"
proof -
  note sent = ser_start_sent [OF w b]
  have pos: "dict_gpos (ser_dict (ser_start w b)) = 0" by (simp add: ser_start_def rebuildDictionary_gpos)
  obtain bs n where "ser_primary (ser_start w b) p
      = Inr (bs, (ser_start w b)\<lparr>ser_dict := (ser_dict (ser_start w b))\<lparr>dict_gpos := n\<rparr>\<rparr>)"
    using ser_primary_ok [OF sent pos, of "p_source b" p] by (auto simp: bundle_eids_def)
  moreover have "list_all (\<lambda>x. block_sent ((ser_start w b)\<lparr>ser_dict := (ser_dict (ser_start w b))\<lparr>dict_gpos := n\<rparr>\<rparr>) x
        \<and> block_class_ok fs (primary_get APPDATA_IS_ADMRECORD b) x) (b_blocks b)"
    using b sent by (fastforce simp: bundle_sendable_def block_sent_def list_all_iff bundle_eids_def)
  ultimately show ?thesis using pos by blast
qed

lemma des_bundle_ser_bundle:
  assumes copy: "blob_copy_ok copy" and w: "\<not> dict_fail (ser_dict w)" and r: "\<not> dict_fail (des_dict r)"
    and b: "bundle_sendable fs b"
  shows "\<exists>bytes w'. ser_bundle w b = Inr (bytes, w') \<and>
           (\<forall>s. \<exists>r'. des_bundle copy accept_validator fs now r obj (bytes @ s)
                   = Inr ((bundle_arrived fs now obj b, r'), s) \<and> \<not> dict_fail (des_dict r'))"
proof -
  let ?w = "ser_start w b" and ?p = "primary.truncate b"
  obtain bs n where ser: "ser_primary ?w ?p = Inr (bs, ?w\<lparr>ser_dict := (ser_dict ?w)\<lparr>dict_gpos := n\<rparr>\<rparr>)"
      and pos: "dict_gpos (ser_dict ?w) = 0"
      and blocks: "list_all (\<lambda>x. block_sent (?w\<lparr>ser_dict := (ser_dict ?w)\<lparr>dict_gpos := n\<rparr>\<rparr>) x
          \<and> block_class_ok fs (primary_get APPDATA_IS_ADMRECORD b) x) (b_blocks b)"
    using ser_start_written [OF w b, of ?p] by blast
  have p: "primary_sent ?w ?p"
    using ser_start_sent [OF w b] by (simp add: primary_sent_def bundle_eids_def)
  have last: "blocks_last_ok (b_blocks b)" using b by (simp add: bundle_sendable_def)
  let ?w' = "?w\<lparr>ser_dict := (ser_dict ?w)\<lparr>dict_gpos := n\<rparr>\<rparr>"
  have "ser_bundle w b = Inr (bs @ concat (map (ser_block ?w') (b_blocks b)), ?w')"
    using ser by (simp add: ser_bundle_def ser_start_def Let_def)
  then show ?thesis
    using des_bundle_written [OF copy ser pos r p _ last, of fs now obj] blocks
    by (fastforce simp: bundle_arrived_def linked_def)
qed

text \<open>C1: a bundle that was written by the serializer is read back by the deserializer: the same
  primary block, the same blocks in the same order with their identifiers and payloads, with and
  without header compression, administrative records included. Only blocks of unknown type that
  ask to be discarded are missing, and the last block that is left carries the last-block
  flag.\<close>

theorem bundle_roundtrip:
  assumes copy: "blob_copy_ok copy" and w: "\<not> dict_fail (ser_dict w)" and r: "\<not> dict_fail (des_dict r)"
    and b: "bundle_sendable fs b"
  shows "\<exists>bytes w'. ser_bundle w b = Inr (bytes, w') \<and>
           (\<forall>s. \<exists>r'. des_bundle copy accept_validator fs now r obj (bytes @ s)
                   = Inr ((bundle_arrived fs now obj b, r'), s) \<and> \<not> dict_fail (des_dict r'))"
  using assms by (rule des_bundle_ser_bundle)

text \<open>A bundle with an age block and a payload block.\<close>

definition sample_bundle :: dtn_bundle where
  "sample_bundle =
     \<lparr>p_procflags = 0x10, p_timestamp = 300, p_sequencenumber = 1, p_lifetime = 3600,
      p_fragmentoffset = 0, p_appdatalength = 0, p_source = \<lparr>scheme = ''dtn'', ssp = ''//a/x''\<rparr>,
      p_destination = \<lparr>scheme = ''dtn'', ssp = ''//b/y''\<rparr>, p_reportto = eid_none, p_custodian = eid_none,
      b_blocks = [\<lparr>blk_type = 10, blk_eids = [], blk_flags = 1, blk_body = AgeBody 5 0 0\<rparr>,
                  \<lparr>blk_type = 1, blk_eids = [], blk_flags = 8, blk_body = PayloadBody [1, 2, 3]\<rparr>]\<rparr>"

lemma sample_bundle_sendable: "bundle_sendable default_factories sample_bundle"
proof -
  have "length (dict_bytes (foldl dict_add_eid dict_new (bundle_eids sample_bundle))) = 21" by code_simp
  moreover have "list_all eid_ok (bundle_eids sample_bundle)"
    by (simp add: bundle_eids_def sample_bundle_def eid_ok_def str_ok_def eid_none_def DEFAULT_SCHEME_def
        eid_trimmed_def trimmed_def is_blank_def)
  moreover have "\<not> ser_isCompressable sample_bundle" by code_simp
  moreover have "blocks_last_ok (b_blocks sample_bundle)" by code_simp
  moreover have "list_all (block_class_ok default_factories (primary_get APPDATA_IS_ADMRECORD sample_bundle))
      (b_blocks sample_bundle)" by code_simp
  ultimately show ?thesis
    by (simp add: bundle_sendable_def) (simp add: sample_bundle_def sdnv_count.simps age_getMicroseconds_def)
qed

theorem bundle_roundtrip_witness:
  "\<exists>bytes w'. ser_bundle ser_new sample_bundle = Inr (bytes, w') \<and>
     (\<forall>s. \<exists>r'. des_bundle rtake accept_validator default_factories sample_time des_new sample_object (bytes @ s)
             = Inr ((bundle_arrived default_factories sample_time sample_object sample_bundle, r'), s)
             \<and> \<not> dict_fail (des_dict r'))"
  by (rule bundle_roundtrip [OF blob_copy_ok_rtake _ _ sample_bundle_sendable])
     (simp_all add: ser_new_def des_new_def dict_new_def)

end
