(* ===== verification/Separate.thy ===== *)
theory Separate
  imports RoundTrip
begin

text \<open>
  \<open>SeparateSerializer\<close> and \<open>SeparateDeserializer\<close> of \<open>ibrdtn/data/Serializer.cpp\<close>:
  single blocks without a dictionary, each identifier written as a string.
\<close>

section \<open>Writing\<close>

definition sep_block :: "block \<Rightarrow> byte list" where
  "sep_block obj =
     blk_type obj # sdnv_bytes (blk_flags obj)
     @ wopt (block_get BLOCK_CONTAINS_EIDS obj)
         (sdnv_bytes (word_of_nat (length (blk_eids obj)))
          @ concat (map (\<lambda>e. bstr_bytes (eid_getString e)) (blk_eids obj)))
     @ sdnv_bytes (word_of_nat (body_getLength (blk_body obj)))
     @ body_bytes (blk_body obj)"

definition sep_getLength :: "block \<Rightarrow> nat" where
  "sep_getLength obj =
     1 + sdnv_count (blk_flags obj)
     + (if block_get BLOCK_CONTAINS_EIDS obj
        then sdnv_count (word_of_nat (length (blk_eids obj)))
             + sum_list (map (\<lambda>e. bstr_getLength (eid_getString e)) (blk_eids obj))
        else 0)
     + body_getLength (blk_body obj)"

section \<open>Reading\<close>

text \<open>
  Here the flags of the wire replace all flags of the block. As in the default format, a
  failed read leaves a block that one caller keeps.
\<close>

type_synonym sep_result = "(ibr_error \<times> block \<times> byte list) + (block \<times> byte list)"

fun sep_block_eids :: "nat \<Rightarrow> block \<Rightarrow> byte list \<Rightarrow> sep_result" where
  "sep_block_eids 0 b s = Inr (b, s)"
| "sep_block_eids (Suc n) b s =
     (case get_bstr s of
        Inl (e, s') \<Rightarrow> Inl (e, b, s')
      | Inr (str, s') \<Rightarrow> sep_block_eids n (block_addEID (eid_parse str) b) s')"

definition sep_block_body ::
  "(nat \<Rightarrow> byte list reader) \<Rightarrow> validator \<Rightarrow> block \<Rightarrow> byte list \<Rightarrow> sep_result" where
  "sep_block_body copy v b s =
     (case get_sdnv s of
        Inl (e, s') \<Rightarrow> Inl (e, b, s')
      | Inr (block_size, s') \<Rightarrow>
          if \<not> val_block v b block_size then Inl (RejectedException, b, s')
          else
            (case block_deserialize copy b (unat block_size) (blk_body b) s' of
               Inl (e, s'') \<Rightarrow> Inl (e, b\<lparr>blk_body := body_left (blk_body b) s'\<rparr>, s'')
             | Inr r \<Rightarrow> Inr r))"

definition sep_des_block ::
  "(nat \<Rightarrow> byte list reader) \<Rightarrow> validator \<Rightarrow> block \<Rightarrow> byte list \<Rightarrow> sep_result" where
  "sep_des_block copy v obj s =
     (case rbyte s of
        Inl (e, s') \<Rightarrow> Inl (e, obj, s')
      | Inr (t, s1) \<Rightarrow>
          (case get_sdnv s1 of
             Inl (e, s') \<Rightarrow> Inl (e, obj\<lparr>blk_type := t\<rparr>, s')
           | Inr (flags, s2) \<Rightarrow>
               (let b = obj\<lparr>blk_type := t, blk_flags := flags\<rparr>
                in if block_get BLOCK_CONTAINS_EIDS b then
                     (case get_sdnv s2 of
                        Inl (e, s') \<Rightarrow> Inl (e, b, s')
                      | Inr (eidcount, s3) \<Rightarrow>
                          (case sep_block_eids (unat eidcount) b s3 of
                             Inl x \<Rightarrow> Inl x
                           | Inr (b', s4) \<Rightarrow> sep_block_body copy v b' s4))
                   else sep_block_body copy v b s2)))"

text \<open>
  \<open>readBlock\<close>: the new block is appended to the bundle and read. An administrative
  record is read twice, the second time from the same position; for an unknown record the
  source returns a reference to a block it has removed. An exception, also one from reading
  a known block, leads to one more block being read.
\<close>

definition sep_append ::
  "(nat \<Rightarrow> byte list reader) \<Rightarrow> validator \<Rightarrow> block list \<Rightarrow> block \<Rightarrow> byte list
     \<Rightarrow> (ibr_error \<times> block list \<times> byte list) + block list \<times> byte list" where
  "sep_append copy v bs new s =
     (let bs1 = blocks_push_back bs new
      in case sep_des_block copy v (last bs1) s of
           Inl (e, b, s') \<Rightarrow> Inl (e, butlast bs1 @ [b], s')
         | Inr (b, s') \<Rightarrow> Inr (butlast bs1 @ [b], s'))"

definition sep_throw ::
  "(ibr_error \<times> block list \<times> byte list) + block list \<times> byte list \<Rightarrow> (ibr_error \<times> byte list) + block list \<times> byte list" where
  "sep_throw r = (case r of Inl (e, _, s') \<Rightarrow> Inl (e, s') | Inr x \<Rightarrow> Inr x)"

definition sep_readBlock ::
  "(nat \<Rightarrow> byte list reader) \<Rightarrow> validator \<Rightarrow> factories \<Rightarrow> dtntime \<Rightarrow> bool \<Rightarrow> block list \<Rightarrow> block list reader" where
  "sep_readBlock copy v fs now admrecord bs s =
     (case s of
        [] \<Rightarrow> Inl (EndOfStream, [])
      | block_type # _ \<Rightarrow>
          if block_type = 0 then Inl (InvalidDataException, s)
          else if block_type = PAYLOAD_BLOCK_TYPE then
            (if admrecord then
               (case sep_append copy v bs (block_create now ExtensionK) s of
                  Inl (e, _, s') \<Rightarrow> Inl (e, s')
                | Inr (bs1, s') \<Rightarrow>
                    (case blk_body (last bs1) of
                       ExtensionBody (admfield # _) \<Rightarrow>
                         if drop_bit 4 admfield = 1 then
                           sep_throw (sep_append copy v (blocks_pop bs1) (block_create now StatusReportK) s)
                         else if drop_bit 4 admfield = 2 then
                           sep_throw (sep_append copy v (blocks_pop bs1) (block_create now CustodySignalK) s)
                         else Inl (Indeterminate, s)
                     | _ \<Rightarrow> Inl (Indeterminate, s')))
             else sep_throw (sep_append copy v bs (block_create now PayloadK) s))
          else
            (case factory_get fs block_type of
               Inl _ \<Rightarrow> sep_throw (sep_append copy v bs (block_create now ExtensionK) s)
             | Inr k \<Rightarrow>
                 (case sep_append copy v bs (block_create now k) s of
                    Inr r \<Rightarrow> Inr r
                  | Inl (e, bs', s') \<Rightarrow>
                      if is_exception e
                      then sep_throw (sep_append copy v bs' (block_create now ExtensionK) s')
                      else Inl (e, s'))))"

section \<open>Round trip\<close>

definition sep_sent :: "block \<Rightarrow> bool" where
  "sep_sent b \<longleftrightarrow>
     (block_get BLOCK_CONTAINS_EIDS b \<or> blk_eids b = [])
     \<and> list_all (\<lambda>e. eid_canonical e \<and> length (eid_getString e) < 2 ^ 63) (blk_eids b)
     \<and> length (blk_eids b) < 2 ^ 64 \<and> body_getLength (blk_body b) < 2 ^ 64
     \<and> body_readable (blk_body b)"

lemma sep_block_eids_bytes:
  "list_all (\<lambda>e. eid_canonical e \<and> length (eid_getString e) < 2 ^ 63) es \<Longrightarrow>
     sep_block_eids (length es) b (concat (map (\<lambda>e. bstr_bytes (eid_getString e)) es) @ s)
     = Inr (foldl (\<lambda>b e. block_addEID e b) b es, s)"
  by (induction es arbitrary: b) (simp_all add: get_bstr_bytes eid_parse_getString)

lemma sep_block_body_bytes:
  assumes "blob_copy_ok copy" and "body_readable body" and "body_getLength body < 2 ^ 64"
    and "blk_body b = blk_body (block_create now (body_kind body))" and "\<And>n. val_block v b n"
  shows "sep_block_body copy v b (sdnv_bytes (word_of_nat (body_getLength body)) @ body_bytes body @ s)
         = Inr (body_mark body (b\<lparr>blk_body := body_arrived now body\<rparr>), s)"
  using assms block_deserialize_bytes [OF assms(1,2), of b now s]
  by (simp add: sep_block_body_def get_sdnv_bytes unat_of_nat)

lemma sep_des_block_bytes:
  assumes copy: "blob_copy_ok copy" and sent: "sep_sent b" and v: "\<And>b n. val_block v b n"
    and obj: "blk_eids obj = []" "blk_body obj = blk_body (block_create now (body_kind (blk_body b)))"
  shows "sep_des_block copy v obj (sep_block b @ s) = Inr (block_arrived now b, s)"
proof -
  let ?b2 = "obj\<lparr>blk_type := blk_type b, blk_flags := blk_flags b\<rparr>"
  let ?b3 = "?b2\<lparr>blk_eids := blk_eids b\<rparr>"
  have flag: "block_get BLOCK_CONTAINS_EIDS ?b2 = block_get BLOCK_CONTAINS_EIDS b"
    by (simp add: block_get_def)
  have same: "?b3\<lparr>blk_body := x\<rparr> = b\<lparr>blk_body := x\<rparr>" for x
    by (rule block.equality) simp_all
  have body: "sep_block_body copy v ?b3
      (sdnv_bytes (word_of_nat (body_getLength (blk_body b))) @ body_bytes (blk_body b) @ s)
      = Inr (block_arrived now b, s)"
    using sep_block_body_bytes [OF copy, of "blk_body b" ?b3 now v s] sent v obj same
    by (simp add: sep_sent_def block_arrived_def)
  have n: "unat (word_of_nat (length (blk_eids b)) :: u64) = length (blk_eids b)"
    using sent by (simp add: sep_sent_def unat_of_nat)
  show ?thesis
  proof (cases "block_get BLOCK_CONTAINS_EIDS b")
    case True
    then show ?thesis
      using flag body n block_addEID_fold [of ?b2 "blk_eids b"] obj(1) sent
      by (simp add: sep_des_block_def sep_block_def wopt_def get_sdnv_bytes sep_sent_def
          sep_block_eids_bytes [simplified])
  next
    case False
    then have "?b3 = ?b2" using sent obj(1) by (simp add: sep_sent_def)
    then show ?thesis
      using False flag body
      by (simp add: sep_des_block_def sep_block_def wopt_def get_sdnv_bytes)
  qed
qed

lemma length_sep_block:
  assumes "body_steady (blk_body b)"
  shows "length (sep_block b) = sep_getLength b + sdnv_count (word_of_nat (body_getLength (blk_body b)))"
  using assms
  by (simp add: sep_block_def sep_getLength_def length_body_bytes length_sdnv_bytes wopt_def
      length_concat comp_def bstr_bytes_def bstr_getLength_def)

lemma sep_append_bytes:
  assumes "blob_copy_ok copy" and "sep_sent b" and "\<And>b n. val_block v b n"
    and "k = body_kind (blk_body b)"
  shows "sep_append copy v bs (block_create now k) (sep_block b @ s)
         = Inr (blocks_set_last False bs @ [block_arrived now b], s)"
proof -
  have "blk_eids (block_set LAST_BLOCK True (block_create now k)) = []"
    using block_fresh_create [of now k] by (simp add: block_fresh_def)
  then show ?thesis
    using sep_des_block_bytes [OF assms(1,2,3), of "block_set LAST_BLOCK True (block_create now k)" now s] assms(4)
    by (simp add: sep_append_def)
qed

lemma sep_block_as_extension:
  "length (body_bytes (blk_body b)) = body_getLength (blk_body b) \<Longrightarrow>
     sep_block (b\<lparr>blk_body := ExtensionBody (body_bytes (blk_body b))\<rparr>) = sep_block b"
  by (simp add: sep_block_def block_get_def)

lemma sep_readBlock_adm:
  assumes copy: "blob_copy_ok copy" and sent: "sep_sent b" and v: "\<And>b n. val_block v b n"
    and ok: "block_class_ok fs True b" and t: "blk_type b = PAYLOAD_BLOCK_TYPE"
  shows "sep_readBlock copy v fs now True bs (sep_block b @ s)
         = Inr (blocks_set_last False bs @ [block_arrived now b], s)"
proof -
  let ?ext = "b\<lparr>blk_body := ExtensionBody (body_bytes (blk_body b))\<rparr>"
  obtain a tl where a: "body_bytes (blk_body b) = a # tl"
      "body_kind (blk_body b) = StatusReportK \<and> drop_bit 4 a = 1
       \<or> body_kind (blk_body b) = CustodySignalK \<and> drop_bit 4 a = 2"
    using ok t by (cases "blk_body b") (auto simp: block_class_ok_def sr_bytes_def cs_bytes_def)
  have len: "length (body_bytes (blk_body b)) = body_getLength (blk_body b)"
    using a(2) by (cases "blk_body b") (auto simp: length_sr_bytes length_cs_bytes)
  have "sep_sent ?ext" using sent len by (auto simp: sep_sent_def block_get_def)
  from sep_append_bytes [OF copy this v, of ExtensionK bs now s]
  have tmp: "sep_append copy v bs (block_create now ExtensionK) (sep_block b @ s)
      = Inr (blocks_set_last False bs @ [block_arrived now ?ext], s)"
    using sep_block_as_extension [OF len] by simp
  have body: "blk_body (block_arrived now ?ext) = ExtensionBody (a # tl)"
    using a(1) by (simp add: block_arrived_def)
  have pop: "blocks_pop (blocks_set_last False bs @ [x]) = blocks_set_last True bs" for x
    by (simp add: blocks_pop_def)
  obtain bytes where "sep_block b @ s = blk_type b # bytes" by (simp add: sep_block_def)
  moreover have "blk_type b \<noteq> 0" using ok by (simp add: block_class_ok_def)
  ultimately show ?thesis
    using sep_append_bytes [OF copy sent v refl, of "blocks_set_last True bs" now s] tmp body a(2) t
    by (auto simp: sep_readBlock_def sep_throw_def pop simp del: block_create.simps)
qed

lemma sep_readBlock_bytes:
  assumes copy: "blob_copy_ok copy" and sent: "sep_sent b" and v: "\<And>b n. val_block v b n"
    and ok: "block_class_ok fs adm b"
  shows "sep_readBlock copy v fs now adm bs (sep_block b @ s)
         = Inr (blocks_set_last False bs @ [block_arrived now b], s)"
proof (cases "adm \<and> blk_type b = PAYLOAD_BLOCK_TYPE")
  case True
  then show ?thesis using sep_readBlock_adm [OF copy sent v] ok by simp
next
  case False
  obtain bytes where ser: "sep_block b @ s = blk_type b # bytes" by (simp add: sep_block_def)
  have nonzero: "blk_type b \<noteq> 0" using ok by (simp add: block_class_ok_def)
  show ?thesis
    using False ok nonzero ser sep_append_bytes [OF copy sent v, of _ bs now s]
    by (auto simp: sep_readBlock_def sep_throw_def block_class_ok_def factory_get_def
        simp del: block_create.simps split: option.splits)
qed

section \<open>Correctness\<close>

text \<open>A single block written with its identifiers as strings is read back and appended to
  the bundle: the same class, identifiers and payload, and the rest of the stream is left
  alone.\<close>

theorem separate_block_roundtrip:
  assumes "blob_copy_ok copy" and "sep_sent b" and "\<And>b n. val_block v b n" and "block_class_ok fs adm b"
  shows "sep_readBlock copy v fs now adm bs (sep_block b @ s)
         = Inr (blocks_set_last False bs @ [block_arrived now b], s)"
  using assms by (rule sep_readBlock_bytes)

definition sample_block :: block where
  "sample_block =
     \<lparr>blk_type = 1, blk_eids = [\<lparr>scheme = ''dtn'', ssp = ''//a''\<rparr>], blk_flags = 0x48, blk_body = PayloadBody [7, 8]\<rparr>"

theorem separate_block_roundtrip_witness:
  "sep_readBlock rtake accept_validator default_factories sample_time False [] (sep_block sample_block @ [9])
     = Inr ([block_arrived sample_time sample_block], [9])"
proof -
  have "block_class_ok default_factories False sample_block" by code_simp
  moreover have "block_get BLOCK_CONTAINS_EIDS sample_block" by code_simp
  then have "sep_sent sample_block"
    by (simp add: sep_sent_def)
       (simp add: sample_block_def eid_canonical_def is_blank_def eid_getString_def)
  ultimately show ?thesis
    using separate_block_roundtrip [OF blob_copy_ok_rtake, of sample_block accept_validator default_factories
        False sample_time "[]" "[9]"]
    by (simp add: accept_validator_def)
qed

end
