(* ===== verification/BlockList.thy ===== *)
theory BlockList
  imports RoundTrip
begin

text \<open>
  The block list of a bundle (\<open>Bundle::BlockList\<close> of \<open>ibrdtn/data/Bundle.cpp\<close>).
  A list holds reference-counted pointers, and copying a bundle copies the pointers: the
  model keeps the blocks in a store and a list of addresses per bundle. The serializers
  work on the blocks themselves; the refinement at the end connects the two views.
\<close>

section \<open>Store and lists\<close>

type_synonym addr = nat

type_synonym store = "addr \<rightharpoonup> block"

definition store_set_last :: "store \<Rightarrow> addr \<Rightarrow> bool \<Rightarrow> store" where
  "store_set_last h a v = h(a := map_option (block_set LAST_BLOCK v) (h a))"

definition bl_assign :: "addr list \<Rightarrow> addr list" where
  "bl_assign ref = foldl (\<lambda>bs a. bs @ [a]) [] ref"

definition bl_push_front :: "store \<Rightarrow> addr list \<Rightarrow> addr \<Rightarrow> store \<times> addr list" where
  "bl_push_front h xs a = (if xs = [] then store_set_last h a True else h, a # xs)"

definition bl_push_back :: "store \<Rightarrow> addr list \<Rightarrow> addr \<Rightarrow> store \<times> addr list" where
  "bl_push_back h xs a =
     (let h1 = store_set_last h a True;
          h2 = (if xs \<noteq> [] then store_set_last h1 (last xs) False else h1)
      in (h2, xs @ [a]))"

fun bl_insert :: "addr list \<Rightarrow> addr \<Rightarrow> addr \<Rightarrow> addr list" where
  "bl_insert [] a before = []"
| "bl_insert (x # xs) a before = (if x = before then a # x # xs else x # bl_insert xs a before)"

definition bl_remove :: "store \<Rightarrow> addr list \<Rightarrow> addr \<Rightarrow> store \<times> addr list" where
  "bl_remove h xs a =
     (if a \<in> set xs then
        (let ys = remove1 a xs
         in (if ys \<noteq> [] then store_set_last h (last ys) True else h, ys))
      else (h, xs))"

definition bl_clear :: "addr list \<Rightarrow> addr list" where
  "bl_clear xs = []"

definition bl_size :: "addr list \<Rightarrow> nat" where
  "bl_size xs = length xs"

section \<open>Lookup\<close>

text \<open>\<open>index\<close> is an \<open>int\<close>, compared with the unsigned size.\<close>

definition bl_get :: "addr list \<Rightarrow> int \<Rightarrow> ibr_error + addr" where
  "bl_get xs index =
     (if index < 0 \<or> int (length xs) \<le> index then Inl NoSuchBlockFoundException
      else Inr (xs ! nat index))"

text \<open>
  \<open>get<T>()\<close>: the first block with the type number of \<open>T\<close> decides; if it is of another
  class, the bad cast ends the search.
\<close>

fun bl_get_block :: "store \<Rightarrow> byte \<Rightarrow> block_kind \<Rightarrow> addr list \<Rightarrow> ibr_error + addr" where
  "bl_get_block h t k [] = Inl NoSuchBlockFoundException"
| "bl_get_block h t k (a # xs) =
     (case h a of
        None \<Rightarrow> Inl Indeterminate
      | Some b \<Rightarrow>
          if blk_type b = t then
            (if body_kind (blk_body b) = k then Inr a else Inl NoSuchBlockFoundException)
          else bl_get_block h t k xs)"

text \<open>The specialisations for the administrative records look for the payload type.\<close>

definition bl_get_custody :: "store \<Rightarrow> addr list \<Rightarrow> ibr_error + addr" where
  "bl_get_custody h xs = bl_get_block h PAYLOAD_BLOCK_TYPE CustodySignalK xs"

definition bl_get_statusreport :: "store \<Rightarrow> addr list \<Rightarrow> ibr_error + addr" where
  "bl_get_statusreport h xs = bl_get_block h PAYLOAD_BLOCK_TYPE StatusReportK xs"

definition bl_getList :: "store \<Rightarrow> byte \<Rightarrow> block_kind \<Rightarrow> addr list \<Rightarrow> addr list" where
  "bl_getList h t k xs =
     filter (\<lambda>a. case h a of None \<Rightarrow> False
                 | Some b \<Rightarrow> blk_type b = t \<and> body_kind (blk_body b) = k) xs"

definition bl_getEIDs :: "store \<Rightarrow> addr list \<Rightarrow> eid set" where
  "bl_getEIDs h xs =
     foldl (\<lambda>ret a. case h a of None \<Rightarrow> ret | Some b \<Rightarrow> foldl (\<lambda>r e. insert e r) ret (blk_eids b)) {} xs"

section \<open>Bundles\<close>

text \<open>\<open>new T()\<close> at a free address, then \<open>push_back\<close>, \<open>push_front\<close> or \<open>insert\<close>.\<close>

definition bundle_push_back :: "store \<Rightarrow> addr list \<Rightarrow> addr \<Rightarrow> block \<Rightarrow> store \<times> addr list" where
  "bundle_push_back h xs a b = bl_push_back (h(a \<mapsto> b)) xs a"

definition bundle_push_front :: "store \<Rightarrow> addr list \<Rightarrow> addr \<Rightarrow> block \<Rightarrow> store \<times> addr list" where
  "bundle_push_front h xs a b = bl_push_front (h(a \<mapsto> b)) xs a"

definition bundle_insert :: "store \<Rightarrow> addr list \<Rightarrow> addr \<Rightarrow> addr \<Rightarrow> block \<Rightarrow> store \<times> addr list" where
  "bundle_insert h xs before a b = (h(a \<mapsto> b), bl_insert xs a before)"

text \<open>\<open>Bundle()\<close>: without a timestamp the bundle gets an age block.\<close>

definition bundle_init :: "store \<Rightarrow> addr \<Rightarrow> u64 \<Rightarrow> store \<times> addr list" where
  "bundle_init h a timestamp = (if timestamp = 0 then bundle_push_front h [] a age_new else (h, []))"

section \<open>Exactly the last block carries the flag\<close>

definition bl_inv :: "store \<Rightarrow> addr list \<Rightarrow> bool" where
  "bl_inv h xs \<longleftrightarrow> distinct xs
     \<and> (\<forall>a \<in> set xs. \<exists>b. h a = Some b \<and> (block_get LAST_BLOCK b \<longleftrightarrow> a = last xs))"

lemma get_last_set [simp]: "block_get LAST_BLOCK (block_set LAST_BLOCK v b) = v"
  by (simp add: LAST_BLOCK_def block_get_set)

lemma store_set_last_simps [simp]:
  "store_set_last h a v a = map_option (block_set LAST_BLOCK v) (h a)"
  "a' \<noteq> a \<Longrightarrow> store_set_last h a v a' = h a'"
  by (simp_all add: store_set_last_def)

lemma bl_inv_Nil [simp]: "bl_inv h []"
  by (simp add: bl_inv_def)

lemma bl_inv_append:
  "bl_inv h (xs @ [a]) \<longleftrightarrow> distinct xs \<and> a \<notin> set xs
     \<and> (\<exists>b. h a = Some b \<and> block_get LAST_BLOCK b)
     \<and> (\<forall>x \<in> set xs. \<exists>b. h x = Some b \<and> \<not> block_get LAST_BLOCK b)"
  by (auto simp: bl_inv_def)

lemma bl_assign_eq [simp]: "bl_assign xs = xs"
proof -
  have "foldl (\<lambda>bs a. bs @ [a]) ys xs = ys @ xs" for ys by (induction xs arbitrary: ys) simp_all
  then show ?thesis by (simp add: bl_assign_def)
qed

lemma bl_push_back_at:
  assumes "a \<notin> set xs"
  shows "x \<in> set xs \<Longrightarrow> fst (bl_push_back h xs a) x
           = (if x = last xs then map_option (block_set LAST_BLOCK False) (h x) else h x)"
    and "fst (bl_push_back h xs a) a = map_option (block_set LAST_BLOCK True) (h a)"
    and "snd (bl_push_back h xs a) = xs @ [a]"
proof -
  have "xs \<noteq> [] \<Longrightarrow> last xs \<noteq> a" using assms last_in_set by metis
  then show "x \<in> set xs \<Longrightarrow> fst (bl_push_back h xs a) x
           = (if x = last xs then map_option (block_set LAST_BLOCK False) (h x) else h x)"
    and "fst (bl_push_back h xs a) a = map_option (block_set LAST_BLOCK True) (h a)"
    and "snd (bl_push_back h xs a) = xs @ [a]"
    using assms by (auto simp: bl_push_back_def Let_def store_set_last_def)
qed

lemma bl_push_back_inv:
  assumes "bl_inv h xs" and "a \<notin> set xs" and "h a \<noteq> None" and "bl_push_back h xs a = (h', xs')"
  shows "bl_inv h' xs'"
proof -
  have "\<exists>b. h' x = Some b \<and> \<not> block_get LAST_BLOCK b" if "x \<in> set xs" for x
    using assms that bl_push_back_at(1) [OF assms(2) that, of h] by (auto simp: bl_inv_def)
  moreover have "\<exists>b. h' a = Some b \<and> block_get LAST_BLOCK b" and "xs' = xs @ [a]"
    using assms(3,4) bl_push_back_at(2,3) [OF assms(2), of h] by auto
  ultimately show ?thesis using assms(1,2) by (simp add: bl_inv_append) (simp add: bl_inv_def)
qed

lemma bl_push_front_inv:
  assumes "bl_inv h xs" and "a \<notin> set xs" and "h a = Some b" and "\<not> block_get LAST_BLOCK b"
    and "bl_push_front h xs a = (h', xs')"
  shows "bl_inv h' xs'"
  using assms by (auto simp: bl_push_front_def bl_inv_def split: if_splits)

lemma set_bl_insert: "set (bl_insert xs a x) = (if x \<in> set xs then insert a (set xs) else set xs)"
  by (induction xs) auto

lemma bl_insert_Nil_iff [simp]: "bl_insert xs a x = [] \<longleftrightarrow> xs = []"
  by (cases xs) auto

lemma last_bl_insert: "xs \<noteq> [] \<Longrightarrow> last (bl_insert xs a x) = last xs"
  by (induction xs) auto

lemma last_remove1: "a \<noteq> last xs \<Longrightarrow> xs \<noteq> [] \<Longrightarrow> remove1 a xs \<noteq> [] \<and> last (remove1 a xs) = last xs"
  by (induction xs) (auto split: if_splits)

lemma distinct_bl_insert: "distinct xs \<Longrightarrow> a \<notin> set xs \<Longrightarrow> distinct (bl_insert xs a x)"
  by (induction xs) (auto simp: set_bl_insert)

lemma bl_insert_inv:
  assumes "bl_inv h xs" and "a \<notin> set xs" and "h a = Some b" and "\<not> block_get LAST_BLOCK b"
  shows "bl_inv h (bl_insert xs a x)"
proof (cases "xs = []")
  case False
  then have "a \<noteq> last xs" using assms(2) last_in_set by metis
  then show ?thesis
    using assms False by (auto simp: bl_inv_def set_bl_insert last_bl_insert distinct_bl_insert)
qed simp

lemma bl_remove_inv:
  assumes inv: "bl_inv h xs" and r: "bl_remove h xs a = (h', xs')"
  shows "bl_inv h' xs'"
proof (cases "a \<in> set xs \<and> remove1 a xs \<noteq> []")
  case True
  then obtain ys y where ys: "remove1 a xs = ys @ [y]" by (metis rev_exhaust)
  have d: "distinct (ys @ [y])" using inv ys by (metis bl_inv_def distinct_remove1)
  have sub: "set (ys @ [y]) = set xs - {a}"
    using inv ys by (metis bl_inv_def set_remove1_eq)
  have notlast: "x \<noteq> last xs" if "x \<in> set ys" for x
  proof (cases "a = last xs")
    case True
    then show ?thesis using that sub by auto
  next
    case False
    then have "last (remove1 a xs) = last xs"
      using True last_remove1 [of a xs] by (cases xs) auto
    then show ?thesis using that ys d by auto
  qed
  have "\<exists>b. h x = Some b \<and> \<not> block_get LAST_BLOCK b" if "x \<in> set ys" for x
    using that notlast [OF that] sub inv by (auto simp: bl_inv_def)
  moreover have "\<exists>b. h y = Some b" using sub inv by (auto simp: bl_inv_def)
  ultimately have "bl_inv (store_set_last h y True) (ys @ [y])"
    using d by (auto simp: bl_inv_append store_set_last_def)
  moreover have "xs' = ys @ [y]" and "h' = store_set_last h y True"
    using r True ys by (auto simp: bl_remove_def Let_def)
  ultimately show ?thesis by simp
qed (use assms in \<open>auto simp: bl_remove_def Let_def split: if_splits\<close>)

section \<open>Refinement of the block sequence\<close>

text \<open>The blocks themselves, as the serializers see them.\<close>

definition bl_view :: "store \<Rightarrow> addr list \<Rightarrow> block list" where
  "bl_view h xs = map (\<lambda>a. the (h a)) xs"

lemma bl_view_inv: "bl_inv h xs \<Longrightarrow> xs \<noteq> [] \<Longrightarrow> blocks_last_ok (bl_view h xs)"
  by (cases xs rule: rev_cases) (auto simp: bl_inv_append bl_view_def blocks_last_ok_def list_all_iff)

lemma bl_view_push_back:
  assumes "a \<notin> set xs" and "distinct xs" and "\<forall>x \<in> set xs. h x \<noteq> None" and "h a = Some b"
    and "bl_push_back h xs a = (h', xs')"
  shows "bl_view h' xs' = blocks_push_back (bl_view h xs) b"
proof (cases xs rule: rev_cases)
  case Nil
  then show ?thesis
    using assms bl_push_back_at(2,3) [OF assms(1), of h]
    by (simp add: bl_view_def blocks_push_back_def)
next
  case (snoc ys y)
  have *: "h' x = (if x = y then map_option (block_set LAST_BLOCK False) (h x) else h x)" if "x \<in> set xs" for x
    using bl_push_back_at(1) [OF assms(1) that, of h] assms(5) snoc by simp
  have "map (\<lambda>a. the (h' a)) ys = map (\<lambda>a. the (h a)) ys"
    using * assms(2) snoc by auto
  then show ?thesis
    using assms * bl_push_back_at(2,3) [OF assms(1), of h] snoc
    by (auto simp: bl_view_def blocks_push_back_def)
qed

lemma bl_view_remove_last:
  assumes "distinct (xs @ [a])" and "\<forall>x \<in> set xs. h x \<noteq> None" and "bl_remove h (xs @ [a]) a = (h', xs')"
  shows "xs' = xs \<and> bl_view h' xs' = blocks_pop (bl_view h (xs @ [a]))"
proof (cases xs rule: rev_cases)
  case Nil
  then show ?thesis using assms by (auto simp: bl_remove_def bl_view_def blocks_pop_def)
next
  case (snoc ys y)
  have "remove1 a (xs @ [a]) = xs" using assms(1) by (simp add: remove1_append)
  then have r: "xs' = xs" "h' = store_set_last h y True"
    using assms(3) snoc by (auto simp: bl_remove_def Let_def)
  have "map (\<lambda>a. the (store_set_last h y True a)) ys = map (\<lambda>a. the (h a)) ys"
    using assms(1) snoc by (auto simp: store_set_last_def)
  then show ?thesis
    using r assms(2) snoc by (auto simp: bl_view_def blocks_pop_def butlast_append)
qed

section \<open>Copies share their blocks\<close>

text \<open>
  Appending to a copy clears the flag of a block that the original still holds: the
  original is left without a last block.
\<close>

lemma bl_copy_push_back:
  assumes "bl_inv h xs" and "a \<notin> set xs" and "bl_push_back h (bl_assign xs) a = (h', ys)"
  shows "list_all (\<lambda>b. \<not> block_get LAST_BLOCK b) (bl_view h' xs)"
proof -
  have "\<not> block_get LAST_BLOCK (the (h' x))" if "x \<in> set xs" for x
  proof -
    obtain b where "h x = Some b" "block_get LAST_BLOCK b \<longleftrightarrow> x = last xs"
      using assms(1) \<open>x \<in> set xs\<close> by (auto simp: bl_inv_def)
    moreover have "h' x = (if x = last xs then map_option (block_set LAST_BLOCK False) (h x) else h x)"
      using bl_push_back_at(1) [OF assms(2) \<open>x \<in> set xs\<close>, of h] assms(3) by simp
    ultimately show ?thesis by auto
  qed
  then show ?thesis by (simp add: bl_view_def list_all_iff)
qed

section \<open>Lookup\<close>

lemma bl_get_block_found:
  assumes "bl_get_block h t k xs = Inr a"
  shows "a \<in> set xs \<and> (\<exists>b. h a = Some b \<and> blk_type b = t \<and> body_kind (blk_body b) = k)
         \<and> (\<exists>pre post. xs = pre @ a # post \<and> (\<forall>x \<in> set pre. \<forall>b. h x = Some b \<longrightarrow> blk_type b \<noteq> t))"
  using assms
proof (induction xs)
  case (Cons x xs)
  show ?case
  proof (cases "\<exists>b. h x = Some b \<and> blk_type b = t")
    case True
    then show ?thesis using Cons.prems by (auto split: if_splits intro: exI [of _ "[]"])
  next
    case False
    then have "bl_get_block h t k xs = Inr a" using Cons.prems by (auto split: option.splits if_splits)
    from Cons.IH [OF this] obtain pre post where
      "a \<in> set xs" "\<exists>b. h a = Some b \<and> blk_type b = t \<and> body_kind (blk_body b) = k"
      "xs = pre @ a # post" "\<forall>x \<in> set pre. \<forall>b. h x = Some b \<longrightarrow> blk_type b \<noteq> t" by blast
    with False show ?thesis by (intro conjI exI [of _ "x # pre"] exI [of _ post]) auto
  qed
qed simp

section \<open>Histories of one bundle\<close>

text \<open>
  What the public interface of \<open>Bundle\<close> can do to a block list: every block is new, so it
  stands at a free address and its constructor has not set the last-block flag.
\<close>

inductive bl_step :: "store \<times> addr list \<Rightarrow> store \<times> addr list \<Rightarrow> bool" where
  step_push_back: "h a = None \<Longrightarrow> bl_step (h, xs) (bundle_push_back h xs a b)"
| step_push_front: "h a = None \<Longrightarrow> \<not> block_get LAST_BLOCK b \<Longrightarrow> bl_step (h, xs) (bundle_push_front h xs a b)"
| step_insert: "h a = None \<Longrightarrow> \<not> block_get LAST_BLOCK b \<Longrightarrow> bl_step (h, xs) (bundle_insert h xs before a b)"
| step_remove: "bl_step (h, xs) (bl_remove h xs a)"
| step_clear: "bl_step (h, xs) (h, bl_clear xs)"

inductive_cases bl_stepE: "bl_step s s'"

definition bl_state_inv :: "store \<times> addr list \<Rightarrow> bool" where
  "bl_state_inv s = bl_inv (fst s) (snd s)"

lemma bl_inv_upd: "bl_inv h xs \<Longrightarrow> h a = None \<Longrightarrow> bl_inv (h(a \<mapsto> b)) xs \<and> a \<notin> set xs"
proof -
  assume inv: "bl_inv h xs" and a: "h a = None"
  have "x \<noteq> a" if "x \<in> set xs" for x
    using inv a that unfolding bl_inv_def by (metis option.distinct(1))
  then show "bl_inv (h(a \<mapsto> b)) xs \<and> a \<notin> set xs"
    using inv by (simp add: bl_inv_def) blast
qed

lemma bl_step_inv:
  assumes "bl_step s s'" and "bl_state_inv s"
  shows "bl_state_inv s'"
  using assms
proof (induction rule: bl_step.induct)
  case (step_push_back h a xs b)
  then have "bl_inv (h(a \<mapsto> b)) xs" "a \<notin> set xs" using bl_inv_upd [of h xs a b] by (auto simp: bl_state_inv_def)
  then show ?case
    using bl_push_back_inv [of "h(a \<mapsto> b)" xs a]
    by (cases "bundle_push_back h xs a b") (simp add: bundle_push_back_def bl_state_inv_def)
next
  case (step_push_front h a b xs)
  then have "bl_inv (h(a \<mapsto> b)) xs" "a \<notin> set xs" using bl_inv_upd [of h xs a b] by (auto simp: bl_state_inv_def)
  then show ?case
    using bl_push_front_inv [of "h(a \<mapsto> b)" xs a b] step_push_front
    by (cases "bundle_push_front h xs a b") (simp add: bundle_push_front_def bl_state_inv_def)
next
  case (step_insert h a b xs before)
  then show ?case
    using bl_inv_upd [of h xs a b] bl_insert_inv [of "h(a \<mapsto> b)" xs a b]
    by (simp add: bundle_insert_def bl_state_inv_def)
next
  case (step_remove h xs a)
  then show ?case
    using bl_remove_inv [of h xs a] by (cases "bl_remove h xs a") (simp add: bl_state_inv_def)
qed (simp add: bl_clear_def bl_state_inv_def)

lemma bundle_init_inv: "bl_state_inv (bundle_init h a ts)"
proof -
  have "\<not> block_get LAST_BLOCK age_new"
    by (simp add: block_flag_defs block_get_set block_new_def) (simp add: block_get_def get_flag_def)
  then show ?thesis
    using bl_push_front_inv [of "h(a \<mapsto> age_new)" "[]" a age_new]
    by (auto simp: bundle_init_def bundle_push_front_def bl_push_front_def bl_state_inv_def)
qed

lemma bl_reachable_inv:
  assumes "bl_step\<^sup>*\<^sup>* (bundle_init h a ts) s"
  shows "bl_state_inv s"
  using assms by (induction rule: rtranclp_induct) (auto intro: bundle_init_inv bl_step_inv)

section \<open>Correctness\<close>

text \<open>C31: whatever blocks are appended, put in front, inserted and removed, exactly the last block
  of the bundle carries the last-block flag, so that a reader of the bundle stops after it. The blocks that are put in are
  new ones, which no other bundle has: a copy of the bundle shares its blocks, and a change of the copy can
  break the flags of the original.\<close>

theorem block_list_last_flag:
  assumes "bl_step\<^sup>*\<^sup>* (bundle_init h a ts) (h', xs)" and "xs \<noteq> []"
  shows "distinct xs \<and> blocks_last_ok (bl_view h' xs)"
proof -
  have "bl_inv h' xs" using bl_reachable_inv [OF assms(1)] by (simp add: bl_state_inv_def)
  then show ?thesis using bl_view_inv [OF _ assms(2)] by (simp add: bl_inv_def)
qed

theorem block_list_last_flag_witness:
  "let s1 = bundle_init Map.empty 3 0; s2 = bundle_push_back (fst s1) (snd s1) 5 age_new;
       s3 = bundle_push_front (fst s2) (snd s2) 7 age_new; s4 = bl_remove (fst s3) (snd s3) 5
   in snd s4 = [7, 3] \<and> blocks_last_ok (bl_view (fst s4) (snd s4))"
proof -
  define s1 s2 s3 s4 where s: "s1 = bundle_init Map.empty 3 0" "s2 = bundle_push_back (fst s1) (snd s1) 5 age_new"
    "s3 = bundle_push_front (fst s2) (snd s2) 7 age_new" "s4 = bl_remove (fst s3) (snd s3) 5"
  have free: "fst s1 5 = None" "fst s2 7 = None" and xs: "snd s4 = [7, 3]"
    by (simp_all add: s bundle_init_def bundle_push_front_def bundle_push_back_def bl_push_front_def bl_push_back_def
        bl_remove_def store_set_last_def Let_def)
  have new: "\<not> block_get LAST_BLOCK age_new" by code_simp
  have "bl_step s1 s2" using step_push_back [of "fst s1" 5 "snd s1" age_new] free s(2) by simp
  moreover have "bl_step s2 s3" using step_push_front [of "fst s2" 7 age_new "snd s2"] free new s(3) by simp
  moreover have "bl_step s3 s4" using step_remove [of "fst s3" "snd s3" 5] s(4) by simp
  ultimately have "bl_step\<^sup>*\<^sup>* s1 s4" by (meson converse_rtranclp_into_rtranclp rtranclp.rtrancl_refl)
  then have reach: "bl_step\<^sup>*\<^sup>* (bundle_init Map.empty 3 0) (fst s4, snd s4)" by (simp add: s(1))
  show ?thesis
    using block_list_last_flag [OF reach] xs unfolding Let_def s(1,2) [symmetric] s(3) [symmetric] s(4) [symmetric] by simp
qed

text \<open>C38: on the sequence of blocks, \<open>push_back\<close> of a new block clears the flag of the block
  that was last and appends the new one with the flag set, and \<open>remove\<close> of the last block
  undoes the append up to that flag. The serializers are modelled on that sequence.\<close>

theorem block_list_refines:
  assumes "bl_inv h xs" and "h a = None"
  shows "(\<forall>h' xs'. bundle_push_back h xs a b = (h', xs') \<longrightarrow>
            xs' = xs @ [a] \<and> bl_view h' xs' = blocks_push_back (bl_view h xs) b
            \<and> (\<forall>h'' xs''. bl_remove h' xs' a = (h'', xs'') \<longrightarrow>
                  xs'' = xs \<and> bl_view h'' xs'' = blocks_pop (bl_view h' xs')))"
proof (intro allI impI)
  fix h' xs'
  assume p: "bundle_push_back h xs a b = (h', xs')"
  let ?h = "h(a \<mapsto> b)"
  have inv: "bl_inv ?h xs" and a: "a \<notin> set xs" using bl_inv_upd [OF assms] by auto
  have push: "bl_push_back ?h xs a = (h', xs')" using p by (simp add: bundle_push_back_def)
  have ex: "\<forall>x \<in> set xs. ?h x \<noteq> None" and d: "distinct xs" using inv by (auto simp: bl_inv_def)
  have xs': "xs' = xs @ [a]" using push by (simp add: bl_push_back_def Let_def)
  have "bl_view ?h xs = bl_view h xs" using a by (auto simp: bl_view_def)
  then have view: "bl_view h' xs' = blocks_push_back (bl_view h xs) b"
    using bl_view_push_back [OF a d ex _ push, of b] by simp
  have "\<forall>x \<in> set xs. h' x \<noteq> None"
    using bl_push_back_at(1) [OF a, of _ ?h] ex push by auto
  then have "xs'' = xs \<and> bl_view h'' xs'' = blocks_pop (bl_view h' xs')"
    if "bl_remove h' xs' a = (h'', xs'')" for h'' xs''
    using bl_view_remove_last [of xs a h' h'' xs''] that a d by (auto simp: xs')
  with view show "xs' = xs @ [a] \<and> bl_view h' xs' = blocks_push_back (bl_view h xs) b
      \<and> (\<forall>h'' xs''. bl_remove h' xs' a = (h'', xs'') \<longrightarrow>
            xs'' = xs \<and> bl_view h'' xs'' = blocks_pop (bl_view h' xs'))"
    using xs' by blast
qed

theorem block_list_refines_witness:
  "bl_view (fst (bundle_push_back Map.empty [] 0 age_new)) [0] = blocks_push_back [] age_new"
  using block_list_refines [of Map.empty "[]" 0 age_new]
  by (cases "bundle_push_back Map.empty [] 0 age_new") (simp add: bl_view_def)

text \<open>A copied bundle shares its blocks with the original. Appending a block to the copy
  clears the last-block flag of the original's last block, and the original, unchanged as a list,
  is left without any last block.\<close>

theorem block_list_copy_shares:
  assumes "bl_inv h xs" and "h a = None" and "bundle_push_back h (bl_assign xs) a b = (h', ys)"
  shows "list_all (\<lambda>b. \<not> block_get LAST_BLOCK b) (bl_view h' xs) \<and> (xs \<noteq> [] \<longrightarrow> \<not> bl_inv h' xs)"
proof -
  have inv: "bl_inv (h(a \<mapsto> b)) xs" and a: "a \<notin> set xs" using bl_inv_upd [OF assms(1,2)] by auto
  have "bl_push_back (h(a \<mapsto> b)) (bl_assign xs) a = (h', ys)"
    using assms(3) by (simp add: bundle_push_back_def)
  from bl_copy_push_back [OF inv a this]
  have none: "list_all (\<lambda>b. \<not> block_get LAST_BLOCK b) (bl_view h' xs)" .
  moreover have "\<not> bl_inv h' xs" if "xs \<noteq> []"
    using none that bl_view_inv [of h' xs] by (auto simp: blocks_last_ok_def list_all_iff bl_view_def last_map)
  ultimately show ?thesis by blast
qed

theorem block_list_copy_shares_witness:
  "\<not> bl_inv (fst (bundle_push_back (fst (bundle_init Map.empty 0 0)) (bl_assign [0]) 1 age_new)) [0]"
proof -
  have inv: "bl_inv (fst (bundle_init Map.empty 0 0)) [0]"
    using bundle_init_inv [of Map.empty 0 0]
    by (simp add: bl_state_inv_def bundle_init_def bundle_push_front_def bl_push_front_def)
  have "fst (bundle_init Map.empty 0 0) 1 = None"
    by (simp add: bundle_init_def bundle_push_front_def bl_push_front_def)
  then show ?thesis
    using block_list_copy_shares [OF inv, of 1 age_new] by (metis list.discI prod.collapse)
qed

end
