(* ===== verification/StdSet.thy ===== *)
theory StdSet
  imports Main
begin

text \<open>
  \<open>std::set\<close> with a comparator: the elements in iteration order. Two elements are the
  same to the set when neither is less than the other. The C++ standard requires a strict
  weak order of the comparator; the lemmas state that requirement as the existence of a key,
  on the elements concerned.
\<close>

section \<open>Operations\<close>

fun oset_insert :: "('a \<Rightarrow> 'a \<Rightarrow> bool) \<Rightarrow> 'a \<Rightarrow> 'a list \<Rightarrow> 'a list" where
  "oset_insert lt x [] = [x]"
| "oset_insert lt x (y # ys) =
     (if lt y x then y # oset_insert lt x ys
      else if lt x y then x # y # ys
      else y # ys)"

fun oset_erase :: "('a \<Rightarrow> 'a \<Rightarrow> bool) \<Rightarrow> 'a \<Rightarrow> 'a list \<Rightarrow> 'a list" where
  "oset_erase lt x [] = []"
| "oset_erase lt x (y # ys) =
     (if lt y x then y # oset_erase lt x ys
      else if lt x y then y # ys
      else ys)"

definition oset_mem :: "('a \<Rightarrow> 'a \<Rightarrow> bool) \<Rightarrow> 'a \<Rightarrow> 'a list \<Rightarrow> bool" where
  "oset_mem lt x ys \<longleftrightarrow> (\<exists>y \<in> set ys. \<not> lt x y \<and> \<not> lt y x)"

text \<open>\<open>std::map\<close>: assignment through \<open>operator[]\<close> keeps the key that is there.\<close>

fun omap_update :: "('a \<Rightarrow> 'a \<Rightarrow> bool) \<Rightarrow> 'a \<Rightarrow> 'v \<Rightarrow> ('a \<times> 'v) list \<Rightarrow> ('a \<times> 'v) list" where
  "omap_update lt x v [] = [(x, v)]"
| "omap_update lt x v ((y, w) # m) =
     (if lt y x then (y, w) # omap_update lt x v m
      else if lt x y then (x, v) # (y, w) # m
      else (y, v) # m)"

fun omap_erase :: "('a \<Rightarrow> 'a \<Rightarrow> bool) \<Rightarrow> 'a \<Rightarrow> ('a \<times> 'v) list \<Rightarrow> ('a \<times> 'v) list" where
  "omap_erase lt x [] = []"
| "omap_erase lt x ((y, w) # m) =
     (if lt y x then (y, w) # omap_erase lt x m
      else if lt x y then (y, w) # m
      else m)"

fun omap_find :: "('a \<Rightarrow> 'a \<Rightarrow> bool) \<Rightarrow> 'a \<Rightarrow> ('a \<times> 'v) list \<Rightarrow> 'v option" where
  "omap_find lt x [] = None"
| "omap_find lt x ((y, w) # m) =
     (if lt y x then omap_find lt x m
      else if lt x y then None
      else Some w)"

definition key_sorted :: "('a \<Rightarrow> 'k :: linorder) \<Rightarrow> 'a list \<Rightarrow> bool" where
  "key_sorted key xs \<longleftrightarrow> sorted_wrt (\<lambda>a b. key a < key b) xs"

lemma key_sorted_simps [simp]:
  "key_sorted key []" "key_sorted key (x # xs) \<longleftrightarrow> (\<forall>y \<in> set xs. key x < key y) \<and> key_sorted key xs"
  by (simp_all add: key_sorted_def)

text \<open>The map from keys that an ordered map stands for.\<close>

definition kmap :: "('a \<Rightarrow> 'k) \<Rightarrow> ('a \<times> 'v) list \<Rightarrow> 'k \<Rightarrow> 'v option" where
  "kmap key m = map_of (map (\<lambda>(x, v). (key x, v)) m)"

lemma kmap_simps [simp]: "kmap key [] = Map.empty" "kmap key ((x, v) # m) = (kmap key m)(key x \<mapsto> v)"
  by (auto simp: kmap_def)

lemma kmap_None: "k \<notin> key ` fst ` set m \<Longrightarrow> kmap key m k = None"
  by (induction m) auto

lemma image_without:
  "(\<And>x. x \<in> X \<Longrightarrow> g x \<noteq> c \<longleftrightarrow> f x \<noteq> d) \<Longrightarrow> f ` {x \<in> X. g x \<noteq> c} = f ` X - {d}"
  by auto

lemma image_kept:
  "(\<And>a b. a \<in> X \<Longrightarrow> b \<in> X \<Longrightarrow> f a = f b \<Longrightarrow> P a = P b) \<Longrightarrow> f ` {m \<in> X. \<not> P m} = f ` X - f ` {m \<in> X. P m}"
  by blast

lemma oset_insert_length_le: "length (oset_insert lt x xs) \<le> Suc (length xs)"
  by (induction xs) auto

lemma oset_erase_length_le: "length (oset_erase lt x xs) \<le> length xs"
  by (induction xs) auto

section \<open>The contract of a comparator\<close>

text \<open>
  On pairs of elements that are compatible (\<open>ok\<close>), the comparator is the order of keys.
\<close>

locale key_order =
  fixes lt :: "'a \<Rightarrow> 'a \<Rightarrow> bool"
    and key :: "'a \<Rightarrow> 'k :: linorder"
    and ok :: "'a \<Rightarrow> 'a \<Rightarrow> bool"
  assumes lt_key: "ok a b \<Longrightarrow> lt a b \<longleftrightarrow> key a < key b"
    and ok_sym: "ok a b \<Longrightarrow> ok b a"
begin

lemma distinct_keys: "key_sorted key xs \<Longrightarrow> distinct (map key xs)"
  by (induction xs) auto

lemma set_insert:
  "list_all (ok x) xs \<Longrightarrow> set (oset_insert lt x xs)
     = (if key x \<in> key ` set xs then set xs else insert x (set xs)) \<or> \<not> key_sorted key xs"
proof (induction xs)
  case (Cons y ys)
  have *: "lt x y \<longleftrightarrow> key x < key y" "lt y x \<longleftrightarrow> key y < key x"
    using Cons.prems lt_key [of x y] lt_key [of y x] ok_sym by auto
  consider "key y < key x" | "key x < key y" | "key x = key y" by (rule linorder_cases)
  then show ?case
  proof cases
    case 1
    then show ?thesis using * Cons by auto
  next
    case 2
    show ?thesis
    proof (cases "key_sorted key (y # ys)")
      case True
      then have "\<forall>z \<in> set ys. key x < key z" using 2 by auto
      then have "key x \<notin> key ` set (y # ys)" using 2 by auto
      then show ?thesis using * 2 by auto
    qed simp
  next
    case 3
    then show ?thesis using * by auto
  qed
qed simp

lemma insert_set:
  "key_sorted key xs \<Longrightarrow> list_all (ok x) xs \<Longrightarrow>
     set (oset_insert lt x xs) = (if key x \<in> key ` set xs then set xs else insert x (set xs))"
  using set_insert by blast

lemma insert_sorted: "key_sorted key xs \<Longrightarrow> list_all (ok x) xs \<Longrightarrow> key_sorted key (oset_insert lt x xs)"
proof (induction xs)
  case (Cons y ys)
  have *: "lt x y \<longleftrightarrow> key x < key y" "lt y x \<longleftrightarrow> key y < key x"
    using Cons.prems lt_key [of x y] lt_key [of y x] ok_sym by auto
  show ?case
  proof (cases "key y < key x")
    case True
    then show ?thesis
      using * Cons insert_set [of ys x] by (auto split: if_splits)
  next
    case False
    then show ?thesis using * Cons.prems by (auto intro: less_trans)
  qed
qed simp

lemma insert_back: "\<forall>y \<in> set xs. key y < key x \<Longrightarrow> list_all (ok x) xs \<Longrightarrow> oset_insert lt x xs = xs @ [x]"
  using lt_key ok_sym by (induction xs) auto

lemma erase_set:
  "key_sorted key xs \<Longrightarrow> list_all (ok x) xs \<Longrightarrow> set (oset_erase lt x xs) = {y \<in> set xs. key y \<noteq> key x}"
proof (induction xs)
  case (Cons y ys)
  have *: "lt x y \<longleftrightarrow> key x < key y" "lt y x \<longleftrightarrow> key y < key x"
    using Cons.prems lt_key [of x y] lt_key [of y x] ok_sym by auto
  consider "key y < key x" | "key x < key y" | "key x = key y" by (rule linorder_cases)
  then show ?case
  proof cases
    case 1
    then show ?thesis using * Cons by auto
  next
    case 2
    then have "\<forall>z \<in> set ys. key x < key z" using Cons.prems by auto
    then show ?thesis using * 2 by auto
  next
    case 3
    then show ?thesis using * Cons.prems by auto
  qed
qed simp

lemma erase_sorted: "key_sorted key xs \<Longrightarrow> list_all (ok x) xs \<Longrightarrow> key_sorted key (oset_erase lt x xs)"
proof (induction xs)
  case (Cons y ys)
  have "set (oset_erase lt x ys) \<subseteq> set ys" using erase_set Cons.prems by auto
  then show ?case using Cons by auto
qed simp

text \<open>Erasing and inserting: the element replaces the one of its key, also for a whole set.\<close>

lemma replace_set:
  assumes "key_sorted key xs" and "list_all (ok x) xs"
  shows "set (oset_insert lt x (oset_erase lt x xs)) = insert x {y \<in> set xs. key y \<noteq> key x}"
    and "key_sorted key (oset_insert lt x (oset_erase lt x xs))"
proof -
  have set: "set (oset_erase lt x xs) = {y \<in> set xs. key y \<noteq> key x}" by (rule erase_set [OF assms])
  have sorted: "key_sorted key (oset_erase lt x xs)" by (rule erase_sorted [OF assms])
  have fit: "list_all (ok x) (oset_erase lt x xs)" using assms(2) set by (auto simp: list_all_iff)
  show "set (oset_insert lt x (oset_erase lt x xs)) = insert x {y \<in> set xs. key y \<noteq> key x}"
    using insert_set [OF sorted fit] set by auto
  show "key_sorted key (oset_insert lt x (oset_erase lt x xs))" by (rule insert_sorted [OF sorted fit])
qed

lemma replace_all:
  assumes "key_sorted key xs" and "\<forall>x \<in> set ys. \<forall>y \<in> set xs \<union> set ys. ok x y" and "distinct (map key ys)"
  shows "set (foldl (\<lambda>s x. oset_insert lt x (oset_erase lt x s)) xs ys) = {x \<in> set xs. key x \<notin> key ` set ys} \<union> set ys
    \<and> key_sorted key (foldl (\<lambda>s x. oset_insert lt x (oset_erase lt x s)) xs ys)"
  using assms
proof (induction ys arbitrary: xs)
  case (Cons y ys)
  let ?xs = "oset_insert lt y (oset_erase lt y xs)"
  have "list_all (ok y) xs" using Cons.prems(2) by (simp add: list_all_iff)
  note r = replace_set [OF Cons.prems(1) this]
  have "\<forall>x \<in> set ys. \<forall>z \<in> set ?xs \<union> set ys. ok x z" using Cons.prems(2) unfolding r(1) by auto
  from Cons.IH [OF r(2) this] Cons.prems(3) show ?case unfolding foldl_Cons r(1) by auto
qed simp

lemma erase_all:
  assumes "key_sorted key xs" and "\<forall>x \<in> set ys. \<forall>y \<in> set xs. ok x y"
  shows "set (foldl (\<lambda>s x. oset_erase lt x s) xs ys) = {x \<in> set xs. key x \<notin> key ` set ys}
    \<and> key_sorted key (foldl (\<lambda>s x. oset_erase lt x s) xs ys)"
  using assms
proof (induction ys arbitrary: xs)
  case (Cons y ys)
  let ?xs = "oset_erase lt y xs"
  have fit: "list_all (ok y) xs" using Cons.prems(2) by (simp add: list_all_iff)
  note s = erase_set [OF Cons.prems(1) fit]
  have "\<forall>x \<in> set ys. \<forall>z \<in> set ?xs. ok x z" using Cons.prems(2) unfolding s by auto
  from Cons.IH [OF erase_sorted [OF Cons.prems(1) fit] this] show ?case unfolding foldl_Cons s by auto
qed simp

lemma mem_key: "list_all (ok x) xs \<Longrightarrow> oset_mem lt x xs \<longleftrightarrow> key x \<in> key ` set xs"
proof -
  assume fit: "list_all (ok x) xs"
  have "\<not> lt x y \<and> \<not> lt y x \<longleftrightarrow> key x = key y" if "y \<in> set xs" for y
  proof -
    have "ok x y" using fit that by (auto simp: list_all_iff)
    then show ?thesis using lt_key [of x y] lt_key [of y x] ok_sym by auto
  qed
  then show ?thesis by (auto simp: oset_mem_def image_iff)
qed

lemma insert_length:
  "key_sorted key xs \<Longrightarrow> list_all (ok x) xs \<Longrightarrow>
     length (oset_insert lt x xs) = (if key x \<in> key ` set xs then length xs else Suc (length xs))"
proof (induction xs)
  case (Cons y ys)
  have "lt x y \<longleftrightarrow> key x < key y" "lt y x \<longleftrightarrow> key y < key x"
    using Cons.prems lt_key [of x y] lt_key [of y x] ok_sym by auto
  moreover have "key x \<notin> key ` set ys" if "key x < key y"
    using Cons.prems that by (auto dest: less_trans)
  ultimately show ?case using Cons by (auto simp: not_less)
qed simp

lemma omap_update_keys:
  "list_all (ok x) (map fst m) \<Longrightarrow> set (map fst (omap_update lt x v m)) \<subseteq> insert x (set (map fst m))"
proof (induction m)
  case (Cons p m)
  then show ?case by (cases p) (auto split: if_splits)
qed simp

lemma omap_update_kmap:
  "key_sorted key (map fst m) \<Longrightarrow> list_all (ok x) (map fst m) \<Longrightarrow>
     kmap key (omap_update lt x v m) = (kmap key m)(key x \<mapsto> v) \<and> key_sorted key (map fst (omap_update lt x v m))"
proof (induction m)
  case (Cons p m)
  obtain y w where p: "p = (y, w)" by (cases p)
  have *: "lt x y \<longleftrightarrow> key x < key y" "lt y x \<longleftrightarrow> key y < key x"
    using Cons.prems p lt_key [of x y] lt_key [of y x] ok_sym by auto
  consider "key y < key x" | "key x < key y" | "key x = key y" by (rule linorder_cases)
  then show ?case
  proof cases
    case 1
    have "list_all (ok x) (map fst m)" using Cons.prems by simp
    then have "key y < key z" if "z \<in> set (map fst (omap_update lt x v m))" for z
      using omap_update_keys that Cons.prems p 1 by fastforce
    then show ?thesis using * p Cons 1 by (auto simp: fun_eq_iff)
  next
    case 2
    then show ?thesis using * p Cons.prems by (auto intro: less_trans)
  next
    case 3
    then show ?thesis using * p Cons.prems by auto
  qed
qed simp

lemma omap_erase_kmap:
  "key_sorted key (map fst m) \<Longrightarrow> list_all (ok x) (map fst m) \<Longrightarrow>
     kmap key (omap_erase lt x m) = (kmap key m)(key x := None) \<and> key_sorted key (map fst (omap_erase lt x m))
     \<and> set (omap_erase lt x m) \<subseteq> set m"
proof (induction m)
  case (Cons p m)
  obtain y w where p: "p = (y, w)" by (cases p)
  have *: "lt x y \<longleftrightarrow> key x < key y" "lt y x \<longleftrightarrow> key y < key x"
    using Cons.prems p lt_key [of x y] lt_key [of y x] ok_sym by auto
  consider "key y < key x" | "key x < key y" | "key x = key y" by (rule linorder_cases)
  then show ?case
  proof cases
    case 1
    then show ?thesis using * p Cons by (auto simp: fun_eq_iff)
  next
    case 2
    then have "key x \<notin> key ` fst ` set (p # m)" using Cons.prems p by (auto dest: less_trans)
    then have "kmap key (p # m) (key x) = None" by (rule kmap_None)
    then show ?thesis using * p Cons.prems 2 by (auto simp: fun_eq_iff)
  next
    case 3
    then have "key x \<notin> key ` fst ` set m" using Cons.prems p by auto
    then have "kmap key m (key x) = None" by (rule kmap_None)
    then show ?thesis using * p Cons.prems 3 by (auto simp: fun_eq_iff)
  qed
qed simp

lemma omap_find_kmap:
  "key_sorted key (map fst m) \<Longrightarrow> list_all (ok x) (map fst m) \<Longrightarrow> omap_find lt x m = kmap key m (key x)"
proof (induction m)
  case (Cons p m)
  obtain y w where p: "p = (y, w)" by (cases p)
  have *: "lt x y \<longleftrightarrow> key x < key y" "lt y x \<longleftrightarrow> key y < key x"
    using Cons.prems p lt_key [of x y] lt_key [of y x] ok_sym by auto
  show ?case
  proof (cases "key x < key y")
    case True
    then have "key x \<notin> key ` fst ` set (p # m)" using Cons.prems p by (auto dest: less_trans)
    then have "kmap key (p # m) (key x) = None" by (rule kmap_None)
    moreover have "\<not> key y < key x" using True by simp
    ultimately show ?thesis using * p True by simp
  next
    case False
    then show ?thesis using * p Cons by (cases "key y < key x") auto
  qed
qed simp

lemma takeWhile_key:
  "key_sorted key xs \<Longrightarrow> mono f \<Longrightarrow> set (takeWhile (\<lambda>x. f (key x) < (b :: 'b :: linorder)) xs) = {x \<in> set xs. f (key x) < b}"
proof (induction xs)
  case (Cons y ys)
  have "f (key y) \<le> f (key z)" if "z \<in> set ys" for z
    using Cons.prems that by (auto intro: monoD less_imp_le)
  then show ?case using Cons by (auto dest: le_less_trans)
qed simp

lemma dropWhile_key:
  "key_sorted key xs \<Longrightarrow> mono f \<Longrightarrow> set (dropWhile (\<lambda>x. f (key x) < (b :: 'b :: linorder)) xs) = {x \<in> set xs. b \<le> f (key x)}"
proof (induction xs)
  case (Cons y ys)
  have "f (key y) \<le> f (key z)" if "z \<in> set ys" for z
    using Cons.prems that by (auto intro: monoD less_imp_le)
  then show ?case using Cons by (auto simp: not_less intro: order_trans)
qed simp

lemma dropWhile_sorted: "key_sorted key xs \<Longrightarrow> key_sorted key (dropWhile P xs)"
  by (induction xs) auto

end

end
