(* ===== verification/BundleId.thy ===== *)
theory BundleId
  imports BlockList StdSet "HOL-Library.Product_Lexorder"
begin

text \<open>
  Bundle identifiers and meta data (\<open>ibrdtn/data/BundleID.cpp\<close>,
  \<open>ibrdtn/data/MetaBundle.cpp\<close>) and the expiry of bundles with an age block
  (\<open>ibrdtn/utils/Clock.cpp\<close>).
\<close>

section \<open>Identifiers\<close>

record bundle_id =
  id_source :: eid
  id_timestamp :: u64
  id_sequencenumber :: u64
  id_fragment :: bool
  id_offset :: u64

definition bid_of_bundle :: "'a primary_scheme \<Rightarrow> bundle_id" where
  "bid_of_bundle b =
     \<lparr>id_source = p_source b, id_timestamp = p_timestamp b, id_sequencenumber = p_sequencenumber b,
      id_fragment = primary_get FRAGMENT b, id_offset = p_fragmentoffset b\<rparr>"

definition bid_less :: "'a bundle_id_scheme \<Rightarrow> 'b bundle_id_scheme \<Rightarrow> bool" where
  "bid_less this other \<longleftrightarrow>
     (if eid_less (id_source this) (id_source other) then True
      else if id_source this \<noteq> id_source other then False
      else if id_timestamp this < id_timestamp other then True
      else if id_timestamp this \<noteq> id_timestamp other then False
      else if id_sequencenumber this < id_sequencenumber other then True
      else if id_sequencenumber this \<noteq> id_sequencenumber other then False
      else if id_fragment this \<and> id_offset this < id_offset other then True
      else False)"

definition bid_eq :: "'a bundle_id_scheme \<Rightarrow> 'b bundle_id_scheme \<Rightarrow> bool" where
  "bid_eq this other \<longleftrightarrow>
     (if id_timestamp other \<noteq> id_timestamp this then False
      else if id_sequencenumber other \<noteq> id_sequencenumber this then False
      else if id_source other \<noteq> id_source this then False
      else if id_fragment this \<and> id_offset other \<noteq> id_offset this then False
      else True)"

definition bid_greater :: "'a bundle_id_scheme \<Rightarrow> 'b bundle_id_scheme \<Rightarrow> bool" where
  "bid_greater this other \<longleftrightarrow> \<not> (bid_less this other \<or> bid_eq this other)"

definition bid_toString :: "'a bundle_id_scheme \<Rightarrow> string" where
  "bid_toString b =
     ''['' @ show_size (id_timestamp b) @ ''.'' @ show_size (id_sequencenumber b)
     @ (if id_fragment b then ''.'' @ show_size (id_offset b) else [])
     @ ''] '' @ eid_getString (id_source b)"

definition bid_bytes :: "'a bundle_id_scheme \<Rightarrow> byte list" where
  "bid_bytes b =
     sdnv_bytes (id_timestamp b) @ sdnv_bytes (id_sequencenumber b) @ sdnv_bytes (id_offset b)
     @ bstr_bytes (eid_getString (id_source b))"

text \<open>The fragment flag is not on the wire: the reader keeps its own.\<close>

definition get_bid :: "bundle_id \<Rightarrow> bundle_id reader" where
  "get_bid obj =
     rbind get_sdnv (\<lambda>timestamp. rbind get_sdnv (\<lambda>seqno. rbind get_sdnv (\<lambda>offset. rbind get_bstr (\<lambda>source.
     rret (obj\<lparr>id_timestamp := timestamp, id_sequencenumber := seqno, id_offset := offset,
               id_source := eid_parse source\<rparr>)))))"

section \<open>Blocks of a bundle by type\<close>

fun blocks_get :: "byte \<Rightarrow> block_kind \<Rightarrow> block list \<Rightarrow> ibr_error + block" where
  "blocks_get t k [] = Inl NoSuchBlockFoundException"
| "blocks_get t k (b # bs) =
     (if blk_type b = t then
        (if body_kind (blk_body b) = k then Inr b else Inl NoSuchBlockFoundException)
      else blocks_get t k bs)"

lemma bl_get_block_view:
  "\<forall>a \<in> set xs. h a \<noteq> None \<Longrightarrow>
     blocks_get t k (bl_view h xs) = (case bl_get_block h t k xs of Inl e \<Rightarrow> Inl e | Inr a \<Rightarrow> Inr (the (h a)))"
  by (induction xs) (auto simp: bl_view_def)

section \<open>Expiry\<close>

text \<open>
  \<open>elapsed\<close> is the reading of the stopwatch in the age block. The remaining lifetime is
  an unsigned difference.
\<close>

definition bundle_age :: "u64 \<Rightarrow> block list \<Rightarrow> u64 option" where
  "bundle_age elapsed bs =
     (case blocks_get AGE_BLOCK_TYPE AgeK bs of
        Inr b \<Rightarrow> (case blk_body b of AgeBody age _ _ \<Rightarrow> Some (age_getSeconds age elapsed) | _ \<Rightarrow> None)
      | Inl _ \<Rightarrow> None)"

definition bundle_getExpireTime :: "clock \<Rightarrow> timeval \<Rightarrow> u64 \<Rightarrow> dtn_bundle \<Rightarrow> u64" where
  "bundle_getExpireTime c sys elapsed b =
     (case (if p_timestamp b = 0 \<or> clk_badclock c then bundle_age elapsed (b_blocks b) else None) of
        Some seconds \<Rightarrow> clock_getTime c sys + (p_lifetime b - seconds)
      | None \<Rightarrow> clock_getExpireTime c (p_timestamp b) (p_lifetime b))"

definition bundle_isExpired :: "clock \<Rightarrow> timeval \<Rightarrow> u64 \<Rightarrow> dtn_bundle \<Rightarrow> bool" where
  "bundle_isExpired c sys elapsed b =
     (case bundle_age elapsed (b_blocks b) of
        Some seconds \<Rightarrow> p_lifetime b < seconds
      | None \<Rightarrow> clock_isExpired c sys (p_timestamp b) (p_lifetime b))"

section \<open>Meta data\<close>

record meta_bundle = bundle_id +
  m_received :: dtntime
  m_lifetime :: u64
  m_destination :: eid
  m_reportto :: eid
  m_custodian :: eid
  m_appdatalength :: u64
  m_procflags :: u64
  m_expiretime :: u64
  m_hopcount :: u64

definition meta_of_id :: "dtntime \<Rightarrow> bundle_id \<Rightarrow> meta_bundle" where
  "meta_of_id now i =
     bundle_id.extend i
       \<lparr>m_received = now, m_lifetime = 0, m_destination = eid_none, m_reportto = eid_none,
        m_custodian = eid_none, m_appdatalength = 0, m_procflags = 0, m_expiretime = 0, m_hopcount = - 1\<rparr>"

definition meta_of_bundle :: "clock \<Rightarrow> timeval \<Rightarrow> u64 \<Rightarrow> dtntime \<Rightarrow> dtn_bundle \<Rightarrow> meta_bundle" where
  "meta_of_bundle c sys elapsed now b =
     bundle_id.extend (bid_of_bundle b)
       \<lparr>m_received = now, m_lifetime = p_lifetime b, m_destination = p_destination b,
        m_reportto = p_reportto b, m_custodian = p_custodian b, m_appdatalength = p_appdatalength b,
        m_procflags = p_procflags b, m_expiretime = bundle_getExpireTime c sys elapsed b,
        m_hopcount = (case blocks_get HOPLIMIT_BLOCK_TYPE HopLimitK (b_blocks b) of
                        Inr blk \<Rightarrow> (case blk_body blk of
                                     HopLimitBody count limit \<Rightarrow> hoplimit_getHopsToLive count limit
                                   | _ \<Rightarrow> - 1)
                      | Inl _ \<Rightarrow> - 1)\<rparr>"

definition meta_getPriority :: "meta_bundle \<Rightarrow> int" where
  "meta_getPriority m =
     (if get_flag PRIORITY_BIT1 (m_procflags m) then 0
      else if get_flag PRIORITY_BIT2 (m_procflags m) then 1
      else - 1)"

definition meta_get :: "u64 \<Rightarrow> meta_bundle \<Rightarrow> bool" where
  "meta_get flag m = get_flag flag (m_procflags m)"

text \<open>
  \<open>operator>>(MetaBundle&)\<close> of the default deserializer, reading a primary block
  into a new object.
\<close>

definition des_meta :: "clock \<Rightarrow> validator \<Rightarrow> deserializer \<Rightarrow> primary \<Rightarrow> (meta_bundle \<times> deserializer) reader" where
  "des_meta c v st fresh =
     rbind (des_primary v st fresh) (\<lambda>(pb, st').
       rret (bundle_id.extend (bid_of_bundle pb)
          \<lparr>m_received = \<lparr>dt_seconds = 0, dt_nanoseconds = 0\<rparr>, m_lifetime = p_lifetime pb,
           m_destination = p_destination pb, m_reportto = p_reportto pb, m_custodian = p_custodian pb,
           m_appdatalength = p_appdatalength pb, m_procflags = p_procflags pb,
           m_expiretime = clock_getExpireTime c (p_timestamp pb) (p_lifetime pb), m_hopcount = 0\<rparr>, st'))"

section \<open>Order\<close>

text \<open>
  The key of an identifier. Two identifiers are compatible when their sources print
  differently if they differ, and when they agree on being fragments if they belong to the
  same bundle.
\<close>

type_synonym id_key = "string \<times> u64 \<times> u64 \<times> u64"

definition bid_key :: "'a bundle_id_scheme \<Rightarrow> id_key" where
  "bid_key b =
     (eid_getString (id_source b), id_timestamp b, id_sequencenumber b,
      if id_fragment b then id_offset b else 0)"

definition bid_compat :: "'a bundle_id_scheme \<Rightarrow> 'b bundle_id_scheme \<Rightarrow> bool" where
  "bid_compat a b \<longleftrightarrow>
     (eid_getString (id_source a) = eid_getString (id_source b) \<longrightarrow>
        id_source a = id_source b \<and>
        (id_timestamp a = id_timestamp b \<and> id_sequencenumber a = id_sequencenumber b \<longrightarrow>
           id_fragment a = id_fragment b))"

lemma bid_less_key: "bid_compat a b \<Longrightarrow> bid_less a b \<longleftrightarrow> bid_key a < bid_key b"
  by (auto simp: bid_less_def bid_key_def bid_compat_def eid_less_def less_prod_def)

lemma bid_eq_key: "bid_compat a b \<Longrightarrow> bid_eq a b \<longleftrightarrow> bid_key a = bid_key b"
  by (auto simp: bid_eq_def bid_key_def bid_compat_def)

lemma bid_compat_sym: "bid_compat a b \<Longrightarrow> bid_compat b a"
  by (auto simp: bid_compat_def)

interpretation bid: key_order bid_less bid_key bid_compat
  by unfold_locales (auto simp: bid_less_key dest: bid_compat_sym)

section \<open>Correctness\<close>

text \<open>Among identifiers that do not mix a bundle with its own fragments, the comparison
  operators are consistent: exactly one of less, equal and greater holds, greater is less the
  other way round, and less is the lexicographic order of source, timestamp, sequence number and
  fragment offset.\<close>

theorem bundle_id_order:
  assumes "bid_compat a b"
  shows "(bid_less a b \<longleftrightarrow> bid_key a < bid_key b) \<and> (bid_eq a b \<longleftrightarrow> bid_key a = bid_key b)
         \<and> (bid_greater a b \<longleftrightarrow> bid_less b a) \<and> (bid_eq a b \<longleftrightarrow> bid_eq b a)"
  unfolding bid_greater_def bid_less_key [OF assms] bid_eq_key [OF assms]
    bid_less_key [OF bid_compat_sym [OF assms]] bid_eq_key [OF bid_compat_sym [OF assms]]
  by (metis less_asym neq_iff)

definition sample_id :: bundle_id where
  "sample_id = \<lparr>id_source = eid_none, id_timestamp = 5, id_sequencenumber = 1, id_fragment = True, id_offset = 0\<rparr>"

theorem bundle_id_order_witness:
  "bid_greater (sample_id\<lparr>id_offset := 7\<rparr>) sample_id \<longleftrightarrow> bid_less sample_id (sample_id\<lparr>id_offset := 7\<rparr>)"
proof -
  have "bid_compat (sample_id\<lparr>id_offset := 7\<rparr>) sample_id"
    by (simp add: bid_compat_def sample_id_def)
  from bundle_id_order [OF this] show ?thesis by blast
qed

text \<open>Between a bundle and its fragments \<open>operator<\<close> is no strict weak order. The
  whole bundle is incomparable with each of its fragments although the fragments are ordered among
  themselves, so a set that holds the whole bundle takes none of its fragments, and
  \<open>operator==\<close> depends on the side the fragment stands on.\<close>

theorem bundle_id_fragment_confusion:
  assumes "\<not> id_fragment w" and "id_offset w = 0" and "x \<noteq> 0"
  shows "\<not> bid_less w (w\<lparr>id_fragment := True, id_offset := x\<rparr>)
         \<and> \<not> bid_less (w\<lparr>id_fragment := True, id_offset := x\<rparr>) w
         \<and> bid_less (w\<lparr>id_fragment := True, id_offset := 0\<rparr>) (w\<lparr>id_fragment := True, id_offset := x\<rparr>)
         \<and> oset_insert bid_less (w\<lparr>id_fragment := True, id_offset := x\<rparr>) [w] = [w]
         \<and> bid_eq w (w\<lparr>id_fragment := True, id_offset := x\<rparr>)
         \<and> \<not> bid_eq (w\<lparr>id_fragment := True, id_offset := x\<rparr>) w"
  using assms by (simp add: bid_less_def bid_eq_def eid_less_def word_greater_zero_iff)

theorem bundle_id_fragment_confusion_witness:
  "oset_insert bid_less (sample_id\<lparr>id_fragment := True, id_offset := 3\<rparr>) [sample_id\<lparr>id_fragment := False\<rparr>]
     = [sample_id\<lparr>id_fragment := False\<rparr>]"
  using bundle_id_fragment_confusion [of "sample_id\<lparr>id_fragment := False\<rparr>" 3]
  by (simp add: sample_id_def)

text \<open>An identifier written to a stream is read back, except for the fragment flag, which is
  not written: the reader keeps the flag its object had.\<close>

theorem bundle_id_roundtrip:
  assumes "eid_canonical (id_source b)" and "length (eid_getString (id_source b)) < 2 ^ 63"
  shows "get_bid obj (bid_bytes (b :: bundle_id) @ s) = Inr (b\<lparr>id_fragment := id_fragment obj\<rparr>, s)"
  using assms
  by (simp add: get_bid_def bid_bytes_def get_sdnv_bytes get_bstr_bytes eid_parse_getString)

theorem bundle_id_roundtrip_witness:
  "get_bid (sample_id\<lparr>id_fragment := False\<rparr>) (bid_bytes sample_id @ []) = Inr (sample_id\<lparr>id_fragment := False\<rparr>, [])"
  using bundle_id_roundtrip [of sample_id "sample_id\<lparr>id_fragment := False\<rparr>" "[]"]
  by (simp add: sample_id_def eid_canonical_def eid_none_def DEFAULT_SCHEME_def is_blank_def eid_getString_def)

text \<open>For a bundle with an age block and without a timestamp of its own, expiry and expiry
  time agree: the bundle is expired exactly when the computed expiry time lies in the past, and
  the unsigned difference of lifetime and age does no harm even when the age is the larger one,
  because it is added to the current time.\<close>

theorem bundle_age_expiry:
  assumes "blocks_get AGE_BLOCK_TYPE AgeK (b_blocks b) = Inr blk" and "blk_body blk = AgeBody age t1 t2"
    and "p_timestamp b = 0" and "unat (clock_getTime c sys) + unat (p_lifetime b) < 2 ^ 64"
    and "unat (age_getSeconds age elapsed) \<le> unat (clock_getTime c sys) + unat (p_lifetime b)"
  shows "unat (bundle_getExpireTime c sys elapsed b)
           = unat (clock_getTime c sys) + unat (p_lifetime b) - unat (age_getSeconds age elapsed)
         \<and> (bundle_isExpired c sys elapsed b \<longleftrightarrow> bundle_getExpireTime c sys elapsed b < clock_getTime c sys)"
proof -
  let ?t = "clock_getTime c sys" and ?a = "age_getSeconds age elapsed"
  have time: "bundle_getExpireTime c sys elapsed b = (?t + p_lifetime b) - ?a"
    and old: "bundle_isExpired c sys elapsed b \<longleftrightarrow> p_lifetime b < ?a"
    using assms(1-3) by (simp_all add: bundle_isExpired_def bundle_getExpireTime_def bundle_age_def)
  have sum: "unat (?t + p_lifetime b) = unat ?t + unat (p_lifetime b)"
    using assms(4) by (simp add: unat_word_ariths)
  then have "?a \<le> ?t + p_lifetime b" using assms(5) by (simp add: word_le_nat_alt)
  then have "unat ((?t + p_lifetime b) - ?a) = unat ?t + unat (p_lifetime b) - unat ?a"
    using sum by (simp add: unat_sub)
  then show ?thesis using assms(5) unfolding time old word_less_nat_alt by auto
qed

theorem bundle_age_expiry_witness:
  "unat (bundle_getExpireTime sample_clock \<lparr>tv_sec = 5, tv_usec = 0\<rparr> 0
      (sample_bundle\<lparr>p_timestamp := 0, p_lifetime := 10, b_blocks := [age_new]\<rparr>)) = 10"
proof -
  have "clock_getTime sample_clock \<lparr>tv_sec = 5, tv_usec = 0\<rparr> = 0" by code_simp
  then show ?thesis
    using bundle_age_expiry [of "sample_bundle\<lparr>p_timestamp := 0, p_lifetime := 10, b_blocks := [age_new]\<rparr>"
        age_new 0 0 0 sample_clock "\<lparr>tv_sec = 5, tv_usec = 0\<rparr>" 0]
    by (simp add: block_new_def age_getSeconds_def)
qed

end
