(* ===== verification/Fragment.thy ===== *)
theory Fragment
  imports BundleId
begin

text \<open>
  Fragments: what \<open>DefaultSerializer\<close> writes for a \<open>BundleFragment\<close> is a bundle
  of its own, and \<open>BundleMerger\<close> (\<open>ibrdtn/data/BundleMerger.cpp\<close>) puts the
  payloads together again.
\<close>

section \<open>Merging\<close>

text \<open>
  A container is the bundle under construction and its payload BLOB, which the payload block
  of the bundle shares. Writing at a position of a BLOB is the parameter \<open>write\<close>. The
  copy loop tests for the end of the stream before it reads, so it writes one more byte, of a
  variable that was never assigned: the parameter \<open>junk\<close>.
\<close>

record container =
  mc_bundle :: dtn_bundle
  mc_blob :: "byte list"

definition mc_new :: "dtn_bundle \<Rightarrow> byte list \<Rightarrow> ibr_error + container" where
  "mc_new b ref =
     (if \<not> primary_get FRAGMENT b then Inl IbrException
      else Inr \<lparr>mc_bundle = (primary_set FRAGMENT False b)
                  \<lparr>b_blocks := blocks_push_back [] (block_new PAYLOAD_BLOCK_TYPE (PayloadBody ref))\<rparr>,
                mc_blob = ref\<rparr>)"

definition mc_isComplete :: "container \<Rightarrow> bool" where
  "mc_isComplete c = False"

definition mc_getBundle :: "container \<Rightarrow> dtn_bundle" where
  "mc_getBundle c =
     (mc_bundle c)\<lparr>b_blocks := map (\<lambda>b. b\<lparr>blk_body := PayloadBody (mc_blob c)\<rparr>) (b_blocks (mc_bundle c))\<rparr>"

definition mc_add ::
  "(nat \<Rightarrow> byte list \<Rightarrow> byte list \<Rightarrow> byte list) \<Rightarrow> byte \<Rightarrow> container \<Rightarrow> dtn_bundle \<Rightarrow> ibr_error + container" where
  "mc_add write junk c obj =
     (if p_timestamp (mc_bundle c) \<noteq> p_timestamp obj
         \<or> p_sequencenumber (mc_bundle c) \<noteq> p_sequencenumber obj
         \<or> p_source (mc_bundle c) \<noteq> p_source obj then Inl IbrException
      else case blocks_get PAYLOAD_BLOCK_TYPE PayloadK (b_blocks obj) of
             Inl e \<Rightarrow> Inl e
           | Inr p \<Rightarrow>
               (case blk_body p of
                  PayloadBody data \<Rightarrow>
                    Inr (c\<lparr>mc_blob := write (unat (p_fragmentoffset obj)) (data @ [junk]) (mc_blob c)\<rparr>)
                | _ \<Rightarrow> Inl NoSuchBlockFoundException))"

text \<open>The documented behaviour of writing at a position inside a stream or at its end.\<close>

definition blob_write_ok :: "(nat \<Rightarrow> byte list \<Rightarrow> byte list \<Rightarrow> byte list) \<Rightarrow> bool" where
  "blob_write_ok write \<longleftrightarrow>
     (\<forall>off data blob. off \<le> length blob \<longrightarrow>
        write off data blob = take off blob @ data @ drop (off + length data) blob)"

definition blob_write :: "nat \<Rightarrow> byte list \<Rightarrow> byte list \<Rightarrow> byte list" where
  "blob_write off data blob = take off blob @ data @ drop (off + length data) blob"

lemma blob_write_ok_blob_write: "blob_write_ok blob_write"
  by (simp add: blob_write_ok_def blob_write_def)

section \<open>The bundle a fragment is\<close>






lemma fragment_primary_sel [simp]:
  "p_source (fragment_primary b off len) = p_source b"
  "p_destination (fragment_primary b off len) = p_destination b"
  "p_reportto (fragment_primary b off len) = p_reportto b"
  "p_custodian (fragment_primary b off len) = p_custodian b"
  "p_timestamp (fragment_primary b off len) = p_timestamp b"
  "p_sequencenumber (fragment_primary b off len) = p_sequencenumber b"
  "p_fragmentoffset (fragment_primary b off len) = p_fragmentoffset b + off"
  "p_appdatalength (fragment_primary b off len) = len"
  by (simp_all add: fragment_primary_def primary_set_def primary.truncate_def Let_def)





section \<open>Correctness\<close>



text \<open>The container after a run of consecutive fragments.\<close>

lemma mc_add_at:
  assumes "blob_write_ok write" and "mc_blob c = blob @ rest" and "length rest \<le> 1"
    and "unat (p_fragmentoffset obj) = length blob"
    and "blocks_get PAYLOAD_BLOCK_TYPE PayloadK (b_blocks obj) = Inr p" and "blk_body p = PayloadBody data"
    and "p_timestamp (mc_bundle c) = p_timestamp obj" "p_sequencenumber (mc_bundle c) = p_sequencenumber obj"
      "p_source (mc_bundle c) = p_source obj"
  shows "mc_add write junk c obj = Inr (c\<lparr>mc_blob := blob @ data @ [junk]\<rparr>)"
proof -
  have "write (length blob) (data @ [junk]) (blob @ rest) = blob @ data @ [junk]"
    using assms(1,3) by (simp add: blob_write_ok_def)
  then show ?thesis using assms by (simp add: mc_add_def)
qed

definition fragment_of :: "dtn_bundle \<Rightarrow> nat \<Rightarrow> byte list \<Rightarrow> dtn_bundle \<Rightarrow> bool" where
  "fragment_of b off data f \<longleftrightarrow>
     p_timestamp f = p_timestamp b \<and> p_sequencenumber f = p_sequencenumber b \<and> p_source f = p_source b
     \<and> unat (p_fragmentoffset f) = off
     \<and> (\<exists>p. blocks_get PAYLOAD_BLOCK_TYPE PayloadK (b_blocks f) = Inr p \<and> blk_body p = PayloadBody data)"

fun mc_add_all ::
  "(nat \<Rightarrow> byte list \<Rightarrow> byte list \<Rightarrow> byte list) \<Rightarrow> byte \<Rightarrow> container \<Rightarrow> dtn_bundle list \<Rightarrow> ibr_error + container" where
  "mc_add_all write junk c [] = Inr c"
| "mc_add_all write junk c (f # fs) =
     (case mc_add write junk c f of Inl e \<Rightarrow> Inl e | Inr c' \<Rightarrow> mc_add_all write junk c' fs)"

fun consecutive :: "dtn_bundle \<Rightarrow> nat \<Rightarrow> byte list list \<Rightarrow> dtn_bundle list \<Rightarrow> bool" where
  "consecutive b off [] fs = (fs = [])"
| "consecutive b off (d # ds) fs =
     (case fs of [] \<Rightarrow> False | f # fs' \<Rightarrow> fragment_of b off d f \<and> consecutive b (off + length d) ds fs')"

lemma mc_add_all_consecutive:
  assumes "blob_write_ok write" and "consecutive b (length blob) ds fs" and "mc_blob c = blob @ rest"
    and "length rest \<le> 1" and "ds \<noteq> []"
    and "p_timestamp (mc_bundle c) = p_timestamp b" "p_sequencenumber (mc_bundle c) = p_sequencenumber b"
      "p_source (mc_bundle c) = p_source b"
  shows "mc_add_all write junk c fs = Inr (c\<lparr>mc_blob := blob @ concat ds @ [junk]\<rparr>)"
  using assms(2-)
proof (induction ds arbitrary: blob rest fs c)
  case (Cons d ds)
  then obtain f fs' where fs: "fs = f # fs'" "fragment_of b (length blob) d f" "consecutive b (length (blob @ d)) ds fs'"
    by (auto split: list.splits)
  have add: "mc_add write junk c f = Inr (c\<lparr>mc_blob := blob @ d @ [junk]\<rparr>)"
    using fs(2) Cons.prems by (auto simp: fragment_of_def intro: mc_add_at [OF assms(1)])
  show ?case
  proof (cases "ds = []")
    case True
    then show ?thesis using fs add by simp
  next
    case False
    then show ?thesis
      using Cons.IH [OF fs(3), of "c\<lparr>mc_blob := blob @ d @ [junk]\<rparr>" "[junk]"] Cons.prems add fs(1) by simp
  qed
qed simp

text \<open>Fragments that arrive in order, without gaps, are merged into the payload they were cut
  from, followed by one byte too many; the merged bundle has the identity of the fragments and
  is no fragment any more. The container never reports that it is complete.\<close>

theorem merge_in_order:
  assumes "blob_write_ok write" and "mc_new b [] = Inr c" and "consecutive b 0 ds fs" and "ds \<noteq> []"
  shows "\<exists>c'. mc_add_all write junk c fs = Inr c' \<and> mc_blob c' = concat ds @ [junk]
           \<and> map blk_body (b_blocks (mc_getBundle c')) = [PayloadBody (concat ds @ [junk])]
           \<and> \<not> primary_get FRAGMENT (mc_getBundle c') \<and> p_source (mc_getBundle c') = p_source b
           \<and> p_timestamp (mc_getBundle c') = p_timestamp b \<and> \<not> mc_isComplete c'"
proof -
  have c: "c = \<lparr>mc_bundle = (primary_set FRAGMENT False b)
        \<lparr>b_blocks := blocks_push_back [] (block_new PAYLOAD_BLOCK_TYPE (PayloadBody []))\<rparr>, mc_blob = []\<rparr>"
    using assms(2) by (auto simp: mc_new_def split: if_splits)
  have "mc_add_all write junk c fs = Inr (c\<lparr>mc_blob := [] @ concat ds @ [junk]\<rparr>)"
    using assms by (intro mc_add_all_consecutive [where rest = "[]"]) (auto simp: c primary_set_def)
  then show ?thesis
    by (auto simp: c mc_getBundle_def mc_isComplete_def blocks_push_back_def primary_get_def primary_set_def
        FRAGMENT_def get_set_flag)
qed

definition sample_fragment :: "u64 \<Rightarrow> byte list \<Rightarrow> dtn_bundle" where
  "sample_fragment off data =
     sample_bundle\<lparr>p_procflags := 0x11, p_fragmentoffset := off,
       b_blocks := [block_new PAYLOAD_BLOCK_TYPE (PayloadBody data)]\<rparr>"

theorem merge_in_order_witness:
  "\<exists>c c'. mc_new (sample_fragment 0 [7, 8]) [] = Inr c
     \<and> mc_add_all blob_write 5 c [sample_fragment 0 [7, 8], sample_fragment 2 [9]] = Inr c'
     \<and> mc_blob c' = [7, 8, 9, 5]"
proof -
  let ?b = "sample_fragment 0 [7, 8]"
  have "primary_get FRAGMENT ?b" by code_simp
  then obtain c where c: "mc_new ?b [] = Inr c" by (simp add: mc_new_def)
  have "consecutive ?b 0 [[7, 8], [9]] [?b, sample_fragment 2 [9]]"
    by (simp add: fragment_of_def sample_fragment_def block_new_def)
  from merge_in_order [OF blob_write_ok_blob_write c this, of 5] c show ?thesis by auto
qed

text \<open>Receiving a fragment a second time damages the payload: the surplus byte of the copy loop
  overwrites the first byte of the fragment behind it.\<close>

theorem merge_repeated_fragment:
  assumes "blob_write_ok write" and "mc_blob c = d1 @ d2 @ rest" and "d2 \<noteq> []"
    and "fragment_of (mc_bundle c) 0 d1 f"
  shows "\<exists>c'. mc_add write junk c f = Inr c' \<and> mc_blob c' = d1 @ junk # tl d2 @ rest"
proof -
  have "write 0 (d1 @ [junk]) (d1 @ d2 @ rest) = d1 @ junk # tl d2 @ rest"
    using assms(1,3) by (cases d2) (auto simp: blob_write_ok_def)
  then show ?thesis using assms(2,4) by (auto simp: mc_add_def fragment_of_def)
qed

theorem merge_repeated_fragment_witness:
  "\<exists>c'. mc_add blob_write 5 \<lparr>mc_bundle = sample_fragment 0 [7], mc_blob = [7, 8, 9]\<rparr> (sample_fragment 0 [7])
     = Inr c' \<and> mc_blob c' = [7, 5, 9]"
  using merge_repeated_fragment [OF blob_write_ok_blob_write, of "\<lparr>mc_bundle = sample_fragment 0 [7], mc_blob = [7, 8, 9]\<rparr>"
      "[7]" "[8]" "[9]" "sample_fragment 0 [7]" 5]
  by (simp add: fragment_of_def sample_fragment_def block_new_def)

end
