(* ===== verification/Capsule.thy ===== *)
theory Capsule
  imports Fragment
begin

text \<open>
  Helpers of \<open>ibrdtn/utils/Utils.cpp\<close>: splitting strings, and packing bundles into the
  payload of one bundle and unpacking them.
\<close>

section \<open>Splitting strings\<close>

text \<open>
  A position of the source is the rest of the string from there; the end of the string is
  \<open>npos\<close>. \<open>None\<close> is the \<open>std::out_of_range\<close> that \<open>substr(npos)\<close> throws.
\<close>

function tok_loop :: "char set \<Rightarrow> nat \<Rightarrow> string list \<Rightarrow> string \<Rightarrow> string list option" where
  "tok_loop token limit l rest =
     (if rest = [] then Some l
      else let l' = l @ [takeWhile (\<lambda>c. c \<notin> token) rest];
               next = dropWhile (\<lambda>c. c \<in> token) (dropWhile (\<lambda>c. c \<notin> token) rest)
           in if limit \<le> length l' then (if next = [] then None else Some (l' @ [next]))
              else if length next < length rest then tok_loop token limit l' next
              else None)"
  by pat_completeness auto

termination tok_loop
  by (relation "measure (\<lambda>(token, limit, l, rest). length rest)") auto

declare tok_loop.simps [simp del]

definition tokenize :: "string \<Rightarrow> string \<Rightarrow> nat \<Rightarrow> string list option" where
  "tokenize token data limit = tok_loop (set token) limit [] (dropWhile (\<lambda>c. c \<in> set token) data)"

section \<open>Packing bundles\<close>

text \<open>
  The lengths are those the serializer predicts, one bundle after the other; with no bundle
  the loop bound \<open>size() - 1\<close> wraps around and the loop runs off the list.
\<close>

fun caps_lengths :: "serializer \<Rightarrow> dtn_bundle list \<Rightarrow> byte list \<times> serializer" where
  "caps_lengths st [] = ([], st)"
| "caps_lengths st (b # bs) =
     (let (n, st1) = ser_getLength_bundle st b; (bytes, st2) = caps_lengths st1 bs
      in (sdnv_bytes (word_of_nat n) @ bytes, st2))"

fun caps_bundles :: "serializer \<Rightarrow> dtn_bundle list \<Rightarrow> ibr_error + byte list" where
  "caps_bundles st [] = Inr []"
| "caps_bundles st (b # bs) =
     (case ser_bundle st b of
        Inl e \<Rightarrow> Inl e
      | Inr (x, st') \<Rightarrow> (case caps_bundles st' bs of Inl e \<Rightarrow> Inl e | Inr y \<Rightarrow> Inr (x @ y)))"

definition encapsule_blob :: "dtn_bundle list \<Rightarrow> ibr_error + byte list" where
  "encapsule_blob bundles =
     (if bundles = [] then Inl Indeterminate
      else let (lens, st) = caps_lengths ser_new (butlast bundles)
           in case caps_bundles st bundles of
                Inl e \<Rightarrow> Inl e
              | Inr bytes \<Rightarrow> Inr (sdnv_bytes (word_of_nat (length bundles)) @ lens @ bytes))"

text \<open>
  The capsule: its payload block is refilled or a new one is appended; its lifetime reaches
  to the latest expiry of a bundle inside, an unsigned difference.
\<close>

fun blocks_refill :: "byte list \<Rightarrow> block list \<Rightarrow> block list" where
  "blocks_refill data [] = []"
| "blocks_refill data (b # bs) =
     (if blk_type b = PAYLOAD_BLOCK_TYPE then b\<lparr>blk_body := PayloadBody data\<rparr> # bs else b # blocks_refill data bs)"

definition encapsule :: "(dtn_bundle \<Rightarrow> u64) \<Rightarrow> dtn_bundle \<Rightarrow> dtn_bundle list \<Rightarrow> ibr_error + dtn_bundle" where
  "encapsule expire capsule bundles =
     (case encapsule_blob bundles of
        Inl e \<Rightarrow> Inl e
      | Inr data \<Rightarrow>
          (let bs = (case blocks_get PAYLOAD_BLOCK_TYPE PayloadK (b_blocks capsule) of
                       Inr _ \<Rightarrow> blocks_refill data (b_blocks capsule)
                     | Inl _ \<Rightarrow> blocks_push_back (b_blocks capsule) (block_new PAYLOAD_BLOCK_TYPE (PayloadBody data)));
               exp_time = foldl (\<lambda>t b. if t < expire b then expire b else t) 0 bundles;
               custody = list_ex (primary_get CUSTODY_REQUESTED) bundles
           in Inr ((primary_set CUSTODY_REQUESTED custody capsule)
                     \<lparr>b_blocks := bs, p_lifetime := exp_time - p_timestamp capsule\<rparr>)))"

text \<open>
  Unpacking: an exception of invalid data ends the reading and keeps the bundles read so
  far; all bundles are read into one object, one after the other.
\<close>

fun decaps_bundles ::
  "(nat \<Rightarrow> byte list reader) \<Rightarrow> factories \<Rightarrow> dtntime \<Rightarrow> nat \<Rightarrow> deserializer \<Rightarrow> dtn_bundle \<Rightarrow> byte list
     \<Rightarrow> ibr_error + dtn_bundle list" where
  "decaps_bundles copy fs now 0 st obj s = Inr []"
| "decaps_bundles copy fs now (Suc n) st obj s =
     (case des_bundle copy accept_validator fs now st obj s of
        Inl (e, s') \<Rightarrow> if is_invalid_data e then Inr [] else Inl e
      | Inr ((b, st'), s') \<Rightarrow>
          (case decaps_bundles copy fs now n st' b s' of Inl e \<Rightarrow> Inl e | Inr bs \<Rightarrow> Inr (b # bs)))"

definition decapsule ::
  "(nat \<Rightarrow> byte list reader) \<Rightarrow> factories \<Rightarrow> dtntime \<Rightarrow> dtn_bundle \<Rightarrow> dtn_bundle \<Rightarrow> ibr_error + dtn_bundle list" where
  "decapsule copy fs now fresh capsule =
     (case blocks_get PAYLOAD_BLOCK_TYPE PayloadK (b_blocks capsule) of
        Inl _ \<Rightarrow> Inr []
      | Inr p \<Rightarrow>
          (case blk_body p of
             PayloadBody data \<Rightarrow>
               (case rbind get_sdnv (\<lambda>nob. rbind (rrepeat (unat (nob - 1)) get_sdnv) (\<lambda>_. rret nob)) data of
                  Inl (e, _) \<Rightarrow> Inl e
                | Inr (nob, s) \<Rightarrow> decaps_bundles copy fs now (unat nob) des_new fresh s)
           | _ \<Rightarrow> Inl Indeterminate))"

section \<open>Tokens\<close>

text \<open>The tokens of a string without a limit.\<close>

function tokens :: "char set \<Rightarrow> string \<Rightarrow> string list" where
  "tokens token s =
     (let s' = dropWhile (\<lambda>c. c \<in> token) s
      in if s' = [] then []
         else takeWhile (\<lambda>c. c \<notin> token) s' # tokens token (dropWhile (\<lambda>c. c \<notin> token) s'))"
  by pat_completeness auto

lemma dropWhile_shorter: "s \<noteq> [] \<Longrightarrow> P (hd s) \<Longrightarrow> length (dropWhile P s) < length s"
  by (cases s) (auto simp: le_imp_less_Suc length_dropWhile_le)

lemma hd_dropWhile_in: "dropWhile P s \<noteq> [] \<Longrightarrow> \<not> P (hd (dropWhile P s))"
  by (rule hd_dropWhile)

lemma rest_shorter:
  assumes "s' = dropWhile (\<lambda>c. c \<in> token) s" and "s' \<noteq> []"
  shows "length (dropWhile (\<lambda>c. c \<notin> token) s') < length s"
proof -
  have "hd s' \<notin> token" using hd_dropWhile_in [of "\<lambda>c. c \<in> token" s] assms by simp
  then have "length (dropWhile (\<lambda>c. c \<notin> token) s') < length s'"
    using assms(2) dropWhile_shorter [of s' "\<lambda>c. c \<notin> token"] by simp
  also have "\<dots> \<le> length s" using assms(1) length_dropWhile_le by simp
  finally show ?thesis .
qed

termination tokens
proof (relation "measure (\<lambda>(token, s). length s)")
  fix token and s x :: string
  assume "x = dropWhile (\<lambda>c. c \<in> token) s" and "x \<noteq> []"
  then show "((token, dropWhile (\<lambda>c. c \<notin> token) x), (token, s)) \<in> measure (\<lambda>(token, s). length s)"
    unfolding in_measure split by (rule rest_shorter)
qed simp

declare tokens.simps [simp del]

lemma tokens_dropWhile: "tokens token (dropWhile (\<lambda>c. c \<in> token) s) = tokens token s"
  by (subst (1 2) tokens.simps) simp

lemma tokens_step:
  assumes "rest \<noteq> []" and "hd rest \<notin> token"
  shows "tokens token rest = takeWhile (\<lambda>c. c \<notin> token) rest
           # tokens token (dropWhile (\<lambda>c. c \<in> token) (dropWhile (\<lambda>c. c \<notin> token) rest))"
proof -
  have "dropWhile (\<lambda>c. c \<in> token) rest = rest" using assms by (cases rest) auto
  then show ?thesis using assms(1) by (subst tokens.simps) (simp add: tokens_dropWhile)
qed

lemma tokens_Nil [simp]: "tokens token [] = []"
  by (subst tokens.simps) simp

lemma tokens_Nil_iff: "rest = [] \<or> hd rest \<notin> token \<Longrightarrow> tokens token rest = [] \<longleftrightarrow> rest = []"
  using tokens_step [of rest token] by (cases "rest = []") auto

text \<open>The string behind the first tokens.\<close>

fun tok_skip :: "char set \<Rightarrow> nat \<Rightarrow> string \<Rightarrow> string" where
  "tok_skip token 0 s = s"
| "tok_skip token (Suc n) s = tok_skip token n (dropWhile (\<lambda>c. c \<in> token) (dropWhile (\<lambda>c. c \<notin> token) s))"

lemma tok_loop_eq:
  assumes "rest = [] \<or> hd rest \<notin> token" and "length l < limit"
  shows "tok_loop token limit l rest =
     (if length l + length (tokens token rest) < limit then Some (l @ tokens token rest)
      else if length l + length (tokens token rest) = limit then None
      else Some (l @ take (limit - length l) (tokens token rest) @ [tok_skip token (limit - length l) rest]))"
  using assms
proof (induction token limit l rest rule: tok_loop.induct)
  case (1 token limit l rest)
  show ?case
  proof (cases "rest = []")
    case True
    then show ?thesis using "1.prems" by (subst tok_loop.simps) simp
  next
    case False
    let ?tok = "takeWhile (\<lambda>c. c \<notin> token) rest"
    let ?next = "dropWhile (\<lambda>c. c \<in> token) (dropWhile (\<lambda>c. c \<notin> token) rest)"
    define tok nxt where "tok = ?tok" and "nxt = ?next"
    have hd: "hd rest \<notin> token" using "1.prems"(1) False by blast
    have toks: "tokens token rest = tok # tokens token nxt"
      unfolding tok_def nxt_def by (rule tokens_step [OF False hd])
    have nx: "nxt = [] \<or> hd nxt \<notin> token"
      unfolding nxt_def using hd_dropWhile_in [of "\<lambda>c. c \<in> token" "dropWhile (\<lambda>c. c \<notin> token) rest"] by blast
    have "length nxt \<le> length (dropWhile (\<lambda>c. c \<notin> token) rest)" unfolding nxt_def by (rule length_dropWhile_le)
    also have "\<dots> < length rest" using dropWhile_shorter [of rest "\<lambda>c. c \<notin> token"] False hd by blast
    finally have less: "length nxt < length rest" .
    have loop: "tok_loop token limit l rest =
        (if limit \<le> length (l @ [tok]) then (if nxt = [] then None else Some ((l @ [tok]) @ [nxt]))
         else if length nxt < length rest then tok_loop token limit (l @ [tok]) nxt else None)"
      unfolding tok_def nxt_def by (subst tok_loop.simps) (simp only: False if_False Let_def)
    have skip: "tok_skip token (Suc n) rest = tok_skip token n nxt" for n by (simp add: nxt_def)
    show ?thesis
    proof (cases "limit \<le> length (l @ [tok])")
      case True
      then have "limit = Suc (length l)" using "1.prems"(2) by simp
      then show ?thesis
        using loop True tokens_Nil_iff [OF nx] skip [of 0] by (cases "tokens token nxt") (simp_all add: toks)
    next
      case lim: False
      then have len: "length (l @ [tok]) < limit" by simp
      have k: "limit - length l = Suc (limit - length (l @ [tok]))" using len by simp
      have "tok_loop token limit l rest = tok_loop token limit (l @ [tok]) nxt" using loop lim less by simp
      moreover note "1.IH" [OF False tok_def [THEN arg_cong [where f = "\<lambda>x. l @ [x]"]] nxt_def lim less nx len]
      ultimately show ?thesis unfolding k skip toks by simp
    qed
  qed
qed

text \<open>The tokens are the maximal runs of other characters.\<close>

lemma tokens_clean:
  "concat (tokens token s) = filter (\<lambda>c. c \<notin> token) s
     \<and> list_all (\<lambda>t. t \<noteq> [] \<and> set t \<inter> token = {}) (tokens token s)"
proof (induction token s rule: tokens.induct)
  case (1 token s)
  let ?s = "dropWhile (\<lambda>c. c \<in> token) s"
  have f: "filter (\<lambda>c. c \<notin> token) s = filter (\<lambda>c. c \<notin> token) ?s"
    by (induction s) auto
  show ?case
  proof (cases "?s = []")
    case True
    then show ?thesis using f by (subst (1 2) tokens.simps) simp
  next
    case False
    let ?r = "dropWhile (\<lambda>c. c \<notin> token) ?s" and ?t = "takeWhile (\<lambda>c. c \<notin> token) ?s"
    have "hd ?s \<notin> token" using hd_dropWhile_in [OF False] by simp
    then have t: "?t \<noteq> []" using False by (cases ?s) auto
    have "set ?t \<inter> token = {}" by (auto dest: set_takeWhileD)
    moreover have "filter (\<lambda>c. c \<notin> token) ?s = ?t @ filter (\<lambda>c. c \<notin> token) ?r"
    proof -
      have "filter (\<lambda>c. c \<notin> token) ?t = ?t" by (auto simp: filter_id_conv dest: set_takeWhileD)
      then show ?thesis using filter_append [of "\<lambda>c. c \<notin> token" ?t ?r] by simp
    qed
    ultimately show ?thesis
      using False t f "1.IH" [OF refl False] by (subst (1 2) tokens.simps) (simp add: Let_def)
  qed
qed

section \<open>Unpacking what was packed\<close>

text \<open>The object read into keeps its fragment fields from bundle to bundle.\<close>

fun bundles_arrived :: "factories \<Rightarrow> dtntime \<Rightarrow> dtn_bundle \<Rightarrow> dtn_bundle list \<Rightarrow> dtn_bundle list" where
  "bundles_arrived fs now obj [] = []"
| "bundles_arrived fs now obj (b # bs) =
     (let a = bundle_arrived fs now obj b in a # bundles_arrived fs now a bs)"

lemma rebuildDictionary_fail: "dict_fail (ser_dict (ser_rebuildDictionary w b)) = dict_fail (ser_dict w)"
proof -
  have "dict_fail (foldl dict_add_eid d es) = dict_fail d" for d es
    by (induction es arbitrary: d) (simp_all add: dict_add_eid_def dict_add_def)
  then show ?thesis by (simp add: rebuildDictionary_eq dict_clear_def)
qed

lemma ser_bundle_fail:
  assumes "ser_bundle w b = Inr (x, w')"
  shows "dict_fail (ser_dict w') = dict_fail (ser_dict w)"
  using assms rebuildDictionary_fail [of w b]
  by (auto simp: ser_bundle_def ser_primary_def dict_put_def Let_def split: sum.splits prod.splits if_splits)

lemma caps_lengths_fail: "caps_lengths w bs = (bytes, w') \<Longrightarrow> dict_fail (ser_dict w') = dict_fail (ser_dict w)"
  by (induction bs arbitrary: w bytes)
     (auto simp: ser_getLength_bundle_def Let_def rebuildDictionary_fail split: prod.splits)

lemma caps_lengths_read:
  "caps_lengths w bs = (bytes, w') \<Longrightarrow> \<exists>ns. rrepeat (length bs) get_sdnv (bytes @ s) = Inr (ns, s)"
  by (induction bs arbitrary: w bytes) (fastforce simp: Let_def get_sdnv_bytes split: prod.splits)+

lemma decaps_caps:
  assumes copy: "blob_copy_ok copy" and "\<not> dict_fail (ser_dict w)" and "\<not> dict_fail (des_dict r)"
    and "list_all (bundle_sendable fs) bs"
  shows "\<exists>bytes. caps_bundles w bs = Inr bytes
           \<and> decaps_bundles copy fs now (length bs) r obj (bytes @ s) = Inr (bundles_arrived fs now obj bs)"
  using assms(2-)
proof (induction bs arbitrary: w r obj)
  case (Cons b bs)
  obtain x w' where x: "ser_bundle w b = Inr (x, w')"
      and d: "\<And>t. \<exists>r'. des_bundle copy accept_validator fs now r obj (x @ t)
               = Inr ((bundle_arrived fs now obj b, r'), t) \<and> \<not> dict_fail (des_dict r')"
    using des_bundle_ser_bundle [OF copy Cons.prems(1,2), of fs b now obj] Cons.prems(3) by auto
  have w': "\<not> dict_fail (ser_dict w')" using ser_bundle_fail [OF x] Cons.prems(1) by simp
  obtain bytes where bytes: "caps_bundles w' bs = Inr bytes"
    using Cons.IH [OF w' Cons.prems(2)] Cons.prems(3) by fastforce
  obtain r' where r': "des_bundle copy accept_validator fs now r obj (x @ bytes @ s)
      = Inr ((bundle_arrived fs now obj b, r'), bytes @ s)" "\<not> dict_fail (des_dict r')"
    using d by blast
  then show ?case
    using Cons.IH [OF w' r'(2), of "bundle_arrived fs now obj b"] Cons.prems(3) x bytes by (simp add: Let_def)
qed simp

section \<open>Correctness\<close>

text \<open>\<open>tokenize\<close> splits a string into its maximal runs of characters that are no
  delimiters. With a limit, further text is returned unsplit as one more element; a string with
  exactly as many tokens as the limit makes it throw \<open>std::out_of_range\<close>.\<close>

theorem tokenize_splits:
  assumes "0 < limit" and "n = length (tokens (set token) data)"
  shows "concat (tokens (set token) data) = filter (\<lambda>c. c \<notin> set token) data
         \<and> list_all (\<lambda>t. t \<noteq> [] \<and> set t \<inter> set token = {}) (tokens (set token) data)
         \<and> (n < limit \<longrightarrow> tokenize token data limit = Some (tokens (set token) data))
         \<and> (n = limit \<longrightarrow> tokenize token data limit = None)
         \<and> (limit < n \<longrightarrow> (\<exists>rest. tokenize token data limit = Some (take limit (tokens (set token) data) @ [rest])))"
proof -
  let ?s = "dropWhile (\<lambda>c. c \<in> set token) data"
  have "?s = [] \<or> hd ?s \<notin> set token" using hd_dropWhile_in [of "\<lambda>c. c \<in> set token" data] by blast
  from tok_loop_eq [OF this, of "[]" limit] show ?thesis
    using assms tokens_clean [of "set token" data] by (simp add: tokenize_def tokens_dropWhile)
qed

theorem tokenize_splits_witness:
  "tokenize '' '' ''ab  c'' 5 = Some [''ab'', ''c''] \<and> tokenize '' '' ''ab  c'' 2 = None"
proof -
  have t: "tokens (set '' '') ''ab  c'' = [''ab'', ''c'']" by (simp add: tokens.simps)
  show ?thesis
    using tokenize_splits [of 5 2 "'' ''" "''ab  c''"] tokenize_splits [of 2 2 "'' ''" "''ab  c''"]
    unfolding t by simp
qed

text \<open>Bundles packed into a capsule are unpacked again, all of them and in their order; the lengths
  in the header of the capsule are not needed for that.\<close>

theorem capsule_roundtrip:
  assumes "blob_copy_ok copy" and "bundles \<noteq> []" and "length bundles < 2 ^ 64"
    and "list_all (bundle_sendable fs) bundles"
  shows "\<exists>data. encapsule_blob bundles = Inr data \<and>
           (\<forall>capsule p. blocks_get PAYLOAD_BLOCK_TYPE PayloadK (b_blocks capsule) = Inr p
              \<and> blk_body p = PayloadBody data \<longrightarrow>
              decapsule copy fs now fresh capsule = Inr (bundles_arrived fs now fresh bundles))"
proof -
  obtain lens st where lens: "caps_lengths ser_new (butlast bundles) = (lens, st)" by fastforce
  have st: "\<not> dict_fail (ser_dict st)" using caps_lengths_fail [OF lens] by (simp add: ser_new_def dict_new_def)
  have r: "\<not> dict_fail (des_dict des_new)" by (simp add: des_new_def dict_new_def)
  obtain bytes where bytes: "caps_bundles st bundles = Inr bytes"
      "decaps_bundles copy fs now (length bundles) des_new fresh (bytes @ []) = Inr (bundles_arrived fs now fresh bundles)"
    using decaps_caps [OF assms(1) st r assms(4)] by blast
  let ?n = "word_of_nat (length bundles) :: u64"
  have n: "unat ?n = length bundles" using assms(3) by (simp add: unat_of_nat)
  have "?n - 1 = word_of_nat (length bundles - 1)" using assms(2) by (cases bundles) simp_all
  then have n1: "unat (?n - 1) = length (butlast bundles)" using assms(3) by (simp add: unat_of_nat)
  obtain ns where "rrepeat (length (butlast bundles)) get_sdnv (lens @ bytes) = Inr (ns, bytes)"
    using caps_lengths_read [OF lens] by blast
  then have "rbind get_sdnv (\<lambda>nob. rbind (rrepeat (unat (nob - 1)) get_sdnv) (\<lambda>_. rret nob))
      (sdnv_bytes ?n @ lens @ bytes) = Inr (?n, bytes)"
    by (simp add: get_sdnv_bytes n1 [simplified])
  then have "decapsule copy fs now fresh capsule = Inr (bundles_arrived fs now fresh bundles)"
    if "blocks_get PAYLOAD_BLOCK_TYPE PayloadK (b_blocks capsule) = Inr p
        \<and> blk_body p = PayloadBody (sdnv_bytes ?n @ lens @ bytes)" for capsule p
    using that bytes(2) n by (simp add: decapsule_def)
  moreover have "encapsule_blob bundles = Inr (sdnv_bytes ?n @ lens @ bytes)"
    using assms(2) lens bytes(1) by (simp add: encapsule_blob_def)
  ultimately show ?thesis by blast
qed

theorem capsule_roundtrip_witness:
  "\<exists>data. encapsule_blob [sample_bundle] = Inr data \<and>
     decapsule rtake default_factories sample_time sample_object
       (sample_object\<lparr>b_blocks := [block_new PAYLOAD_BLOCK_TYPE (PayloadBody data)]\<rparr>)
     = Inr [bundle_arrived default_factories sample_time sample_object sample_bundle]"
proof -
  have "list_all (bundle_sendable default_factories) [sample_bundle]"
    using sample_bundle_sendable by simp
  from capsule_roundtrip [OF blob_copy_ok_rtake _ _ this, of sample_time sample_object]
  obtain data where data: "encapsule_blob [sample_bundle] = Inr data"
      "\<forall>capsule p. blocks_get PAYLOAD_BLOCK_TYPE PayloadK (b_blocks capsule) = Inr p
         \<and> blk_body p = PayloadBody data \<longrightarrow> decapsule rtake default_factories sample_time sample_object capsule
           = Inr (bundles_arrived default_factories sample_time sample_object [sample_bundle])"
    by auto
  have "blocks_get PAYLOAD_BLOCK_TYPE PayloadK
      (b_blocks (sample_object\<lparr>b_blocks := [block_new PAYLOAD_BLOCK_TYPE (PayloadBody data)]\<rparr>))
      = Inr (block_new PAYLOAD_BLOCK_TYPE (PayloadBody data))" by (simp add: block_new_def)
  with data show ?thesis by (fastforce simp: block_new_def)
qed

end
