(* ===== verification/Segment.thy ===== *)
theory Segment
  imports Dictionary
begin

text \<open>
  The messages of the TCP convergence layer: segments
  (\<open>ibrdtn/streams/StreamDataSegment.cpp\<close>) and the contact header
  (\<open>ibrdtn/streams/StreamContactHeader.cpp\<close>), with their wire formats.
\<close>

section \<open>Segments\<close>

definition MSG_DATA_SEGMENT :: byte where "MSG_DATA_SEGMENT = 0x1"
definition MSG_ACK_SEGMENT :: byte where "MSG_ACK_SEGMENT = 0x2"
definition MSG_REFUSE_BUNDLE :: byte where "MSG_REFUSE_BUNDLE = 0x3"
definition MSG_KEEPALIVE :: byte where "MSG_KEEPALIVE = 0x4"
definition MSG_SHUTDOWN :: byte where "MSG_SHUTDOWN = 0x5"

lemmas msg_types = MSG_DATA_SEGMENT_def MSG_ACK_SEGMENT_def MSG_REFUSE_BUNDLE_def MSG_KEEPALIVE_def
  MSG_SHUTDOWN_def

definition MSG_MARK_BEGINN :: byte where "MSG_MARK_BEGINN = 0x02"
definition MSG_MARK_END :: byte where "MSG_MARK_END = 0x01"

definition MSG_SHUTDOWN_NONE :: byte where "MSG_SHUTDOWN_NONE = 0xff"
definition MSG_SHUTDOWN_IDLE_TIMEOUT :: byte where "MSG_SHUTDOWN_IDLE_TIMEOUT = 0x00"
definition MSG_SHUTDOWN_VERSION_MISSMATCH :: byte where "MSG_SHUTDOWN_VERSION_MISSMATCH = 0x01"
definition MSG_SHUTDOWN_BUSY :: byte where "MSG_SHUTDOWN_BUSY = 0x02"

text \<open>Four bits of the wire hold the type, so a received type need not be one of the five.\<close>

record segment =
  seg_value :: u64
  seg_type :: byte
  seg_reason :: byte
  seg_flags :: byte

definition seg_sized :: "byte \<Rightarrow> u64 \<Rightarrow> segment" where
  "seg_sized type sz =
     \<lparr>seg_value = sz, seg_type = type, seg_reason = MSG_SHUTDOWN_IDLE_TIMEOUT, seg_flags = 0\<rparr>"

definition seg_plain :: "byte \<Rightarrow> segment" where
  "seg_plain type =
     \<lparr>seg_value = 0, seg_type = type, seg_reason = MSG_SHUTDOWN_IDLE_TIMEOUT, seg_flags = 0\<rparr>"

definition seg_shutdown :: "byte \<Rightarrow> u64 \<Rightarrow> segment" where
  "seg_shutdown reason reconnect =
     \<lparr>seg_value = reconnect, seg_type = MSG_SHUTDOWN, seg_reason = reason, seg_flags = 3\<rparr>"

definition seg_bytes :: "segment \<Rightarrow> byte list" where
  "seg_bytes seg =
     (seg_flags seg + push_bit 4 (seg_type seg AND 0x0F)) #
     (if seg_type seg = MSG_DATA_SEGMENT then sdnv_bytes (seg_value seg)
      else if seg_type seg = MSG_ACK_SEGMENT then sdnv_bytes (seg_value seg)
      else if seg_type seg = MSG_SHUTDOWN then seg_reason seg # sdnv_bytes (seg_value seg)
      else [])"

text \<open>The fields a message does not carry keep the values the object had.\<close>

definition seg_body :: "segment \<Rightarrow> segment reader" where
  "seg_body seg =
     (if seg_type seg = MSG_DATA_SEGMENT then rbind get_sdnv (\<lambda>v. rret (seg\<lparr>seg_value := v\<rparr>))
      else if seg_type seg = MSG_ACK_SEGMENT then rbind get_sdnv (\<lambda>v. rret (seg\<lparr>seg_value := v\<rparr>))
      else if seg_type seg = MSG_SHUTDOWN then
        rbind rbyte (\<lambda>reason. rbind get_sdnv (\<lambda>v. rret (seg\<lparr>seg_reason := reason, seg_value := v\<rparr>)))
      else rret seg)"

definition get_seg :: "segment \<Rightarrow> segment reader" where
  "get_seg seg =
     rbind rbyte (\<lambda>header. seg_body (seg\<lparr>seg_type := drop_bit 4 (header AND 0xF0), seg_flags := header AND 0x0F\<rparr>))"

section \<open>The wire format of segments\<close>

text \<open>A segment a constructor can build: one of the five types, and four bits of flags.\<close>

definition seg_ok :: "segment \<Rightarrow> bool" where
  "seg_ok seg \<longleftrightarrow> seg_type seg \<in> {MSG_DATA_SEGMENT, MSG_ACK_SEGMENT, MSG_REFUSE_BUNDLE, MSG_KEEPALIVE, MSG_SHUTDOWN}
     \<and> seg_flags seg < 16"

text \<open>What arrives of a segment in an object \<open>obj\<close>.\<close>

definition seg_arrived :: "segment \<Rightarrow> segment \<Rightarrow> segment" where
  "seg_arrived obj seg =
     \<lparr>seg_value = (if seg_type seg \<in> {MSG_DATA_SEGMENT, MSG_ACK_SEGMENT, MSG_SHUTDOWN} then seg_value seg else seg_value obj),
      seg_type = seg_type seg,
      seg_reason = (if seg_type seg = MSG_SHUTDOWN then seg_reason seg else seg_reason obj),
      seg_flags = seg_flags seg\<rparr>"

lemma nibbles:
  fixes x :: byte
  shows "drop_bit 4 (x AND 0xF0) = drop_bit 4 x" and "x AND 0x0F = take_bit 4 x"
proof -
  show low: "y AND 0x0F = take_bit 4 y" for y :: byte by (simp add: take_bit_eq_mask mask_eq_exp_minus_1)
  have "unat (drop_bit 4 x) < 16"
    using unsigned_less [of x, where ?'a = nat] by (simp add: drop_bit_eq_div unat_div)
  then have "take_bit 4 (drop_bit 4 x) = drop_bit 4 x"
    by (simp add: word_unat_eq_iff take_bit_eq_mod unat_mod)
  then show "drop_bit 4 (x AND 0xF0) = drop_bit 4 x" by (simp add: low)
qed

lemma header_split:
  fixes f t :: byte
  assumes "f < 16" and "t < 16"
  shows "drop_bit 4 ((f + push_bit 4 (t AND 0x0F)) AND 0xF0) = t"
    and "(f + push_bit 4 (t AND 0x0F)) AND 0x0F = f"
proof -
  have b: "unat f < 16" "unat t < 16" using assms by (simp_all add: word_less_nat_alt)
  have "t AND 0x0F = t"
    using b(2) by (simp add: nibbles word_unat_eq_iff take_bit_eq_mod unat_mod)
  moreover have "unat (f + push_bit 4 t) = unat f + 16 * unat t"
    using b by (simp add: push_bit_eq_mult unat_word_ariths)
  ultimately have h: "unat (f + push_bit 4 (t AND 0x0F)) = unat f + 16 * unat t" by simp
  show "drop_bit 4 ((f + push_bit 4 (t AND 0x0F)) AND 0xF0) = t"
    using b unfolding nibbles(1) word_unat_eq_iff unsigned_drop_bit_eq h by (simp add: drop_bit_eq_div take_bit_eq_mod)
  show "(f + push_bit 4 (t AND 0x0F)) AND 0x0F = f"
    using b unfolding nibbles(2) [of "f + push_bit 4 (t AND 0x0F)"] word_unat_eq_iff unsigned_take_bit_eq h
    by (simp add: take_bit_eq_mod)
qed

lemma get_seg_bytes [wire_simps]:
  assumes "seg_ok seg"
  shows "get_seg obj (seg_bytes seg @ s) = Inr (seg_arrived obj seg, s)"
proof -
  define h where "h = seg_flags seg + push_bit 4 (seg_type seg AND 0x0F)"
  have "seg_type seg < 16" using assms by (auto simp: seg_ok_def msg_types)
  then have "drop_bit 4 (h AND 0xF0) = seg_type seg" "h AND 0x0F = seg_flags seg"
    using assms unfolding h_def seg_ok_def by (simp_all only: header_split)
  then have "get_seg obj (h # r) = seg_body (obj\<lparr>seg_type := seg_type seg, seg_flags := seg_flags seg\<rparr>) r" for r
    by (simp add: get_seg_def)
  moreover have "seg_bytes seg @ s = h # (tl (seg_bytes seg) @ s)" by (simp add: seg_bytes_def h_def)
  ultimately have "get_seg obj (seg_bytes seg @ s)
      = seg_body (obj\<lparr>seg_type := seg_type seg, seg_flags := seg_flags seg\<rparr>) (tl (seg_bytes seg) @ s)"
    by (simp only:)
  then show ?thesis
    using assms by (auto simp: seg_body_def seg_bytes_def seg_arrived_def seg_ok_def msg_types get_sdnv_bytes)
qed

section \<open>The contact header\<close>

definition TCPCL_VERSION :: byte where "TCPCL_VERSION = 3"

definition REQUEST_ACKNOWLEDGMENTS :: byte where "REQUEST_ACKNOWLEDGMENTS = 0x01"
definition REQUEST_FRAGMENTATION :: byte where "REQUEST_FRAGMENTATION = 0x02"
definition REQUEST_NEGATIVE_ACKNOWLEDGMENTS :: byte where "REQUEST_NEGATIVE_ACKNOWLEDGMENTS = 0x04"
definition REQUEST_TLS :: byte where "REQUEST_TLS = 0x80"

record contact_header =
  ch_localeid :: eid
  ch_flags :: byte
  ch_keepalive :: "16 word"

definition ch_new :: contact_header where
  "ch_new = \<lparr>ch_localeid = eid_none, ch_flags = 1, ch_keepalive = 0\<rparr>"

definition ch_of_eid :: "eid \<Rightarrow> contact_header" where
  "ch_of_eid localeid = \<lparr>ch_localeid = localeid, ch_flags = REQUEST_ACKNOWLEDGMENTS, ch_keepalive = 0\<rparr>"

text \<open>The keepalive time goes out in network byte order.\<close>

definition ch_bytes :: "contact_header \<Rightarrow> byte list" where
  "ch_bytes h =
     str_bytes ''dtn!'' @ [TCPCL_VERSION, ch_flags h, ucast (drop_bit 8 (ch_keepalive h)), ucast (ch_keepalive h)]
     @ bstr_bytes (eid_getString (ch_localeid h))"

text \<open>The magic is compared as a C string, which ends at a zero byte.\<close>

definition get_ch :: "contact_header \<Rightarrow> contact_header reader" where
  "get_ch h =
     rbind (rtake 4) (\<lambda>magic.
       if takeWhile (\<lambda>c. c \<noteq> CHR 0x00) (bytes_str magic) \<noteq> ''dtn!'' then rfail InvalidProtocolException
       else rbind rbyte (\<lambda>version.
         if version \<noteq> TCPCL_VERSION then rfail InvalidProtocolException
         else rbind rbyte (\<lambda>flags. rbind rbyte (\<lambda>hi. rbind rbyte (\<lambda>lo. rbind get_bstr (\<lambda>eid.
           rret (h\<lparr>ch_flags := flags, ch_keepalive := push_bit 8 (ucast hi) OR ucast lo,
                   ch_localeid := eid_parse eid\<rparr>)))))))"

lemma keepalive_bytes:
  fixes k :: "16 word"
  shows "push_bit 8 (ucast (ucast (drop_bit 8 k) :: byte)) OR ucast (ucast k :: byte) = k"
  by (rule bit_eqI) (auto simp: bit_simps)

definition ch_ok :: "contact_header \<Rightarrow> bool" where
  "ch_ok h \<longleftrightarrow> eid_canonical (ch_localeid h) \<and> length (eid_getString (ch_localeid h)) < 2 ^ 63"

lemma get_ch_bytes [wire_simps]: "ch_ok h \<Longrightarrow> get_ch obj (ch_bytes h @ s) = Inr (h, s)"
  by (simp add: get_ch_def ch_bytes_def ch_ok_def rtake_def str_bytes_def bytes_str_def keepalive_bytes
      get_bstr_bytes eid_parse_getString)

interpretation contact: codec ch_bytes "get_ch ch_new" ch_ok
  by unfold_locales (rule get_ch_bytes)

interpretation segment: codec seg_bytes "get_seg (seg_plain MSG_KEEPALIVE)"
  "\<lambda>seg. seg_ok seg \<and> seg_arrived (seg_plain MSG_KEEPALIVE) seg = seg"
  by unfold_locales (simp add: get_seg_bytes)

end
