(* ===== verification/StreamBuffer.thy ===== *)
theory StreamBuffer
  imports Segment
begin

text \<open>
  The TCP convergence layer (\<open>ibrdtn/streams/StreamBuffer.cpp\<close>,
  \<open>ibrdtn/streams/StreamConnection.cpp\<close>): a stream buffer that cuts the bytes of a bundle into
  data segments and puts received segments together again, with acknowledgements, refusals
  and shutdown messages. The calls of a connection run one after the other here; its locks
  make each message a unit on the wire.
\<close>

section \<open>The underlying stream\<close>

text \<open>
  The socket stream is not part of the repository. It holds the bytes that will arrive until
  the peer closes, and the bytes sent; \<open>net_throws\<close> says whether its exception mask is set
  (\<open>ios_base::failure\<close>), \<open>net_broken\<close> whether the peer is gone without this side having
  noticed it, and \<open>net_good\<close> is \<open>good()\<close>.
\<close>

record net =
  net_in :: "byte list"
  net_out :: "byte list"
  net_good :: bool
  net_throws :: bool
  net_broken :: bool

text \<open>Writing and flushing; the flag says that \<open>ios_base::failure\<close> is thrown.\<close>

definition net_write :: "byte list \<Rightarrow> net \<Rightarrow> net \<times> bool" where
  "net_write bs n =
     (if net_good n \<and> \<not> net_broken n then (n\<lparr>net_out := net_out n @ bs\<rparr>, False)
      else (n\<lparr>net_good := False\<rparr>, net_throws n))"

text \<open>\<open>read(buf, k)\<close>: a short read takes what is there and sets the end-of-file bit.\<close>

definition net_read :: "nat \<Rightarrow> net \<Rightarrow> net \<times> bool" where
  "net_read k n =
     (if k \<le> length (net_in n) then (n\<lparr>net_in := drop k (net_in n)\<rparr>, False)
      else (n\<lparr>net_in := [], net_good := False\<rparr>, net_throws n))"

section \<open>State\<close>

datatype shutdown_case =
    CONNECTION_SHUTDOWN_NOTSET
  | CONNECTION_SHUTDOWN_IDLE
  | CONNECTION_SHUTDOWN_ERROR
  | CONNECTION_SHUTDOWN_SIMPLE_SHUTDOWN
  | CONNECTION_SHUTDOWN_NODE_TIMEOUT
  | CONNECTION_SHUTDOWN_PEER_SHUTDOWN

datatype sb_state = INITIAL | IDLE | DATA_AVAILABLE | DATA_TRANSFER | SHUTDOWN

text \<open>The calls to the callback object of the connection and to the idle timer.\<close>

datatype sb_event =
    EventShutdown shutdown_case
  | EventTimeout
  | EventError
  | EventBundleRefused
  | EventBundleForwarded
  | EventBundleAck u64
  | EventConnectionUp contact_header
  | EventConnectionDown
  | IdleTimerReset

datatype sb_error =
    StreamErrorException
  | StreamShutdownException
  | IosFailure
  | Thrown ibr_error

abbreviation STREAM_FAILED :: u64 where "STREAM_FAILED \<equiv> bit_flag 0"
abbreviation STREAM_BAD :: u64 where "STREAM_BAD \<equiv> bit_flag 1"
abbreviation STREAM_EOF :: u64 where "STREAM_EOF \<equiv> bit_flag 2"
abbreviation STREAM_HANDSHAKE :: u64 where "STREAM_HANDSHAKE \<equiv> bit_flag 3"
abbreviation STREAM_SHUTDOWN :: u64 where "STREAM_SHUTDOWN \<equiv> bit_flag 4"
abbreviation STREAM_CLOSED :: u64 where "STREAM_CLOSED \<equiv> bit_flag 5"
abbreviation STREAM_REJECT :: u64 where "STREAM_REJECT \<equiv> bit_flag 6"
abbreviation STREAM_SKIP :: u64 where "STREAM_SKIP \<equiv> bit_flag 7"
abbreviation STREAM_ACK_SUPPORT :: u64 where "STREAM_ACK_SUPPORT \<equiv> bit_flag 8"
abbreviation STREAM_NACK_SUPPORT :: u64 where "STREAM_NACK_SUPPORT \<equiv> bit_flag 9"
abbreviation STREAM_SOB :: u64 where "STREAM_SOB \<equiv> bit_flag 10"
abbreviation STREAM_TIMER_SUPPORT :: u64 where "STREAM_TIMER_SUPPORT \<equiv> bit_flag 11"

text \<open>
  A connection with its buffer: \<open>sb_out\<close> is the filled part of \<open>out_buf_\<close>, \<open>sb_in\<close> the
  unread part of \<open>in_buf_\<close>, \<open>sb_aborted\<close> that the queue of segments was aborted, and
  \<open>sb_events\<close> the calls made so far.
\<close>

record sbuf =
  sb_buffer_size :: nat
  sb_statebits :: u64
  sb_out :: "byte list"
  sb_in :: "byte list"
  sb_recv_size :: u64
  sb_segments :: "segment list"
  sb_aborted :: bool
  sb_rejected_segments :: "segment list"
  sb_underflow_data_remain :: u64
  sb_underflow_state :: sb_state
  sb_shutdown_reason :: shutdown_case
  sb_peer :: contact_header
  sb_net :: net
  sb_events :: "sb_event list"

definition sb_new :: "nat \<Rightarrow> net \<Rightarrow> sbuf" where
  "sb_new buffer_size stream =
     \<lparr>sb_buffer_size = buffer_size, sb_statebits = STREAM_SOB, sb_out = [], sb_in = [], sb_recv_size = 0,
      sb_segments = [], sb_aborted = False, sb_rejected_segments = [], sb_underflow_data_remain = 0,
      sb_underflow_state = IDLE, sb_shutdown_reason = CONNECTION_SHUTDOWN_NOTSET, sb_peer = ch_new,
      sb_net = stream, sb_events = []\<rparr>"

definition sb_get :: "u64 \<Rightarrow> sbuf \<Rightarrow> bool" where
  "sb_get f b = get_flag f (sb_statebits b)"

definition sb_set :: "u64 \<Rightarrow> sbuf \<Rightarrow> sbuf" where
  "sb_set f b = b\<lparr>sb_statebits := set_flag f True (sb_statebits b)\<rparr>"

definition sb_unset :: "u64 \<Rightarrow> sbuf \<Rightarrow> sbuf" where
  "sb_unset f b = b\<lparr>sb_statebits := set_flag f False (sb_statebits b)\<rparr>"

definition sb_good :: "sbuf \<Rightarrow> bool" where
  "sb_good b \<longleftrightarrow>
     \<not> get_flag (STREAM_FAILED + STREAM_BAD + STREAM_EOF + STREAM_SHUTDOWN + STREAM_CLOSED) (sb_statebits b)"

text \<open>A call to the callback object or the timer.\<close>

definition sb_call :: "sb_event \<Rightarrow> sbuf \<Rightarrow> sbuf" where
  "sb_call e b = b\<lparr>sb_events := sb_events b @ [e]\<rparr>"

lemma sb_get_set [simp]:
  "n < 64 \<Longrightarrow> sb_get (bit_flag m) (sb_set (bit_flag n) b) \<longleftrightarrow> m = n \<or> sb_get (bit_flag m) b"
  "n < 64 \<Longrightarrow> sb_get (bit_flag m) (sb_unset (bit_flag n) b) \<longleftrightarrow> m \<noteq> n \<and> sb_get (bit_flag m) b"
  by (auto simp: sb_get_def sb_set_def sb_unset_def get_set_flag)

lemma sb_get_update [simp]:
  "sb_get f (b\<lparr>sb_out := x\<rparr>) = sb_get f b" "sb_get f (b\<lparr>sb_in := i\<rparr>) = sb_get f b"
  "sb_get f (b\<lparr>sb_recv_size := r\<rparr>) = sb_get f b" "sb_get f (b\<lparr>sb_segments := q\<rparr>) = sb_get f b"
  "sb_get f (b\<lparr>sb_aborted := a\<rparr>) = sb_get f b" "sb_get f (b\<lparr>sb_rejected_segments := q\<rparr>) = sb_get f b"
  "sb_get f (b\<lparr>sb_underflow_data_remain := r\<rparr>) = sb_get f b" "sb_get f (b\<lparr>sb_underflow_state := st\<rparr>) = sb_get f b"
  "sb_get f (b\<lparr>sb_shutdown_reason := c\<rparr>) = sb_get f b" "sb_get f (b\<lparr>sb_peer := h\<rparr>) = sb_get f b"
  "sb_get f (b\<lparr>sb_net := n\<rparr>) = sb_get f b" "sb_get f (b\<lparr>sb_events := ev\<rparr>) = sb_get f b"
  "sb_get f (sb_call e b) = sb_get f b"
  by (simp_all add: sb_get_def sb_call_def)

lemma sb_frame [simp]:
  "sb_net (sb_set f b) = sb_net b" "sb_net (sb_unset f b) = sb_net b" "sb_net (sb_call e b) = sb_net b"
  "sb_out (sb_set f b) = sb_out b" "sb_out (sb_unset f b) = sb_out b" "sb_out (sb_call e b) = sb_out b"
  "sb_in (sb_set f b) = sb_in b" "sb_in (sb_unset f b) = sb_in b" "sb_in (sb_call e b) = sb_in b"
  "sb_segments (sb_set f b) = sb_segments b" "sb_segments (sb_unset f b) = sb_segments b"
  "sb_segments (sb_call e b) = sb_segments b"
  "sb_buffer_size (sb_set f b) = sb_buffer_size b" "sb_buffer_size (sb_unset f b) = sb_buffer_size b"
  "sb_buffer_size (sb_call e b) = sb_buffer_size b"
  "sb_recv_size (sb_set f b) = sb_recv_size b" "sb_recv_size (sb_unset f b) = sb_recv_size b"
  "sb_recv_size (sb_call e b) = sb_recv_size b"
  "sb_underflow_state (sb_set f b) = sb_underflow_state b" "sb_underflow_state (sb_unset f b) = sb_underflow_state b"
  "sb_underflow_state (sb_call e b) = sb_underflow_state b"
  "sb_underflow_data_remain (sb_set f b) = sb_underflow_data_remain b"
  "sb_underflow_data_remain (sb_unset f b) = sb_underflow_data_remain b"
  "sb_underflow_data_remain (sb_call e b) = sb_underflow_data_remain b"
  "sb_rejected_segments (sb_set f b) = sb_rejected_segments b"
  "sb_rejected_segments (sb_unset f b) = sb_rejected_segments b"
  "sb_rejected_segments (sb_call e b) = sb_rejected_segments b" "sb_statebits (sb_call e b) = sb_statebits b"
  "sb_events (sb_set f b) = sb_events b" "sb_events (sb_unset f b) = sb_events b"
  "sb_events (sb_call e b) = sb_events b @ [e]"
  by (simp_all add: sb_set_def sb_unset_def sb_call_def)

section \<open>Sending\<close>

text \<open>A write to the stream: \<open>Some\<close> is the exception.\<close>

definition sb_put_bytes :: "byte list \<Rightarrow> sbuf \<Rightarrow> sb_error option \<times> sbuf" where
  "sb_put_bytes bs b =
     (case net_write bs (sb_net b) of (n, failed) \<Rightarrow> (if failed then Some IosFailure else None, b\<lparr>sb_net := n\<rparr>))"

text \<open>A message sent by \<open>underflow\<close>, which looks at the stream first.\<close>

definition sb_send :: "segment \<Rightarrow> sbuf \<Rightarrow> sb_error option \<times> sbuf" where
  "sb_send seg b =
     (if \<not> net_good (sb_net b) then (Some StreamErrorException, b) else sb_put_bytes (seg_bytes seg) b)"

text \<open>
  \<open>overflow(c)\<close>: the buffer and the last character become a segment. \<open>None\<close> is \<open>eof()\<close>,
  given by \<open>sync\<close>. The result is the exception, if any; without one the call succeeds.
\<close>

definition sb_overflow :: "byte option \<Rightarrow> sbuf \<Rightarrow> sb_error option \<times> sbuf" where
  "sb_overflow c b =
     (let data = sb_out b @ (case c of None \<Rightarrow> [] | Some x \<Rightarrow> [x]); b1 = b\<lparr>sb_out := []\<rparr>
      in if data = [] then (None, b1)
         else
           let seg0 = seg_sized MSG_DATA_SEGMENT (word_of_nat (length data));
               (seg1, b2) = (if sb_get STREAM_SOB b1
                             then (seg0\<lparr>seg_flags := seg_flags seg0 OR MSG_MARK_BEGINN\<rparr>,
                                   sb_unset STREAM_SOB (sb_unset STREAM_SKIP b1))
                             else (seg0, b1));
               (seg, b3) = (if c = None
                            then (seg1\<lparr>seg_flags := seg_flags seg1 OR MSG_MARK_END\<rparr>, sb_set STREAM_SOB b2)
                            else (seg1, b2))
           in if sb_get STREAM_SKIP b3 then (None, b3)
              else
                let b4 = (if sb_get STREAM_ACK_SUPPORT b3 then b3\<lparr>sb_segments := sb_segments b3 @ [seg]\<rparr>
                          else if seg_flags seg AND MSG_MARK_END \<noteq> 0 then sb_call EventBundleForwarded b3
                          else b3)
                in if \<not> net_good (sb_net b4) then (Some StreamErrorException, sb_set STREAM_FAILED b4)
                   else case sb_put_bytes (seg_bytes seg) b4 of
                          (Some e, b5) \<Rightarrow> (Some e, sb_set STREAM_FAILED b5)
                        | (None, b5) \<Rightarrow>
                            (case sb_put_bytes data b5 of
                               (Some e, b6) \<Rightarrow> (Some e, sb_set STREAM_FAILED b6)
                             | (None, b6) \<Rightarrow> (None, b6)))"

text \<open>
  \<open>std::streambuf::sputc\<close> and \<open>sputn\<close>: a character goes into the buffer while there is
  room, and to \<open>overflow\<close> otherwise; the room is one less than the buffer.
\<close>

definition sb_sputc :: "byte \<Rightarrow> sbuf \<Rightarrow> sb_error option \<times> sbuf" where
  "sb_sputc c b =
     (if length (sb_out b) < sb_buffer_size b - 1 then (None, b\<lparr>sb_out := sb_out b @ [c]\<rparr>)
      else sb_overflow (Some c) b)"

fun sb_sputn :: "byte list \<Rightarrow> sbuf \<Rightarrow> sb_error option \<times> sbuf" where
  "sb_sputn [] b = (None, b)"
| "sb_sputn (c # cs) b =
     (case sb_sputc c b of (Some e, b') \<Rightarrow> (Some e, b') | (None, b') \<Rightarrow> sb_sputn cs b')"

section \<open>Shutdown and handshake\<close>

definition sb_shutdown :: "byte \<Rightarrow> sbuf \<Rightarrow> sb_error option \<times> sbuf" where
  "sb_shutdown reason b =
     (case sb_put_bytes (seg_bytes (seg_shutdown reason 0)) b of
        (Some e, b') \<Rightarrow> (Some StreamErrorException, sb_set STREAM_FAILED b')
      | (None, b') \<Rightarrow> (None, b'))"

definition sb_close :: "sbuf \<Rightarrow> sbuf" where
  "sb_close b = sb_set STREAM_SHUTDOWN b"

definition sb_abort :: "sbuf \<Rightarrow> sbuf" where
  "sb_abort b = b\<lparr>sb_aborted := True\<rparr>"

text \<open>
  \<open>StreamConnection::shutdown\<close>. A simple shutdown first waits until the queue of segments
  is empty or aborted (\<open>sb_wait_over\<close>), which changes nothing.
\<close>

definition sb_wait_over :: "sbuf \<Rightarrow> bool" where
  "sb_wait_over b \<longleftrightarrow> sb_segments b = [] \<or> sb_aborted b"

definition sc_shutdown_case :: "shutdown_case \<Rightarrow> sbuf \<Rightarrow> sb_error option \<times> sbuf" where
  "sc_shutdown_case csc b =
     (case csc of
        CONNECTION_SHUTDOWN_IDLE \<Rightarrow>
          (case sb_shutdown MSG_SHUTDOWN_IDLE_TIMEOUT b of
             (Some e, b') \<Rightarrow> (Some e, b')
           | (None, b') \<Rightarrow> (None, sb_call EventTimeout (sb_abort b')))
      | CONNECTION_SHUTDOWN_ERROR \<Rightarrow> (None, sb_call EventError (sb_abort b))
      | CONNECTION_SHUTDOWN_SIMPLE_SHUTDOWN \<Rightarrow>
          (case sb_shutdown MSG_SHUTDOWN_NONE b of
             (Some e, b') \<Rightarrow> (Some e, b')
           | (None, b') \<Rightarrow> (None, sb_call (EventShutdown csc) b'))
      | CONNECTION_SHUTDOWN_NODE_TIMEOUT \<Rightarrow> (None, sb_call EventTimeout (sb_abort b))
      | CONNECTION_SHUTDOWN_PEER_SHUTDOWN \<Rightarrow>
          (case sb_shutdown MSG_SHUTDOWN_NONE b of
             (Some e, b') \<Rightarrow> (Some e, b')
           | (None, b') \<Rightarrow> (None, sb_call (EventShutdown csc) (sb_abort b')))
      | CONNECTION_SHUTDOWN_NOTSET \<Rightarrow> (None, sb_call (EventShutdown csc) (sb_abort b)))"

definition sc_shutdown :: "shutdown_case \<Rightarrow> sbuf \<Rightarrow> sbuf" where
  "sc_shutdown csc b =
     (if sb_shutdown_reason b \<noteq> CONNECTION_SHUTDOWN_NOTSET then sb_abort b
      else
        let b1 = (case sc_shutdown_case csc (b\<lparr>sb_shutdown_reason := csc\<rparr>) of
                    (Some e, b') \<Rightarrow> sb_call EventError b'
                  | (None, b') \<Rightarrow> b')
        in sb_call EventConnectionDown (sb_close b1))"

text \<open>\<open>sync\<close>: an empty buffer is not sent, otherwise the rest goes out as the last segment.\<close>

definition sb_sync :: "sbuf \<Rightarrow> sb_error option \<times> sbuf" where
  "sb_sync b =
     (case sb_overflow None b of
        (Some e, b1) \<Rightarrow> (Some e, b1)
      | (None, b1) \<Rightarrow>
          (case sb_put_bytes [] b1 of
             (Some e, b2) \<Rightarrow> (None, sc_shutdown CONNECTION_SHUTDOWN_ERROR (sb_set STREAM_BAD b2))
           | (None, b2) \<Rightarrow> (None, b2)))"

text \<open>
  The handshake. Every exception of it is caught; the shutdown message of the handler may
  throw itself.
\<close>

definition sb_handshake_failed :: "sbuf \<Rightarrow> sb_error \<times> sbuf" where
  "sb_handshake_failed b =
     (case sb_shutdown MSG_SHUTDOWN_VERSION_MISSMATCH (sb_set STREAM_FAILED b) of
        (Some e, b') \<Rightarrow> (e, b')
      | (None, b') \<Rightarrow> (StreamErrorException, sc_shutdown CONNECTION_SHUTDOWN_ERROR b'))"

definition sb_accept_peer :: "contact_header \<Rightarrow> sbuf \<Rightarrow> sbuf" where
  "sb_accept_peer peer b =
     (let b1 = (if ch_flags peer AND REQUEST_ACKNOWLEDGMENTS \<noteq> 0 then sb_set STREAM_ACK_SUPPORT b else b);
          b2 = (if ch_flags peer AND REQUEST_NEGATIVE_ACKNOWLEDGMENTS \<noteq> 0 then sb_set STREAM_NACK_SUPPORT b1 else b1);
          b3 = (if ch_keepalive peer > 0 then sb_set STREAM_TIMER_SUPPORT b2 else b2)
      in sb_set STREAM_HANDSHAKE b3)"

definition sb_handshake :: "contact_header \<Rightarrow> sbuf \<Rightarrow> (sb_error + contact_header) \<times> sbuf" where
  "sb_handshake header b =
     (case sb_put_bytes (ch_bytes header) b of
        (Some e, b1) \<Rightarrow> (case sb_handshake_failed b1 of (e, b2) \<Rightarrow> (Inl e, b2))
      | (None, b1) \<Rightarrow>
          (case get_ch ch_new (net_in (sb_net b1)) of
             Inr (peer, s) \<Rightarrow> (Inr peer, sb_accept_peer peer (b1\<lparr>sb_net := (sb_net b1)\<lparr>net_in := s\<rparr>\<rparr>))
           | Inl (e, s) \<Rightarrow>
               (let b2 = b1\<lparr>sb_net := (sb_net b1)\<lparr>net_in := s, net_good := net_good (sb_net b1) \<and> e \<noteq> EndOfStream\<rparr>\<rparr>
                in if e = Indeterminate \<or> e = EndOfStream \<and> \<not> net_throws (sb_net b1)
                   then (Inl (Thrown Indeterminate), b2)
                   else case sb_handshake_failed b2 of (e, b3) \<Rightarrow> (Inl e, b3))))"

definition sc_handshake :: "eid \<Rightarrow> u64 \<Rightarrow> byte \<Rightarrow> sbuf \<Rightarrow> sb_error option \<times> sbuf" where
  "sc_handshake eid timeout flags b =
     (case sb_handshake ((ch_of_eid eid)\<lparr>ch_keepalive := ucast timeout, ch_flags := flags\<rparr>) b of
        (Inl e, b') \<Rightarrow> (Some e, b')
      | (Inr peer, b') \<Rightarrow> (None, sb_call (EventConnectionUp peer) (b'\<lparr>sb_peer := peer\<rparr>)))"

text \<open>\<open>free\<close> is the result of trying the send lock.\<close>

definition sb_keepalive :: "bool \<Rightarrow> sbuf \<Rightarrow> sbuf" where
  "sb_keepalive free b =
     (if \<not> free then b
      else case sb_put_bytes (seg_bytes (seg_plain MSG_KEEPALIVE)) b of
             (Some e, b') \<Rightarrow> sb_set STREAM_FAILED b'
           | (None, b') \<Rightarrow> b')"

definition sb_reject :: "sbuf \<Rightarrow> sbuf" where
  "sb_reject b = (sb_set STREAM_REJECT b)\<lparr>sb_in := []\<rparr>"

text \<open>The idle timer fires; afterwards it is stopped.\<close>

definition sb_timeout :: "sbuf \<Rightarrow> sb_error option \<times> sbuf" where
  "sb_timeout b = (if sb_good b then sb_shutdown MSG_SHUTDOWN_IDLE_TIMEOUT b else (None, b))"

section \<open>Receiving\<close>

text \<open>
  \<open>skipData\<close> on the rest of the current segment. With an empty buffer it would turn for
  ever.
\<close>

function sb_skipData :: "sbuf \<Rightarrow> sb_error option \<times> sbuf" where
  "sb_skipData b =
     (if sb_underflow_data_remain b = 0 \<or> \<not> net_good (sb_net b) then (None, b)
      else if sb_buffer_size b = 0 then (Some (Thrown Indeterminate), b)
      else
        let readsize = (if unat (sb_underflow_data_remain b) < sb_buffer_size b
                        then unat (sb_underflow_data_remain b) else sb_buffer_size b)
        in case net_read readsize (sb_net b) of
             (n, True) \<Rightarrow> (Some StreamErrorException, b\<lparr>sb_net := n, sb_underflow_state := IDLE\<rparr>)
           | (n, False) \<Rightarrow>
               sb_skipData ((sb_call IdleTimerReset (b\<lparr>sb_net := n\<rparr>))
                  \<lparr>sb_underflow_data_remain := sb_underflow_data_remain b - word_of_nat readsize\<rparr>))"
  by pat_completeness auto

lemma unat_minus_less:
  fixes r :: u64
  assumes "r \<noteq> 0" and "0 < k" and "k \<le> unat r"
  shows "unat (r - word_of_nat k) < unat r"
proof -
  have k: "unat (word_of_nat k :: u64) = k"
    using assms(3) unsigned_less [of r, where ?'a = nat] by (simp add: unat_of_nat)
  then have "word_of_nat k \<le> r" using assms(3) by (simp add: word_le_nat_alt)
  then show ?thesis using k assms by (simp add: unat_sub)
qed

termination sb_skipData
  by (relation "measure (\<lambda>b. unat (sb_underflow_data_remain b))")
     (auto simp: sb_call_def intro!: unat_minus_less simp: unat_gt_0)

declare sb_skipData.simps [simp del]

text \<open>
  Reading the next segment into a new object. At the end of a stream that does not throw,
  the header keeps its initial zero, and a number or reason that is missing is not
  determined.
\<close>

definition sb_fetch :: "sbuf \<Rightarrow> (sb_error + segment) \<times> sbuf" where
  "sb_fetch b =
     (let n = sb_net b; obj = seg_plain MSG_KEEPALIVE
      in if \<not> net_good n then (Inl StreamErrorException, b)
         else if net_in n = [] then
           (if net_throws n then (Inl StreamErrorException, b\<lparr>sb_net := n\<lparr>net_good := False\<rparr>\<rparr>)
            else (Inr (obj\<lparr>seg_type := 0, seg_flags := 0\<rparr>), b\<lparr>sb_net := n\<lparr>net_good := False\<rparr>\<rparr>))
         else case get_seg obj (net_in n) of
                Inr (seg, s) \<Rightarrow> (Inr seg, b\<lparr>sb_net := n\<lparr>net_in := s\<rparr>\<rparr>)
              | Inl (e, s) \<Rightarrow>
                  if e = EndOfStream then
                    (if net_throws n then Inl StreamErrorException else Inl (Thrown Indeterminate),
                     b\<lparr>sb_net := n\<lparr>net_in := s, net_good := False\<rparr>\<rparr>)
                  else (Inl (Thrown e), b\<lparr>sb_net := n\<lparr>net_in := s\<rparr>\<rparr>))"

text \<open>The messages, one by one.\<close>

definition sb_on_data :: "segment \<Rightarrow> sbuf \<Rightarrow> sb_error option \<times> sbuf" where
  "sb_on_data seg b =
     (let b1 = (if seg_flags seg AND MSG_MARK_BEGINN \<noteq> 0
                then sb_unset STREAM_REJECT (b\<lparr>sb_recv_size := seg_value seg\<rparr>)
                else b\<lparr>sb_recv_size := sb_recv_size b + seg_value seg\<rparr>);
          b2 = b1\<lparr>sb_underflow_data_remain := seg_value seg\<rparr>
      in if sb_get STREAM_REJECT b2 then
           (case (if sb_get STREAM_NACK_SUPPORT b2 then sb_send (seg_sized MSG_REFUSE_BUNDLE 0) b2 else (None, b2)) of
              (Some e, b3) \<Rightarrow> (Some e, b3)
            | (None, b3) \<Rightarrow> sb_skipData b3)
         else (None, b2\<lparr>sb_underflow_state := DATA_TRANSFER\<rparr>))"

definition sb_on_ack :: "segment \<Rightarrow> sbuf \<Rightarrow> sbuf" where
  "sb_on_ack seg b =
     (if sb_get STREAM_ACK_SUPPORT b then
        (case sb_segments b of
           [] \<Rightarrow> b
         | qs # q \<Rightarrow>
             let b1 = (if seg_flags qs AND MSG_MARK_END \<noteq> 0 then sb_call EventBundleForwarded b else b)
             in (sb_call (EventBundleAck (seg_value seg)) b1)\<lparr>sb_segments := q\<rparr>)
      else b)"

text \<open>A refusal moves the rest of the refused transmission to the queue of rejected segments.\<close>

definition sb_on_refuse :: "sbuf \<Rightarrow> sbuf" where
  "sb_on_refuse b =
     (if sb_get STREAM_ACK_SUPPORT b \<and> sb_get STREAM_NACK_SUPPORT b then
        (if sb_rejected_segments b \<noteq> [] then b\<lparr>sb_rejected_segments := tl (sb_rejected_segments b)\<rparr>
         else case sb_segments b of
                [] \<Rightarrow> b
              | qs # q \<Rightarrow>
                  let moved = takeWhile (\<lambda>s. seg_flags s AND MSG_MARK_BEGINN = 0) q;
                      rest = dropWhile (\<lambda>s. seg_flags s AND MSG_MARK_BEGINN = 0) q;
                      b1 = sb_call EventBundleRefused
                             (b\<lparr>sb_segments := rest, sb_rejected_segments := sb_rejected_segments b @ moved\<rparr>)
                  in if rest = [] then sb_set STREAM_SKIP b1 else b1)
      else b)"

definition sb_handle :: "segment \<Rightarrow> sbuf \<Rightarrow> sb_error option \<times> sbuf" where
  "sb_handle seg b0 =
     (let b = (if seg_type seg \<noteq> MSG_KEEPALIVE then sb_call IdleTimerReset b0 else b0)
      in if seg_type seg = MSG_DATA_SEGMENT then sb_on_data seg b
         else if seg_type seg = MSG_ACK_SEGMENT then (None, sb_on_ack seg b)
         else if seg_type seg = MSG_KEEPALIVE then (None, b)
         else if seg_type seg = MSG_REFUSE_BUNDLE then (None, sb_on_refuse b)
         else if seg_type seg = MSG_SHUTDOWN then (Some StreamShutdownException, b)
         else (None, b))"

text \<open>
  The loop of \<open>underflow\<close> that reads segments until data is available. Every turn reads a
  byte, or finds the end of the stream.
\<close>

definition net_left :: "sbuf \<Rightarrow> nat" where
  "net_left b = length (net_in (sb_net b)) + (if net_good (sb_net b) then 1 else 0)"

lemma get_seg_less:
  assumes "get_seg obj s = Inr (seg, s')"
  shows "length s' < length s"
proof (cases s)
  case (Cons h r)
  have "nonincreasing (seg_body seg0)" for seg0
    unfolding seg_body_def by (intro nonincreasing_if nonincreasing_rbind) simp_all
  then have "length s' \<le> length r"
    using assms Cons by (auto simp: get_seg_def dest: nonincreasingD)
  then show ?thesis using Cons by simp
qed (use assms in \<open>simp add: get_seg_def\<close>)

lemma net_left_simps [simp]:
  "net_left (b\<lparr>sb_net := n\<rparr>) = length (net_in n) + (if net_good n then 1 else 0)"
  "net_left (b\<lparr>sb_underflow_data_remain := r\<rparr>) = net_left b" "net_left (b\<lparr>sb_recv_size := r\<rparr>) = net_left b"
  "net_left (b\<lparr>sb_underflow_state := st\<rparr>) = net_left b" "net_left (b\<lparr>sb_segments := q\<rparr>) = net_left b"
  "net_left (b\<lparr>sb_rejected_segments := q\<rparr>) = net_left b"
  "net_left (sb_call e b) = net_left b" "net_left (sb_set f b) = net_left b" "net_left (sb_unset f b) = net_left b"
  by (simp_all add: net_left_def sb_call_def sb_set_def sb_unset_def)

lemma sb_fetch_less: "sb_fetch b = (Inr seg, b') \<Longrightarrow> net_left b' < net_left b"
  by (auto simp: sb_fetch_def Let_def net_left_def split: if_splits sum.splits prod.splits dest!: get_seg_less)

lemma net_read_left:
  "net_read k n = (n', f) \<Longrightarrow> length (net_in n') + (if net_good n' then 1 else 0)
     \<le> length (net_in n) + (if net_good n then 1 else 0)"
  by (auto simp: net_read_def split: if_splits)

lemma sb_send_left: "sb_send seg b = (r, b') \<Longrightarrow> net_left b' \<le> net_left b"
  by (auto simp: sb_send_def sb_put_bytes_def net_write_def net_left_def split: if_splits)

lemma sb_skipData_left: "sb_skipData b = (r, b') \<Longrightarrow> net_left b' \<le> net_left b"
proof (induction b arbitrary: r b' rule: sb_skipData.induct)
  case (1 b)
  let ?k = "if unat (sb_underflow_data_remain b) < sb_buffer_size b then unat (sb_underflow_data_remain b)
            else sb_buffer_size b"
  obtain n f where n: "net_read ?k (sb_net b) = (n, f)" by fastforce
  have le: "net_left (b\<lparr>sb_net := n\<rparr>) \<le> net_left b"
    using net_read_left [OF n] by (simp add: net_left_def)
  show ?case
  proof (cases "sb_underflow_data_remain b = 0 \<or> \<not> net_good (sb_net b) \<or> sb_buffer_size b = 0 \<or> f")
    case True
    then show ?thesis
      using "1.prems" n le by (auto simp: sb_skipData.simps [of b] Let_def split: if_splits)
  next
    case False
    then have f: "f = False" by simp
    have "net_left b' \<le> net_left ((sb_call IdleTimerReset (b\<lparr>sb_net := n\<rparr>))
        \<lparr>sb_underflow_data_remain := sb_underflow_data_remain b - word_of_nat ?k\<rparr>)"
      using False n "1.prems" unfolding f
      by (intro "1.IH" [OF _ _ refl, of n False]) (auto simp: sb_skipData.simps [of b] Let_def split: if_splits)
    then show ?thesis using le by (simp del: net_left_simps(1))
  qed
qed

lemma sb_handle_left: "sb_handle seg b = (r, b') \<Longrightarrow> net_left b' \<le> net_left b"
  by (auto simp: sb_handle_def sb_on_data_def sb_on_ack_def sb_on_refuse_def Let_def
      split: if_splits list.splits prod.splits option.splits
      dest!: sb_skipData_left sb_send_left)

function sb_segments_loop :: "sbuf \<Rightarrow> sb_error option \<times> sbuf" where
  "sb_segments_loop b =
     (if sb_underflow_state b \<noteq> IDLE then (None, b)
      else case sb_fetch b of
             (Inl e, b1) \<Rightarrow> (Some e, b1)
           | (Inr seg, b1) \<Rightarrow>
               (case sb_handle seg b1 of
                  (Some e, b2) \<Rightarrow> (Some e, b2)
                | (None, b2) \<Rightarrow> sb_segments_loop b2))"
  by pat_completeness auto

termination sb_segments_loop
  by (relation "measure net_left")
     (auto dest!: sb_fetch_less [OF sym] sb_handle_left [OF sym] intro: le_less_trans)

declare sb_segments_loop.simps [simp del]

text \<open>The start of \<open>underflow\<close>: what is left to do for the segment read before.\<close>

definition sb_finish_segment :: "sbuf \<Rightarrow> sb_error option \<times> sbuf" where
  "sb_finish_segment b =
     (if sb_underflow_state b \<noteq> DATA_TRANSFER then (None, b)
      else if sb_get STREAM_REJECT b then
        (case (if sb_get STREAM_NACK_SUPPORT b then sb_send (seg_plain MSG_REFUSE_BUNDLE) b else (None, b)) of
           (Some e, b1) \<Rightarrow> (Some e, b1)
         | (None, b1) \<Rightarrow>
             (case sb_skipData b1 of
                (Some e, b2) \<Rightarrow> (Some e, b2)
              | (None, b2) \<Rightarrow> (None, b2\<lparr>sb_underflow_state := IDLE\<rparr>)))
      else if sb_underflow_data_remain b = 0 then
        (case (if sb_get STREAM_ACK_SUPPORT b then sb_send (seg_sized MSG_ACK_SEGMENT (sb_recv_size b)) b
               else (None, b)) of
           (Some e, b1) \<Rightarrow> (Some e, b1)
         | (None, b1) \<Rightarrow> (None, b1\<lparr>sb_underflow_state := IDLE\<rparr>))
      else (None, b))"

text \<open>
  The end of \<open>underflow\<close>: the next part of the segment goes into the buffer. A segment
  without data leaves the buffer as it was, and the character returned is a stale one.
\<close>

definition sb_fill :: "sbuf \<Rightarrow> (sb_error + byte) \<times> sbuf" where
  "sb_fill b =
     (let readsize = (if unat (sb_underflow_data_remain b) < sb_buffer_size b
                      then unat (sb_underflow_data_remain b) else sb_buffer_size b);
          data = take readsize (net_in (sb_net b))
      in if \<not> net_good (sb_net b) then (Inl StreamErrorException, b)
         else case net_read readsize (sb_net b) of
                (n, True) \<Rightarrow> (Inl StreamErrorException, b\<lparr>sb_net := n, sb_underflow_state := IDLE\<rparr>)
              | (n, False) \<Rightarrow>
                  (let b1 = (sb_call IdleTimerReset (b\<lparr>sb_net := n\<rparr>))
                              \<lparr>sb_underflow_data_remain := sb_underflow_data_remain b - word_of_nat readsize,
                               sb_in := data\<rparr>
                   in if length data = readsize \<and> data \<noteq> [] then (Inr (hd data), b1)
                      else (Inl (Thrown Indeterminate), b1)))"

text \<open>
  \<open>underflow\<close>: \<open>Inr None\<close> is \<open>eof()\<close>. Of the exceptions only those of the stream classes
  set the failed bit, and the one for a shutdown message is not passed on.
\<close>

definition sb_catch :: "sb_error \<Rightarrow> sbuf \<Rightarrow> (sb_error + byte option) \<times> sbuf" where
  "sb_catch e b =
     (case e of
        StreamErrorException \<Rightarrow> (Inl e, sb_set STREAM_FAILED b)
      | StreamShutdownException \<Rightarrow> (Inr None, sb_set STREAM_FAILED b)
      | _ \<Rightarrow> (Inl e, b))"

definition sb_underflow :: "sbuf \<Rightarrow> (sb_error + byte option) \<times> sbuf" where
  "sb_underflow b =
     (case sb_finish_segment b of
        (Some e, b1) \<Rightarrow> sb_catch e b1
      | (None, b1) \<Rightarrow>
          (case sb_segments_loop b1 of
             (Some e, b2) \<Rightarrow> sb_catch e b2
           | (None, b2) \<Rightarrow>
               (case sb_fill b2 of
                  (Inl e, b3) \<Rightarrow> sb_catch e b3
                | (Inr c, b3) \<Rightarrow> (Inr (Some c), b3))))"

text \<open>\<open>std::streambuf::sbumpc\<close> and \<open>sgetn\<close>: characters come from the buffer, or \<open>underflow\<close> fills it.\<close>

definition sb_sbumpc :: "sbuf \<Rightarrow> (sb_error + byte option) \<times> sbuf" where
  "sb_sbumpc b =
     (case sb_in b of
        c # cs \<Rightarrow> (Inr (Some c), b\<lparr>sb_in := cs\<rparr>)
      | [] \<Rightarrow>
          (case sb_underflow b of
             (Inr (Some c), b1) \<Rightarrow> (Inr (Some c), b1\<lparr>sb_in := tl (sb_in b1)\<rparr>)
           | r \<Rightarrow> r))"

fun sb_sgetn :: "nat \<Rightarrow> sbuf \<Rightarrow> (sb_error + byte list) \<times> sbuf" where
  "sb_sgetn 0 b = (Inr [], b)"
| "sb_sgetn (Suc k) b =
     (case sb_sbumpc b of
        (Inl e, b1) \<Rightarrow> (Inl e, b1)
      | (Inr None, b1) \<Rightarrow> (Inr [], b1)
      | (Inr (Some c), b1) \<Rightarrow>
          (case sb_sgetn k b1 of (Inl e, b2) \<Rightarrow> (Inl e, b2) | (Inr cs, b2) \<Rightarrow> (Inr (c # cs), b2)))"

end
