(* ===== verification/Transmission.thy ===== *)
theory Transmission
  imports StreamBuffer
begin

text \<open>
  What the stream buffer does with the bytes of a bundle: the segments the sender puts on the
  wire, the bytes the receiver gets out of them, the acknowledgements it returns, and what the
  sender concludes from these.
\<close>

section \<open>Frames\<close>

text \<open>
  The specification of the segments of a bundle for a buffer of \<open>n\<close> bytes: full buffers
  while there are any, and the rest as the last segment, unless there is no rest.
\<close>

definition data_segment :: "bool \<Rightarrow> bool \<Rightarrow> byte list \<Rightarrow> segment" where
  "data_segment first fin d =
     (seg_sized MSG_DATA_SEGMENT (word_of_nat (length d)))
       \<lparr>seg_flags := (if first then MSG_MARK_BEGINN else 0) OR (if fin then MSG_MARK_END else 0)\<rparr>"

function frames :: "nat \<Rightarrow> bool \<Rightarrow> byte list \<Rightarrow> (segment \<times> byte list) list" where
  "frames n first data =
     (if n = 0 \<or> length data < n then (if data = [] then [] else [(data_segment first True data, data)])
      else (data_segment first False (take n data), take n data) # frames n False (drop n data))"
  by pat_completeness auto

termination frames
  by (relation "measure (\<lambda>(n, first, data). length data)") auto

declare frames.simps [simp del]

definition frame_bytes :: "segment \<times> byte list \<Rightarrow> byte list" where
  "frame_bytes f = seg_bytes (fst f) @ snd f"

lemma marks [simp]:
  "seg_flags (data_segment first fin d) AND MSG_MARK_BEGINN = 0 \<longleftrightarrow> \<not> first"
  "seg_flags (data_segment first fin d) AND MSG_MARK_END = 0 \<longleftrightarrow> \<not> fin"
  by (simp_all add: data_segment_def MSG_MARK_BEGINN_def MSG_MARK_END_def)

lemma data_segment_simps [simp]:
  "seg_type (data_segment first fin d) = MSG_DATA_SEGMENT"
  "seg_value (data_segment first fin d) = word_of_nat (length d)"
  by (simp_all add: data_segment_def seg_sized_def)

lemma data_segment_ok: "seg_ok (data_segment first fin d)"
  by (simp add: seg_ok_def data_segment_def seg_sized_def MSG_MARK_BEGINN_def MSG_MARK_END_def)

lemma data_segment_arrived: "seg_arrived (seg_plain MSG_KEEPALIVE) (data_segment first fin d) = data_segment first fin d"
  by (simp add: seg_arrived_def data_segment_def seg_sized_def seg_plain_def msg_types)

lemma frames_data: "concat (map snd (frames n first data)) = data"
  by (induction n first data rule: frames.induct) (simp add: frames.simps)

text \<open>Only the first frame is marked as the beginning, only the last one as the end, and there is an end
  exactly when the data does not fill the last buffer.\<close>

definition begin_mark :: "segment \<times> byte list \<Rightarrow> bool" where
  "begin_mark f \<longleftrightarrow> seg_flags (fst f) AND MSG_MARK_BEGINN \<noteq> 0"

definition end_mark :: "segment \<times> byte list \<Rightarrow> bool" where
  "end_mark f \<longleftrightarrow> seg_flags (fst f) AND MSG_MARK_END \<noteq> 0"

lemma frame_marks [simp]:
  "begin_mark (data_segment first fin d, d') = first" "end_mark (data_segment first fin d, d') = fin"
  by (simp_all add: begin_mark_def end_mark_def)

lemma frames_Nil [simp]: "frames n first [] = []"
  by (auto simp: frames.simps)

lemma frames_eq_Nil [simp]: "frames n first data = [] \<longleftrightarrow> data = []"
  by (auto simp: frames.simps [of n first data])

lemma frames_not_begin: "map begin_mark (frames n False data) = replicate (length (frames n False data)) False"
  by (induction n False data rule: frames.induct) (auto simp: frames.simps)

lemma frames_begin:
  "map begin_mark (frames n first data)
     = (if data = [] then [] else first # replicate (length (frames n first data) - 1) False)"
  by (auto simp: frames.simps [of n first data] frames_not_begin)

lemma frames_end:
  assumes "0 < n"
  shows "map end_mark (frames n first data)
     = (if n dvd length data then replicate (length (frames n first data)) False
        else replicate (length (frames n first data) - 1) False @ [True])"
  using assms
proof (induction n first data rule: frames.induct)
  case (1 n first data)
  show ?case
  proof (cases "length data < n")
    case True
    then show ?thesis using "1.prems" by (auto simp: frames.simps [of n first data] dest: dvd_imp_le)
  next
    case False
    let ?fs = "frames n False (drop n data)"
    have dvd: "n dvd length (drop n data) \<longleftrightarrow> n dvd length data"
      using False by (auto simp: dvd_minus_self)
    have "?fs \<noteq> []" if "\<not> n dvd length data" using that dvd by auto
    then have k: "\<not> n dvd length data \<Longrightarrow> length ?fs = Suc (length ?fs - 1)" by (cases ?fs) auto
    have "frames n first data = (data_segment first False (take n data), take n data) # ?fs"
      using False "1.prems" by (simp add: frames.simps [of n first data])
    then show ?thesis using "1.IH" False "1.prems" dvd k by (auto simp flip: replicate_Suc)
  qed
qed

lemma frames_sizes: "0 < n \<Longrightarrow> list_all (\<lambda>f. snd f \<noteq> [] \<and> length (snd f) \<le> n \<and>
    (\<exists>a z. fst f = data_segment a z (snd f))) (frames n first data)"
proof (induction n first data rule: frames.induct)
  case (1 n first data)
  then show ?case
    by (cases "length data < n") (auto simp: frames.simps [of n first data])
qed

section \<open>The sender\<close>

definition sending :: "sbuf \<Rightarrow> bool" where
  "sending b \<longleftrightarrow> net_good (sb_net b) \<and> \<not> net_broken (sb_net b) \<and> 0 < sb_buffer_size b \<and> sb_out b = []
     \<and> (sb_get STREAM_SOB b \<or> \<not> sb_get STREAM_SKIP b)"

text \<open>The effect of one segment.\<close>

definition sb_sent :: "bool \<Rightarrow> byte list \<Rightarrow> sbuf \<Rightarrow> sbuf" where
  "sb_sent fin d b =
     (let seg = data_segment (sb_get STREAM_SOB b) fin d;
          b1 = (if sb_get STREAM_SOB b then sb_unset STREAM_SOB (sb_unset STREAM_SKIP b) else b);
          b2 = (if fin then sb_set STREAM_SOB b1 else b1);
          b3 = (if sb_get STREAM_ACK_SUPPORT b then b2\<lparr>sb_segments := sb_segments b @ [seg]\<rparr>
                else if fin then sb_call EventBundleForwarded b2 else b2)
      in b3\<lparr>sb_net := (sb_net b)\<lparr>net_out := net_out (sb_net b) @ frame_bytes (seg, d)\<rparr>\<rparr>)"

lemma sb_overflow_sent:
  assumes "sending (b\<lparr>sb_out := []\<rparr>)" and "d = sb_out b @ (case c of None \<Rightarrow> [] | Some x \<Rightarrow> [x])" and "d \<noteq> []"
  shows "sb_overflow c b = (None, sb_sent (c = None) d (b\<lparr>sb_out := []\<rparr>))"
proof -
  have seg: "(seg_sized MSG_DATA_SEGMENT v)\<lparr>seg_flags := x\<rparr>
      = \<lparr>seg_value = v, seg_type = MSG_DATA_SEGMENT, seg_reason = MSG_SHUTDOWN_IDLE_TIMEOUT, seg_flags = x\<rparr>" for v x
    by (simp add: seg_sized_def)
  note defs = sb_overflow_def sb_sent_def sending_def Let_def sb_put_bytes_def net_write_def frame_bytes_def
    data_segment_def seg seg_sized_def MSG_MARK_BEGINN_def MSG_MARK_END_def
  show ?thesis
    using assms by (cases c; cases "sb_get STREAM_SOB b"; cases "sb_get STREAM_ACK_SUPPORT b") (simp_all add: defs)
qed

lemma sending_sent [simp]: "sending b \<Longrightarrow> sending (sb_sent fin d b)"
  by (auto simp: sending_def sb_sent_def Let_def)

lemma sb_sent_effect:
  "sb_net (sb_sent z d b) = (sb_net b)\<lparr>net_out := net_out (sb_net b) @ frame_bytes (data_segment (sb_get STREAM_SOB b) z d, d)\<rparr>"
  "sb_get STREAM_SOB (sb_sent z d b) = z"
  "sb_get STREAM_ACK_SUPPORT (sb_sent z d b) = sb_get STREAM_ACK_SUPPORT b"
  "sb_get STREAM_NACK_SUPPORT (sb_sent z d b) = sb_get STREAM_NACK_SUPPORT b"
  "sb_underflow_state (sb_sent z d b) = sb_underflow_state b"
  "sb_buffer_size (sb_sent z d b) = sb_buffer_size b"
  "sb_segments (sb_sent z d b) = sb_segments b @
     (if sb_get STREAM_ACK_SUPPORT b then [data_segment (sb_get STREAM_SOB b) z d] else [])"
  "sb_events (sb_sent z d b) = sb_events b @
     (if \<not> sb_get STREAM_ACK_SUPPORT b \<and> z then [EventBundleForwarded] else [])"
  by (auto simp: sb_sent_def Let_def)

lemma sb_sputn_append:
  "sb_sputn (xs @ ys) b = (case sb_sputn xs b of (Some e, b') \<Rightarrow> (Some e, b') | (None, b') \<Rightarrow> sb_sputn ys b')"
  by (induction xs arbitrary: b) (auto split: prod.splits option.splits)

lemma sb_sputn_room:
  "length (sb_out b) + length d < sb_buffer_size b \<Longrightarrow> sb_sputn d b = (None, b\<lparr>sb_out := sb_out b @ d\<rparr>)"
  by (induction d arbitrary: b) (auto simp: sb_sputc_def)

text \<open>\<open>connection << data << std::flush\<close>.\<close>

definition sb_write :: "byte list \<Rightarrow> sbuf \<Rightarrow> sb_error option \<times> sbuf" where
  "sb_write data b = (case sb_sputn data b of (Some e, b') \<Rightarrow> (Some e, b') | (None, b') \<Rightarrow> sb_sync b')"

lemma sb_sputn_full:
  assumes "sending b" and "length d = sb_buffer_size b"
  shows "sb_sputn d b = (None, sb_sent False d b)"
proof -
  have ne: "d \<noteq> []" using assms by (auto simp: sending_def)
  then have d: "d = butlast d @ [last d]" by simp
  have out: "sb_out b = []" and n: "length (butlast d) = sb_buffer_size b - 1" "0 < sb_buffer_size b"
    using assms by (auto simp: sending_def)
  have "sb_overflow (Some (last d)) (b\<lparr>sb_out := butlast d\<rparr>) = (None, sb_sent False d (b\<lparr>sb_out := []\<rparr>))"
    using sb_overflow_sent [of "b\<lparr>sb_out := butlast d\<rparr>" d "Some (last d)"] assms(1) d ne out
    by (simp add: sending_def)
  moreover have "b\<lparr>sb_out := []\<rparr> = b" using out by simp
  ultimately have "sb_sputc (last d) (b\<lparr>sb_out := butlast d\<rparr>) = (None, sb_sent False d b)"
    using n by (simp add: sb_sputc_def)
  moreover have "sb_sputn (butlast d) b = (None, b\<lparr>sb_out := butlast d\<rparr>)"
    using n out by (simp add: sb_sputn_room)
  ultimately have "sb_sputn (butlast d @ [last d]) b = (None, sb_sent False d b)"
    by (simp add: sb_sputn_append del: append_butlast_last_id)
  then show ?thesis using d by simp
qed

lemma sb_sync_sent:
  assumes "sending (b\<lparr>sb_out := []\<rparr>)" and "sb_out b \<noteq> []"
  shows "sb_sync b = (None, sb_sent True (sb_out b) (b\<lparr>sb_out := []\<rparr>))"
  using assms sb_overflow_sent [OF assms(1), of "sb_out b" None] sending_sent [OF assms(1), of True "sb_out b"]
  by (simp add: sb_sync_def sb_put_bytes_def net_write_def sending_def)

fun sb_sent_all :: "(segment \<times> byte list) list \<Rightarrow> sbuf \<Rightarrow> sbuf" where
  "sb_sent_all [] b = b"
| "sb_sent_all (f # fs) b = sb_sent_all fs (sb_sent (end_mark f) (snd f) b)"

lemma sb_write_frames:
  assumes "sending b"
  shows "sb_write data b = (None, sb_sent_all (frames (sb_buffer_size b) (sb_get STREAM_SOB b) data) b)"
  using assms
proof (induction "length data" arbitrary: data b rule: less_induct)
  case less
  have out: "sb_out b = []" "0 < sb_buffer_size b" using less.prems by (auto simp: sending_def)
  let ?n = "sb_buffer_size b"
  show ?case
  proof (cases "length data < ?n")
    case True
    then have "sb_sputn data b = (None, b\<lparr>sb_out := data\<rparr>)" using out by (simp add: sb_sputn_room)
    moreover have "sb_sync (b\<lparr>sb_out := data\<rparr>) = (None, if data = [] then b else sb_sent True data b)"
    proof (cases "data = []")
      case True
      then show ?thesis using less.prems out
        by (simp add: sb_sync_def sb_overflow_def sb_put_bytes_def net_write_def sending_def)
    next
      case False
      have "b\<lparr>sb_out := []\<rparr> = b" using out(1) by simp
      then show ?thesis using sb_sync_sent [of "b\<lparr>sb_out := data\<rparr>"] less.prems False by simp
    qed
    ultimately show ?thesis using True by (simp add: sb_write_def frames.simps)
  next
    case False
    have "sb_sputn (take ?n data) b = (None, sb_sent False (take ?n data) b)"
      using False less.prems by (intro sb_sputn_full) auto
    then have "sb_sputn data b = sb_sputn (drop ?n data) (sb_sent False (take ?n data) b)"
      using sb_sputn_append [of "take ?n data" "drop ?n data" b] by simp
    then have "sb_write data b = sb_write (drop ?n data) (sb_sent False (take ?n data) b)"
      by (simp add: sb_write_def)
    also have "\<dots> = (None, sb_sent_all (frames ?n (sb_get STREAM_SOB (sb_sent False (take ?n data) b)) (drop ?n data))
        (sb_sent False (take ?n data) b))"
      using False out less.prems by (subst less.hyps) (auto simp: sb_sent_effect)
    also have "sb_get STREAM_SOB (sb_sent False (take ?n data) b) = False"
      by (simp add: sb_sent_effect)
    finally show ?thesis using False out by (simp add: frames.simps [of ?n "sb_get STREAM_SOB b" data])
  qed
qed

text \<open>A list of segments in which a beginning follows exactly an end.\<close>

fun coherent :: "bool \<Rightarrow> (segment \<times> byte list) list \<Rightarrow> bool" where
  "coherent first [] = True"
| "coherent first (f # fs) \<longleftrightarrow> fst f = data_segment first (end_mark f) (snd f) \<and> coherent (end_mark f) fs"

lemma frames_coherent: "coherent first (frames n first data)"
  by (induction n first data rule: frames.induct) (simp add: frames.simps)

lemma sb_sent_all_effect:
  assumes "coherent (sb_get STREAM_SOB b) fs"
  shows "sb_net (sb_sent_all fs b) = (sb_net b)\<lparr>net_out := net_out (sb_net b) @ concat (map frame_bytes fs)\<rparr>"
    and "sb_get STREAM_SOB (sb_sent_all fs b) = (if fs = [] then sb_get STREAM_SOB b else end_mark (last fs))"
    and "sb_get STREAM_ACK_SUPPORT (sb_sent_all fs b) = sb_get STREAM_ACK_SUPPORT b"
    and "sb_get STREAM_NACK_SUPPORT (sb_sent_all fs b) = sb_get STREAM_NACK_SUPPORT b"
    and "sb_underflow_state (sb_sent_all fs b) = sb_underflow_state b"
    and "sb_segments (sb_sent_all fs b) = sb_segments b @ (if sb_get STREAM_ACK_SUPPORT b then map fst fs else [])"
    and "sb_events (sb_sent_all fs b) = sb_events b @
      (if sb_get STREAM_ACK_SUPPORT b then [] else map (\<lambda>_. EventBundleForwarded) (filter end_mark fs))"
  using assms
  by (induction fs arbitrary: b) (auto simp: sb_sent_effect frame_bytes_def)

lemma sb_sent_all_sending:
  "sending b \<Longrightarrow> sending (sb_sent_all fs b) \<and> sb_buffer_size (sb_sent_all fs b) = sb_buffer_size b"
  by (induction fs arbitrary: b) (auto simp: sb_sent_effect)

section \<open>The receiver\<close>

text \<open>Reading the rest of a segment, whatever the sizes of the buffers are.\<close>

definition reading :: "sbuf \<Rightarrow> bool" where
  "reading b \<longleftrightarrow> net_good (sb_net b) \<and> \<not> net_broken (sb_net b) \<and> 0 < sb_buffer_size b \<and> \<not> sb_get STREAM_REJECT b"

abbreviation with_in :: "byte list \<Rightarrow> sbuf \<Rightarrow> sbuf" where
  "with_in s b \<equiv> b\<lparr>sb_net := (sb_net b)\<lparr>net_in := s\<rparr>\<rparr>"

lemma sb_fill_part:
  assumes "reading b" and "net_in (sb_net b) = y @ s" and "y \<noteq> []" and "length y < 2 ^ 64"
    and "sb_underflow_data_remain b = word_of_nat (length y)"
  defines "k \<equiv> min (length y) (sb_buffer_size b)"
  shows "sb_fill b = (Inr (hd y), (with_in (drop k y @ s) b)\<lparr>sb_events := sb_events b @ [IdleTimerReset],
      sb_underflow_data_remain := word_of_nat (length (drop k y)), sb_in := take k y\<rparr>)"
proof -
  have r: "unat (sb_underflow_data_remain b) = length y" using assms(4,5) by (simp add: unat_of_nat)
  have k: "(if unat (sb_underflow_data_remain b) < sb_buffer_size b then unat (sb_underflow_data_remain b)
      else sb_buffer_size b) = k" by (simp add: r k_def)
  have kl: "k \<le> length y" "0 < k" using assms by (auto simp: k_def reading_def)
  have "(word_of_nat (length y) :: u64) - word_of_nat k = word_of_nat (length y - k)"
    using kl by simp
  moreover have "hd (take k y) = hd y" "take k y \<noteq> []" using kl assms(3) by auto
  ultimately show ?thesis
    using assms(1,2,5) kl unfolding sb_fill_def Let_def k
    by (simp add: net_read_def reading_def sb_call_def)
qed

lemma sb_segments_loop_busy [simp]: "sb_underflow_state b \<noteq> IDLE \<Longrightarrow> sb_segments_loop b = (None, b)"
  by (simp add: sb_segments_loop.simps)

lemma sb_underflow_part:
  assumes "\<not> sb_get STREAM_REJECT b" and "sb_underflow_state b = DATA_TRANSFER" and "sb_underflow_data_remain b \<noteq> 0"
  shows "sb_underflow b = (case sb_fill b of (Inl e, b3) \<Rightarrow> sb_catch e b3 | (Inr c, b3) \<Rightarrow> (Inr (Some c), b3))"
  using assms by (simp add: sb_underflow_def sb_finish_segment_def)

lemma with_in_same: "net_in (sb_net b) = s \<Longrightarrow> with_in s b = b"
  by auto

lemma sb_sgetn_part:
  assumes "reading b" and "sb_underflow_state b = DATA_TRANSFER" and "net_in (sb_net b) = y @ s"
    and "length y < 2 ^ 64" and "sb_underflow_data_remain b = word_of_nat (length y)"
  shows "\<exists>k. sb_sgetn (length (sb_in b @ y)) b = (Inr (sb_in b @ y),
      (with_in s b)\<lparr>sb_in := [], sb_underflow_data_remain := 0,
        sb_events := sb_events b @ replicate k IdleTimerReset\<rparr>)"
  using assms
proof (induction "length (sb_in b @ y)" arbitrary: b y)
  case 0
  then have "sb_in b = []" "y = []" by auto
  then have "(with_in s b)\<lparr>sb_in := [], sb_underflow_data_remain := 0,
        sb_events := sb_events b @ replicate 0 IdleTimerReset\<rparr> = b"
    using "0.prems" by (simp add: with_in_same)
  then show ?case using \<open>sb_in b = []\<close> \<open>y = []\<close> by (intro exI [of _ 0]) simp
next
  case (Suc n)
  show ?case
  proof (cases "sb_in b")
    case (Cons c cs)
    let ?b = "b\<lparr>sb_in := cs\<rparr>"
    have "\<exists>k. sb_sgetn (length (sb_in ?b @ y)) ?b = (Inr (sb_in ?b @ y), (with_in s ?b)\<lparr>sb_in := [],
        sb_underflow_data_remain := 0, sb_events := sb_events ?b @ replicate k IdleTimerReset\<rparr>)"
      using Suc.prems Suc.hyps(2) Cons by (intro Suc.hyps(1)) (auto simp: reading_def)
    then show ?thesis using Cons by (auto simp: sb_sbumpc_def)
  next
    case Nil
    then have y: "y \<noteq> []" using Suc.hyps(2) by auto
    let ?k = "min (length y) (sb_buffer_size b)"
    let ?b = "(with_in (drop ?k y @ s) b)\<lparr>sb_events := sb_events b @ [IdleTimerReset],
      sb_underflow_data_remain := word_of_nat (length (drop ?k y)), sb_in := tl (take ?k y)\<rparr>"
    have r: "unat (sb_underflow_data_remain b) = length y" using Suc.prems(4,5) by (simp add: unat_of_nat)
    then have "sb_underflow_data_remain b \<noteq> 0" using y by auto
    then have bump: "sb_sbumpc b = (Inr (Some (hd y)), ?b)"
      using sb_fill_part [OF Suc.prems(1,3) y Suc.prems(4,5)] Nil Suc.prems(1,2)
      by (simp add: sb_sbumpc_def sb_underflow_part reading_def)
    have yk: "hd y # tl (take ?k y) @ drop ?k y = y"
    proof -
      have "0 < ?k" using y Suc.prems(1) by (auto simp: reading_def)
      then have "take ?k y = hd y # tl (take ?k y)" using y by (cases y; cases ?k) auto
      then show ?thesis by (metis append_Cons append_take_drop_id)
    qed
    have len: "n = length (sb_in ?b @ drop ?k y)"
      using Suc.hyps(2) Nil arg_cong [OF yk, of length] by simp
    have less: "length (drop ?k y) < 2 ^ 64"
      using Suc.prems(4) by (rule le_less_trans [rotated]) simp
    obtain k where "sb_sgetn (length (sb_in ?b @ drop ?k y)) ?b = (Inr (sb_in ?b @ drop ?k y),
        (with_in s ?b)\<lparr>sb_in := [], sb_underflow_data_remain := 0,
          sb_events := sb_events ?b @ replicate k IdleTimerReset\<rparr>)"
      using Suc.hyps(1) [OF len _ _ _ less] Suc.prems(1,2) by (auto simp: reading_def)
    then have "sb_sgetn n ?b = (Inr (tl (take ?k y) @ drop ?k y),
        (with_in s ?b)\<lparr>sb_in := [], sb_underflow_data_remain := 0,
          sb_events := sb_events ?b @ replicate k IdleTimerReset\<rparr>)"
      unfolding len [symmetric] by simp
    then have "sb_sgetn (length (sb_in b @ y)) b = (Inr (sb_in b @ y), (with_in s b)\<lparr>sb_in := [],
        sb_underflow_data_remain := 0, sb_events := sb_events b @ replicate (Suc k) IdleTimerReset\<rparr>)"
      unfolding Suc.hyps(2) [symmetric] using bump yk Nil by simp
    then show ?thesis by blast
  qed
qed

text \<open>Between two segments; the acknowledgement of the last one is sent with the next read.\<close>

definition between :: "sbuf \<Rightarrow> bool" where
  "between b \<longleftrightarrow> reading b \<and> sb_in b = []
     \<and> (sb_underflow_state b = IDLE \<or> sb_underflow_state b = DATA_TRANSFER \<and> sb_underflow_data_remain b = 0)"

definition ack_bytes :: "u64 \<Rightarrow> byte list" where
  "ack_bytes r = seg_bytes (seg_sized MSG_ACK_SEGMENT r)"

definition owed :: "sbuf \<Rightarrow> byte list" where
  "owed b = (if sb_underflow_state b = DATA_TRANSFER \<and> sb_get STREAM_ACK_SUPPORT b then ack_bytes (sb_recv_size b) else [])"

definition settled :: "sbuf \<Rightarrow> sbuf" where
  "settled b = b\<lparr>sb_net := (sb_net b)\<lparr>net_out := net_out (sb_net b) @ owed b\<rparr>, sb_underflow_state := IDLE\<rparr>"

lemma sb_finish_between: "between b \<Longrightarrow> sb_finish_segment b = (None, settled b)"
  by (auto simp: between_def reading_def sb_finish_segment_def settled_def owed_def ack_bytes_def sb_send_def
      sb_put_bytes_def net_write_def)

lemma sb_fetch_seg:
  assumes "net_good (sb_net b)" and "seg_ok seg" and "seg_arrived (seg_plain MSG_KEEPALIVE) seg = seg"
    and "net_in (sb_net b) = seg_bytes seg @ s"
  shows "sb_fetch b = (Inr seg, with_in s b)"
proof -
  have "seg_bytes seg \<noteq> []" by (simp add: seg_bytes_def)
  then show ?thesis using assms get_seg_bytes [OF assms(2), of "seg_plain MSG_KEEPALIVE" s]
    by (simp add: sb_fetch_def Let_def)
qed

definition recv_size :: "u64 \<Rightarrow> segment \<times> byte list \<Rightarrow> u64" where
  "recv_size r f = (if begin_mark f then word_of_nat (length (snd f)) else r + word_of_nat (length (snd f)))"

lemma sb_loop_data:
  assumes "reading b" and "sb_underflow_state b = IDLE"
    and "net_in (sb_net b) = seg_bytes (data_segment a z d) @ s"
  shows "sb_segments_loop b = (None, (with_in s b)\<lparr>sb_events := sb_events b @ [IdleTimerReset],
      sb_recv_size := recv_size (sb_recv_size b) (data_segment a z d, d),
      sb_underflow_data_remain := word_of_nat (length d), sb_underflow_state := DATA_TRANSFER\<rparr>)"
proof -
  let ?seg = "data_segment a z d"
  have fetch: "sb_fetch b = (Inr ?seg, with_in s b)"
    using assms by (intro sb_fetch_seg) (auto simp: reading_def data_segment_ok data_segment_arrived)
  have unset: "sb_unset STREAM_REJECT x = x" if "\<not> sb_get STREAM_REJECT x" for x
    using that by (simp add: sb_unset_def sb_get_def set_flag_id)
  have "sb_handle ?seg (with_in s b) = (None, (with_in s b)\<lparr>sb_events := sb_events b @ [IdleTimerReset],
      sb_recv_size := recv_size (sb_recv_size b) (?seg, d),
      sb_underflow_data_remain := word_of_nat (length d), sb_underflow_state := DATA_TRANSFER\<rparr>)"
    using assms(1) unfolding reading_def
    by (cases a) (simp_all add: sb_handle_def sb_on_data_def Let_def msg_types recv_size_def unset sb_call_def)
  then show ?thesis
    using assms(2) fetch by (simp add: sb_segments_loop.simps [of b])
qed

lemma sb_sgetn_segment:
  assumes "between b" and "net_in (sb_net b) = frame_bytes (data_segment a z d, d) @ s" and "d \<noteq> []"
    and "length d < 2 ^ 64"
  shows "\<exists>k. sb_sgetn (length d) b = (Inr d, (with_in s (settled b))\<lparr>
      sb_recv_size := recv_size (sb_recv_size b) (data_segment a z d, d), sb_underflow_data_remain := 0,
      sb_underflow_state := DATA_TRANSFER, sb_in := [],
      sb_events := sb_events b @ replicate (Suc k) IdleTimerReset\<rparr>)"
proof -
  let ?b = "(with_in (d @ s) (settled b))\<lparr>sb_events := sb_events b @ [IdleTimerReset],
      sb_recv_size := recv_size (sb_recv_size b) (data_segment a z d, d),
      sb_underflow_data_remain := word_of_nat (length d), sb_underflow_state := DATA_TRANSFER\<rparr>"
  have b: "reading ?b" "sb_in b = []" "reading (settled b)"
    using assms(1) by (auto simp: between_def reading_def settled_def)
  have "sb_segments_loop (settled b) = (None, ?b)"
    using sb_loop_data [OF b(3), of a z d "d @ s"] assms(2) by (simp add: settled_def frame_bytes_def)
  moreover have "unat (word_of_nat (length d) :: u64) = length d" using assms(4) by (simp add: unat_of_nat)
  then have "word_of_nat (length d) \<noteq> (0 :: u64)" using assms(3) by auto
  then have "sb_underflow ?b = (case sb_fill ?b of (Inl e, b3) \<Rightarrow> sb_catch e b3 | (Inr c, b3) \<Rightarrow> (Inr (Some c), b3))"
    using b(1) by (intro sb_underflow_part) (auto simp: reading_def)
  ultimately have "sb_underflow b = sb_underflow ?b"
    using sb_finish_between [OF assms(1)] by (simp add: sb_underflow_def)
  then have "sb_sbumpc b = sb_sbumpc ?b"
    using b(2) by (simp add: sb_sbumpc_def settled_def)
  moreover obtain n where n: "length d = Suc n" using assms(3) by (cases d) auto
  ultimately have "sb_sgetn (length d) b = sb_sgetn (length d) ?b" by (simp only: n sb_sgetn.simps)
  moreover obtain k where "sb_sgetn (length (sb_in ?b @ d)) ?b = (Inr (sb_in ?b @ d),
      (with_in s ?b)\<lparr>sb_in := [], sb_underflow_data_remain := 0,
        sb_events := sb_events ?b @ replicate k IdleTimerReset\<rparr>)"
    using sb_sgetn_part [OF b(1), of d s] assms(4) by auto
  ultimately show ?thesis using b(2) by (intro exI [of _ k]) (simp add: settled_def)
qed

text \<open>Reading the bytes of a list of segments, and the acknowledgements sent and owed for them.\<close>

fun ack_sizes :: "u64 \<Rightarrow> (segment \<times> byte list) list \<Rightarrow> u64 list" where
  "ack_sizes r [] = []"
| "ack_sizes r (f # fs) = recv_size r f # ack_sizes (recv_size r f) fs"

lemma length_ack_sizes [simp]: "length (ack_sizes r fs) = length fs"
  by (induction fs arbitrary: r) auto

abbreviation calls :: "sbuf \<Rightarrow> sb_event list" where
  "calls b \<equiv> filter (\<lambda>e. e \<noteq> IdleTimerReset) (sb_events b)"

lemma sb_sgetn_add:
  assumes "sb_sgetn m b = (Inr xs, b1)" and "length xs = m" and "sb_sgetn n b1 = (Inr ys, b2)"
  shows "sb_sgetn (m + n) b = (Inr (xs @ ys), b2)"
  using assms
proof (induction m arbitrary: b xs)
  case (Suc m)
  then obtain c b0 where c: "sb_sbumpc b = (Inr (Some c), b0)"
    by (auto split: prod.splits sum.splits option.splits)
  with Suc.prems(1) obtain cs where cs: "sb_sgetn m b0 = (Inr cs, b1)" "xs = c # cs"
    by (auto split: prod.splits sum.splits)
  show ?case using Suc.IH [OF cs(1)] Suc.prems(2,3) c cs(2) by simp
qed simp

lemma receive_frames:
  assumes "between b" and "list_all (\<lambda>f. snd f \<noteq> [] \<and> length (snd f) < 2 ^ 64 \<and> (\<exists>a z. fst f = data_segment a z (snd f))) fs"
    and "net_in (sb_net b) = concat (map frame_bytes fs) @ s"
  shows "\<exists>b'. sb_sgetn (length (concat (map snd fs))) b = (Inr (concat (map snd fs)), b') \<and> between b'
      \<and> net_in (sb_net b') = s \<and> calls b' = calls b
      \<and> sb_get STREAM_ACK_SUPPORT b' = sb_get STREAM_ACK_SUPPORT b
      \<and> net_out (sb_net b') @ owed b' = net_out (sb_net b) @ owed b
          @ (if sb_get STREAM_ACK_SUPPORT b then concat (map ack_bytes (ack_sizes (sb_recv_size b) fs)) else [])"
  using assms
proof (induction fs arbitrary: b)
  case (Cons f fs)
  obtain a z d where f: "f = (data_segment a z d, d)" "d \<noteq> []" "length d < 2 ^ 64"
    using Cons.prems(2) by (cases f) auto
  let ?s = "concat (map frame_bytes fs) @ s"
  obtain k where read: "sb_sgetn (length d) b = (Inr d, (with_in ?s (settled b))\<lparr>
      sb_recv_size := recv_size (sb_recv_size b) f, sb_underflow_data_remain := 0,
      sb_underflow_state := DATA_TRANSFER, sb_in := [],
      sb_events := sb_events b @ replicate (Suc k) IdleTimerReset\<rparr>)" (is "_ = (_, ?b)")
    using sb_sgetn_segment [OF Cons.prems(1) _ f(2,3), of a z ?s] Cons.prems(3) f(1) by auto
  have b: "between ?b" using Cons.prems(1) by (auto simp: between_def reading_def settled_def)
  obtain b' where b': "sb_sgetn (length (concat (map snd fs))) ?b = (Inr (concat (map snd fs)), b')" "between b'"
      "net_in (sb_net b') = s" "calls b' = calls ?b"
      "sb_get STREAM_ACK_SUPPORT b' = sb_get STREAM_ACK_SUPPORT ?b"
      "net_out (sb_net b') @ owed b' = net_out (sb_net ?b) @ owed ?b
         @ (if sb_get STREAM_ACK_SUPPORT ?b then concat (map ack_bytes (ack_sizes (sb_recv_size ?b) fs)) else [])"
    using Cons.IH [OF b] Cons.prems(2) by auto
  have "sb_sgetn (length (concat (map snd (f # fs)))) b = (Inr (concat (map snd (f # fs))), b')"
    using sb_sgetn_add [OF read _ b'(1)] f(1) by simp
  moreover have "owed ?b = (if sb_get STREAM_ACK_SUPPORT b then ack_bytes (recv_size (sb_recv_size b) f) else [])"
    by (simp add: owed_def settled_def)
  ultimately show ?case using b' by (intro exI [of _ b']) (auto simp: settled_def)
qed auto

section \<open>Acknowledgements at the sender\<close>

definition ack_calls :: "segment \<Rightarrow> u64 \<Rightarrow> sb_event list" where
  "ack_calls qs r = (if seg_flags qs AND MSG_MARK_END \<noteq> 0 then [EventBundleForwarded] else []) @ [EventBundleAck r]"

lemma ack_segment_ok:
  "seg_ok (seg_sized MSG_ACK_SEGMENT r)"
  "seg_arrived (seg_plain MSG_KEEPALIVE) (seg_sized MSG_ACK_SEGMENT r) = seg_sized MSG_ACK_SEGMENT r"
  by (simp_all add: seg_ok_def seg_arrived_def seg_sized_def seg_plain_def)

lemma sb_loop_acks:
  assumes "net_good (sb_net b)" and "sb_underflow_state b = IDLE" and "sb_get STREAM_ACK_SUPPORT b"
    and "sb_segments b = q @ q'" and "length rs = length q" and "net_in (sb_net b) = concat (map ack_bytes rs) @ s"
  shows "sb_segments_loop b = sb_segments_loop ((with_in s b)\<lparr>sb_segments := q',
      sb_events := sb_events b @ concat (map2 (\<lambda>qs r. IdleTimerReset # ack_calls qs r) q rs)\<rparr>)"
  using assms
proof (induction q arbitrary: b rs)
  case Nil
  then have "(with_in s b)\<lparr>sb_segments := q', sb_events := sb_events b @ concat (map2 (\<lambda>qs r. IdleTimerReset # ack_calls qs r) [] rs)\<rparr> = b"
    by (simp add: with_in_same)
  then show ?case by (simp only:)
next
  case (Cons qs q)
  then obtain r rs' where rs: "rs = r # rs'" by (cases rs) auto
  let ?seg = "seg_sized MSG_ACK_SEGMENT r" and ?s = "concat (map ack_bytes rs') @ s"
  have "sb_fetch b = (Inr ?seg, with_in ?s b)"
    using Cons.prems(1,6) rs ack_segment_ok [of r] by (intro sb_fetch_seg) (auto simp: ack_bytes_def [of r])
  moreover have "sb_handle ?seg (with_in ?s b) = (None, (with_in ?s b)\<lparr>sb_segments := q @ q',
      sb_events := sb_events b @ IdleTimerReset # ack_calls qs r\<rparr>)"
    using Cons.prems(3,4)
    by (simp add: sb_handle_def sb_on_ack_def seg_sized_def msg_types Let_def ack_calls_def sb_call_def)
  ultimately have "sb_segments_loop b = sb_segments_loop ((with_in ?s b)\<lparr>sb_segments := q @ q',
      sb_events := sb_events b @ IdleTimerReset # ack_calls qs r\<rparr>)" (is "_ = sb_segments_loop ?b")
    using Cons.prems(2) by (simp add: sb_segments_loop.simps [of b])
  also have "\<dots> = sb_segments_loop ((with_in s ?b)\<lparr>sb_segments := q',
      sb_events := sb_events ?b @ concat (map2 (\<lambda>qs r. IdleTimerReset # ack_calls qs r) q rs')\<rparr>)"
    using Cons.prems rs by (intro Cons.IH) auto
  finally show ?case using rs by simp
qed

lemma sb_loop_end:
  assumes "net_good (sb_net b)" and "sb_underflow_state b = IDLE" and "net_in (sb_net b) = []"
  shows "\<exists>e b'. sb_segments_loop b = (Some e, b') \<and> calls b' = calls b \<and> sb_segments b' = sb_segments b
           \<and> net_out (sb_net b') = net_out (sb_net b) \<and> sb_rejected_segments b' = sb_rejected_segments b
           \<and> sb_statebits b' = sb_statebits b"
proof (cases "net_throws (sb_net b)")
  case True
  then show ?thesis using assms by (simp add: sb_segments_loop.simps [of b] sb_fetch_def Let_def)
next
  case False
  let ?b = "sb_call IdleTimerReset (b\<lparr>sb_net := (sb_net b)\<lparr>net_good := False\<rparr>\<rparr>)"
  have "sb_segments_loop b = sb_segments_loop ?b"
    using assms False
    by (simp add: sb_segments_loop.simps [of b] sb_fetch_def Let_def sb_handle_def msg_types)
  moreover have "sb_segments_loop ?b = (Some StreamErrorException, ?b)"
    using assms(2) by (simp add: sb_segments_loop.simps [of ?b] sb_fetch_def Let_def)
  ultimately show ?thesis by simp
qed

lemma sb_catch_keeps:
  "sb_events (snd (sb_catch e b)) = sb_events b" "sb_segments (snd (sb_catch e b)) = sb_segments b"
  "sb_net (snd (sb_catch e b)) = sb_net b" "sb_rejected_segments (snd (sb_catch e b)) = sb_rejected_segments b"
  "m \<noteq> 0 \<Longrightarrow> sb_get (bit_flag m) (snd (sb_catch e b)) = sb_get (bit_flag m) b"
  by (cases e; simp add: sb_catch_def)+

text \<open>A read at the end of the input: the acknowledgement that is owed goes out first.\<close>

lemma sb_underflow_settles:
  assumes "between b" and "net_in (sb_net b) = []"
  shows "net_out (sb_net (snd (sb_underflow b))) = net_out (sb_net b) @ owed b"
proof -
  have "net_good (sb_net (settled b))" "sb_underflow_state (settled b) = IDLE" "net_in (sb_net (settled b)) = []"
    using assms by (auto simp: settled_def between_def reading_def)
  from sb_loop_end [OF this] obtain e b' where "sb_segments_loop (settled b) = (Some e, b')"
      "net_out (sb_net b') = net_out (sb_net (settled b))" by blast
  then show ?thesis
    using sb_finish_between [OF assms(1)] by (simp add: sb_underflow_def sb_catch_keeps settled_def)
qed

lemma sb_underflow_acks:
  assumes "net_good (sb_net b)" and "sb_underflow_state b = IDLE" and "sb_get STREAM_ACK_SUPPORT b"
    and "length rs = length (sb_segments b)" and "net_in (sb_net b) = concat (map ack_bytes rs)"
  shows "sb_segments (snd (sb_underflow b)) = []"
    and "calls (snd (sb_underflow b)) = calls b @ concat (map2 ack_calls (sb_segments b) rs)"
proof -
  let ?b = "(with_in [] b)\<lparr>sb_segments := [],
      sb_events := sb_events b @ concat (map2 (\<lambda>qs r. IdleTimerReset # ack_calls qs r) (sb_segments b) rs)\<rparr>"
  have loop: "sb_segments_loop b = sb_segments_loop ?b"
    using assms by (intro sb_loop_acks) simp_all
  have "filter (\<lambda>e. e \<noteq> IdleTimerReset) (concat (map2 (\<lambda>qs r. IdleTimerReset # ack_calls qs r) q rs))
      = concat (map2 ack_calls q rs)" for q and rs :: "u64 list"
    by (induction q rs rule: list_induct2') (auto simp: ack_calls_def)
  then have "calls ?b = calls b @ concat (map2 ack_calls (sb_segments b) rs)" by simp
  moreover have "net_good (sb_net ?b)" "sb_underflow_state ?b = IDLE" "net_in (sb_net ?b) = []"
    using assms by auto
  from sb_loop_end [OF this] obtain e b' where "sb_segments_loop ?b = (Some e, b')" "calls b' = calls ?b"
      "sb_segments b' = sb_segments ?b" by blast
  moreover have "sb_finish_segment b = (None, b)" using assms(2) by (simp add: sb_finish_segment_def)
  ultimately show "sb_segments (snd (sb_underflow b)) = []"
      "calls (snd (sb_underflow b)) = calls b @ concat (map2 ack_calls (sb_segments b) rs)"
    using loop by (simp_all add: sb_underflow_def sb_catch_keeps)
qed

section \<open>A transfer from end to end\<close>

lemma ack_sizes_frames_False:
  "data \<noteq> [] \<Longrightarrow> last (ack_sizes r (frames n False data)) = r + word_of_nat (length data)"
proof (induction n False data arbitrary: r rule: frames.induct)
  case (1 n data)
  show ?case
  proof (cases "n = 0 \<or> length data < n \<or> drop n data = []")
    case True
    then show ?thesis using "1.prems" by (auto simp: frames.simps [of n False data] recv_size_def)
  next
    case False
    let ?fs = "frames n False (drop n data)"
    have "length data = n + length (drop n data)" using False by simp
    then have len: "(word_of_nat (length data) :: u64) = word_of_nat n + word_of_nat (length (drop n data))"
      by (metis of_nat_add)
    have fs: "frames n False data = (data_segment False False (take n data), take n data) # ?fs"
      using False by (simp add: frames.simps [of n False data])
    have "ack_sizes r' ?fs \<noteq> []" for r'
      using False length_ack_sizes [of r' ?fs] by (metis frames_eq_Nil length_0_conv)
    then have "last (ack_sizes r (frames n False data)) = last (ack_sizes (r + word_of_nat n) ?fs)"
      using False by (simp add: fs recv_size_def)
    also have "\<dots> = r + word_of_nat n + word_of_nat (length (drop n data))"
      using False by (intro "1.hyps") auto
    finally show ?thesis by (simp only: len add.assoc)
  qed
qed

lemma ack_sizes_frames:
  assumes "data \<noteq> []"
  shows "last (ack_sizes r (frames n True data)) = word_of_nat (length data)"
proof (cases "n = 0 \<or> length data < n \<or> drop n data = []")
  case True
  then show ?thesis using assms by (auto simp: frames.simps [of n True data] recv_size_def)
next
  case False
  let ?fs = "frames n False (drop n data)"
  have "ack_sizes (word_of_nat n) ?fs \<noteq> []"
    using False length_ack_sizes [of "word_of_nat n" ?fs] by (metis frames_eq_Nil length_0_conv)
  moreover have "ack_sizes r (frames n True data) = word_of_nat n # ack_sizes (word_of_nat n) ?fs"
    using False by (simp add: frames.simps [of n True data] recv_size_def)
  ultimately show ?thesis using ack_sizes_frames_False [of "drop n data" "word_of_nat n" n] False by simp
qed

text \<open>
  A sender with acknowledgements and nothing in its queue writes and flushes \<open>data\<close>; the
  receiver reads as many bytes, and begins to read on; the sender looks at what came back.
\<close>

definition transfer :: "byte list \<Rightarrow> sbuf \<Rightarrow> sbuf \<Rightarrow> (sb_error + byte list) \<times> sbuf \<times> sbuf" where
  "transfer data a b =
     (let a1 = snd (sb_write data a);
          (got, b1) = sb_sgetn (length data) (with_in (drop (length (net_out (sb_net a))) (net_out (sb_net a1))) b);
          b2 = snd (sb_underflow b1);
          a2 = snd (sb_underflow (with_in (drop (length (net_out (sb_net b))) (net_out (sb_net b2))) a1))
      in (got, a2, b2))"

definition ready :: "sbuf \<Rightarrow> bool" where
  "ready b \<longleftrightarrow> net_good (sb_net b) \<and> \<not> net_broken (sb_net b) \<and> 0 < sb_buffer_size b \<and> sb_buffer_size b < 2 ^ 64
     \<and> sb_out b = [] \<and> sb_in b = [] \<and> sb_segments b = [] \<and> sb_underflow_state b = IDLE
     \<and> sb_get STREAM_SOB b \<and> sb_get STREAM_ACK_SUPPORT b \<and> \<not> sb_get STREAM_REJECT b"

lemma transfer_calls:
  assumes "ready a" and "ready b" and fs_def: "fs = frames (sb_buffer_size a) True data"
  shows "\<exists>a2 b2. transfer data a b = (Inr data, a2, b2) \<and> sb_segments a2 = []
      \<and> calls a2 = calls a @ concat (map2 ack_calls (map fst fs) (ack_sizes (sb_recv_size b) fs))"
proof -
  let ?n = "sb_buffer_size a"
  let ?a1 = "sb_sent_all fs a"
  have n: "0 < ?n" "?n < 2 ^ 64" using assms(1) by (auto simp: ready_def)
  have coh: "coherent (sb_get STREAM_SOB a) fs"
    using assms(1) frames_coherent [of True ?n data] by (simp add: fs_def ready_def)
  have a1: "snd (sb_write data a) = ?a1"
    using sb_write_frames [of a data] assms(1) by (simp add: sending_def ready_def fs_def)
  have ok: "list_all (\<lambda>f. snd f \<noteq> [] \<and> length (snd f) < 2 ^ 64 \<and> (\<exists>a z. fst f = data_segment a z (snd f))) fs"
    using frames_sizes [OF n(1), of True data] n(2) unfolding fs_def list_all_iff by fastforce
  have sent: "drop (length (net_out (sb_net a))) (net_out (sb_net ?a1)) = concat (map frame_bytes fs)"
    by (simp add: sb_sent_all_effect [OF coh])
  let ?b0 = "with_in (concat (map frame_bytes fs)) b"
  have "between ?b0" "net_in (sb_net ?b0) = concat (map frame_bytes fs) @ []" "owed ?b0 = []" "sb_get STREAM_ACK_SUPPORT b"
    using assms(2) by (auto simp: between_def reading_def ready_def owed_def)
  then obtain b1 where b1: "sb_sgetn (length data) ?b0 = (Inr data, b1)" "between b1" "net_in (sb_net b1) = []"
      "net_out (sb_net b1) @ owed b1 = net_out (sb_net b) @ concat (map ack_bytes (ack_sizes (sb_recv_size b) fs))"
    using receive_frames [of ?b0 fs "[]"] ok frames_data [of ?n True data]
    unfolding fs_def by auto
  let ?b2 = "snd (sb_underflow b1)"
  have returned: "drop (length (net_out (sb_net b))) (net_out (sb_net ?b2)) = concat (map ack_bytes (ack_sizes (sb_recv_size b) fs))"
    using sb_underflow_settles [OF b1(2,3)] b1(4) by simp
  let ?a = "with_in (concat (map ack_bytes (ack_sizes (sb_recv_size b) fs))) ?a1"
  have "net_good (sb_net ?a)" "sb_underflow_state ?a = IDLE" "sb_get STREAM_ACK_SUPPORT ?a"
      "sb_segments ?a = map fst fs" "calls ?a = calls a"
    using assms(1) by (simp_all add: ready_def sb_sent_all_effect [OF coh])
  then show ?thesis
    using sb_underflow_acks [of ?a "ack_sizes (sb_recv_size b) fs"] b1(1)
    by (simp add: transfer_def Let_def a1 sent returned)
qed

lemma ack_calls_plain:
  "list_all (\<lambda>f. \<not> end_mark f) fs \<Longrightarrow> length rs = length fs \<Longrightarrow>
     concat (map2 ack_calls (map fst fs) rs) = map EventBundleAck rs"
proof (induction fs arbitrary: rs)
  case (Cons f fs)
  then show ?case by (cases rs) (auto simp: ack_calls_def end_mark_def)
qed simp

lemma transfer_marked:
  assumes "ready a" and "ready b" and "\<not> sb_buffer_size a dvd length data"
  shows "\<exists>a2 b2 sizes. transfer data a b = (Inr data, a2, b2) \<and> sb_segments a2 = []
      \<and> calls a2 = calls a @ map EventBundleAck sizes @ [EventBundleForwarded, EventBundleAck (word_of_nat (length data))]"
proof -
  let ?fs = "frames (sb_buffer_size a) True data" and ?r = "sb_recv_size b"
  have n: "0 < sb_buffer_size a" using assms(1) by (simp add: ready_def)
  have data: "data \<noteq> []" using assms(3) by auto
  then have fs: "?fs = butlast ?fs @ [last ?fs]" by simp
  then have "map end_mark (butlast ?fs) @ [end_mark (last ?fs)] = replicate (length ?fs - 1) False @ [True]"
    using frames_end [OF n, of True data] assms(3) by (metis list.simps(8,9) map_append)
  then have ends: "map end_mark (butlast ?fs) = replicate (length ?fs - 1) False" "end_mark (last ?fs)" by auto
  have "\<forall>x \<in> set (map end_mark (butlast ?fs)). \<not> x" unfolding ends(1) by simp
  then have plain: "list_all (\<lambda>f. \<not> end_mark f) (butlast ?fs)" by (simp add: list_all_iff)
  let ?rs = "ack_sizes ?r ?fs"
  have "?rs \<noteq> []" using data by (metis frames_eq_Nil length_0_conv length_ack_sizes)
  then have rs: "?rs = butlast ?rs @ [word_of_nat (length data)]"
    using ack_sizes_frames [OF data, of ?r] by (metis append_butlast_last_id)
  have "concat (map2 ack_calls (map fst (butlast ?fs @ [last ?fs])) (butlast ?rs @ [word_of_nat (length data)]))
      = map EventBundleAck (butlast ?rs) @ ack_calls (fst (last ?fs)) (word_of_nat (length data))"
    using ack_calls_plain [OF plain, of "butlast ?rs"] by simp
  also have "\<dots> = map EventBundleAck (butlast ?rs) @ [EventBundleForwarded, EventBundleAck (word_of_nat (length data))]"
    using ends(2) by (simp add: ack_calls_def end_mark_def)
  finally have "concat (map2 ack_calls (map fst ?fs) ?rs)
      = map EventBundleAck (butlast ?rs) @ [EventBundleForwarded, EventBundleAck (word_of_nat (length data))]"
    unfolding fs [symmetric] rs [symmetric] .
  then show ?thesis using transfer_calls [OF assms(1,2) refl, of data] by auto
qed

lemma transfer_plain:
  assumes "ready a" and "ready b" and "sb_buffer_size a dvd length data"
  shows "\<exists>a2 b2 sizes. transfer data a b = (Inr data, a2, b2) \<and> sb_segments a2 = [] \<and> calls a2 = calls a @ map EventBundleAck sizes"
proof -
  let ?fs = "frames (sb_buffer_size a) True data"
  have n: "0 < sb_buffer_size a" using assms(1) by (simp add: ready_def)
  have "map end_mark ?fs = replicate (length ?fs) False"
    using frames_end [OF n, of True data] assms(3) by simp
  then have "\<forall>x \<in> set (map end_mark ?fs). \<not> x" by simp
  then have "list_all (\<lambda>f. \<not> end_mark f) ?fs" by (simp add: list_all_iff)
  then show ?thesis
    using transfer_calls [OF assms(1,2) refl, of data] ack_calls_plain [of ?fs "ack_sizes (sb_recv_size b) ?fs"] by auto
qed

text \<open>C3: between two connections that are up, idle and support acknowledgements, a bundle that is written and flushed
  arrives at the peer byte by byte, whatever the sizes of the two buffers are, and the acknowledgements of its segments come
  back, so that the queue of the sender is empty again. The bundle is then reported as forwarded exactly once, with the
  acknowledgement of its last byte, if its length is no multiple of the size of the sender's buffer, and not at all if
  it is one.\<close>

theorem transfer_acknowledged:
  assumes "ready a" and "ready b"
  shows "\<exists>a2 b2 sizes. transfer data a b = (Inr data, a2, b2) \<and> sb_segments a2 = []
      \<and> calls a2 = calls a @ map EventBundleAck sizes
          @ (if sb_buffer_size a dvd length data then [] else [EventBundleForwarded, EventBundleAck (word_of_nat (length data))])"
  using transfer_marked [OF assms, of data] transfer_plain [OF assms, of data] by (cases "sb_buffer_size a dvd length data") auto

definition sample_net :: net where
  "sample_net = \<lparr>net_in = [], net_out = [], net_good = True, net_throws = True, net_broken = False\<rparr>"

definition sample_conn :: "nat \<Rightarrow> sbuf" where
  "sample_conn n = sb_set STREAM_ACK_SUPPORT (sb_new n sample_net)"

lemma sample_conn_ready: "0 < n \<Longrightarrow> n < 2 ^ 64 \<Longrightarrow> ready (sample_conn n)"
proof -
  have "sb_get (bit_flag m) (sb_new n sample_net) = (m = 10)" for m
    by (simp add: sb_get_def sb_new_def get_flag_bit bit_bit_flag)
  then show "0 < n \<Longrightarrow> n < 2 ^ 64 \<Longrightarrow> ready (sample_conn n)"
    by (simp add: ready_def sample_conn_def) (simp add: sb_new_def sample_net_def)
qed

theorem transfer_acknowledged_witness:
  "\<exists>a2 b2. transfer [1, 2, 3] (sample_conn 2) (sample_conn 5) = (Inr [1, 2, 3], a2, b2) \<and> sb_segments a2 = []"
  using transfer_acknowledged [OF sample_conn_ready sample_conn_ready, of 2 5 "[1, 2, 3]"]
  by (auto simp: sample_conn_def sb_new_def)

text \<open>A bundle whose length is a multiple of the buffer size is sent without an end: none of its
  segments carries the end mark, so all of them can be acknowledged without the bundle being
  reported as forwarded, and the buffer does not expect a new bundle, so that the next one is sent
  without a beginning, as a continuation of the first.\<close>

theorem transfer_unmarked:
  assumes "ready a" and "ready b" and "sb_buffer_size a dvd length data" and "data \<noteq> []"
  shows "\<exists>a1 a2 b2 sizes. transfer data a b = (Inr data, a2, b2)
      \<and> calls a2 = calls a @ map EventBundleAck sizes
      \<and> sb_write data a = (None, a1) \<and> \<not> sb_get STREAM_SOB a1
      \<and> (\<forall>x. \<exists>a3. sb_write x a1 = (None, a3) \<and> net_out (sb_net a3)
            = net_out (sb_net a1) @ concat (map frame_bytes (frames (sb_buffer_size a) False x)))"
proof -
  let ?n = "sb_buffer_size a"
  let ?fs = "frames ?n True data" and ?r = "sb_recv_size b"
  have n: "0 < ?n" and send: "sending a" and sob: "sb_get STREAM_SOB a"
    using assms(1) by (auto simp: ready_def sending_def)
  have "map end_mark ?fs = replicate (length ?fs) False"
    using frames_end [OF n, of True data] assms(3) by simp
  then have "\<forall>x \<in> set (map end_mark ?fs). \<not> x" by simp
  then have plain: "list_all (\<lambda>f. \<not> end_mark f) ?fs" by (simp add: list_all_iff)
  let ?a1 = "sb_sent_all ?fs a"
  have coh: "coherent (sb_get STREAM_SOB a) ?fs" using sob frames_coherent [of True] by simp
  have w: "sb_write data a = (None, ?a1)" using sb_write_frames [OF send] sob by simp
  have "last ?fs \<in> set ?fs" using assms(4) by simp
  then have "\<not> sb_get STREAM_SOB ?a1"
    using plain assms(4) by (simp add: sb_sent_all_effect(2) [OF coh] list_all_iff)
  moreover have "sending ?a1 \<and> sb_buffer_size ?a1 = ?n" using sb_sent_all_sending [OF send] by simp
  ultimately have "\<exists>a3. sb_write x ?a1 = (None, a3)
      \<and> net_out (sb_net a3) = net_out (sb_net ?a1) @ concat (map frame_bytes (frames ?n False x))" for x
    using sb_write_frames [of ?a1 x] sb_sent_all_effect(1) [of ?a1 "frames ?n False x"] frames_coherent [of False]
    by simp
  then show ?thesis
    using transfer_calls [OF assms(1,2) refl, of data] ack_calls_plain [OF plain, of "ack_sizes ?r ?fs"]
      w \<open>\<not> sb_get STREAM_SOB ?a1\<close> by auto
qed

theorem transfer_unmarked_witness:
  "\<exists>a2 b2 sizes. transfer [1, 2] (sample_conn 2) (sample_conn 5) = (Inr [1, 2], a2, b2)
     \<and> calls a2 = map EventBundleAck sizes"
  using transfer_unmarked [OF sample_conn_ready sample_conn_ready, of 2 5 "[1, 2]"]
  by (auto simp: sample_conn_def sb_new_def)

end
