(* ===== verification/Refusal.thy ===== *)
theory Refusal
  imports Transmission
begin

text \<open>
  Refused bundles: the receiver skips the rest of a bundle it rejects and answers each of its
  segments with a refusal, and the sender takes these refusals for one refused bundle.
\<close>

section \<open>The receiver\<close>

definition refuse_bytes :: "byte list" where
  "refuse_bytes = seg_bytes (seg_plain MSG_REFUSE_BUNDLE)"

lemma refuse_sized: "seg_bytes (seg_sized MSG_REFUSE_BUNDLE 0) = refuse_bytes"
  by (simp add: refuse_bytes_def seg_sized_def seg_plain_def)

definition rejecting :: "sbuf \<Rightarrow> bool" where
  "rejecting b \<longleftrightarrow> net_good (sb_net b) \<and> \<not> net_broken (sb_net b) \<and> 0 < sb_buffer_size b
     \<and> sb_get STREAM_REJECT b \<and> sb_get STREAM_NACK_SUPPORT b"

lemma sb_skipData_all:
  assumes "net_good (sb_net b)" and "0 < sb_buffer_size b" and "net_in (sb_net b) = y @ s"
    and "length y < 2 ^ 64" and "sb_underflow_data_remain b = word_of_nat (length y)"
  shows "\<exists>k. sb_skipData b = (None, (with_in s b)\<lparr>sb_underflow_data_remain := 0,
      sb_events := sb_events b @ replicate k IdleTimerReset\<rparr>)"
  using assms
proof (induction "length y" arbitrary: b y rule: less_induct)
  case less
  have r: "unat (sb_underflow_data_remain b) = length y" using less.prems(4,5) by (simp add: unat_of_nat)
  show ?case
  proof (cases "y = []")
    case True
    then have "(with_in s b)\<lparr>sb_underflow_data_remain := 0, sb_events := sb_events b @ replicate 0 IdleTimerReset\<rparr> = b"
      using less.prems(3,5) by (simp add: with_in_same)
    moreover have "sb_skipData b = (None, b)" using True less.prems(5) by (simp add: sb_skipData.simps)
    ultimately show ?thesis by (intro exI [of _ 0]) simp
  next
    case False
    define k where "k = min (length y) (sb_buffer_size b)"
    have kl: "k \<le> length y" "0 < k" using less.prems(2) False by (auto simp: k_def)
    have nz: "sb_underflow_data_remain b \<noteq> 0" using r False by auto
    have size: "(if unat (sb_underflow_data_remain b) < sb_buffer_size b then unat (sb_underflow_data_remain b)
        else sb_buffer_size b) = k" by (simp add: r k_def)
    let ?b = "(with_in (drop k y @ s) b)\<lparr>sb_events := sb_events b @ [IdleTimerReset],
        sb_underflow_data_remain := word_of_nat (length (drop k y))\<rparr>"
    have "(word_of_nat (length y) :: u64) - word_of_nat k = word_of_nat (length (drop k y))"
      using kl by simp
    then have step: "sb_skipData b = sb_skipData ?b"
      using less.prems(1-3,5) nz kl unfolding sb_skipData.simps [of b] Let_def size
      by (simp add: net_read_def sb_call_def)
    have "length (drop k y) < length y" "length (drop k y) < 2 ^ 64" using kl False less.prems(4) by auto
    then have "\<exists>j. sb_skipData ?b = (None, (with_in s ?b)\<lparr>sb_underflow_data_remain := 0,
        sb_events := sb_events ?b @ replicate j IdleTimerReset\<rparr>)"
      using less.prems(1,2) by (intro less.hyps [of "drop k y"]) simp_all
    then obtain j where "sb_skipData ?b = (None, (with_in s ?b)\<lparr>sb_underflow_data_remain := 0,
        sb_events := sb_events ?b @ replicate j IdleTimerReset\<rparr>)" by blast
    then show ?thesis unfolding step by (intro exI [of _ "Suc j"]) simp
  qed
qed

text \<open>One segment of a rejected bundle in the loop of \<open>underflow\<close>.\<close>

lemma sb_loop_rejected:
  assumes "rejecting b" and "sb_underflow_state b = IDLE"
    and "net_in (sb_net b) = frame_bytes (data_segment False z d, d) @ s" and "length d < 2 ^ 64"
  shows "\<exists>k. sb_segments_loop b = sb_segments_loop ((with_in s b)\<lparr>
      sb_net := (sb_net b)\<lparr>net_in := s, net_out := net_out (sb_net b) @ refuse_bytes\<rparr>,
      sb_recv_size := sb_recv_size b + word_of_nat (length d), sb_underflow_data_remain := 0,
      sb_events := sb_events b @ replicate k IdleTimerReset\<rparr>)"
proof -
  let ?seg = "data_segment False z d"
  have b: "net_good (sb_net b)" "\<not> net_broken (sb_net b)" "0 < sb_buffer_size b" "sb_get STREAM_REJECT b"
      "sb_get STREAM_NACK_SUPPORT b" using assms(1) by (auto simp: rejecting_def)
  have fetch: "sb_fetch b = (Inr ?seg, with_in (d @ s) b)"
    using assms(3) b(1) by (intro sb_fetch_seg) (auto simp: frame_bytes_def data_segment_ok data_segment_arrived)
  let ?b = "b\<lparr>sb_events := sb_events b @ [IdleTimerReset],
      sb_recv_size := sb_recv_size b + word_of_nat (length d), sb_underflow_data_remain := word_of_nat (length d),
      sb_net := (sb_net b)\<lparr>net_in := d @ s, net_out := net_out (sb_net b) @ refuse_bytes\<rparr>\<rparr>"
  have handle: "sb_handle ?seg (with_in (d @ s) b) = sb_skipData ?b"
    using b by (simp add: sb_handle_def sb_on_data_def Let_def sb_send_def sb_put_bytes_def net_write_def
        refuse_sized sb_call_def MSG_DATA_SEGMENT_def MSG_KEEPALIVE_def)
  have "\<exists>j. sb_skipData ?b = (None, (with_in s ?b)\<lparr>sb_underflow_data_remain := 0,
      sb_events := sb_events ?b @ replicate j IdleTimerReset\<rparr>)"
    using b assms(4) by (intro sb_skipData_all) simp_all
  then obtain j where "sb_skipData ?b = (None, (with_in s ?b)\<lparr>sb_underflow_data_remain := 0,
      sb_events := sb_events ?b @ replicate j IdleTimerReset\<rparr>)" by blast
  then have "sb_segments_loop b = sb_segments_loop ((with_in s ?b)\<lparr>sb_underflow_data_remain := 0,
      sb_events := sb_events ?b @ replicate j IdleTimerReset\<rparr>)"
    using assms(2) by (simp add: sb_segments_loop.simps [of b] fetch handle)
  moreover have "(with_in s ?b)\<lparr>sb_underflow_data_remain := 0, sb_events := sb_events ?b @ replicate j IdleTimerReset\<rparr>
      = (with_in s b)\<lparr>sb_net := (sb_net b)\<lparr>net_in := s, net_out := net_out (sb_net b) @ refuse_bytes\<rparr>,
          sb_recv_size := sb_recv_size b + word_of_nat (length d), sb_underflow_data_remain := 0,
          sb_events := sb_events b @ replicate (Suc j) IdleTimerReset\<rparr>"
    by simp
  ultimately show ?thesis by metis
qed

lemma sb_loop_rejected_all:
  assumes "rejecting b" and "sb_underflow_state b = IDLE" and "net_in (sb_net b) = concat (map frame_bytes fs) @ s"
    and "list_all (\<lambda>f. length (snd f) < 2 ^ 64 \<and> (\<exists>z. fst f = data_segment False z (snd f))) fs"
  shows "\<exists>b'. sb_segments_loop b = sb_segments_loop b' \<and> rejecting b' \<and> sb_underflow_state b' = IDLE
      \<and> net_in (sb_net b') = s \<and> calls b' = calls b \<and> sb_buffer_size b' = sb_buffer_size b
      \<and> net_out (sb_net b') = net_out (sb_net b) @ concat (replicate (length fs) refuse_bytes)"
  using assms
proof (induction fs arbitrary: b)
  case (Cons f fs)
  obtain z d where f: "f = (data_segment False z d, d)" "length d < 2 ^ 64"
    using Cons.prems(4) by (cases f) auto
  obtain k where loop: "sb_segments_loop b = sb_segments_loop ((with_in (concat (map frame_bytes fs) @ s) b)\<lparr>
      sb_net := (sb_net b)\<lparr>net_in := concat (map frame_bytes fs) @ s, net_out := net_out (sb_net b) @ refuse_bytes\<rparr>,
      sb_recv_size := sb_recv_size b + word_of_nat (length d), sb_underflow_data_remain := 0,
      sb_events := sb_events b @ replicate k IdleTimerReset\<rparr>)" (is "_ = sb_segments_loop ?b")
    using sb_loop_rejected [OF Cons.prems(1,2) _ f(2), of z "concat (map frame_bytes fs) @ s"] Cons.prems(3) f(1)
    by auto
  have "rejecting ?b" "sb_underflow_state ?b = IDLE" "net_in (sb_net ?b) = concat (map frame_bytes fs) @ s"
    using Cons.prems(1,2) by (auto simp: rejecting_def)
  from Cons.IH [OF this] Cons.prems(4) show ?case unfolding loop by auto
qed auto

lemma sb_loop_begin:
  assumes "rejecting b" and "sb_underflow_state b = IDLE"
    and "net_in (sb_net b) = seg_bytes (data_segment True z d) @ s"
  shows "sb_segments_loop b = sb_segments_loop (sb_unset STREAM_REJECT b)"
proof -
  let ?seg = "data_segment True z d" and ?u = "sb_unset STREAM_REJECT b"
  have "sb_fetch x = (Inr ?seg, with_in s x)" if "sb_net x = sb_net b" for x
    using assms by (intro sb_fetch_seg) (auto simp: that rejecting_def data_segment_ok data_segment_arrived)
  then have fetch: "sb_fetch b = (Inr ?seg, with_in s b)" "sb_fetch ?u = (Inr ?seg, with_in s ?u)"
    by simp_all
  have "sb_handle ?seg (with_in s b) = sb_handle ?seg (with_in s ?u)"
    by (simp add: sb_handle_def sb_on_data_def Let_def MSG_DATA_SEGMENT_def MSG_KEEPALIVE_def sb_call_def sb_unset_def
        sb_get_def)
  then show ?thesis
    using assms(2) by (simp add: sb_segments_loop.simps [of b] sb_segments_loop.simps [of ?u] fetch)
qed

lemma sb_finish_rejected:
  assumes "rejecting b" and "sb_underflow_state b = DATA_TRANSFER" and "net_in (sb_net b) = y @ s"
    and "length y < 2 ^ 64" and "sb_underflow_data_remain b = word_of_nat (length y)"
  shows "\<exists>k. sb_finish_segment b = (None, b\<lparr>sb_net := (sb_net b)\<lparr>net_in := s, net_out := net_out (sb_net b) @ refuse_bytes\<rparr>,
      sb_underflow_data_remain := 0, sb_events := sb_events b @ replicate k IdleTimerReset, sb_underflow_state := IDLE\<rparr>)"
proof -
  let ?b = "b\<lparr>sb_net := (sb_net b)\<lparr>net_out := net_out (sb_net b) @ refuse_bytes\<rparr>\<rparr>"
  have b: "net_good (sb_net b)" "\<not> net_broken (sb_net b)" "0 < sb_buffer_size b" "sb_get STREAM_REJECT b"
      "sb_get STREAM_NACK_SUPPORT b" using assms(1) by (auto simp: rejecting_def)
  have "sb_send (seg_plain MSG_REFUSE_BUNDLE) b = (None, ?b)"
    using b by (simp add: sb_send_def sb_put_bytes_def net_write_def refuse_bytes_def)
  moreover obtain k where "sb_skipData ?b = (None, (with_in s ?b)\<lparr>sb_underflow_data_remain := 0,
      sb_events := sb_events ?b @ replicate k IdleTimerReset\<rparr>)"
    using sb_skipData_all [of ?b y s] b assms(3-5) by auto
  ultimately show ?thesis
    using b assms(2) by (intro exI [of _ k]) (simp add: sb_finish_segment_def)
qed

text \<open>When the receiver rejects a bundle in the middle of a segment, the next read skips the rest of
  this segment and all further segments of the bundle, answers each with a refusal, and continues
  with the first byte of the next bundle.\<close>

theorem rejected_bundle_skipped:
  assumes "rejecting b" and "sb_underflow_state b = DATA_TRANSFER" and "length y < 2 ^ 64"
    and "sb_underflow_data_remain b = word_of_nat (length y)" and "d \<noteq> []" and "length d < 2 ^ 64"
    and "list_all (\<lambda>f. length (snd f) < 2 ^ 64 \<and> (\<exists>z. fst f = data_segment False z (snd f))) fs"
    and "net_in (sb_net b) = y @ concat (map frame_bytes fs) @ frame_bytes (data_segment True z d, d) @ s"
  shows "\<exists>b'. sb_underflow b = (Inr (Some (hd d)), b') \<and> \<not> sb_get STREAM_REJECT b' \<and> calls b' = calls b
      \<and> sb_in b' @ net_in (sb_net b') = d @ s \<and> sb_recv_size b' = word_of_nat (length d)
      \<and> net_out (sb_net b') = net_out (sb_net b) @ concat (replicate (Suc (length fs)) refuse_bytes)"
proof -
  let ?next = "frame_bytes (data_segment True z d, d) @ s"
  obtain k where fin: "sb_finish_segment b = (None, b\<lparr>sb_net := (sb_net b)\<lparr>net_in := concat (map frame_bytes fs) @ ?next,
        net_out := net_out (sb_net b) @ refuse_bytes\<rparr>,
      sb_underflow_data_remain := 0, sb_events := sb_events b @ replicate k IdleTimerReset, sb_underflow_state := IDLE\<rparr>)"
      (is "_ = (None, ?b1)")
    using sb_finish_rejected [OF assms(1,2) _ assms(3,4)] assms(8) by blast
  have "rejecting ?b1" "sb_underflow_state ?b1 = IDLE" "net_in (sb_net ?b1) = concat (map frame_bytes fs) @ ?next"
    using assms(1) by (auto simp: rejecting_def)
  from sb_loop_rejected_all [OF this assms(7)] obtain b2 where b2: "sb_segments_loop ?b1 = sb_segments_loop b2"
      "rejecting b2" "sb_underflow_state b2 = IDLE" "net_in (sb_net b2) = ?next" "calls b2 = calls b"
      "net_out (sb_net b2) = net_out (sb_net b) @ concat (replicate (Suc (length fs)) refuse_bytes)"
    by auto
  let ?u = "sb_unset STREAM_REJECT b2"
  let ?b3 = "(with_in (d @ s) ?u)\<lparr>sb_events := sb_events ?u @ [IdleTimerReset],
      sb_recv_size := recv_size (sb_recv_size ?u) (data_segment True z d, d),
      sb_underflow_data_remain := word_of_nat (length d), sb_underflow_state := DATA_TRANSFER\<rparr>"
  have u: "reading ?u" "sb_underflow_state ?u = IDLE"
      "net_in (sb_net ?u) = seg_bytes (data_segment True z d) @ d @ s"
    using b2(2-4) by (auto simp: reading_def rejecting_def frame_bytes_def)
  have "sb_segments_loop b2 = sb_segments_loop ?u"
    using b2(4) by (intro sb_loop_begin [OF b2(2,3)]) (simp add: frame_bytes_def)
  then have loop: "sb_segments_loop ?b1 = (None, ?b3)" using sb_loop_data [OF u] b2(1) by simp
  have r: "reading ?b3" using u(1) by (simp add: reading_def)
  let ?k = "min (length d) (sb_buffer_size ?b3)"
  have "sb_underflow b = (Inr (Some (hd d)), (with_in (drop ?k d @ s) ?b3)\<lparr>sb_events := sb_events ?b3 @ [IdleTimerReset],
      sb_underflow_data_remain := word_of_nat (length (drop ?k d)), sb_in := take ?k d\<rparr>)"
    using sb_fill_part [OF r, of d s] assms(5,6) by (simp add: sb_underflow_def fin loop)
  then show ?thesis using b2(5,6) by (simp add: recv_size_def)
qed

definition sample_rejecting :: sbuf where
  "sample_rejecting = (sb_set STREAM_NACK_SUPPORT (sb_reject (sample_conn 4)))
     \<lparr>sb_underflow_state := DATA_TRANSFER, sb_underflow_data_remain := 1,
      sb_net := sample_net\<lparr>net_in := [7] @ concat (map frame_bytes [(data_segment False True [8], [8])])
        @ frame_bytes (data_segment True True [9], [9]) @ []\<rparr>\<rparr>"

theorem rejected_bundle_skipped_witness:
  "\<exists>b'. sb_underflow sample_rejecting = (Inr (Some 9), b') \<and> \<not> sb_get STREAM_REJECT b'"
proof -
  have "rejecting sample_rejecting"
    by (simp add: rejecting_def sample_rejecting_def sb_reject_def sample_net_def sample_conn_def)
       (simp add: sb_new_def)
  then show ?thesis
    using rejected_bundle_skipped [of sample_rejecting "[7]" "[9]" "[(data_segment False True [8], [8])]" True "[]"]
    by (simp add: sample_rejecting_def) blast
qed

section \<open>The sender\<close>

lemma refuse_segment_ok:
  "seg_ok (seg_plain MSG_REFUSE_BUNDLE)"
  "seg_arrived (seg_plain MSG_KEEPALIVE) (seg_plain MSG_REFUSE_BUNDLE) = seg_plain MSG_REFUSE_BUNDLE"
  by (simp_all add: seg_ok_def seg_arrived_def seg_plain_def)

lemma sb_loop_refuse:
  assumes "net_good (sb_net b)" and "sb_underflow_state b = IDLE" and "net_in (sb_net b) = refuse_bytes @ s"
  shows "sb_segments_loop b = sb_segments_loop (sb_on_refuse (sb_call IdleTimerReset (with_in s b)))"
proof -
  have "sb_fetch b = (Inr (seg_plain MSG_REFUSE_BUNDLE), with_in s b)"
    using assms refuse_segment_ok by (intro sb_fetch_seg) (auto simp: refuse_bytes_def)
  moreover have "sb_handle (seg_plain MSG_REFUSE_BUNDLE) x = (None, sb_on_refuse (sb_call IdleTimerReset x))" for x
    by (simp add: sb_handle_def seg_plain_def msg_types)
  ultimately show ?thesis using assms(2) by (simp add: sb_segments_loop.simps [of b])
qed

text \<open>The refusals of segments already taken off the queue.\<close>

lemma sb_loop_refuse_rest:
  assumes "net_good (sb_net b)" and "sb_underflow_state b = IDLE"
    and "sb_get STREAM_ACK_SUPPORT b" and "sb_get STREAM_NACK_SUPPORT b" and "sb_rejected_segments b = q"
    and "net_in (sb_net b) = concat (replicate (length q) refuse_bytes) @ s"
  shows "sb_segments_loop b = sb_segments_loop ((with_in s b)\<lparr>sb_rejected_segments := [],
      sb_events := sb_events b @ replicate (length q) IdleTimerReset\<rparr>)"
  using assms
proof (induction q arbitrary: b)
  case Nil
  then have "(with_in s b)\<lparr>sb_rejected_segments := [], sb_events := sb_events b\<rparr> = b"
    by (simp add: with_in_same)
  then show ?case by simp
next
  case (Cons qs q)
  let ?s = "concat (replicate (length q) refuse_bytes) @ s"
  let ?b = "(with_in ?s b)\<lparr>sb_events := sb_events b @ [IdleTimerReset], sb_rejected_segments := q\<rparr>"
  have "sb_on_refuse (sb_call IdleTimerReset (with_in ?s b)) = ?b"
    using Cons.prems by (simp add: sb_on_refuse_def sb_call_def)
  then have "sb_segments_loop b = sb_segments_loop ?b"
    using sb_loop_refuse [OF Cons.prems(1,2), of ?s] Cons.prems(6) by simp
  also have "\<dots> = sb_segments_loop ((with_in s ?b)\<lparr>sb_rejected_segments := [],
      sb_events := sb_events ?b @ replicate (length q) IdleTimerReset\<rparr>)"
    using Cons.prems by (intro Cons.IH) auto
  finally show ?case by simp
qed

text \<open>C40: the refusals of all segments of a bundle, one for each, take exactly these segments off the
  queue of the sender, which reports one refused bundle; the queue of rejected segments is empty
  again and the segments of the next bundle are untouched.\<close>

theorem bundle_refused_once:
  assumes "net_good (sb_net b)" and "sb_underflow_state b = IDLE" and "sb_get STREAM_ACK_SUPPORT b"
    and "sb_get STREAM_NACK_SUPPORT b" and "sb_rejected_segments b = []"
    and "sb_segments b = qs # q @ q'" and "list_all (\<lambda>x. seg_flags x AND MSG_MARK_BEGINN = 0) q"
    and "q' = [] \<or> seg_flags (hd q') AND MSG_MARK_BEGINN \<noteq> 0"
    and "net_in (sb_net b) = concat (replicate (Suc (length q)) refuse_bytes)"
  shows "\<exists>r b'. sb_underflow b = (r, b') \<and> sb_segments b' = q' \<and> sb_rejected_segments b' = []
      \<and> calls b' = calls b @ [EventBundleRefused] \<and> (sb_get STREAM_SKIP b' \<longleftrightarrow> q' = [] \<or> sb_get STREAM_SKIP b)"
proof -
  let ?s = "concat (replicate (length q) refuse_bytes)"
  let ?b = "sb_on_refuse (sb_call IdleTimerReset (with_in ?s b))"
  have parts: "takeWhile (\<lambda>x. seg_flags x AND MSG_MARK_BEGINN = 0) (q @ q') = q"
      "dropWhile (\<lambda>x. seg_flags x AND MSG_MARK_BEGINN = 0) (q @ q') = q'"
    using assms(7,8) by (cases q'; simp add: list_all_iff takeWhile_append dropWhile_append)+
  let ?c1 = "sb_call EventBundleRefused ((sb_call IdleTimerReset (with_in ?s b))\<lparr>sb_segments := q', sb_rejected_segments := q\<rparr>)"
  have "?b = (if q' = [] then sb_set STREAM_SKIP ?c1 else ?c1)"
    using assms(3-6) parts unfolding sb_on_refuse_def Let_def
    by (cases "q' = []") (simp_all del: dropWhile_eq_Nil_conv takeWhile_eq_all_conv)
  then have b: "net_good (sb_net ?b)" "sb_underflow_state ?b = IDLE" "sb_get STREAM_ACK_SUPPORT ?b"
      "sb_get STREAM_NACK_SUPPORT ?b" "sb_rejected_segments ?b = q" "sb_segments ?b = q'" "net_in (sb_net ?b) = ?s @ []"
      "calls ?b = calls b @ [EventBundleRefused]" "sb_get STREAM_SKIP ?b \<longleftrightarrow> q' = [] \<or> sb_get STREAM_SKIP b"
    using assms(1-4) by simp_all
  let ?c = "(with_in [] ?b)\<lparr>sb_rejected_segments := [], sb_events := sb_events ?b @ replicate (length q) IdleTimerReset\<rparr>"
  have "sb_segments_loop b = sb_segments_loop ?b"
    using sb_loop_refuse [OF assms(1,2), of ?s] assms(9) by simp
  also have "\<dots> = sb_segments_loop ?c" using sb_loop_refuse_rest [OF b(1-5,7)] by simp
  finally have loop: "sb_segments_loop b = sb_segments_loop ?c" .
  have "net_good (sb_net ?c)" "sb_underflow_state ?c = IDLE" "net_in (sb_net ?c) = []" using b(1,2) by auto
  from sb_loop_end [OF this] obtain e b' where "sb_segments_loop ?c = (Some e, b')" "calls b' = calls ?b"
      "sb_segments b' = q'" "sb_rejected_segments b' = []" "sb_statebits b' = sb_statebits ?b"
    using b(6) by auto
  moreover have "sb_finish_segment b = (None, b)" using assms(2) by (simp add: sb_finish_segment_def)
  ultimately have u: "sb_underflow b = sb_catch e b'" "calls b' = calls ?b" "sb_segments b' = q'"
      "sb_rejected_segments b' = []" "sb_get STREAM_SKIP b' = sb_get STREAM_SKIP ?b"
    using loop by (simp_all add: sb_underflow_def sb_get_def)
  then show ?thesis
    using b(8,9) by (intro exI [of _ "fst (sb_catch e b')"] exI [of _ "snd (sb_catch e b')"]) (simp add: sb_catch_keeps)
qed

definition sample_refused :: sbuf where
  "sample_refused = (sb_set STREAM_NACK_SUPPORT (sample_conn 4))
     \<lparr>sb_segments := [data_segment True False [1], data_segment False True [2], data_segment True True [3]],
      sb_net := sample_net\<lparr>net_in := concat (replicate 2 refuse_bytes)\<rparr>\<rparr>"

theorem bundle_refused_once_witness:
  "\<exists>r b'. sb_underflow sample_refused = (r, b') \<and> sb_segments b' = [data_segment True True [3]]
     \<and> calls b' = [EventBundleRefused]"
  using bundle_refused_once [of sample_refused "data_segment True False [1]" "[data_segment False True [2]]"
      "[data_segment True True [3]]"]
  by (auto simp: sample_refused_def sample_conn_def sample_net_def sb_new_def numeral_2_eq_2)

end
