(* ===== verification/BundleList.thy ===== *)
theory BundleList
  imports BundleId
begin

text \<open>
  \<open>BundleList\<close> (\<open>ibrdtn/data/BundleList.cpp\<close>): a public set of meta data ordered by
  identifier, a private set ordered by expiry time, and a version number. The derived
  classes of the daemon are told about every expired bundle.
\<close>

section \<open>State and operations\<close>

record bundle_list =
  lst_public :: "meta_bundle list"
  lst_private :: "meta_bundle list"
  lst_version :: u64

definition lst_new :: bundle_list where
  "lst_new = \<lparr>lst_public = [], lst_private = [], lst_version = 0\<rparr>"

text \<open>\<open>ExpiringBundle\<close>, which holds a copy of the meta data and of its expiry time.\<close>

definition exp_less :: "meta_bundle \<Rightarrow> meta_bundle \<Rightarrow> bool" where
  "exp_less a b \<longleftrightarrow>
     (if m_expiretime a < m_expiretime b then True
      else if m_expiretime a \<noteq> m_expiretime b then False
      else if bid_less a b then True
      else False)"

definition lst_add :: "bundle_list \<Rightarrow> meta_bundle \<Rightarrow> bundle_list" where
  "lst_add l m =
     \<lparr>lst_public = oset_insert bid_less m (lst_public l),
      lst_private = oset_insert exp_less m (lst_private l),
      lst_version = lst_version l + 1\<rparr>"

definition lst_remove :: "bundle_list \<Rightarrow> meta_bundle \<Rightarrow> bundle_list" where
  "lst_remove l m =
     \<lparr>lst_public = oset_erase bid_less m (lst_public l),
      lst_private = oset_erase exp_less m (lst_private l),
      lst_version = lst_version l + 1\<rparr>"

definition lst_clear :: "bundle_list \<Rightarrow> bundle_list" where
  "lst_clear l = \<lparr>lst_public = [], lst_private = [], lst_version = lst_version l + 1\<rparr>"

text \<open>\<open>::find\<close> over the public set, comparing with \<open>BundleID::operator==\<close>.\<close>

definition lst_contains :: "bundle_list \<Rightarrow> 'a bundle_id_scheme \<Rightarrow> bool" where
  "lst_contains l i = list_ex (\<lambda>m. bid_eq m i) (lst_public l)"

text \<open>The loop of \<open>expire\<close>, with the bundles it reports.\<close>

fun lst_expire_loop :: "u64 \<Rightarrow> meta_bundle list \<Rightarrow> meta_bundle list \<Rightarrow> meta_bundle list
    \<Rightarrow> meta_bundle list \<times> meta_bundle list \<times> meta_bundle list" where
  "lst_expire_loop timestamp pub events [] = (pub, [], events)"
| "lst_expire_loop timestamp pub events (b # priv) =
     (if m_expiretime b \<ge> timestamp then (pub, b # priv, events)
      else lst_expire_loop timestamp (oset_erase bid_less b pub) (events @ [b]) priv)"

definition lst_expire :: "clock \<Rightarrow> u64 \<Rightarrow> bundle_list \<Rightarrow> bundle_list \<times> meta_bundle list" where
  "lst_expire c timestamp l =
     (if clk_quality_zero c then (l, [])
      else case lst_expire_loop timestamp (lst_public l) [] (lst_private l) of
             (pub, priv, events) \<Rightarrow>
               (\<lparr>lst_public = pub, lst_private = priv,
                 lst_version = (if events \<noteq> [] then lst_version l + 1 else lst_version l)\<rparr>, events))"

section \<open>The private order\<close>

definition exp_key :: "meta_bundle \<Rightarrow> u64 \<times> id_key" where
  "exp_key m = (m_expiretime m, bid_key m)"

lemma exp_less_key: "bid_compat a b \<Longrightarrow> exp_less a b \<longleftrightarrow> exp_key a < exp_key b"
  by (auto simp: exp_less_def exp_key_def bid_less_key less_prod_def)

interpretation expiring: key_order exp_less exp_key bid_compat
  by unfold_locales (auto simp: exp_less_key dest: bid_compat_sym)

section \<open>Invariant\<close>

text \<open>
  The lists a node keeps hold compatible meta data, and equal identifiers come with equal
  expiry times. Then both sets hold the same bundles.
\<close>

definition meta_consistent :: "meta_bundle set \<Rightarrow> bool" where
  "meta_consistent U \<longleftrightarrow>
     (\<forall>a \<in> U. \<forall>b \<in> U. bid_compat a b \<and> (bid_key a = bid_key b \<longrightarrow> m_expiretime a = m_expiretime b))"

definition lst_inv :: "meta_bundle set \<Rightarrow> bundle_list \<Rightarrow> bool" where
  "lst_inv U l \<longleftrightarrow>
     set (lst_public l) \<subseteq> U \<and> set (lst_private l) = set (lst_public l)
     \<and> key_sorted bid_key (lst_public l) \<and> key_sorted exp_key (lst_private l)"

lemma lst_inv_new: "lst_inv U lst_new"
  by (simp add: lst_inv_def lst_new_def)

lemma meta_fit: "meta_consistent U \<Longrightarrow> m \<in> U \<Longrightarrow> set xs \<subseteq> U \<Longrightarrow> list_all (bid_compat m) xs"
  by (auto simp: meta_consistent_def list_all_iff)

lemma exp_key_eq:
  "meta_consistent U \<Longrightarrow> a \<in> U \<Longrightarrow> b \<in> U \<Longrightarrow> exp_key a = exp_key b \<longleftrightarrow> bid_key a = bid_key b"
  unfolding exp_key_def meta_consistent_def prod.inject by blast

lemma exp_key_image:
  assumes "meta_consistent U" and "m \<in> U" and "X \<subseteq> U"
  shows "exp_key m \<in> exp_key ` X \<longleftrightarrow> bid_key m \<in> bid_key ` X"
proof -
  have "exp_key m = exp_key x \<longleftrightarrow> bid_key m = bid_key x" if "x \<in> X" for x
    using exp_key_eq [OF assms(1,2)] assms(3) that by blast
  then show ?thesis by (simp add: image_iff)
qed

lemma lst_add_inv:
  assumes U: "meta_consistent U" "m \<in> U" and inv: "lst_inv U l"
  shows "lst_inv U (lst_add l m)"
    and "bid_key ` set (lst_public (lst_add l m)) = insert (bid_key m) (bid_key ` set (lst_public l))"
proof -
  have sub: "set (lst_public l) \<subseteq> U" "set (lst_private l) \<subseteq> U" and same: "set (lst_private l) = set (lst_public l)"
    using inv by (auto simp: lst_inv_def)
  note fit = meta_fit [OF U sub(1)] meta_fit [OF U sub(2)]
  have pub: "set (lst_public (lst_add l m))
      = (if bid_key m \<in> bid_key ` set (lst_public l) then set (lst_public l) else insert m (set (lst_public l)))"
    using bid.insert_set [OF _ fit(1)] inv by (simp add: lst_add_def lst_inv_def)
  have "set (lst_private (lst_add l m))
      = (if exp_key m \<in> exp_key ` set (lst_private l) then set (lst_private l) else insert m (set (lst_private l)))"
    using expiring.insert_set [OF _ fit(2)] inv by (simp add: lst_add_def lst_inv_def)
  then have priv: "set (lst_private (lst_add l m)) = set (lst_public (lst_add l m))"
    using pub same exp_key_image [OF U sub(1)] by simp
  show "lst_inv U (lst_add l m)"
    using priv pub sub U inv bid.insert_sorted [OF _ fit(1)] expiring.insert_sorted [OF _ fit(2)]
    by (simp add: lst_inv_def) (simp add: lst_add_def)
  show "bid_key ` set (lst_public (lst_add l m)) = insert (bid_key m) (bid_key ` set (lst_public l))"
    using pub by auto
qed

lemma lst_remove_inv:
  assumes U: "meta_consistent U" "m \<in> U" and inv: "lst_inv U l"
  shows "lst_inv U (lst_remove l m)"
    and "set (lst_public (lst_remove l m)) = {x \<in> set (lst_public l). bid_key x \<noteq> bid_key m}"
proof -
  have sub: "set (lst_public l) \<subseteq> U" "set (lst_private l) \<subseteq> U" and same: "set (lst_private l) = set (lst_public l)"
    using inv by (auto simp: lst_inv_def)
  note fit = meta_fit [OF U sub(1)] meta_fit [OF U sub(2)]
  show pub: "set (lst_public (lst_remove l m)) = {x \<in> set (lst_public l). bid_key x \<noteq> bid_key m}"
    using bid.erase_set [OF _ fit(1)] inv by (simp add: lst_remove_def lst_inv_def)
  have "set (lst_private (lst_remove l m)) = {x \<in> set (lst_private l). exp_key x \<noteq> exp_key m}"
    using expiring.erase_set [OF _ fit(2)] inv by (simp add: lst_remove_def lst_inv_def)
  then have priv: "set (lst_private (lst_remove l m)) = set (lst_public (lst_remove l m))"
    using pub same sub(1) exp_key_eq [OF U(1) _ U(2)] by auto
  show "lst_inv U (lst_remove l m)"
    using priv pub sub inv bid.erase_sorted [OF _ fit(1)] expiring.erase_sorted [OF _ fit(2)]
    by (auto simp: lst_inv_def) (simp_all add: lst_remove_def)
qed

lemma lst_contains_key:
  assumes "list_all (bid_compat i) (lst_public l)"
  shows "lst_contains l i \<longleftrightarrow> bid_key i \<in> bid_key ` set (lst_public l)"
proof -
  have "bid_eq m i \<longleftrightarrow> bid_key m = bid_key i" if "m \<in> set (lst_public l)" for m
    using that assms bid_compat_sym [of i m] by (auto simp: bid_eq_key list_all_iff)
  then show ?thesis unfolding lst_contains_def list_ex_iff image_iff by metis
qed

section \<open>Expiry\<close>

lemma lst_expire_loop_eq:
  "lst_expire_loop ts pub ev priv =
     (foldl (\<lambda>p b. oset_erase bid_less b p) pub (takeWhile (\<lambda>b. m_expiretime b < ts) priv),
      dropWhile (\<lambda>b. m_expiretime b < ts) priv, ev @ takeWhile (\<lambda>b. m_expiretime b < ts) priv)"
  by (induction priv arbitrary: pub ev) auto

lemma foldl_erase:
  assumes "meta_consistent U" and "set bs \<subseteq> U" and "set pub \<subseteq> U" and "key_sorted bid_key pub"
  shows "set (foldl (\<lambda>p b. oset_erase bid_less b p) pub bs)
           = {x \<in> set pub. bid_key x \<notin> bid_key ` set bs}
         \<and> key_sorted bid_key (foldl (\<lambda>p b. oset_erase bid_less b p) pub bs)"
  using assms(2-)
proof (induction bs arbitrary: pub)
  case (Cons b bs)
  have fit: "list_all (bid_compat b) pub" using meta_fit [OF assms(1)] Cons.prems by auto
  have e: "set (oset_erase bid_less b pub) = {x \<in> set pub. bid_key x \<noteq> bid_key b}"
      "key_sorted bid_key (oset_erase bid_less b pub)"
    using bid.erase_set [OF _ fit] bid.erase_sorted [OF _ fit] Cons.prems by auto
  then show ?case using Cons.IH [of "oset_erase bid_less b pub"] Cons.prems by auto
qed simp

lemma mono_fst_exp: "mono (fst :: u64 \<times> id_key \<Rightarrow> u64)"
  by (auto simp: mono_def less_eq_prod_def)

lemma expired_prefix:
  assumes "key_sorted exp_key xs"
  shows "set (takeWhile (\<lambda>b. m_expiretime b < ts) xs) = {b \<in> set xs. m_expiretime b < ts}"
    and "set (dropWhile (\<lambda>b. m_expiretime b < ts) xs) = {b \<in> set xs. ts \<le> m_expiretime b}"
  using expiring.takeWhile_key [OF assms mono_fst_exp, of ts]
    expiring.dropWhile_key [OF assms mono_fst_exp, of ts] by (simp_all add: exp_key_def)

lemma lst_expire_inv:
  assumes U: "meta_consistent U" and inv: "lst_inv U l" and q: "\<not> clk_quality_zero c"
    and r: "lst_expire c ts l = (l', events)"
  shows "lst_inv U l'" and "set events = {m \<in> set (lst_public l). m_expiretime m < ts}"
    and "set (lst_public l') = {m \<in> set (lst_public l). ts \<le> m_expiretime m}"
proof -
  let ?P = "\<lambda>b. m_expiretime b < ts"
  let ?gone = "takeWhile ?P (lst_private l)"
  have same: "set (lst_private l) = set (lst_public l)" and sub: "set (lst_public l) \<subseteq> U"
    and sorted: "key_sorted bid_key (lst_public l)" "key_sorted exp_key (lst_private l)"
    using inv by (auto simp: lst_inv_def)
  have l': "lst_public l' = foldl (\<lambda>p b. oset_erase bid_less b p) (lst_public l) ?gone"
      "lst_private l' = dropWhile ?P (lst_private l)" "events = ?gone"
    using r q by (auto simp: lst_expire_def lst_expire_loop_eq)
  have gone: "set ?gone = {m \<in> set (lst_public l). ?P m}"
    using expired_prefix(1) [OF sorted(2)] same by simp
  then show "set events = {m \<in> set (lst_public l). ?P m}" using l'(3) by simp
  have "set ?gone \<subseteq> U" using gone sub by auto
  note pub = foldl_erase [OF U this sub sorted(1)]
  have "bid_key x \<in> bid_key ` set ?gone \<longleftrightarrow> ?P x" if "x \<in> set (lst_public l)" for x
  proof
    assume "bid_key x \<in> bid_key ` set ?gone"
    then obtain y where "y \<in> set (lst_public l)" "?P y" "bid_key x = bid_key y" using gone by auto
    moreover have "m_expiretime x = m_expiretime y"
      using calculation U sub that unfolding meta_consistent_def by blast
    ultimately show "?P x" by simp
  qed (use gone that in blast)
  then have "{x \<in> set (lst_public l). bid_key x \<notin> bid_key ` set ?gone} = {m \<in> set (lst_public l). ts \<le> m_expiretime m}"
    unfolding not_less [symmetric] by blast
  then show p': "set (lst_public l') = {m \<in> set (lst_public l). ts \<le> m_expiretime m}"
    using pub l'(1) by simp
  have "set (lst_private l') = set (lst_public l')"
    using p' l'(2) same expired_prefix(2) [OF sorted(2)] by simp
  then show "lst_inv U l'"
    using pub l' sub p' expiring.dropWhile_sorted [OF sorted(2)] by (auto simp: lst_inv_def)
qed

section \<open>Histories\<close>

inductive lst_step :: "clock \<Rightarrow> meta_bundle set \<Rightarrow> bundle_list \<Rightarrow> bundle_list \<Rightarrow> bool"
  for c :: clock and U :: "meta_bundle set" where
  lst_step_add: "m \<in> U \<Longrightarrow> lst_step c U l (lst_add l m)"
| lst_step_remove: "m \<in> U \<Longrightarrow> lst_step c U l (lst_remove l m)"
| lst_step_clear: "lst_step c U l (lst_clear l)"
| lst_step_expire: "lst_step c U l (fst (lst_expire c ts l))"

inductive_cases lst_stepE: "lst_step c U l l'"

lemma lst_step_inv:
  assumes "lst_step c U l l'" and U: "meta_consistent U" and inv: "lst_inv U l"
  shows "lst_inv U l'"
  using assms(1)
proof (cases rule: lst_step.cases)
  case (lst_step_expire ts)
  show ?thesis
  proof (cases "clk_quality_zero c")
    case True
    then show ?thesis using lst_step_expire inv by (simp add: lst_expire_def)
  next
    case False
    then show ?thesis using lst_step_expire lst_expire_inv(1) [OF U inv False] by (metis prod.collapse)
  qed
qed (use U inv lst_add_inv(1) lst_remove_inv(1) in \<open>auto simp: lst_clear_def lst_inv_def\<close>)

lemma lst_reachable_inv:
  assumes "(lst_step c U)\<^sup>*\<^sup>* lst_new l" and "meta_consistent U"
  shows "lst_inv U l"
  using assms(1) by (induction rule: rtranclp_induct) (auto intro: lst_inv_new lst_step_inv assms(2))

section \<open>Correctness\<close>

text \<open>In every history of adding, removing, clearing and expiring, the set ordered by identifier
  and the set ordered by expiry time hold the same bundles, each once, and \<open>contains\<close> answers
  for them.\<close>

theorem bundle_list_consistent:
  assumes "(lst_step c U)\<^sup>*\<^sup>* lst_new l" and "meta_consistent U" and "m \<in> U"
  shows "set (lst_private l) = set (lst_public l) \<and> distinct (map bid_key (lst_public l))
         \<and> (lst_contains l m \<longleftrightarrow> bid_key m \<in> bid_key ` set (lst_public l))"
proof -
  have inv: "lst_inv U l" by (rule lst_reachable_inv [OF assms(1,2)])
  then have "list_all (bid_compat m) (lst_public l)"
    using meta_fit [OF assms(2,3)] by (simp add: lst_inv_def)
  then show ?thesis
    using inv lst_contains_key bid.distinct_keys by (auto simp: lst_inv_def)
qed

definition sample_meta :: meta_bundle where
  "sample_meta = (meta_of_id sample_time sample_id)\<lparr>m_expiretime := 50\<rparr>"

lemma sample_meta_consistent: "meta_consistent {sample_meta}"
  by (simp add: meta_consistent_def bid_compat_def)

theorem bundle_list_consistent_witness:
  "lst_contains (lst_add lst_new sample_meta) sample_meta"
proof -
  have "lst_step sample_clock {sample_meta} lst_new (lst_add lst_new sample_meta)"
    by (rule lst_step_add) simp
  from bundle_list_consistent [OF _ sample_meta_consistent, OF r_into_rtranclp, OF this, of sample_meta]
  show ?thesis by (simp add: lst_add_def lst_new_def)
qed

text \<open>\<open>expire\<close> reports and removes exactly the bundles whose expiry time has passed, from
  both sets, and counts a version exactly when there were any.\<close>

theorem bundle_list_expire:
  assumes "(lst_step c U)\<^sup>*\<^sup>* lst_new l" and "meta_consistent U" and "\<not> clk_quality_zero c"
    and "lst_expire c ts l = (l', events)"
  shows "set events = {m \<in> set (lst_public l). m_expiretime m < ts}
         \<and> set (lst_public l') = {m \<in> set (lst_public l). ts \<le> m_expiretime m}
         \<and> set (lst_private l') = set (lst_public l')
         \<and> lst_version l' = (if events = [] then lst_version l else lst_version l + 1)"
proof -
  have inv: "lst_inv U l" by (rule lst_reachable_inv [OF assms(1,2)])
  note e = lst_expire_inv [OF assms(2) inv assms(3,4)]
  have "lst_version l' = (if events = [] then lst_version l else lst_version l + 1)"
    using assms(3,4) by (auto simp: lst_expire_def split: prod.splits)
  with e show ?thesis by (simp add: lst_inv_def)
qed

theorem bundle_list_expire_witness:
  "snd (lst_expire sample_clock 60 (lst_add lst_new sample_meta)) = [sample_meta]"
proof -
  let ?l = "lst_add lst_new sample_meta"
  have "lst_step sample_clock {sample_meta} lst_new ?l" by (rule lst_step_add) simp
  then have r: "(lst_step sample_clock {sample_meta})\<^sup>*\<^sup>* lst_new ?l" by (rule r_into_rtranclp)
  obtain l' ev where e: "lst_expire sample_clock 60 ?l = (l', ev)" by fastforce
  have "set ev = {m \<in> set (lst_public ?l). m_expiretime m < 60}"
    using bundle_list_expire [OF r sample_meta_consistent _ e] by (simp add: sample_clock_def)
  then have "sample_meta \<in> set ev" by (simp add: lst_add_def lst_new_def sample_meta_def)
  moreover have "length ev \<le> 1"
    using e by (auto simp: lst_expire_def lst_add_def lst_new_def lst_expire_loop_eq sample_clock_def split: if_splits)
  ultimately have "ev = [sample_meta]" by (cases ev) auto
  then show ?thesis using e by simp
qed

end
