(* ===== verification/Summary.thy ===== *)
theory Summary
  imports BundleList Sdnv
begin

text \<open>
  Summary vectors (\<open>daemon/src/routing/SummaryVector.cpp\<close>) and bundle summaries
  (\<open>daemon/src/routing/BundleSummary.cpp\<close>), with which nodes tell each other what they hold.
  The Bloom filter is a class of the \<open>ibrcommon\<close> library and a parameter here.
\<close>

section \<open>Bloom filters\<close>

text \<open>\<open>clear\<close>, \<open>insert\<close>, \<open>contains\<close>, \<open>table\<close> and \<open>load\<close> of the class; \<open>size\<close> is the length of the table.\<close>

record 'f bloom =
  bf_init :: 'f
  bf_clear :: "'f \<Rightarrow> 'f"
  bf_insert :: "string \<Rightarrow> 'f \<Rightarrow> 'f"
  bf_contains :: "string \<Rightarrow> 'f \<Rightarrow> bool"
  bf_table :: "'f \<Rightarrow> byte list"
  bf_load :: "byte list \<Rightarrow> 'f \<Rightarrow> 'f"

text \<open>What the code relies on: no false negatives, and a table that is read back.\<close>

definition bloom_ok :: "'f bloom \<Rightarrow> bool" where
  "bloom_ok F \<longleftrightarrow> (\<forall>x y f. bf_contains F x (bf_insert F x f) \<and> (bf_contains F y f \<longrightarrow> bf_contains F y (bf_insert F x f)))"

definition bloom_table_ok :: "'f bloom \<Rightarrow> bool" where
  "bloom_table_ok F \<longleftrightarrow> (\<forall>f g x. bf_contains F x (bf_load F (bf_table F f) g) = bf_contains F x f)"

section \<open>Summary vectors\<close>

record 'f summary_vector =
  sv_ids :: "bundle_id list"
  sv_bf :: 'f

definition sv_new :: "'f bloom \<Rightarrow> 'f summary_vector" where
  "sv_new F = \<lparr>sv_ids = [], sv_bf = bf_init F\<rparr>"

definition sv_add :: "'f bloom \<Rightarrow> bundle_id \<Rightarrow> 'f summary_vector \<Rightarrow> 'f summary_vector" where
  "sv_add F i v = \<lparr>sv_ids = oset_insert bid_less i (sv_ids v), sv_bf = bf_insert F (bid_toString i) (sv_bf v)\<rparr>"

text \<open>Meta data are cut down to the identifier they extend.\<close>

definition sv_add_list :: "'f bloom \<Rightarrow> meta_bundle list \<Rightarrow> 'f summary_vector \<Rightarrow> 'f summary_vector" where
  "sv_add_list F l v = foldl (\<lambda>v m. sv_add F (bundle_id.truncate m) v) v l"

definition sv_of_list :: "'f bloom \<Rightarrow> meta_bundle list \<Rightarrow> 'f summary_vector" where
  "sv_of_list F l = sv_add_list F l (sv_new F)"

definition sv_contains :: "'f bloom \<Rightarrow> 'a bundle_id_scheme \<Rightarrow> 'f summary_vector \<Rightarrow> bool" where
  "sv_contains F i v = bf_contains F (bid_toString i) (sv_bf v)"

text \<open>The filter cannot forget: it keeps the removed identifier until the next \<open>commit\<close>.\<close>

definition sv_remove :: "bundle_id \<Rightarrow> 'f summary_vector \<Rightarrow> 'f summary_vector" where
  "sv_remove i v = v\<lparr>sv_ids := oset_erase bid_less i (sv_ids v)\<rparr>"

definition sv_commit :: "'f bloom \<Rightarrow> 'f summary_vector \<Rightarrow> 'f summary_vector" where
  "sv_commit F v = v\<lparr>sv_bf := foldl (\<lambda>f i. bf_insert F (bid_toString i) f) (bf_clear F (sv_bf v)) (sv_ids v)\<rparr>"

definition sv_clear :: "'f bloom \<Rightarrow> 'f summary_vector \<Rightarrow> 'f summary_vector" where
  "sv_clear F v = \<lparr>sv_ids = [], sv_bf = bf_clear F (sv_bf v)\<rparr>"

definition sv_getNotIn :: "'f bloom \<Rightarrow> 'f \<Rightarrow> 'f summary_vector \<Rightarrow> bundle_id list" where
  "sv_getNotIn F flt v =
     foldl (\<lambda>ret i. if \<not> bf_contains F (bid_toString i) flt then oset_insert bid_less i ret else ret) [] (sv_ids v)"

definition sv_getLength :: "'f bloom \<Rightarrow> 'f summary_vector \<Rightarrow> nat" where
  "sv_getLength F v =
     (let sz = length (bf_table F (sv_bf v)) in length (sdnv_bytes (word_of_nat sz)) + sz)"

definition sv_bytes :: "'f bloom \<Rightarrow> 'f summary_vector \<Rightarrow> byte list" where
  "sv_bytes F v = sdnv_bytes (word_of_nat (length (bf_table F (sv_bf v)))) @ bf_table F (sv_bf v)"

definition get_sv :: "'f bloom \<Rightarrow> 'f summary_vector \<Rightarrow> 'f summary_vector reader" where
  "get_sv F obj =
     rbind get_sdnv (\<lambda>count. rbind (rtake (unat count)) (\<lambda>buffer.
       rret ((sv_clear F obj)\<lparr>sv_bf := bf_load F buffer (sv_bf (sv_clear F obj))\<rparr>)))"

section \<open>Bundle summaries\<close>

record 'f bundle_summary =
  bs_list :: bundle_list
  bs_vector :: "'f summary_vector"

definition bs_new :: "'f bloom \<Rightarrow> 'f bundle_summary" where
  "bs_new F = \<lparr>bs_list = lst_new, bs_vector = sv_new F\<rparr>"

definition bs_add :: "'f bloom \<Rightarrow> meta_bundle \<Rightarrow> 'f bundle_summary \<Rightarrow> 'f bundle_summary" where
  "bs_add F m s = \<lparr>bs_list = lst_add (bs_list s) m, bs_vector = sv_add F (bundle_id.truncate m) (bs_vector s)\<rparr>"

definition bs_remove :: "meta_bundle \<Rightarrow> 'f bundle_summary \<Rightarrow> 'f bundle_summary" where
  "bs_remove m s = \<lparr>bs_list = lst_remove (bs_list s) m, bs_vector = sv_remove (bundle_id.truncate m) (bs_vector s)\<rparr>"

definition bs_clear :: "'f bloom \<Rightarrow> 'f bundle_summary \<Rightarrow> 'f bundle_summary" where
  "bs_clear F s = \<lparr>bs_list = lst_clear (bs_list s), bs_vector = sv_clear F (bs_vector s)\<rparr>"

definition bs_contains :: "'f bloom \<Rightarrow> 'a bundle_id_scheme \<Rightarrow> 'f bundle_summary \<Rightarrow> bool" where
  "bs_contains F i s \<longleftrightarrow> (if sv_contains F i (bs_vector s) then lst_contains (bs_list s) i else False)"

text \<open>The two callbacks of the bundle list: one per expired bundle, one at the end if there was any.\<close>

definition bs_eventBundleExpired :: "meta_bundle \<Rightarrow> 'f summary_vector \<Rightarrow> 'f summary_vector" where
  "bs_eventBundleExpired m v = sv_remove (bundle_id.truncate m) v"

definition bs_expire :: "'f bloom \<Rightarrow> clock \<Rightarrow> u64 \<Rightarrow> 'f bundle_summary \<Rightarrow> 'f bundle_summary" where
  "bs_expire F c timestamp s =
     (case lst_expire c timestamp (bs_list s) of
        (l, gone) \<Rightarrow>
          (let v = foldl (\<lambda>v m. bs_eventBundleExpired m v) (bs_vector s) gone
           in \<lparr>bs_list = l, bs_vector = (if gone \<noteq> [] then sv_commit F v else v)\<rparr>))"

section \<open>Identifiers\<close>

lemma truncate_id [simp]:
  "bid_key (bundle_id.truncate m) = bid_key m" "bid_toString (bundle_id.truncate m) = bid_toString m"
  "bid_compat (bundle_id.truncate m) n = bid_compat m n" "bid_compat n (bundle_id.truncate m) = bid_compat n m"
  by (simp_all add: bid_key_def bid_toString_def bid_compat_def bundle_id.truncate_def)

lemma same_string: "bid_compat a b \<Longrightarrow> bid_key a = bid_key b \<Longrightarrow> bid_toString a = bid_toString b"
  by (auto simp: bid_compat_def bid_key_def bid_toString_def split: if_splits)

section \<open>Invariant\<close>

definition ids_ok :: "bundle_id set \<Rightarrow> bool" where
  "ids_ok I \<longleftrightarrow> (\<forall>a \<in> I. \<forall>b \<in> I. bid_compat a b)"

definition sv_inv :: "'f bloom \<Rightarrow> bundle_id set \<Rightarrow> 'f summary_vector \<Rightarrow> bool" where
  "sv_inv F I v \<longleftrightarrow> set (sv_ids v) \<subseteq> I \<and> key_sorted bid_key (sv_ids v)
     \<and> (\<forall>i \<in> set (sv_ids v). bf_contains F (bid_toString i) (sv_bf v))"

lemma ids_fit: "ids_ok I \<Longrightarrow> i \<in> I \<Longrightarrow> set xs \<subseteq> I \<Longrightarrow> list_all (bid_compat i) xs"
  by (auto simp: ids_ok_def list_all_iff)

lemma sv_inv_new: "sv_inv F I (sv_new F)" "sv_inv F I (sv_clear F v)"
  by (simp_all add: sv_inv_def sv_new_def sv_clear_def)

lemma sv_add_inv:
  assumes F: "bloom_ok F" and I: "ids_ok I" "i \<in> I" and inv: "sv_inv F I v"
  shows "sv_inv F I (sv_add F i v)"
    and "bid_key ` set (sv_ids (sv_add F i v)) = insert (bid_key i) (bid_key ` set (sv_ids v))"
    and "sv_contains F j v \<Longrightarrow> sv_contains F j (sv_add F i v)" "sv_contains F i (sv_add F i v)"
proof -
  have fit: "list_all (bid_compat i) (sv_ids v)" using inv by (intro ids_fit [OF I]) (simp add: sv_inv_def)
  have ids: "set (oset_insert bid_less i (sv_ids v))
      = (if bid_key i \<in> bid_key ` set (sv_ids v) then set (sv_ids v) else insert i (set (sv_ids v)))"
    using bid.insert_set [OF _ fit] inv by (simp add: sv_inv_def)
  then show "sv_inv F I (sv_add F i v)"
    using F I inv bid.insert_sorted [OF _ fit] by (auto simp: sv_inv_def sv_add_def bloom_ok_def split: if_splits)
  show "bid_key ` set (sv_ids (sv_add F i v)) = insert (bid_key i) (bid_key ` set (sv_ids v))"
    using ids by (auto simp: sv_add_def)
  show "sv_contains F j v \<Longrightarrow> sv_contains F j (sv_add F i v)" "sv_contains F i (sv_add F i v)"
    using F by (simp_all add: sv_contains_def sv_add_def bloom_ok_def)
qed

lemma sv_remove_inv:
  assumes I: "ids_ok I" "i \<in> I" and inv: "sv_inv F I v"
  shows "sv_inv F I (sv_remove i v)"
    and "bid_key ` set (sv_ids (sv_remove i v)) = bid_key ` set (sv_ids v) - {bid_key i}"
proof -
  have fit: "list_all (bid_compat i) (sv_ids v)" using inv by (intro ids_fit [OF I]) (simp add: sv_inv_def)
  have ids: "set (oset_erase bid_less i (sv_ids v)) = {x \<in> set (sv_ids v). bid_key x \<noteq> bid_key i}"
    using bid.erase_set [OF _ fit] inv by (simp add: sv_inv_def)
  then show "sv_inv F I (sv_remove i v)"
    using inv bid.erase_sorted [OF _ fit] by (auto simp: sv_inv_def sv_remove_def)
  show "bid_key ` set (sv_ids (sv_remove i v)) = bid_key ` set (sv_ids v) - {bid_key i}"
    using ids image_without [of "set (sv_ids v)" bid_key "bid_key i" bid_key "bid_key i"] by (simp add: sv_remove_def)
qed

lemma foldl_insert_contains:
  assumes "bloom_ok F" and "x \<in> set xs \<or> bf_contains F (g x) f"
  shows "bf_contains F (g x) (foldl (\<lambda>f i. bf_insert F (g i) f) f xs)"
  using assms(2)
proof (induction xs arbitrary: f)
  case (Cons y ys)
  then show ?case using assms(1) by (auto simp: bloom_ok_def)
qed simp

lemma sv_commit_inv:
  assumes "bloom_ok F" and "sv_inv F I v"
  shows "sv_inv F I (sv_commit F v)" "sv_ids (sv_commit F v) = sv_ids v"
  using assms foldl_insert_contains [OF assms(1), of _ "sv_ids v" bid_toString]
  by (auto simp: sv_inv_def sv_commit_def)

lemma sv_expired_inv:
  assumes "ids_ok I" and "sv_inv F I v" and "bundle_id.truncate ` set gone \<subseteq> I"
  shows "sv_inv F I (foldl (\<lambda>v m. bs_eventBundleExpired m v) v gone)
    \<and> bid_key ` set (sv_ids (foldl (\<lambda>v m. bs_eventBundleExpired m v) v gone)) = bid_key ` set (sv_ids v) - bid_key ` set gone"
  using assms(2,3)
proof (induction gone arbitrary: v)
  case (Cons m gone)
  have m: "bundle_id.truncate m \<in> I" using Cons.prems(2) by simp
  have r: "sv_inv F I (sv_remove (bundle_id.truncate m) v)"
      "bid_key ` set (sv_ids (sv_remove (bundle_id.truncate m) v)) = bid_key ` set (sv_ids v) - {bid_key m}"
    using sv_remove_inv [OF assms(1) m Cons.prems(1)] by simp_all
  have "bundle_id.truncate ` set gone \<subseteq> I" using Cons.prems(2) by simp
  from Cons.IH [OF r(1) this] show ?case
    unfolding foldl.simps list.set image_insert Diff_insert2 [of _ _ "bid_key ` set gone"] bs_eventBundleExpired_def r(2) .
qed simp

definition bs_inv :: "'f bloom \<Rightarrow> meta_bundle set \<Rightarrow> 'f bundle_summary \<Rightarrow> bool" where
  "bs_inv F U s \<longleftrightarrow> lst_inv U (bs_list s) \<and> sv_inv F (bundle_id.truncate ` U) (bs_vector s)
     \<and> bid_key ` set (sv_ids (bs_vector s)) = bid_key ` set (lst_public (bs_list s))"

lemma metas_ids: "meta_consistent U \<Longrightarrow> ids_ok (bundle_id.truncate ` U)"
  by (auto simp: ids_ok_def meta_consistent_def)

lemma bs_inv_new: "bs_inv F U (bs_new F)" "bs_inv F U (bs_clear F s)"
  by (auto simp: bs_inv_def bs_new_def bs_clear_def sv_inv_new lst_inv_def lst_new_def lst_clear_def)
     (simp_all add: sv_new_def sv_clear_def)

lemma bs_add_inv:
  assumes F: "bloom_ok F" and U: "meta_consistent U" "m \<in> U" and inv: "bs_inv F U s"
  shows "bs_inv F U (bs_add F m s)"
  using lst_add_inv [OF U, of "bs_list s"] sv_add_inv(1,2) [OF F metas_ids [OF U(1)], of "bundle_id.truncate m" "bs_vector s"]
    inv U(2) by (simp add: bs_inv_def bs_add_def)

lemma bs_remove_inv:
  assumes U: "meta_consistent U" "m \<in> U" and inv: "bs_inv F U s"
  shows "bs_inv F U (bs_remove m s)"
proof -
  have "bid_key ` set (lst_public (lst_remove (bs_list s) m)) = bid_key ` set (lst_public (bs_list s)) - {bid_key m}"
    using lst_remove_inv(2) [OF U, of "bs_list s"] inv
      image_without [of "set (lst_public (bs_list s))" bid_key "bid_key m" bid_key "bid_key m"] by (simp add: bs_inv_def)
  then show ?thesis
    using lst_remove_inv(1) [OF U, of "bs_list s"] sv_remove_inv [OF metas_ids [OF U(1)], of "bundle_id.truncate m" F "bs_vector s"]
      inv U(2) by (simp add: bs_inv_def bs_remove_def)
qed

text \<open>The keys that stay are those whose meta data stay, as equal keys expire together.\<close>

lemma kept_keys:
  assumes "meta_consistent U" and "X \<subseteq> U"
  shows "bid_key ` {m \<in> X. ts \<le> m_expiretime m} = bid_key ` X - bid_key ` {m \<in> X. m_expiretime m < ts}"
proof -
  have "(m_expiretime a < ts) = (m_expiretime b < ts)" if "a \<in> X" "b \<in> X" "bid_key a = bid_key b" for a b
    using assms that unfolding meta_consistent_def by (metis subsetD)
  then show ?thesis unfolding not_less [symmetric] by (rule image_kept)
qed

lemma bs_expire_inv:
  assumes F: "bloom_ok F" and U: "meta_consistent U" and inv: "bs_inv F U s"
  shows "bs_inv F U (bs_expire F c ts s)"
proof (cases "clk_quality_zero c")
  case True
  then have "bs_expire F c ts s = s" by (simp add: bs_expire_def lst_expire_def Let_def)
  then show ?thesis using inv by simp
next
  case False
  obtain l gone where e: "lst_expire c ts (bs_list s) = (l, gone)" by fastforce
  have lst: "lst_inv U (bs_list s)" and vec: "sv_inv F (bundle_id.truncate ` U) (bs_vector s)"
    and keys: "bid_key ` set (sv_ids (bs_vector s)) = bid_key ` set (lst_public (bs_list s))"
    using inv by (auto simp: bs_inv_def)
  note x = lst_expire_inv [OF U lst False e]
  have sub: "set (lst_public (bs_list s)) \<subseteq> U" using lst by (simp add: lst_inv_def)
  let ?v = "foldl (\<lambda>v m. bs_eventBundleExpired m v) (bs_vector s) gone"
  have "bundle_id.truncate ` set gone \<subseteq> bundle_id.truncate ` U" using x(2) sub by blast
  note v = sv_expired_inv [OF metas_ids [OF U] vec this]
  have "bid_key ` set (sv_ids ?v) = bid_key ` set (lst_public l)"
    unfolding v [THEN conjunct2] x(2,3) keys by (rule kept_keys [OF U sub, symmetric])
  then show ?thesis
    using x(1) v sv_commit_inv [OF F, of "bundle_id.truncate ` U" ?v] e
    by (cases "gone = []") (simp_all add: bs_inv_def bs_expire_def Let_def)
qed

section \<open>Histories\<close>

inductive bs_step :: "'f bloom \<Rightarrow> clock \<Rightarrow> meta_bundle set \<Rightarrow> 'f bundle_summary \<Rightarrow> 'f bundle_summary \<Rightarrow> bool"
  for F :: "'f bloom" and c :: clock and U :: "meta_bundle set" where
  bs_step_add: "m \<in> U \<Longrightarrow> bs_step F c U s (bs_add F m s)"
| bs_step_remove: "m \<in> U \<Longrightarrow> bs_step F c U s (bs_remove m s)"
| bs_step_clear: "bs_step F c U s (bs_clear F s)"
| bs_step_expire: "bs_step F c U s (bs_expire F c ts s)"

lemma bs_reachable_inv:
  assumes "(bs_step F c U)\<^sup>*\<^sup>* (bs_new F) s" and "bloom_ok F" and "meta_consistent U"
  shows "bs_inv F U s"
  using assms(1)
proof (induction rule: rtranclp_induct)
  case (step y z)
  from step.hyps(2) step.IH show ?case
    by (cases rule: bs_step.cases) (auto intro: bs_add_inv bs_remove_inv bs_inv_new bs_expire_inv assms(2,3))
qed (rule bs_inv_new)

section \<open>Correctness\<close>

lemma sv_contains_keys:
  assumes inv: "sv_inv F I v" and fit: "\<forall>j \<in> I. bid_compat i j" and key: "bid_key i \<in> bid_key ` set (sv_ids v)"
  shows "sv_contains F i v"
proof -
  obtain j where j: "j \<in> set (sv_ids v)" "bid_key i = bid_key j" using key by blast
  then have "bid_toString i = bid_toString j" using inv fit by (intro same_string) (auto simp: sv_inv_def)
  then show ?thesis using inv j(1) by (simp add: sv_inv_def sv_contains_def)
qed

lemma bs_add_contains:
  assumes F: "bloom_ok F" and U: "meta_consistent U" "m \<in> U" and inv: "bs_inv F U s"
  shows "bs_contains F m (bs_add F m s)"
proof -
  have inv': "bs_inv F U (bs_add F m s)" by (rule bs_add_inv [OF F U inv])
  have key: "bid_key m \<in> bid_key ` set (lst_public (bs_list (bs_add F m s)))"
    using lst_add_inv(2) [OF U] inv by (simp add: bs_inv_def bs_add_def)
  have "list_all (bid_compat m) (lst_public (bs_list (bs_add F m s)))"
    using inv' by (intro meta_fit [OF U]) (simp add: bs_inv_def lst_inv_def)
  moreover have "sv_contains F m (bs_vector (bs_add F m s))"
    using inv' key U by (intro sv_contains_keys [of F "bundle_id.truncate ` U"]) (auto simp: bs_inv_def meta_consistent_def)
  ultimately show ?thesis using key by (simp add: bs_contains_def lst_contains_key)
qed

text \<open>C8: a bundle summary contains exactly the bundles of its list, although it asks a filter with false positives first,
  and although removing a bundle leaves it in the filter: in every history over a set of bundles none of which is
  together with a fragment of its own, where an identifier has one expiry time (\<open>meta_consistent\<close>), for every identifier that is
  no fragment of such a bundle or the bundle of such a fragment (\<open>bid_compat\<close>), and with a filter that contains what was
  inserted. A summary that is given a bundle and then a fragment of it lists the bundle only, while its filter has both.\<close>

theorem summary_exact:
  assumes reach: "(bs_step F c U)\<^sup>*\<^sup>* (bs_new F) s" and F: "bloom_ok F" and U: "meta_consistent U"
    and fit: "\<forall>m \<in> U. bid_compat i m"
  shows "bs_contains F i s \<longleftrightarrow> bid_key i \<in> bid_key ` set (lst_public (bs_list s))"
proof -
  have inv: "bs_inv F U s" by (rule bs_reachable_inv [OF reach F U])
  then have "list_all (bid_compat i) (lst_public (bs_list s))"
    using fit by (auto simp: bs_inv_def lst_inv_def list_all_iff)
  moreover have "sv_contains F i (bs_vector s)" if "bid_key i \<in> bid_key ` set (lst_public (bs_list s))"
    using that inv fit by (intro sv_contains_keys [of F "bundle_id.truncate ` U"]) (simp_all add: bs_inv_def)
  ultimately show ?thesis by (auto simp: bs_contains_def lst_contains_key)
qed

text \<open>A filter of eight bits, addressed by the length of a string.\<close>

definition sample_bloom :: "byte bloom" where
  "sample_bloom = \<lparr>bf_init = 0, bf_clear = (\<lambda>_. 0), bf_insert = (\<lambda>x f. f OR push_bit (length x mod 8) 1),
     bf_contains = (\<lambda>x f. bit f (length x mod 8)), bf_table = (\<lambda>f. [f]), bf_load = (\<lambda>t _. hd t)\<rparr>"

lemma sample_bloom_ok: "bloom_ok sample_bloom" "bloom_table_ok sample_bloom"
  by (simp_all add: bloom_ok_def bloom_table_ok_def sample_bloom_def bit_or_iff bit_exp_iff)

lemma sample_summary:
  "(bs_step sample_bloom sample_clock {sample_meta})\<^sup>*\<^sup>* (bs_new sample_bloom) (bs_add sample_bloom sample_meta (bs_new sample_bloom))"
  by (rule r_into_rtranclp, rule bs_step_add) simp

theorem summary_exact_witness:
  "bs_contains sample_bloom sample_meta (bs_add sample_bloom sample_meta (bs_new sample_bloom))"
  using summary_exact [OF sample_summary sample_bloom_ok(1) sample_meta_consistent, of sample_meta]
  by (simp add: bid_compat_def bs_add_def bs_new_def lst_add_def lst_new_def)

lemma getNotIn_filter:
  assumes "ids_ok I" and "set xs \<subseteq> I" and "set ret \<subseteq> I" and "key_sorted bid_key (ret @ xs)"
  shows "foldl (\<lambda>ret i. if \<not> P i then oset_insert bid_less i ret else ret) ret xs = ret @ filter (\<lambda>i. \<not> P i) xs"
  using assms(2-)
proof (induction xs arbitrary: ret)
  case (Cons x xs)
  have "oset_insert bid_less x ret = ret @ [x]" if "\<not> P x"
    using Cons.prems ids_fit [OF assms(1), of x ret] by (intro bid.insert_back) (auto simp: key_sorted_def sorted_wrt_append)
  moreover have "key_sorted bid_key ((ret @ [x]) @ xs)" "key_sorted bid_key (ret @ xs)"
    using Cons.prems by (auto simp: key_sorted_def sorted_wrt_append)
  ultimately show ?case using Cons.IH [of "ret @ [x]"] Cons.IH [of ret] Cons.prems by auto
qed simp

lemma sv_getNotIn_filter:
  assumes "ids_ok I" and "sv_inv F I v"
  shows "sv_getNotIn F flt v = filter (\<lambda>i. \<not> bf_contains F (bid_toString i) flt) (sv_ids v)"
  using getNotIn_filter [OF assms(1), of "sv_ids v" "[]"] assms(2) by (simp add: sv_getNotIn_def sv_inv_def)

lemma get_sv_bytes [wire_simps]:
  assumes "length (bf_table F (sv_bf v)) < 2 ^ 64"
  shows "get_sv F obj (sv_bytes F v @ s) = Inr (\<lparr>sv_ids = [], sv_bf = bf_load F (bf_table F (sv_bf v)) (bf_clear F (sv_bf obj))\<rparr>, s)"
  using assms by (simp add: get_sv_def sv_bytes_def wire_simps unat_of_nat take_bit_nat_eq_self sv_clear_def)

text \<open>The exchange of summary vectors. A node that receives the vector of its peer offers only bundles
  it holds and the peer does not, and it offers every bundle that the filter of the peer does not
  claim.\<close>

theorem summary_exchange:
  assumes own: "(bs_step F c U)\<^sup>*\<^sup>* (bs_new F) s" and peer: "(bs_step F d U)\<^sup>*\<^sup>* (bs_new F) p"
    and F: "bloom_ok F" "bloom_table_ok F" and U: "meta_consistent U"
    and short: "length (bf_table F (sv_bf (bs_vector p))) < 2 ^ 64"
  shows "\<exists>got. get_sv F obj (sv_bytes F (bs_vector p) @ rest) = Inr (got, rest)
    \<and> length (sv_bytes F (bs_vector p)) = sv_getLength F (bs_vector p)
    \<and> (\<forall>i \<in> set (sv_getNotIn F (sv_bf got) (bs_vector s)).
          bid_key i \<in> bid_key ` set (lst_public (bs_list s)) \<and> bid_key i \<notin> bid_key ` set (lst_public (bs_list p)))
    \<and> (\<forall>i \<in> set (sv_ids (bs_vector s)). sv_contains F i (bs_vector p) \<or> i \<in> set (sv_getNotIn F (sv_bf got) (bs_vector s)))"
proof -
  let ?I = "bundle_id.truncate ` U"
  have s: "sv_inv F ?I (bs_vector s)" "bid_key ` set (sv_ids (bs_vector s)) = bid_key ` set (lst_public (bs_list s))"
    using bs_reachable_inv [OF own F(1) U] by (auto simp: bs_inv_def)
  have p: "sv_inv F ?I (bs_vector p)" "bid_key ` set (sv_ids (bs_vector p)) = bid_key ` set (lst_public (bs_list p))"
    using bs_reachable_inv [OF peer F(1) U] by (auto simp: bs_inv_def)
  let ?got = "\<lparr>sv_ids = [], sv_bf = bf_load F (bf_table F (sv_bf (bs_vector p))) (bf_clear F (sv_bf obj))\<rparr>"
  have has: "bf_contains F x (sv_bf ?got) = bf_contains F x (sv_bf (bs_vector p))" for x
    using F(2) by (simp add: bloom_table_ok_def)
  have off: "set (sv_getNotIn F (sv_bf ?got) (bs_vector s))
      = {i \<in> set (sv_ids (bs_vector s)). \<not> sv_contains F i (bs_vector p)}"
    unfolding sv_getNotIn_filter [OF metas_ids [OF U] s(1)] has by (auto simp: sv_contains_def)
  have "bid_key i \<in> bid_key ` set (lst_public (bs_list s)) \<and> bid_key i \<notin> bid_key ` set (lst_public (bs_list p))"
    if "i \<in> set (sv_ids (bs_vector s))" "\<not> sv_contains F i (bs_vector p)" for i
  proof -
    have "\<forall>j \<in> ?I. bid_compat i j" using that(1) s(1) metas_ids [OF U] by (auto simp: sv_inv_def ids_ok_def)
    then show ?thesis using sv_contains_keys [OF p(1), of i] that s(2) p(2) by blast
  qed
  then show ?thesis
    using get_sv_bytes [OF short] off by (intro exI [of _ ?got]) (auto simp: sv_bytes_def sv_getLength_def Let_def)
qed

theorem summary_exchange_witness:
  "\<exists>got. get_sv sample_bloom (sv_new sample_bloom) (sv_bytes sample_bloom (sv_new sample_bloom) @ [7]) = Inr (got, [7])
     \<and> sv_getNotIn sample_bloom (sv_bf got) (bs_vector (bs_add sample_bloom sample_meta (bs_new sample_bloom)))
        = [bundle_id.truncate sample_meta]"
proof -
  let ?s = "bs_add sample_bloom sample_meta (bs_new sample_bloom)"
  have vec: "bs_vector (bs_new sample_bloom) = sv_new sample_bloom" by (simp add: bs_new_def)
  have "length (bf_table sample_bloom (sv_bf (bs_vector (bs_new sample_bloom)))) < 2 ^ 64"
    by (simp add: sample_bloom_def)
  from summary_exchange [OF sample_summary rtranclp.rtrancl_refl sample_bloom_ok sample_meta_consistent this,
      of "sv_new sample_bloom" "[7]"]
  obtain got where got: "get_sv sample_bloom (sv_new sample_bloom) (sv_bytes sample_bloom (sv_new sample_bloom) @ [7]) = Inr (got, [7])"
    unfolding vec by blast
  moreover have "bf_load sample_bloom (bf_table sample_bloom (sv_bf (sv_new sample_bloom)))
      (bf_clear sample_bloom (sv_bf (sv_new sample_bloom))) = 0"
      "length (bf_table sample_bloom (sv_bf (sv_new sample_bloom))) < 2 ^ 64"
    by (simp_all add: sample_bloom_def sv_new_def)
  ultimately have "sv_bf got = 0" by (auto simp: get_sv_bytes)
  then have "sv_getNotIn sample_bloom (sv_bf got) (bs_vector ?s) = [bundle_id.truncate sample_meta]"
    by (simp add: sv_getNotIn_def bs_add_def bs_new_def sv_add_def sv_new_def sample_bloom_def)
  then show ?thesis using got by blast
qed

end
