(* ===== verification/Neighbors.thy ===== *)
theory Neighbors
  imports Summary
begin

text \<open>
  The neighbor database of the router (\<open>daemon/src/routing/NeighborDatabase.cpp\<close>): for every
  neighbor the bundles in transit to it, the filter it sent, and a summary of the bundles it
  got from this node. References into the database become functions on the entry.
\<close>

section \<open>State\<close>

datatype neighbor_error =
    BloomfilterNotAvailableException eid
  | NoMoreTransfersAvailable
  | AlreadyInTransitException
  | NeighborNotAvailableException

datatype filter_state = FILTER_AWAITING | FILTER_AVAILABLE | FILTER_EXPIRED | FILTER_FINAL

record 'f neighbor_entry =
  ne_eid :: eid
  ne_transit_bundles :: "bundle_id list"
  ne_transit_max :: nat
  ne_filter :: 'f
  ne_summary :: "'f bundle_summary"
  ne_filter_expire :: u64
  ne_filter_state :: filter_state

definition ne_new :: "'f bloom \<Rightarrow> eid \<Rightarrow> 'f neighbor_entry" where
  "ne_new F e =
     \<lparr>ne_eid = e, ne_transit_bundles = [], ne_transit_max = 5, ne_filter = bf_init F, ne_summary = bs_new F,
      ne_filter_expire = 0, ne_filter_state = FILTER_EXPIRED\<rparr>"

section \<open>Operations on an entry\<close>

text \<open>\<open>numeric_limits<size_t>::max()\<close> is the word of ones.\<close>

definition ne_update :: "clock \<Rightarrow> timeval \<Rightarrow> 'f \<Rightarrow> u64 \<Rightarrow> 'f neighbor_entry \<Rightarrow> 'f neighbor_entry" where
  "ne_update c sys bf lifetime e =
     e\<lparr>ne_filter := bf,
       ne_filter_expire := (if lifetime = 0 then - 1 else clock_getExpireTime_now c sys lifetime),
       ne_filter_state := FILTER_AVAILABLE\<rparr>"

definition ne_reset :: "clock \<Rightarrow> timeval \<Rightarrow> 'f neighbor_entry \<Rightarrow> 'f neighbor_entry" where
  "ne_reset c sys e = e\<lparr>ne_filter_state := FILTER_EXPIRED, ne_filter_expire := clock_getTime c sys + 60\<rparr>"

definition ne_add :: "'f bloom \<Rightarrow> meta_bundle \<Rightarrow> 'f neighbor_entry \<Rightarrow> 'f neighbor_entry" where
  "ne_add F m e = e\<lparr>ne_summary := bs_add F m (ne_summary e)\<rparr>"

definition ne_has :: "'f bloom \<Rightarrow> 'a bundle_id_scheme \<Rightarrow> bool \<Rightarrow> 'f neighbor_entry \<Rightarrow> neighbor_error + bool" where
  "ne_has F i require_bloomfilter e =
     (if require_bloomfilter \<and> ne_filter_state e \<noteq> FILTER_AVAILABLE then Inl (BloomfilterNotAvailableException (ne_eid e))
      else if ne_filter_state e = FILTER_AVAILABLE \<and> bf_contains F (bid_toString i) (ne_filter e) then Inr True
      else if bs_contains F i (ne_summary e) then Inr True
      else Inr False)"

definition ne_expire :: "'f bloom \<Rightarrow> clock \<Rightarrow> u64 \<Rightarrow> 'f neighbor_entry \<Rightarrow> 'f neighbor_entry" where
  "ne_expire F c timestamp e =
     (let e1 = (if ne_filter_expire e > 0 \<and> ne_filter_expire e < timestamp
                then e\<lparr>ne_filter_state := FILTER_EXPIRED, ne_filter_expire := timestamp + 60\<rparr>
                else e)
      in e1\<lparr>ne_summary := bs_expire F c timestamp (ne_summary e1)\<rparr>)"

definition ne_acquireFilterRequest :: "'f neighbor_entry \<Rightarrow> neighbor_error + 'f neighbor_entry" where
  "ne_acquireFilterRequest e =
     (if ne_filter_state e \<noteq> FILTER_EXPIRED then Inl NoMoreTransfersAvailable
      else Inr (e\<lparr>ne_filter_state := FILTER_AWAITING\<rparr>))"

definition ne_acquireTransfer :: "bundle_id \<Rightarrow> 'f neighbor_entry \<Rightarrow> neighbor_error + 'f neighbor_entry" where
  "ne_acquireTransfer i e =
     (if oset_mem bid_less i (ne_transit_bundles e) then Inl AlreadyInTransitException
      else if length (ne_transit_bundles e) \<ge> ne_transit_max e then Inl NoMoreTransfersAvailable
      else Inr (e\<lparr>ne_transit_bundles := oset_insert bid_less i (ne_transit_bundles e)\<rparr>))"

definition ne_releaseTransfer :: "bundle_id \<Rightarrow> 'f neighbor_entry \<Rightarrow> 'f neighbor_entry" where
  "ne_releaseTransfer i e = e\<lparr>ne_transit_bundles := oset_erase bid_less i (ne_transit_bundles e)\<rparr>"

section \<open>The database\<close>

type_synonym 'f neighbor_db = "(eid \<times> 'f neighbor_entry) list"

definition ndb_create :: "'f bloom \<Rightarrow> eid \<Rightarrow> 'f neighbor_db \<Rightarrow> 'f neighbor_db" where
  "ndb_create F e db = (if omap_find eid_less e db = None then omap_update eid_less e (ne_new F e) db else db)"

definition ndb_get :: "eid \<Rightarrow> 'f neighbor_db \<Rightarrow> neighbor_error + 'f neighbor_entry" where
  "ndb_get e db = (case omap_find eid_less e db of None \<Rightarrow> Inl NeighborNotAvailableException | Some n \<Rightarrow> Inr n)"

text \<open>A change of an entry through the reference \<open>get\<close> returns.\<close>

definition ndb_with :: "eid \<Rightarrow> ('f neighbor_entry \<Rightarrow> 'f neighbor_entry) \<Rightarrow> 'f neighbor_db \<Rightarrow> neighbor_error + 'f neighbor_db" where
  "ndb_with e f db =
     (case ndb_get e db of Inl x \<Rightarrow> Inl x | Inr n \<Rightarrow> Inr (omap_update eid_less e (f n) db))"

definition ndb_reset :: "clock \<Rightarrow> timeval \<Rightarrow> eid \<Rightarrow> 'f neighbor_db \<Rightarrow> neighbor_error + 'f neighbor_db" where
  "ndb_reset c sys e db = ndb_with e (ne_reset c sys) db"

definition ndb_remove :: "eid \<Rightarrow> 'f neighbor_db \<Rightarrow> 'f neighbor_db" where
  "ndb_remove e db = omap_erase eid_less e db"

definition ndb_addBundle :: "'f bloom \<Rightarrow> eid \<Rightarrow> meta_bundle \<Rightarrow> 'f neighbor_db \<Rightarrow> 'f neighbor_db" where
  "ndb_addBundle F e m db = (case ndb_with e (ne_add F m) db of Inl _ \<Rightarrow> db | Inr db' \<Rightarrow> db')"

definition ndb_expire :: "'f bloom \<Rightarrow> clock \<Rightarrow> u64 \<Rightarrow> 'f neighbor_db \<Rightarrow> 'f neighbor_db" where
  "ndb_expire F c timestamp db = map (\<lambda>(e, n). (e, ne_expire F c timestamp n)) db"

section \<open>Bundles in transit\<close>

definition transit_ok :: "bundle_id set \<Rightarrow> 'f neighbor_entry \<Rightarrow> bool" where
  "transit_ok I e \<longleftrightarrow> set (ne_transit_bundles e) \<subseteq> I \<and> key_sorted bid_key (ne_transit_bundles e)
     \<and> length (ne_transit_bundles e) \<le> ne_transit_max e"

definition in_transit :: "'f neighbor_entry \<Rightarrow> id_key set" where
  "in_transit e = bid_key ` set (ne_transit_bundles e)"

lemma transit_fit: "ids_ok I \<Longrightarrow> i \<in> I \<Longrightarrow> transit_ok I e \<Longrightarrow> list_all (bid_compat i) (ne_transit_bundles e)"
  by (rule ids_fit) (auto simp: transit_ok_def)

lemma transit_ok_new: "transit_ok I (ne_new F x)" "in_transit (ne_new F x) = {}"
  by (simp_all add: transit_ok_def ne_new_def in_transit_def)

lemma card_in_transit: "transit_ok I e \<Longrightarrow> card (in_transit e) = length (ne_transit_bundles e)"
  using bid.distinct_keys [of "ne_transit_bundles e"]
  by (metis distinct_card in_transit_def length_map set_map transit_ok_def)

lemma ne_acquireTransfer_cases:
  assumes I: "ids_ok I" "i \<in> I" and ok: "transit_ok I e"
  shows "ne_acquireTransfer i e =
      (if bid_key i \<in> in_transit e then Inl AlreadyInTransitException
       else if card (in_transit e) \<ge> ne_transit_max e then Inl NoMoreTransfersAvailable
       else Inr (e\<lparr>ne_transit_bundles := oset_insert bid_less i (ne_transit_bundles e)\<rparr>))"
  using bid.mem_key [OF transit_fit [OF I ok]] card_in_transit [OF ok]
  by (simp only: ne_acquireTransfer_def in_transit_def)

lemma ne_acquireTransfer_inv:
  assumes I: "ids_ok I" "i \<in> I" and ok: "transit_ok I e" and r: "ne_acquireTransfer i e = Inr e'"
  shows "transit_ok I e'" and "in_transit e' = insert (bid_key i) (in_transit e)"
    and "bid_key i \<notin> in_transit e" and "ne_transit_max e' = ne_transit_max e" and "ne_eid e' = ne_eid e"
proof -
  note fit = transit_fit [OF I ok]
  have new: "bid_key i \<notin> in_transit e" "length (ne_transit_bundles e) < ne_transit_max e"
    and e': "e' = e\<lparr>ne_transit_bundles := oset_insert bid_less i (ne_transit_bundles e)\<rparr>"
    using r ne_acquireTransfer_cases [OF I ok] card_in_transit [OF ok] by (auto split: if_splits)
  have s: "key_sorted bid_key (ne_transit_bundles e)" using ok by (simp add: transit_ok_def)
  have set: "set (ne_transit_bundles e') = insert i (set (ne_transit_bundles e))"
    using bid.insert_set [OF s fit] new(1) e' by (simp add: in_transit_def)
  then show "in_transit e' = insert (bid_key i) (in_transit e)" by (simp add: in_transit_def)
  have "length (ne_transit_bundles e') \<le> Suc (length (ne_transit_bundles e))"
    unfolding e' by (simp add: oset_insert_length_le)
  then show "transit_ok I e'"
    using set new(2) ok I(2) bid.insert_sorted [OF s fit] e' by (simp add: transit_ok_def)
  show "bid_key i \<notin> in_transit e" "ne_transit_max e' = ne_transit_max e" "ne_eid e' = ne_eid e" using new(1) e' by simp_all
qed

lemma ne_releaseTransfer_inv:
  assumes I: "ids_ok I" "i \<in> I" and ok: "transit_ok I e"
  shows "transit_ok I (ne_releaseTransfer i e)" and "in_transit (ne_releaseTransfer i e) = in_transit e - {bid_key i}"
proof -
  note fit = transit_fit [OF I ok]
  have s: "key_sorted bid_key (ne_transit_bundles e)" using ok by (simp add: transit_ok_def)
  have set: "set (oset_erase bid_less i (ne_transit_bundles e)) = {x \<in> set (ne_transit_bundles e). bid_key x \<noteq> bid_key i}"
    by (rule bid.erase_set [OF s fit])
  then show "in_transit (ne_releaseTransfer i e) = in_transit e - {bid_key i}"
    using image_without [of "set (ne_transit_bundles e)" bid_key "bid_key i" bid_key "bid_key i"]
    by (simp add: in_transit_def ne_releaseTransfer_def)
  have "length (oset_erase bid_less i (ne_transit_bundles e)) \<le> ne_transit_max e"
    using oset_erase_length_le [of bid_less i "ne_transit_bundles e"] ok by (simp add: transit_ok_def)
  then show "transit_ok I (ne_releaseTransfer i e)"
    using set ok bid.erase_sorted [OF s fit] by (auto simp: transit_ok_def ne_releaseTransfer_def)
qed

section \<open>Sending a list of bundles\<close>

text \<open>
  The loop of the routing extensions over \<open>transferTo\<close>: bundles already in transit are
  skipped, the first other exception ends it. The result has the bundles handed over.
\<close>

fun transfer_list :: "('i \<Rightarrow> 's \<Rightarrow> neighbor_error + 's) \<Rightarrow> 'i list \<Rightarrow> 's \<Rightarrow> 'i list \<times> neighbor_error option \<times> 's" where
  "transfer_list acquire [] s = ([], None, s)"
| "transfer_list acquire (i # is) s =
     (case acquire i s of
        Inr s' \<Rightarrow> (case transfer_list acquire is s' of (sent, e, s2) \<Rightarrow> (i # sent, e, s2))
      | Inl AlreadyInTransitException \<Rightarrow> transfer_list acquire is s
      | Inl e \<Rightarrow> ([], Some e, s))"

locale transfer_pool =
  fixes ok :: "'s \<Rightarrow> bool"
    and held :: "'s \<Rightarrow> 'k set"
    and cap :: "'s \<Rightarrow> nat"
    and key :: "'i \<Rightarrow> 'k"
    and fits :: "'i \<Rightarrow> bool"
    and acquire :: "'i \<Rightarrow> 's \<Rightarrow> neighbor_error + 's"
  assumes bounded: "ok s \<Longrightarrow> finite (held s) \<and> card (held s) \<le> cap s"
    and acquire_held: "ok s \<Longrightarrow> fits i \<Longrightarrow> key i \<in> held s \<Longrightarrow> acquire i s = Inl AlreadyInTransitException"
    and acquire_full: "ok s \<Longrightarrow> fits i \<Longrightarrow> key i \<notin> held s \<Longrightarrow> cap s \<le> card (held s) \<Longrightarrow>
      acquire i s = Inl NoMoreTransfersAvailable"
    and acquire_free: "ok s \<Longrightarrow> fits i \<Longrightarrow> key i \<notin> held s \<Longrightarrow> card (held s) < cap s \<Longrightarrow>
      \<exists>s'. acquire i s = Inr s' \<and> ok s' \<and> held s' = insert (key i) (held s) \<and> cap s' = cap s"
begin

lemma transfer_list_spec:
  assumes "ok s" and "list_all fits is" and "transfer_list acquire is s = (sent, e, s')"
  shows "ok s' \<and> cap s' = cap s \<and> held s' = held s \<union> key ` set sent \<and> key ` set sent \<inter> held s = {}
    \<and> distinct (map key sent) \<and> set sent \<subseteq> set is
    \<and> (case e of None \<Rightarrow> key ` set is \<subseteq> held s'
        | Some x \<Rightarrow> x = NoMoreTransfersAvailable \<and> card (held s') = cap s)"
  using assms
proof (induction "is" arbitrary: s sent)
  case (Cons i "is")
  have i: "fits i" and rest: "list_all fits is" using Cons.prems(2) by auto
  show ?case
  proof (cases "key i \<in> held s")
    case True
    then have "transfer_list acquire is s = (sent, e, s')"
      using Cons.prems(3) acquire_held [OF Cons.prems(1) i] by simp
    from Cons.IH [OF Cons.prems(1) rest this] show ?thesis using True by (auto split: option.splits)
  next
    case out: False
    show ?thesis
    proof (cases "card (held s) < cap s")
      case True
      then obtain s1 where s1: "acquire i s = Inr s1" "ok s1" "held s1 = insert (key i) (held s)" "cap s1 = cap s"
        using acquire_free [OF Cons.prems(1) i out] by blast
      then obtain t where t: "sent = i # t" "transfer_list acquire is s1 = (t, e, s')"
        using Cons.prems(3) by (auto split: prod.splits)
      from Cons.IH [OF s1(2) rest t(2)] show ?thesis
        using s1(3,4) t(1) out by (auto split: option.splits)
    next
      case False
      then have full: "cap s = card (held s)" using bounded [OF Cons.prems(1)] by simp
      then have "acquire i s = Inl NoMoreTransfersAvailable"
        using acquire_full [OF Cons.prems(1) i out] by simp
      then show ?thesis using Cons.prems full by auto
    qed
  qed
qed auto

end

interpretation transit: transfer_pool "transit_ok I" in_transit ne_transit_max bid_key "\<lambda>i. ids_ok I \<and> i \<in> I"
  ne_acquireTransfer for I
proof (unfold_locales, goal_cases)
  case (1 s)
  then show ?case using card_in_transit [OF 1] by (simp add: in_transit_def transit_ok_def)
next
  case (2 s i)
  then show ?case using ne_acquireTransfer_cases [of I i s] by simp
next
  case (3 s i)
  then show ?case using ne_acquireTransfer_cases [of I i s] by simp
next
  case (4 s i)
  then obtain s' where "ne_acquireTransfer i s = Inr s'" using ne_acquireTransfer_cases [of I i s] by auto
  then show ?case using ne_acquireTransfer_inv [of I i s s'] 4 by blast
qed

section \<open>Histories of an entry\<close>

inductive ne_step :: "'f bloom \<Rightarrow> clock \<Rightarrow> meta_bundle set \<Rightarrow> 'f neighbor_entry \<Rightarrow> 'f neighbor_entry \<Rightarrow> bool"
  for F :: "'f bloom" and c :: clock and U :: "meta_bundle set" where
  ne_step_update: "ne_step F c U e (ne_update c sys bf lifetime e)"
| ne_step_reset: "ne_step F c U e (ne_reset c sys e)"
| ne_step_add: "m \<in> U \<Longrightarrow> ne_step F c U e (ne_add F m e)"
| ne_step_expire: "ne_step F c U e (ne_expire F c ts e)"
| ne_step_request: "ne_acquireFilterRequest e = Inr e' \<Longrightarrow> ne_step F c U e e'"
| ne_step_acquire: "i \<in> bundle_id.truncate ` U \<Longrightarrow> ne_acquireTransfer i e = Inr e' \<Longrightarrow> ne_step F c U e e'"
| ne_step_release: "i \<in> bundle_id.truncate ` U \<Longrightarrow> ne_step F c U e (ne_releaseTransfer i e)"

definition ne_inv :: "'f bloom \<Rightarrow> meta_bundle set \<Rightarrow> 'f neighbor_entry \<Rightarrow> bool" where
  "ne_inv F U e \<longleftrightarrow> transit_ok (bundle_id.truncate ` U) e \<and> ne_transit_max e = 5 \<and> bs_inv F U (ne_summary e)"

lemma ne_inv_new: "ne_inv F U (ne_new F x)"
  by (simp add: ne_inv_def transit_ok_new) (simp add: ne_new_def bs_inv_new)

lemma ne_plain_inv:
  "ne_inv F U (ne_update c sys bf lifetime e) = ne_inv F U e" "ne_inv F U (ne_reset c sys e) = ne_inv F U e"
  "ne_inv F U (e\<lparr>ne_filter_state := st\<rparr>) = ne_inv F U e"
  by (simp_all add: ne_inv_def ne_update_def ne_reset_def transit_ok_def)

lemma ne_add_inv: "bloom_ok F \<Longrightarrow> meta_consistent U \<Longrightarrow> m \<in> U \<Longrightarrow> ne_inv F U e \<Longrightarrow> ne_inv F U (ne_add F m e)"
  using bs_add_inv [of F U m "ne_summary e"] by (simp add: ne_inv_def ne_add_def transit_ok_def)

lemma ne_expire_inv: "bloom_ok F \<Longrightarrow> meta_consistent U \<Longrightarrow> ne_inv F U e \<Longrightarrow> ne_inv F U (ne_expire F c ts e)"
  using bs_expire_inv [of F U "ne_summary e" c ts] by (simp add: ne_inv_def ne_expire_def transit_ok_def Let_def)

lemma ne_transfer_inv:
  assumes "meta_consistent U" and "i \<in> bundle_id.truncate ` U" and "ne_inv F U e"
  shows "ne_acquireTransfer i e = Inr e' \<Longrightarrow> ne_inv F U e'" and "ne_inv F U (ne_releaseTransfer i e)"
proof -
  have ok: "transit_ok (bundle_id.truncate ` U) e" using assms(3) by (simp add: ne_inv_def)
  show "ne_inv F U e'" if r: "ne_acquireTransfer i e = Inr e'"
    using ne_acquireTransfer_inv [OF metas_ids [OF assms(1)] assms(2) ok r] r assms(3)
    by (auto simp: ne_inv_def ne_acquireTransfer_def split: if_splits)
  show "ne_inv F U (ne_releaseTransfer i e)"
    using ne_releaseTransfer_inv(1) [OF metas_ids [OF assms(1)] assms(2) ok] assms(3)
    by (simp add: ne_inv_def ne_releaseTransfer_def)
qed

lemma ne_reachable_inv:
  assumes "(ne_step F c U)\<^sup>*\<^sup>* (ne_new F x) e" and F: "bloom_ok F" and U: "meta_consistent U"
  shows "ne_inv F U e"
  using assms(1)
proof (induction rule: rtranclp_induct)
  case (step y z)
  from step.hyps(2) step.IH show ?case
    by (cases rule: ne_step.cases)
       (auto simp: ne_plain_inv ne_acquireFilterRequest_def intro: ne_add_inv [OF F U] ne_expire_inv [OF F U] ne_transfer_inv [OF U]
         split: if_splits)
qed (rule ne_inv_new)

section \<open>The database as a map\<close>

interpretation eids: key_order eid_less eid_getString "\<lambda>_ _. True"
  by unfold_locales (simp_all add: eid_less_def)

definition ndb_map :: "'f neighbor_db \<Rightarrow> string \<Rightarrow> 'f neighbor_entry option" where
  "ndb_map db = kmap eid_getString db"

definition ndb_inv :: "'f bloom \<Rightarrow> meta_bundle set \<Rightarrow> 'f neighbor_db \<Rightarrow> bool" where
  "ndb_inv F U db \<longleftrightarrow> key_sorted eid_getString (map fst db) \<and> (\<forall>k n. ndb_map db k = Some n \<longrightarrow> ne_inv F U n)"

lemma ndb_find: "ndb_inv F U db \<Longrightarrow> omap_find eid_less e db = ndb_map db (eid_getString e)"
  using eids.omap_find_kmap [of db e] by (simp add: ndb_inv_def ndb_map_def list_all_iff)

lemma ndb_get_map:
  "ndb_inv F U db \<Longrightarrow> ndb_get e db = (case ndb_map db (eid_getString e) of None \<Rightarrow> Inl NeighborNotAvailableException | Some n \<Rightarrow> Inr n)"
  by (simp add: ndb_get_def ndb_find)

lemma ndb_update_inv:
  assumes "ndb_inv F U db" and "ne_inv F U n"
  shows "ndb_inv F U (omap_update eid_less e n db)" and "ndb_map (omap_update eid_less e n db) = (ndb_map db)(eid_getString e \<mapsto> n)"
  using eids.omap_update_kmap [of db e n] assms by (auto simp: ndb_inv_def ndb_map_def list_all_iff)

lemma ndb_with_inv:
  assumes "ndb_inv F U db" and "\<And>n. ne_inv F U n \<Longrightarrow> ne_inv F U (f n)" and "ndb_with e f db = Inr db'"
  shows "ndb_inv F U db'"
    and "\<exists>n. ndb_map db (eid_getString e) = Some n \<and> ndb_map db' = (ndb_map db)(eid_getString e \<mapsto> f n)"
proof -
  obtain n where n: "ndb_map db (eid_getString e) = Some n" "db' = omap_update eid_less e (f n) db"
    using assms(1,3) by (auto simp: ndb_with_def ndb_get_map split: option.splits)
  then have "ne_inv F U (f n)" using assms(1,2) by (simp add: ndb_inv_def)
  note u = ndb_update_inv [OF assms(1) this]
  show "ndb_inv F U db'" using u(1) n(2) by simp
  show "\<exists>n. ndb_map db (eid_getString e) = Some n \<and> ndb_map db' = (ndb_map db)(eid_getString e \<mapsto> f n)"
    using u(2) n by simp
qed

lemma ndb_with_fails:
  "ndb_inv F U db \<Longrightarrow> ndb_with e f db = Inl x \<longleftrightarrow> ndb_map db (eid_getString e) = None \<and> x = NeighborNotAvailableException"
  by (auto simp: ndb_with_def ndb_get_map split: option.splits)

lemma ndb_create_inv:
  assumes "ndb_inv F U db"
  shows "ndb_inv F U (ndb_create F e db)"
    and "ndb_map (ndb_create F e db) = (if ndb_map db (eid_getString e) = None then (ndb_map db)(eid_getString e \<mapsto> ne_new F e) else ndb_map db)"
  using ndb_update_inv [OF assms ne_inv_new, of e e] assms by (simp_all add: ndb_create_def ndb_find)

lemma ndb_remove_inv:
  assumes "ndb_inv F U db"
  shows "ndb_inv F U (ndb_remove e db)" and "ndb_map (ndb_remove e db) = (ndb_map db)(eid_getString e := None)"
  using eids.omap_erase_kmap [of db e] assms by (auto simp: ndb_inv_def ndb_map_def ndb_remove_def list_all_iff split: if_splits)

lemma ndb_addBundle_inv:
  assumes "bloom_ok F" and "meta_consistent U" and "m \<in> U" and db: "ndb_inv F U db"
  shows "ndb_inv F U (ndb_addBundle F e m db)"
    and "ndb_map (ndb_addBundle F e m db) = (case ndb_map db (eid_getString e) of None \<Rightarrow> ndb_map db
           | Some n \<Rightarrow> (ndb_map db)(eid_getString e \<mapsto> ne_add F m n))"
proof -
  note add = ne_add_inv [OF assms(1-3)]
  show "ndb_inv F U (ndb_addBundle F e m db)"
    using ndb_with_inv(1) [OF db, of "ne_add F m" e] add db by (simp add: ndb_addBundle_def split: sum.splits)
  show "ndb_map (ndb_addBundle F e m db) = (case ndb_map db (eid_getString e) of None \<Rightarrow> ndb_map db
       | Some n \<Rightarrow> (ndb_map db)(eid_getString e \<mapsto> ne_add F m n))"
  proof (cases "ndb_with e (ne_add F m) db")
    case (Inl x)
    then show ?thesis using ndb_with_fails [OF db, of e "ne_add F m" x] by (simp add: ndb_addBundle_def)
  next
    case (Inr db')
    then show ?thesis using ndb_with_inv(2) [OF db add Inr] by (auto simp: ndb_addBundle_def)
  qed
qed

lemma ndb_expire_map: "ndb_map (ndb_expire F c ts db) = map_option (ne_expire F c ts) \<circ> ndb_map db"
proof -
  have "map_of (map (\<lambda>(e, n). (eid_getString e, n)) (map (\<lambda>(e, n). (e, ne_expire F c ts n)) db)) k
      = map_option (ne_expire F c ts) (map_of (map (\<lambda>(e, n). (eid_getString e, n)) db) k)" for k
    by (induction db) auto
  then show ?thesis by (simp add: ndb_map_def kmap_def ndb_expire_def fun_eq_iff)
qed

lemma ndb_expire_inv:
  assumes "bloom_ok F" and "meta_consistent U" and db: "ndb_inv F U db"
  shows "ndb_inv F U (ndb_expire F c ts db)"
proof -
  have "map fst (ndb_expire F c ts db) = map fst db" by (simp add: ndb_expire_def comp_def split_def)
  then show ?thesis using db ne_expire_inv [OF assms(1,2)] by (auto simp: ndb_inv_def ndb_expire_map)
qed

section \<open>Correctness\<close>

text \<open>C9: in every history of a neighbor at most five bundles are in transit to it, none twice; a transfer
  is refused as a duplicate exactly when the bundle is in transit, for lack of resources exactly when
  five others are, and is granted otherwise; releasing it restores the state before.\<close>

theorem neighbor_transfers:
  assumes reach: "(ne_step F c U)\<^sup>*\<^sup>* (ne_new F x) e" and F: "bloom_ok F" and U: "meta_consistent U"
    and i: "i \<in> bundle_id.truncate ` U"
  shows "card (in_transit e) \<le> 5 \<and> length (ne_transit_bundles e) = card (in_transit e)
    \<and> (case ne_acquireTransfer i e of
         Inr e' \<Rightarrow> bid_key i \<notin> in_transit e \<and> card (in_transit e) < 5 \<and> in_transit e' = insert (bid_key i) (in_transit e)
                   \<and> in_transit (ne_releaseTransfer i e') = in_transit e
       | Inl x \<Rightarrow> x = (if bid_key i \<in> in_transit e then AlreadyInTransitException else NoMoreTransfersAvailable)
                  \<and> (bid_key i \<in> in_transit e \<or> card (in_transit e) = 5))"
proof -
  have inv: "transit_ok (bundle_id.truncate ` U) e" "ne_transit_max e = 5"
    using ne_reachable_inv [OF reach F U] by (auto simp: ne_inv_def)
  note I = metas_ids [OF U] i
  have le: "card (in_transit e) \<le> 5" using transit.bounded [OF inv(1)] inv(2) by simp
  show ?thesis
  proof (cases "ne_acquireTransfer i e")
    case (Inl err)
    then show ?thesis
      using ne_acquireTransfer_cases [OF I inv(1)] inv(2) le card_in_transit [OF inv(1)] by (auto split: if_splits)
  next
    case (Inr e')
    note a = ne_acquireTransfer_inv [OF I inv(1) Inr]
    have "card (in_transit e) < 5"
      using Inr ne_acquireTransfer_cases [OF I inv(1)] inv(2) by (auto split: if_splits)
    moreover have "in_transit (ne_releaseTransfer i e') = in_transit e"
      unfolding ne_releaseTransfer_inv(2) [OF I a(1)] a(2) by (rule Diff_insert_absorb [OF a(3)])
    ultimately show ?thesis using Inr a card_in_transit [OF inv(1)] by simp
  qed
qed

theorem neighbor_transfers_witness:
  "\<exists>e. ne_acquireTransfer (bundle_id.truncate sample_meta) (ne_new sample_bloom eid_none) = Inr e \<and> card (in_transit e) = 1"
  using neighbor_transfers [OF rtranclp.rtrancl_refl sample_bloom_ok(1) sample_meta_consistent,
      where i = "bundle_id.truncate sample_meta" and x = eid_none]
  by (simp add: transit_ok_new split: sum.splits)

text \<open>The life of a filter. After an update the neighbor is asked about a bundle through the filter and
  the own summary; the filter expires exactly when its lifetime was given and has passed; without it a
  query that requires it fails, one that does not answers from the summary, which contains every bundle
  handed to the neighbor.\<close>

theorem neighbor_filter_lifecycle:
  assumes reach: "(ne_step F c U)\<^sup>*\<^sup>* (ne_new F x) e" and F: "bloom_ok F" and U: "meta_consistent U" and m: "m \<in> U"
  shows "ne_has F i True (ne_update c sys bf lifetime e) = Inr (bf_contains F (bid_toString i) bf \<or> bs_contains F i (ne_summary e))
    \<and> (ne_filter_state (ne_expire F c ts (ne_update c sys bf lifetime e)) = FILTER_EXPIRED
        \<longleftrightarrow> lifetime \<noteq> 0 \<and> 0 < clock_getExpireTime_now c sys lifetime \<and> clock_getExpireTime_now c sys lifetime < ts)
    \<and> ne_has F i True (ne_reset c sys e) = Inl (BloomfilterNotAvailableException (ne_eid e))
    \<and> ne_has F i False (ne_reset c sys e) = Inr (bs_contains F i (ne_summary e))
    \<and> ne_has F m req (ne_add F m e) = (if req \<and> ne_filter_state e \<noteq> FILTER_AVAILABLE
          then Inl (BloomfilterNotAvailableException (ne_eid e)) else Inr True)"
proof -
  have inv: "bs_inv F U (ne_summary e)" using ne_reachable_inv [OF reach F U] by (simp add: ne_inv_def)
  have "bs_contains F m (bs_add F m (ne_summary e))" by (rule bs_add_contains [OF F U m inv])
  moreover have "\<not> (- 1 :: u64) < ts" by (simp add: not_less)
  ultimately show ?thesis
    by (auto simp: ne_has_def ne_update_def ne_reset_def ne_add_def ne_expire_def Let_def)
qed

theorem neighbor_filter_lifecycle_witness:
  "ne_has sample_bloom sample_meta True (ne_reset sample_clock \<lparr>tv_sec = 0, tv_usec = 0\<rparr> (ne_new sample_bloom eid_none))
     = Inl (BloomfilterNotAvailableException eid_none)
   \<and> ne_has sample_bloom sample_meta False (ne_add sample_bloom sample_meta (ne_new sample_bloom eid_none)) = Inr True"
  using neighbor_filter_lifecycle [OF rtranclp.rtrancl_refl sample_bloom_ok(1) sample_meta_consistent,
      where m = sample_meta and i = sample_meta and c = sample_clock and x = eid_none and req = False]
  by (simp add: ne_new_def)

end
