(* ===== verification/Handshake.thy ===== *)
theory Handshake
  imports Neighbors Block
begin

text \<open>
  The messages with which routers exchange their summary vectors
  (\<open>daemon/src/routing/NodeHandshake.cpp\<close>), and what the handshake extension puts into them
  (\<open>daemon/src/routing/NodeHandshakeExtension.cpp\<close>).
\<close>

section \<open>Items\<close>

datatype item_kind = SummaryVectorK | PurgeVectorK

record 'f handshake_item =
  hi_kind :: item_kind
  hi_vector :: "'f summary_vector"

text \<open>The static members \<open>identifier\<close> of both classes.\<close>

fun item_identifier :: "item_kind \<Rightarrow> u64" where
  "item_identifier SummaryVectorK = 1"
| "item_identifier PurgeVectorK = 1"

definition hi_getLength :: "'f bloom \<Rightarrow> 'f handshake_item \<Rightarrow> nat" where
  "hi_getLength F it = sv_getLength F (hi_vector it)"

definition hi_serialize :: "'f bloom \<Rightarrow> 'f handshake_item \<Rightarrow> byte list" where
  "hi_serialize F it = sv_bytes F (hi_vector it)"

definition hi_deserialize :: "'f bloom \<Rightarrow> item_kind \<Rightarrow> 'f handshake_item reader" where
  "hi_deserialize F k = rbind (get_sv F (sv_new F)) (\<lambda>v. rret \<lparr>hi_kind = k, hi_vector = v\<rparr>)"

section \<open>Messages\<close>

definition HANDSHAKE_INVALID :: u64 where "HANDSHAKE_INVALID = 0"
definition HANDSHAKE_REQUEST :: u64 where "HANDSHAKE_REQUEST = 1"
definition HANDSHAKE_RESPONSE :: u64 where "HANDSHAKE_RESPONSE = 2"

lemmas handshake_types = HANDSHAKE_INVALID_def HANDSHAKE_REQUEST_def HANDSHAKE_RESPONSE_def

record 'f handshake =
  hs_type :: u64
  hs_lifetime :: u64
  hs_requests :: "u64 list"
  hs_items :: "'f handshake_item list"
  hs_raw_items :: "(u64 \<times> byte list) list"

text \<open>The default constructor leaves the lifetime as it finds it.\<close>

definition hs_blank :: "u64 \<Rightarrow> 'f handshake" where
  "hs_blank junk = \<lparr>hs_type = HANDSHAKE_INVALID, hs_lifetime = junk, hs_requests = [], hs_items = [], hs_raw_items = []\<rparr>"

definition hs_new :: "u64 \<Rightarrow> u64 \<Rightarrow> 'f handshake" where
  "hs_new t lifetime = \<lparr>hs_type = t, hs_lifetime = lifetime, hs_requests = [], hs_items = [], hs_raw_items = []\<rparr>"

definition hs_addRequest :: "u64 \<Rightarrow> 'f handshake \<Rightarrow> 'f handshake" where
  "hs_addRequest i h = h\<lparr>hs_requests := oset_insert (<) i (hs_requests h)\<rparr>"

definition hs_hasRequest :: "u64 \<Rightarrow> 'f handshake \<Rightarrow> bool" where
  "hs_hasRequest i h = oset_mem (<) i (hs_requests h)"

definition hs_addItem :: "'f handshake_item \<Rightarrow> 'f handshake \<Rightarrow> 'f handshake" where
  "hs_addItem it h = h\<lparr>hs_items := hs_items h @ [it]\<rparr>"

definition hs_getItem :: "u64 \<Rightarrow> 'f handshake \<Rightarrow> 'f handshake_item option" where
  "hs_getItem i h = find (\<lambda>it. item_identifier (hi_kind it) = i) (hs_items h)"

definition hs_hasItem :: "u64 \<Rightarrow> 'f handshake \<Rightarrow> bool" where
  "hs_hasItem i h = list_ex (\<lambda>it. item_identifier (hi_kind it) = i) (hs_items h)"

text \<open>The template \<open>get<T>()\<close>: an item at hand, or one made of the raw data.\<close>

datatype item_error = ItemNotAvailable | BadCast | ItemUnreadable ibr_error

definition hs_get :: "'f bloom \<Rightarrow> item_kind \<Rightarrow> 'f handshake \<Rightarrow> (item_error + 'f summary_vector) \<times> 'f handshake" where
  "hs_get F k h =
     (case hs_getItem (item_identifier k) h of
        Some it \<Rightarrow> (if hi_kind it = k then Inr (hi_vector it) else Inl BadCast, h)
      | None \<Rightarrow>
          (case omap_find (<) (item_identifier k) (hs_raw_items h) of
             None \<Rightarrow> (Inl ItemNotAvailable, h)
           | Some data \<Rightarrow>
               (case hi_deserialize F k data of
                  Inl (e, _) \<Rightarrow> (Inl (ItemUnreadable e), h)
                | Inr (it, _) \<Rightarrow>
                    (Inr (hi_vector it),
                     h\<lparr>hs_items := hs_items h @ [it], hs_raw_items := omap_erase (<) (item_identifier k) (hs_raw_items h)\<rparr>))))"

section \<open>Wire format\<close>

definition hs_item_bytes :: "'f bloom \<Rightarrow> 'f handshake_item \<Rightarrow> byte list" where
  "hs_item_bytes F it =
     sdnv_bytes (item_identifier (hi_kind it)) @ sdnv_bytes (word_of_nat (hi_getLength F it)) @ hi_serialize F it"

definition hs_bytes :: "'f bloom \<Rightarrow> 'f handshake \<Rightarrow> byte list" where
  "hs_bytes F h =
     sdnv_bytes (hs_type h)
     @ (if hs_type h = HANDSHAKE_REQUEST then
          sdnv_bytes (word_of_nat (length (hs_requests h))) @ concat (map sdnv_bytes (hs_requests h))
        else if hs_type h = HANDSHAKE_RESPONSE then
          sdnv_bytes (hs_lifetime h) @ sdnv_bytes (word_of_nat (length (hs_items h)))
          @ concat (map (hs_item_bytes F) (hs_items h))
        else [])"

text \<open>One item of a response; \<open>copy\<close> is \<open>BLOB::copy\<close> of the ibrcommon library.\<close>

definition get_raw_item :: "(nat \<Rightarrow> byte list reader) \<Rightarrow> (u64 \<times> byte list) reader" where
  "get_raw_item copy = rbind get_sdnv (\<lambda>i. rbind get_sdnv (\<lambda>len. rbind (copy (unat len)) (\<lambda>data. rret (i, data))))"

definition get_hs :: "(nat \<Rightarrow> byte list reader) \<Rightarrow> 'f handshake \<Rightarrow> 'f handshake reader" where
  "get_hs copy h =
     rbind get_sdnv (\<lambda>t.
       let h1 = h\<lparr>hs_type := t\<rparr>
       in if t = HANDSHAKE_REQUEST then
            rbind get_sdnv (\<lambda>n. rbind (rrepeat (unat n) get_sdnv) (\<lambda>reqs.
              rret (foldl (\<lambda>h r. hs_addRequest r h) h1 reqs)))
          else if t = HANDSHAKE_RESPONSE then
            rbind get_sdnv (\<lambda>lifetime. rbind get_sdnv (\<lambda>n. rbind (rrepeat (unat n) (get_raw_item copy)) (\<lambda>raws.
              rret (h1\<lparr>hs_lifetime := lifetime,
                       hs_raw_items := foldl (\<lambda>m (i, d). omap_update (<) i d m) (hs_raw_items h) raws\<rparr>))))
          else rret h1)"

section \<open>Contents\<close>

text \<open>
  The handshake extension. The method of the epidemic router has another signature than the
  virtual method it means to override, so it never adds a request.
\<close>

definition nhe_requestHandshake :: "'f handshake \<Rightarrow> 'f handshake" where
  "nhe_requestHandshake request = hs_addRequest (item_identifier PurgeVectorK) request"

definition nhe_responseHandshake ::
  "'f summary_vector \<Rightarrow> 'f summary_vector \<Rightarrow> 'f handshake \<Rightarrow> 'f handshake \<Rightarrow> 'f handshake" where
  "nhe_responseHandshake known purged request answer =
     (let a1 = (if hs_hasRequest (item_identifier SummaryVectorK) request
                then hs_addItem \<lparr>hi_kind = SummaryVectorK, hi_vector = known\<rparr> answer else answer)
      in if hs_hasRequest (item_identifier PurgeVectorK) request
         then hs_addItem \<lparr>hi_kind = SummaryVectorK, hi_vector = purged\<rparr> a1 else a1)"

text \<open>
  The response, processed: the filter the neighbor entry is updated with, if any, and the
  filter by which bundles are purged, if any. All exceptions are caught.
\<close>

definition nhe_vectors :: "'f bloom \<Rightarrow> 'f handshake \<Rightarrow> 'f summary_vector option \<times> 'f summary_vector option" where
  "nhe_vectors F answer =
     (case hs_get F SummaryVectorK answer of
        (r1, h1) \<Rightarrow>
          (case r1 of Inr v \<Rightarrow> Some v | Inl _ \<Rightarrow> None,
           case fst (hs_get F PurgeVectorK h1) of Inr v \<Rightarrow> Some v | Inl _ \<Rightarrow> None))"

section \<open>Round trips\<close>

interpretation size_set: key_order "(<) :: u64 \<Rightarrow> u64 \<Rightarrow> bool" id "\<lambda>_ _. True"
  by unfold_locales simp_all

lemma rrepeat_bytes:
  assumes "\<And>x s. x \<in> set xs \<Longrightarrow> m (f x @ s) = Inr (g x, s)"
  shows "rrepeat (length xs) m (concat (map f xs) @ s) = Inr (map g xs, s)"
  using assms by (induction xs) simp_all

lemma add_requests:
  "foldl (\<lambda>h r. hs_addRequest r h) h rs = h\<lparr>hs_requests := foldl (\<lambda>q r. oset_insert (<) r q) (hs_requests h) rs\<rparr>"
  by (induction rs arbitrary: h) (simp_all add: hs_addRequest_def)

lemma insert_all_sorted:
  "key_sorted id (q @ rs) \<Longrightarrow> foldl (\<lambda>q (r :: u64). oset_insert (<) r q) q rs = q @ rs"
proof (induction rs arbitrary: q)
  case (Cons r rs)
  have "oset_insert (<) r q = q @ [r]"
    using Cons.prems by (intro size_set.insert_back) (auto simp: key_sorted_def sorted_wrt_append list_all_iff)
  then show ?case using Cons.IH [of "q @ [r]"] Cons.prems by simp
qed simp

lemma get_hs_request:
  assumes "hs_type h = HANDSHAKE_REQUEST" and "key_sorted id (hs_requests h)" and "length (hs_requests h) < 2 ^ 64"
  shows "get_hs copy (hs_blank junk) (hs_bytes F h @ s)
    = Inr ((hs_blank junk)\<lparr>hs_type := HANDSHAKE_REQUEST, hs_requests := hs_requests h\<rparr>, s)"
proof -
  have "rrepeat (unat (word_of_nat (length (hs_requests h)) :: u64)) get_sdnv (concat (map sdnv_bytes (hs_requests h)) @ s)
      = Inr (hs_requests h, s)"
    using rrepeat_bytes [of "hs_requests h" get_sdnv sdnv_bytes id s] assms(3)
    by (simp add: wire_simps unat_of_nat take_bit_nat_eq_self)
  then show ?thesis
    using assms(1) insert_all_sorted [of "[]" "hs_requests h"] assms(2)
    by (simp add: get_hs_def hs_bytes_def wire_simps add_requests) (simp add: hs_blank_def)
qed

definition item_fits :: "'f bloom \<Rightarrow> 'f handshake_item \<Rightarrow> bool" where
  "item_fits F it \<longleftrightarrow> hi_getLength F it < 2 ^ 64 \<and> length (bf_table F (sv_bf (hi_vector it))) < 2 ^ 64"

lemma length_hi_serialize: "length (hi_serialize F it) = hi_getLength F it"
  by (simp add: hi_serialize_def hi_getLength_def sv_bytes_def sv_getLength_def Let_def)

lemma get_raw_item_bytes:
  assumes "blob_copy_ok copy" and "item_fits F it"
  shows "get_raw_item copy (hs_item_bytes F it @ s) = Inr ((item_identifier (hi_kind it), hi_serialize F it), s)"
proof -
  have "copy (hi_getLength F it) (hi_serialize F it @ s) = Inr (hi_serialize F it, s)"
    using assms(1) unfolding length_hi_serialize [symmetric] blob_copy_ok_def by blast
  then show ?thesis
    using assms(2) by (simp add: get_raw_item_def hs_item_bytes_def wire_simps item_fits_def unat_of_nat take_bit_nat_eq_self)
qed

lemma get_hs_response:
  assumes "hs_type h = HANDSHAKE_RESPONSE" and copy: "blob_copy_ok copy" and fits: "list_all (item_fits F) (hs_items h)"
    and "length (hs_items h) < 2 ^ 64"
  shows "get_hs copy (hs_blank junk) (hs_bytes F h @ s)
    = Inr ((hs_blank junk)\<lparr>hs_type := HANDSHAKE_RESPONSE, hs_lifetime := hs_lifetime h,
             hs_raw_items := foldl (\<lambda>m it. omap_update (<) (item_identifier (hi_kind it)) (hi_serialize F it) m) [] (hs_items h)\<rparr>, s)"
proof -
  let ?raw = "\<lambda>it. (item_identifier (hi_kind it), hi_serialize F it)"
  have "get_raw_item copy (hs_item_bytes F it @ s) = Inr (?raw it, s)" if "it \<in> set (hs_items h)" for it s
    using get_raw_item_bytes [OF copy] fits that by (auto simp: list_all_iff)
  from rrepeat_bytes [of "hs_items h", OF this]
  have "rrepeat (unat (word_of_nat (length (hs_items h)) :: u64)) (get_raw_item copy) (concat (map (hs_item_bytes F) (hs_items h)) @ s)
      = Inr (map ?raw (hs_items h), s)"
    using assms(4) by (simp add: unat_of_nat take_bit_nat_eq_self)
  moreover have "foldl (\<lambda>m (i, d). omap_update (<) i d m) m (map ?raw its)
      = foldl (\<lambda>m it. omap_update (<) (item_identifier (hi_kind it)) (hi_serialize F it) m) m its" for m and its :: "'a handshake_item list"
    by (induction its arbitrary: m) simp_all
  ultimately show ?thesis
    using assms(1) by (simp add: get_hs_def hs_bytes_def wire_simps handshake_types) (simp add: hs_blank_def)
qed

lemma hi_deserialize_serialize:
  assumes "item_fits F it"
  shows "hi_deserialize F k (hi_serialize F it)
    = Inr (\<lparr>hi_kind = k, hi_vector = \<lparr>sv_ids = [], sv_bf = bf_load F (bf_table F (sv_bf (hi_vector it))) (bf_clear F (bf_init F))\<rparr>\<rparr>, [])"
  using get_sv_bytes [of F "hi_vector it" "sv_new F" "[]"] assms
  by (simp add: hi_deserialize_def hi_serialize_def item_fits_def) (simp add: sv_new_def)

section \<open>Correctness\<close>

text \<open>A request arrives with its requests, and a response with one item arrives with its lifetime and
  a vector that answers like the one that was sent.\<close>

theorem handshake_roundtrip:
  assumes "blob_copy_ok copy" and F: "bloom_table_ok F" and it: "item_fits F it"
    and reqs: "key_sorted id reqs" "length reqs < 2 ^ 64"
  shows "get_hs copy (hs_blank junk) (hs_bytes F ((hs_new HANDSHAKE_REQUEST lifetime)\<lparr>hs_requests := reqs\<rparr>) @ s)
      = Inr ((hs_new HANDSHAKE_REQUEST junk)\<lparr>hs_requests := reqs\<rparr>, s)
    \<and> (\<exists>h v. get_hs copy (hs_blank junk) (hs_bytes F (hs_addItem it (hs_new HANDSHAKE_RESPONSE lifetime)) @ s) = Inr (h, s)
         \<and> hs_type h = HANDSHAKE_RESPONSE \<and> hs_lifetime h = lifetime \<and> fst (hs_get F (hi_kind it) h) = Inr v
         \<and> (\<forall>x. bf_contains F x (sv_bf v) = bf_contains F x (sv_bf (hi_vector it))))"
proof -
  let ?a = "hs_addItem it (hs_new HANDSHAKE_RESPONSE lifetime)"
  have a: "hs_items ?a = [it]" "hs_type ?a = HANDSHAKE_RESPONSE" "hs_lifetime ?a = lifetime"
    by (simp_all add: hs_addItem_def hs_new_def)
  have "get_hs copy (hs_blank junk) (hs_bytes F ?a @ s)
      = Inr ((hs_blank junk)\<lparr>hs_type := HANDSHAKE_RESPONSE, hs_lifetime := lifetime,
               hs_raw_items := [(item_identifier (hi_kind it), hi_serialize F it)]\<rparr>, s)"
    using get_hs_response [OF a(2) assms(1), of F junk s] a it by simp
  moreover have "get_hs copy (hs_blank junk) (hs_bytes F ((hs_new HANDSHAKE_REQUEST lifetime)\<lparr>hs_requests := reqs\<rparr>) @ s)
      = Inr ((hs_new HANDSHAKE_REQUEST junk)\<lparr>hs_requests := reqs\<rparr>, s)"
    using get_hs_request [of "(hs_new HANDSHAKE_REQUEST lifetime)\<lparr>hs_requests := reqs\<rparr>" copy junk F s] reqs
    by (simp add: hs_new_def hs_blank_def)
  ultimately show ?thesis
    using F hi_deserialize_serialize [OF it, of "hi_kind it"]
    by (auto simp: hs_get_def hs_getItem_def hs_blank_def bloom_table_ok_def)
qed

lemma sample_item_fits: "item_fits sample_bloom \<lparr>hi_kind = k, hi_vector = v\<rparr>"
  using sdnv_count_le [of 1 1]
  by (simp add: item_fits_def hi_getLength_def sv_getLength_def sample_bloom_def length_sdnv_bytes)

theorem handshake_roundtrip_witness:
  "get_hs rtake (hs_blank 0) (hs_bytes sample_bloom ((hs_new HANDSHAKE_REQUEST 60)\<lparr>hs_requests := [1, 5]\<rparr>) @ [9])
     = Inr ((hs_new HANDSHAKE_REQUEST 0)\<lparr>hs_requests := [1, 5]\<rparr>, [9])"
  by (rule conjunct1 [OF handshake_roundtrip [OF blob_copy_ok_rtake sample_bloom_ok(2) sample_item_fits]]) simp_all

text \<open>C5: the two kinds of items share their identifier. A node that is asked for its purge vector answers with
  its summary vector and its purge vector, the second of which replaces the first at the receiver: the
  filter that describes what the neighbor holds becomes the filter of the bundles it has purged, and
  the purge itself never takes place.\<close>

theorem handshake_vectors_confused:
  assumes "blob_copy_ok copy" and F: "bloom_table_ok F"
    and fits: "item_fits F \<lparr>hi_kind = SummaryVectorK, hi_vector = known\<rparr>" "item_fits F \<lparr>hi_kind = SummaryVectorK, hi_vector = purged\<rparr>"
  shows "\<exists>got v. get_hs copy (hs_blank junk)
        (hs_bytes F (nhe_responseHandshake known purged (nhe_requestHandshake (hs_new HANDSHAKE_REQUEST 60)) (hs_new HANDSHAKE_RESPONSE 60)) @ s)
      = Inr (got, s)
    \<and> nhe_vectors F got = (Some v, None) \<and> (\<forall>x. bf_contains F x (sv_bf v) = bf_contains F x (sv_bf purged))"
proof -
  let ?k = "\<lparr>hi_kind = SummaryVectorK, hi_vector = known\<rparr>" and ?p = "\<lparr>hi_kind = SummaryVectorK, hi_vector = purged\<rparr>"
  let ?a = "nhe_responseHandshake known purged (nhe_requestHandshake (hs_new HANDSHAKE_REQUEST 60)) (hs_new HANDSHAKE_RESPONSE 60)"
  have a: "hs_items ?a = [?k, ?p]" "hs_type ?a = HANDSHAKE_RESPONSE"
    by (simp_all add: nhe_responseHandshake_def nhe_requestHandshake_def hs_new_def hs_addRequest_def hs_hasRequest_def
        oset_mem_def hs_addItem_def)
  let ?got = "(hs_blank junk)\<lparr>hs_type := HANDSHAKE_RESPONSE, hs_lifetime := hs_lifetime ?a, hs_raw_items := [(1, hi_serialize F ?p)]\<rparr>"
  have "get_hs copy (hs_blank junk) (hs_bytes F ?a @ s) = Inr (?got, s)"
    using get_hs_response [OF a(2) assms(1), of F junk s] a(1) fits by simp
  moreover have "nhe_vectors F ?got
      = (Some \<lparr>sv_ids = [], sv_bf = bf_load F (bf_table F (sv_bf purged)) (bf_clear F (bf_init F))\<rparr>, None)"
    using hi_deserialize_serialize [OF fits(2), of SummaryVectorK]
    by (simp add: nhe_vectors_def hs_get_def hs_getItem_def hs_blank_def)
  ultimately show ?thesis using F by (auto simp: bloom_table_ok_def)
qed

theorem handshake_vectors_confused_witness:
  "\<exists>got v. get_hs rtake (hs_blank 0)
        (hs_bytes sample_bloom (nhe_responseHandshake (sv_add sample_bloom sample_id (sv_new sample_bloom)) (sv_new sample_bloom)
           (nhe_requestHandshake (hs_new HANDSHAKE_REQUEST 60)) (hs_new HANDSHAKE_RESPONSE 60)) @ [])
      = Inr (got, []) \<and> nhe_vectors sample_bloom got = (Some v, None) \<and> \<not> bf_contains sample_bloom (bid_toString sample_id) (sv_bf v)"
proof -
  have "\<not> bf_contains sample_bloom x (sv_bf (sv_new sample_bloom))" for x by (simp add: sample_bloom_def sv_new_def)
  then show ?thesis
    using handshake_vectors_confused [OF blob_copy_ok_rtake sample_bloom_ok(2) sample_item_fits sample_item_fits,
        of 0 "sv_add sample_bloom sample_id (sv_new sample_bloom)" "sv_new sample_bloom" "[]"] by metis
qed

end
