(* ===== verification/Storage.thy ===== *)
theory Storage
  imports BundleList
begin

text \<open>
  The bundle storage in memory (\<open>daemon/src/core/MemoryBundleStorage.cpp\<close>): a set of bundles,
  an index by priority, a table of lengths, the size in use, and the bundle list it inherits
  from. The specification is a finite map from identifiers to bundles.
\<close>

section \<open>State\<close>

datatype storage_error = NoBundleFoundException | BundleLoadException | StorageSizeExeededException

record mem_storage =
  ms_list :: bundle_list
  ms_bundles :: "dtn_bundle list"
  ms_priority_index :: "meta_bundle list"
  ms_bundle_lengths :: "(bundle_id \<times> u64) list"
  ms_maxsize :: u64
  ms_currentsize :: u64

text \<open>The events of the daemon that an operation raises.\<close>

datatype storage_event =
    BundleDeletedEvent meta_bundle
  | BundleExpiredEvent meta_bundle

text \<open>
  The conversion of a bundle to its meta data reads the clock and the stopwatch of the age
  block; a moment is what they show.
\<close>

record moment =
  mo_clock :: clock
  mo_sys :: timeval
  mo_elapsed :: "dtn_bundle \<Rightarrow> u64"
  mo_now :: dtntime

definition meta_at :: "moment \<Rightarrow> dtn_bundle \<Rightarrow> meta_bundle" where
  "meta_at mo b = meta_of_bundle (mo_clock mo) (mo_sys mo) (mo_elapsed mo b) (mo_now mo) b"

definition ms_new :: "u64 \<Rightarrow> mem_storage" where
  "ms_new maxsize =
     \<lparr>ms_list = lst_new, ms_bundles = [], ms_priority_index = [], ms_bundle_lengths = [],
      ms_maxsize = maxsize, ms_currentsize = 0\<rparr>"

text \<open>\<open>CMP_BUNDLE_PRIORITY\<close>: high priority first.\<close>

definition priority_less :: "meta_bundle \<Rightarrow> meta_bundle \<Rightarrow> bool" where
  "priority_less lhs rhs \<longleftrightarrow>
     (if meta_getPriority lhs = meta_getPriority rhs then bid_greater rhs lhs
      else meta_getPriority lhs > meta_getPriority rhs)"

text \<open>The length a new serializer predicts.\<close>

definition ms_length :: "dtn_bundle \<Rightarrow> u64" where
  "ms_length b = word_of_nat (fst (ser_getLength_bundle ser_new b))"

section \<open>Operations\<close>

definition ms_empty :: "mem_storage \<Rightarrow> bool" where
  "ms_empty st = (ms_bundles st = [])"

definition ms_count :: "mem_storage \<Rightarrow> nat" where
  "ms_count st = length (ms_bundles st)"

definition ms_size :: "mem_storage \<Rightarrow> u64" where
  "ms_size st = ms_currentsize st"

text \<open>A duplicate is not inserted, but its length is counted and recorded before.\<close>

definition ms_store :: "moment \<Rightarrow> dtn_bundle \<Rightarrow> mem_storage \<Rightarrow> storage_error + mem_storage" where
  "ms_store mo b st =
     (let sz = ms_length b
      in if ms_maxsize st > 0 \<and> ms_currentsize st + sz > ms_maxsize st then Inl StorageSizeExeededException
         else
           let st1 = st\<lparr>ms_currentsize := ms_currentsize st + sz,
                        ms_bundle_lengths := omap_update bid_less (bid_of_bundle b) sz (ms_bundle_lengths st)\<rparr>;
               bs = oset_insert primary_less b (ms_bundles st)
           in if length bs \<noteq> length (ms_bundles st) then
                Inr (st1\<lparr>ms_bundles := bs, ms_list := lst_add (ms_list st) (meta_at mo b),
                         ms_priority_index := oset_insert priority_less (meta_at mo b) (ms_priority_index st)\<rparr>)
              else Inr st1)"

text \<open>The search of \<open>get\<close> and \<open>remove\<close>; \<open>operator==\<close> of the identifier given.\<close>

definition ms_find :: "'a bundle_id_scheme \<Rightarrow> dtn_bundle list \<Rightarrow> dtn_bundle option" where
  "ms_find i bs = find (\<lambda>b. bid_eq i (bid_of_bundle b)) bs"

fun erase_first :: "('a \<Rightarrow> bool) \<Rightarrow> 'a list \<Rightarrow> 'a list" where
  "erase_first P [] = []"
| "erase_first P (x # xs) = (if P x then xs else x # erase_first P xs)"

definition ms_get :: "'a bundle_id_scheme \<Rightarrow> mem_storage \<Rightarrow> storage_error + dtn_bundle" where
  "ms_get i st = (case ms_find i (ms_bundles st) of Some b \<Rightarrow> Inr b | None \<Rightarrow> Inl NoBundleFoundException)"

text \<open>The query with a filter: the first bundles of the index, up to the limit if there is one.\<close>

fun ms_select :: "nat \<Rightarrow> (meta_bundle \<Rightarrow> bool) \<Rightarrow> meta_bundle list \<Rightarrow> meta_bundle list \<Rightarrow> meta_bundle list" where
  "ms_select limit shouldAdd result [] = result"
| "ms_select limit shouldAdd result (m # ms) =
     (if limit = 0 \<or> length result < limit
      then ms_select limit shouldAdd (if shouldAdd m then result @ [m] else result) ms
      else result)"

definition ms_query :: "nat \<Rightarrow> (meta_bundle \<Rightarrow> bool) \<Rightarrow> mem_storage \<Rightarrow> meta_bundle list" where
  "ms_query limit shouldAdd st = ms_select limit shouldAdd [] (ms_priority_index st)"

definition ms_getDistinctDestinations :: "mem_storage \<Rightarrow> eid list" where
  "ms_getDistinctDestinations st = foldl (\<lambda>ret b. oset_insert eid_less (p_destination b) ret) [] (ms_bundles st)"

definition ms_remove :: "moment \<Rightarrow> 'a bundle_id_scheme \<Rightarrow> mem_storage \<Rightarrow> storage_error + mem_storage" where
  "ms_remove mo i st =
     (case ms_find i (ms_bundles st) of
        None \<Rightarrow> Inl NoBundleFoundException
      | Some b \<Rightarrow>
          Inr (st\<lparr>ms_priority_index := oset_erase priority_less (meta_at mo b) (ms_priority_index st),
                  ms_list := lst_remove (ms_list st) (meta_at mo b),
                  ms_currentsize := ms_currentsize st - ms_length b,
                  ms_bundles := erase_first (\<lambda>x. bid_eq i (bid_of_bundle x)) (ms_bundles st)\<rparr>))"

text \<open>
  The length of a bundle, taken out of the table; \<open>operator[]\<close> gives zero for a bundle that
  is not in it.
\<close>

definition ms_forget_length :: "dtn_bundle \<Rightarrow> mem_storage \<Rightarrow> mem_storage" where
  "ms_forget_length b st =
     (let len = (case omap_find bid_less (bid_of_bundle b) (ms_bundle_lengths st) of Some n \<Rightarrow> n | None \<Rightarrow> 0)
      in st\<lparr>ms_bundle_lengths := omap_erase bid_less (bid_of_bundle b) (ms_bundle_lengths st),
            ms_currentsize := ms_currentsize st - len\<rparr>)"

text \<open>
  Removing a bundle that a filter contains. The meta data returned by the code are read from
  the element after it was erased and are left out here.
\<close>

definition ms_remove_filter :: "moment \<Rightarrow> (string \<Rightarrow> bool) \<Rightarrow> mem_storage \<Rightarrow> storage_error + mem_storage" where
  "ms_remove_filter mo contains st =
     (case find (\<lambda>b. contains (primary_toString b)) (ms_bundles st) of
        None \<Rightarrow> Inl NoBundleFoundException
      | Some b \<Rightarrow>
          Inr ((ms_forget_length b
                 (st\<lparr>ms_priority_index := oset_erase priority_less (meta_at mo b) (ms_priority_index st),
                     ms_list := lst_remove (ms_list st) (meta_at mo b)\<rparr>))
               \<lparr>ms_bundles := erase_first (\<lambda>x. contains (primary_toString x)) (ms_bundles st)\<rparr>))"

definition ms_clear :: "mem_storage \<Rightarrow> mem_storage" where
  "ms_clear st =
     st\<lparr>ms_bundles := [], ms_priority_index := [], ms_list := lst_clear (ms_list st),
        ms_bundle_lengths := [], ms_currentsize := 0\<rparr>"

text \<open>\<open>eventBundleExpired\<close>, called by the bundle list for every expired bundle.\<close>

definition ms_expired :: "moment \<Rightarrow> meta_bundle \<Rightarrow> mem_storage \<Rightarrow> mem_storage" where
  "ms_expired mo m st =
     (case ms_find m (ms_bundles st) of
        None \<Rightarrow> st
      | Some b \<Rightarrow>
          (ms_forget_length b st)
            \<lparr>ms_priority_index := oset_erase priority_less (meta_at mo b) (ms_priority_index st),
             ms_bundles := erase_first (\<lambda>x. bid_eq m (bid_of_bundle x)) (ms_bundles st)\<rparr>)"

text \<open>
  A tick of the clock. The calls to \<open>eventBundleExpired\<close> do not look at the list, so they
  may as well follow its expiry.
\<close>

definition ms_tick :: "moment \<Rightarrow> u64 \<Rightarrow> mem_storage \<Rightarrow> mem_storage \<times> storage_event list" where
  "ms_tick mo timestamp st =
     (case lst_expire (mo_clock mo) timestamp (ms_list st) of
        (l, gone) \<Rightarrow>
          (foldl (\<lambda>s m. ms_expired mo m s) (st\<lparr>ms_list := l\<rparr>) gone,
           concat (map (\<lambda>m. [BundleDeletedEvent m, BundleExpiredEvent m]) gone)))"

section \<open>Orders\<close>

definition bundle_key :: "dtn_bundle \<Rightarrow> id_key" where
  "bundle_key b = bid_key (bid_of_bundle b)"

definition bundle_compat :: "dtn_bundle \<Rightarrow> dtn_bundle \<Rightarrow> bool" where
  "bundle_compat a b = bid_compat (bid_of_bundle a) (bid_of_bundle b)"

definition priority_key :: "meta_bundle \<Rightarrow> int \<times> id_key" where
  "priority_key m = (- meta_getPriority m, bid_key m)"

lemma primary_less_key: "bundle_compat a b \<Longrightarrow> primary_less a b \<longleftrightarrow> bundle_key a < bundle_key b"
  by (auto simp: primary_less_def bundle_key_def bid_key_def bundle_compat_def bid_compat_def bid_of_bundle_def
      eid_less_def less_prod_def)

interpretation stored: key_order primary_less bundle_key bundle_compat
  by unfold_locales (auto simp: primary_less_key bundle_compat_def dest: bid_compat_sym)

lemma priority_less_key:
  assumes "bid_compat a b"
  shows "priority_less a b \<longleftrightarrow> priority_key a < priority_key b"
proof -
  have "bid_greater b a \<longleftrightarrow> bid_key a < bid_key b"
    using bid_less_key [OF bid_compat_sym [OF assms]] bid_eq_key [OF bid_compat_sym [OF assms]]
    by (auto simp: bid_greater_def)
  then show ?thesis by (auto simp: priority_less_def priority_key_def less_prod_def)
qed

interpretation priority: key_order priority_less priority_key bid_compat
  by unfold_locales (auto simp: priority_less_key dest: bid_compat_sym)

section \<open>Invariant\<close>

text \<open>
  A universe of bundles \<open>B\<close> and moments \<open>M\<close>: the bundles do not mix with their own
  fragments, and the computed expiry time of a bundle is the same at all moments.
\<close>

definition metas :: "moment set \<Rightarrow> dtn_bundle set \<Rightarrow> meta_bundle set" where
  "metas M B = {meta_at mo b | mo b. mo \<in> M \<and> b \<in> B}"

definition steady :: "moment set \<Rightarrow> dtn_bundle set \<Rightarrow> bool" where
  "steady M B \<longleftrightarrow> (\<forall>a \<in> B. \<forall>b \<in> B. bundle_compat a b)
     \<and> (\<forall>a \<in> B. \<forall>b \<in> B. \<forall>m \<in> M. \<forall>n \<in> M. bundle_key a = bundle_key b \<longrightarrow>
          m_expiretime (meta_at m a) = m_expiretime (meta_at n b))"

definition bundle_priority :: "dtn_bundle \<Rightarrow> int" where
  "bundle_priority b =
     (if get_flag PRIORITY_BIT1 (p_procflags b) then 0 else if get_flag PRIORITY_BIT2 (p_procflags b) then 1 else - 1)"

definition bundle_pkey :: "dtn_bundle \<Rightarrow> int \<times> id_key" where
  "bundle_pkey b = (- bundle_priority b, bundle_key b)"

lemma meta_at_key [simp]:
  "bid_key (meta_at mo b) = bundle_key b" "priority_key (meta_at mo b) = bundle_pkey b"
  by (simp_all add: meta_at_def meta_of_bundle_def bundle_id.defs bid_key_def bundle_key_def bid_of_bundle_def
      priority_key_def bundle_pkey_def bundle_priority_def meta_getPriority_def)

lemma meta_at_compat [simp]:
  "bid_compat (meta_at m a) (meta_at n b) = bundle_compat a b"
  "bid_compat (meta_at m a) (bid_of_bundle b) = bundle_compat a b"
  by (simp_all add: meta_at_def meta_of_bundle_def bundle_id.defs bid_compat_def bundle_compat_def bid_of_bundle_def)

lemma steady_metas:
  assumes "steady M B"
  shows "meta_consistent (metas M B)"
  unfolding meta_consistent_def
proof (intro ballI)
  fix x y
  assume "x \<in> metas M B" and "y \<in> metas M B"
  then obtain m a n b where x: "x = meta_at m a" "m \<in> M" "a \<in> B" and y: "y = meta_at n b" "n \<in> M" "b \<in> B"
    unfolding metas_def by blast
  then show "bid_compat x y \<and> (bid_key x = bid_key y \<longrightarrow> m_expiretime x = m_expiretime y)"
    using assms unfolding steady_def x(1) y(1) meta_at_key meta_at_compat by blast
qed

lemma metas_compat: "steady M B \<Longrightarrow> x \<in> metas M B \<Longrightarrow> y \<in> metas M B \<Longrightarrow> bid_compat x y"
  using steady_metas unfolding meta_consistent_def by blast

text \<open>The bundles and their indices, apart from the list.\<close>

definition ms_core :: "moment set \<Rightarrow> dtn_bundle set \<Rightarrow> mem_storage \<Rightarrow> bool" where
  "ms_core M B st \<longleftrightarrow> set (ms_bundles st) \<subseteq> B \<and> key_sorted bundle_key (ms_bundles st)
     \<and> set (ms_priority_index st) \<subseteq> metas M B \<and> key_sorted priority_key (ms_priority_index st)
     \<and> priority_key ` set (ms_priority_index st) = bundle_pkey ` set (ms_bundles st)
     \<and> fst ` set (ms_bundle_lengths st) \<subseteq> bid_of_bundle ` B \<and> key_sorted bid_key (map fst (ms_bundle_lengths st))"

definition ms_inv :: "moment set \<Rightarrow> dtn_bundle set \<Rightarrow> mem_storage \<Rightarrow> bool" where
  "ms_inv M B st \<longleftrightarrow> ms_core M B st \<and> lst_inv (metas M B) (ms_list st)
     \<and> bid_key ` set (lst_public (ms_list st)) = bundle_key ` set (ms_bundles st)"

definition ms_map :: "mem_storage \<Rightarrow> id_key \<Rightarrow> dtn_bundle option" where
  "ms_map st = map_of (map (\<lambda>b. (bundle_key b, b)) (ms_bundles st))"

lemma ms_inv_new: "ms_inv M B (ms_new n)"
  by (simp add: ms_inv_def ms_core_def ms_new_def lst_inv_new) (simp add: lst_new_def)

lemma core_distinct: "ms_core M B st \<Longrightarrow> distinct (map bundle_key (ms_bundles st))"
  using stored.distinct_keys by (simp add: ms_core_def)

lemma ms_map_eq: "ms_core M B st \<Longrightarrow> ms_map st k = Some b \<longleftrightarrow> b \<in> set (ms_bundles st) \<and> bundle_key b = k"
  using core_distinct [of M B st] by (auto simp: ms_map_def comp_def)

lemma dom_ms_map:
  assumes "ms_core M B st"
  shows "dom (ms_map st) = bundle_key ` set (ms_bundles st)"
proof (rule set_eqI)
  show "k \<in> dom (ms_map st) \<longleftrightarrow> k \<in> bundle_key ` set (ms_bundles st)" for k
    unfolding domIff image_iff using ms_map_eq [OF assms, of k] by (metis not_Some_eq)
qed

text \<open>Maps with the same entries are the same.\<close>

lemma ms_map_ext:
  assumes "ms_core M B st" and "\<And>k b. f k = Some b \<longleftrightarrow> b \<in> set (ms_bundles st) \<and> bundle_key b = k"
  shows "ms_map st = f"
proof
  show "ms_map st k = f k" for k
    using ms_map_eq [OF assms(1), of k] assms(2) [of k] by (metis option.exhaust)
qed

section \<open>Storing\<close>

lemma lengths_fit:
  assumes "steady M B" and "ms_core M B st" and "b \<in> B"
  shows "list_all (bid_compat (bid_of_bundle b)) (map fst (ms_bundle_lengths st))"
  unfolding list_all_iff
proof
  fix x
  assume "x \<in> set (map fst (ms_bundle_lengths st))"
  then obtain b' where "b' \<in> B" "x = bid_of_bundle b'" using assms(2) by (auto simp: ms_core_def)
  then show "bid_compat (bid_of_bundle b) x"
    using assms(1,3) unfolding steady_def bundle_compat_def by blast
qed

lemma core_fit:
  assumes "steady M B" and "ms_core M B st" and "b \<in> B" and "mo \<in> M"
  shows "list_all (bundle_compat b) (ms_bundles st)"
    and "list_all (bid_compat (meta_at mo b)) (ms_priority_index st)"
    and "list_all (bid_compat (bid_of_bundle b)) (map fst (ms_bundle_lengths st))"
proof -
  show "list_all (bundle_compat b) (ms_bundles st)"
    using assms by (auto simp: list_all_iff steady_def ms_core_def)
  show "list_all (bid_compat (meta_at mo b)) (ms_priority_index st)"
  proof -
    have "meta_at mo b \<in> metas M B" using assms by (auto simp: metas_def)
    then show ?thesis
      using assms(2) metas_compat [OF assms(1)] by (auto simp: list_all_iff ms_core_def)
  qed
  show "list_all (bid_compat (bid_of_bundle b)) (map fst (ms_bundle_lengths st))"
    by (rule lengths_fit [OF assms(1-3)])
qed

lemma core_lengths:
  assumes "steady M B" and "ms_core M B st" and "b \<in> B"
  shows "key_sorted bid_key (map fst (omap_update bid_less (bid_of_bundle b) v (ms_bundle_lengths st)))"
    and "fst ` set (omap_update bid_less (bid_of_bundle b) v (ms_bundle_lengths st)) \<subseteq> bid_of_bundle ` B"
    and "key_sorted bid_key (map fst (omap_erase bid_less (bid_of_bundle b) (ms_bundle_lengths st)))"
    and "fst ` set (omap_erase bid_less (bid_of_bundle b) (ms_bundle_lengths st)) \<subseteq> bid_of_bundle ` B"
proof -
  note fit = lengths_fit [OF assms]
  have sorted: "key_sorted bid_key (map fst (ms_bundle_lengths st))"
      and sub: "fst ` set (ms_bundle_lengths st) \<subseteq> bid_of_bundle ` B" using assms(2) by (auto simp: ms_core_def)
  show "key_sorted bid_key (map fst (omap_update bid_less (bid_of_bundle b) v (ms_bundle_lengths st)))"
    using bid.omap_update_kmap [OF sorted fit] by simp
  show "fst ` set (omap_update bid_less (bid_of_bundle b) v (ms_bundle_lengths st)) \<subseteq> bid_of_bundle ` B"
    using bid.omap_update_keys [OF fit, of v] sub assms(3) by auto
  show "key_sorted bid_key (map fst (omap_erase bid_less (bid_of_bundle b) (ms_bundle_lengths st)))"
      "fst ` set (omap_erase bid_less (bid_of_bundle b) (ms_bundle_lengths st)) \<subseteq> bid_of_bundle ` B"
    using bid.omap_erase_kmap [OF sorted fit] sub by auto
qed

lemma ms_store_inv:
  assumes U: "steady M B" and inv: "ms_inv M B st" and b: "b \<in> B" "mo \<in> M" and r: "ms_store mo b st = Inr st'"
  shows "ms_inv M B st'"
    and "ms_map st' = (if bundle_key b \<in> dom (ms_map st) then ms_map st else (ms_map st)(bundle_key b \<mapsto> b))"
proof -
  have core: "ms_core M B st" and lst: "lst_inv (metas M B) (ms_list st)"
    and keys: "bid_key ` set (lst_public (ms_list st)) = bundle_key ` set (ms_bundles st)"
    using inv by (auto simp: ms_inv_def)
  note fit = core_fit [OF U core b]
  have sorted: "key_sorted bundle_key (ms_bundles st)" "key_sorted priority_key (ms_priority_index st)"
    using core by (auto simp: ms_core_def)
  have len: "length (oset_insert primary_less b (ms_bundles st)) = length (ms_bundles st)
      \<longleftrightarrow> bundle_key b \<in> bundle_key ` set (ms_bundles st)"
    using stored.insert_length [OF sorted(1) fit(1)] by simp
  have m: "meta_at mo b \<in> metas M B" using b by (auto simp: metas_def)
  let ?n = "ms_currentsize st + ms_length b"
  let ?l = "omap_update bid_less (bid_of_bundle b) (ms_length b) (ms_bundle_lengths st)"
  note l = core_lengths(1,2) [OF U core b(1), of "ms_length b"]
  have "ms_inv M B st' \<and>
      ms_map st' = (if bundle_key b \<in> dom (ms_map st) then ms_map st else (ms_map st)(bundle_key b \<mapsto> b))"
  proof (cases "bundle_key b \<in> bundle_key ` set (ms_bundles st)")
    case True
    then have "st' = st\<lparr>ms_currentsize := ?n, ms_bundle_lengths := ?l\<rparr>"
      using r len by (simp add: ms_store_def Let_def split: if_splits)
    then show ?thesis
      using l True inv dom_ms_map [OF core] by (simp add: ms_inv_def ms_core_def ms_map_def)
  next
    case False
    have bs: "set (oset_insert primary_less b (ms_bundles st)) = insert b (set (ms_bundles st))"
      using stored.insert_set [OF sorted(1) fit(1)] False by simp
    have "bundle_pkey b \<notin> bundle_pkey ` set (ms_bundles st)"
      using False by (auto simp: bundle_pkey_def)
    then have ps: "set (oset_insert priority_less (meta_at mo b) (ms_priority_index st))
        = insert (meta_at mo b) (set (ms_priority_index st))"
      using priority.insert_set [OF sorted(2) fit(2)] core by (simp add: ms_core_def)
    have st': "st' = st\<lparr>ms_currentsize := ?n, ms_bundle_lengths := ?l,
           ms_bundles := oset_insert primary_less b (ms_bundles st), ms_list := lst_add (ms_list st) (meta_at mo b),
           ms_priority_index := oset_insert priority_less (meta_at mo b) (ms_priority_index st)\<rparr>"
      using r len False by (simp add: ms_store_def Let_def split: if_splits)
    have core': "ms_core M B st'"
      using core l st' bs ps b m stored.insert_sorted [OF sorted(1) fit(1)] priority.insert_sorted [OF sorted(2) fit(2)]
      by (simp add: ms_core_def)
    moreover have "lst_inv (metas M B) (ms_list st')"
        "bid_key ` set (lst_public (ms_list st')) = bundle_key ` set (ms_bundles st')"
      using lst_add_inv [OF steady_metas [OF U] m lst] st' bs keys by auto
    moreover have "ms_map st' = (ms_map st)(bundle_key b \<mapsto> b)"
    proof (rule ms_map_ext [OF core'])
      fix k x
      have "x \<in> set (ms_bundles st) \<Longrightarrow> bundle_key x \<noteq> bundle_key b" using False by (metis imageI)
      then show "((ms_map st)(bundle_key b \<mapsto> b)) k = Some x \<longleftrightarrow> x \<in> set (ms_bundles st') \<and> bundle_key x = k"
        using ms_map_eq [OF core, of k x] st' bs by (cases "k = bundle_key b") auto
    qed
    ultimately show ?thesis using dom_ms_map [OF core] False by (simp add: ms_inv_def)
  qed
  then show "ms_inv M B st'"
    and "ms_map st' = (if bundle_key b \<in> dom (ms_map st) then ms_map st else (ms_map st)(bundle_key b \<mapsto> b))" by auto
qed

section \<open>Finding and removing\<close>

definition id_fits :: "'a bundle_id_scheme \<Rightarrow> dtn_bundle set \<Rightarrow> bool" where
  "id_fits i B \<longleftrightarrow> (\<forall>b \<in> B. bid_compat i (bid_of_bundle b))"

lemma erase_first_find: "erase_first P xs = (case find P xs of None \<Rightarrow> xs | Some b \<Rightarrow> remove1 b xs)"
proof (induction xs)
  case (Cons x xs)
  then show ?case by (auto split: option.splits dest: find_Some_iff [THEN iffD1])
qed simp

lemma ms_find_map:
  assumes "ms_core M B st" and "id_fits i B"
  shows "ms_find i (ms_bundles st) = ms_map st (bid_key i)"
proof -
  have P: "bid_eq i (bid_of_bundle b) \<longleftrightarrow> bundle_key b = bid_key i" if "b \<in> set (ms_bundles st)" for b
    using that assms bid_eq_key [of i "bid_of_bundle b"] by (auto simp: ms_core_def id_fits_def bundle_key_def)
  show ?thesis
  proof (cases "ms_find i (ms_bundles st)")
    case None
    then have "bid_key i \<notin> bundle_key ` set (ms_bundles st)"
      using P by (auto simp: ms_find_def find_None_iff)
    then have "ms_map st (bid_key i) = None" using dom_ms_map [OF assms(1)] by (metis domIff)
    then show ?thesis using None by simp
  next
    case (Some b)
    then have "b \<in> set (ms_bundles st)" "bid_eq i (bid_of_bundle b)"
      by (auto simp: ms_find_def find_Some_iff)
    then have "ms_map st (bid_key i) = Some b" using P ms_map_eq [OF assms(1)] by blast
    then show ?thesis using Some by simp
  qed
qed

lemma ms_get_map:
  assumes "ms_core M B st" and "id_fits i B"
  shows "ms_get i st = (case ms_map st (bid_key i) of Some b \<Rightarrow> Inr b | None \<Rightarrow> Inl NoBundleFoundException)"
  by (simp add: ms_get_def ms_find_map [OF assms])

text \<open>Taking one bundle out of the set and the index.\<close>

lemma key_sorted_remove1: "key_sorted key xs \<Longrightarrow> key_sorted key (remove1 b xs)"
  by (induction xs) (auto dest: notin_set_remove1 [rotated])

lemma core_take:
  assumes U: "steady M B" and core: "ms_core M B st" and b: "b \<in> set (ms_bundles st)" and mo: "mo \<in> M"
  shows "set (remove1 b (ms_bundles st)) = {x \<in> set (ms_bundles st). bundle_key x \<noteq> bundle_key b}"
    and "fst ` set l \<subseteq> bid_of_bundle ` B \<Longrightarrow> key_sorted bid_key (map fst l) \<Longrightarrow>
      ms_core M B (st\<lparr>ms_priority_index := oset_erase priority_less (meta_at mo b) (ms_priority_index st),
        ms_list := lst, ms_bundle_lengths := l, ms_currentsize := n, ms_bundles := remove1 b (ms_bundles st)\<rparr>)"
proof -
  have B: "b \<in> B" and dist: "distinct (map bundle_key (ms_bundles st))"
    and sorted: "key_sorted bundle_key (ms_bundles st)" "key_sorted priority_key (ms_priority_index st)"
    using core b core_distinct [OF core] by (auto simp: ms_core_def)
  then have "bundle_key x = bundle_key b \<longleftrightarrow> x = b" if "x \<in> set (ms_bundles st)" for x
    using that b by (auto simp: distinct_map dest: inj_onD)
  then show bs: "set (remove1 b (ms_bundles st)) = {x \<in> set (ms_bundles st). bundle_key x \<noteq> bundle_key b}"
    using dist by (auto simp: distinct_map)
  note fit = core_fit(2) [OF U core B mo]
  have ps: "set (oset_erase priority_less (meta_at mo b) (ms_priority_index st))
      = {m \<in> set (ms_priority_index st). priority_key m \<noteq> bundle_pkey b}"
    using priority.erase_set [OF sorted(2) fit] by simp
  have "bundle_pkey x \<noteq> bundle_pkey b \<longleftrightarrow> bundle_key x \<noteq> bundle_key b" if "x \<in> set (ms_bundles st)" for x
    using that \<open>\<And>x. x \<in> set (ms_bundles st) \<Longrightarrow> bundle_key x = bundle_key b \<longleftrightarrow> x = b\<close>
    by (auto simp: bundle_pkey_def)
  then have "bundle_pkey ` set (remove1 b (ms_bundles st)) = bundle_pkey ` set (ms_bundles st) - {bundle_pkey b}"
    unfolding bs by (intro image_without) simp
  also have "\<dots> = priority_key ` set (oset_erase priority_less (meta_at mo b) (ms_priority_index st))"
    using core unfolding ps image_without [OF refl] ms_core_def by simp
  finally show "fst ` set l \<subseteq> bid_of_bundle ` B \<Longrightarrow> key_sorted bid_key (map fst l) \<Longrightarrow>
      ms_core M B (st\<lparr>ms_priority_index := oset_erase priority_less (meta_at mo b) (ms_priority_index st),
        ms_list := lst, ms_bundle_lengths := l, ms_currentsize := n, ms_bundles := remove1 b (ms_bundles st)\<rparr>)"
    using core bs ps key_sorted_remove1 [OF sorted(1)] priority.erase_sorted [OF sorted(2) fit]
    by (auto simp: ms_core_def)
qed

lemma ms_map_take:
  assumes "ms_core M B st" and "ms_core M B st'"
    and "set (ms_bundles st') = {x \<in> set (ms_bundles st). bundle_key x \<noteq> k}"
  shows "ms_map st' = (ms_map st)(k := None)"
proof (rule ms_map_ext [OF assms(2)])
  show "((ms_map st)(k := None)) j = Some x \<longleftrightarrow> x \<in> set (ms_bundles st') \<and> bundle_key x = j" for j x
    using ms_map_eq [OF assms(1), of j x] assms(3) by (cases "j = k") auto
qed

lemma list_take:
  assumes U: "steady M B" and inv: "ms_inv M B st" and b: "b \<in> set (ms_bundles st)" and mo: "mo \<in> M"
  shows "lst_inv (metas M B) (lst_remove (ms_list st) (meta_at mo b))"
    and "bid_key ` set (lst_public (lst_remove (ms_list st) (meta_at mo b))) = bundle_key ` set (remove1 b (ms_bundles st))"
proof -
  have core: "ms_core M B st" and lst: "lst_inv (metas M B) (ms_list st)"
    and keys: "bid_key ` set (lst_public (ms_list st)) = bundle_key ` set (ms_bundles st)"
    using inv by (auto simp: ms_inv_def)
  have m: "meta_at mo b \<in> metas M B" using b core mo by (auto simp: metas_def ms_core_def)
  note r = lst_remove_inv [OF steady_metas [OF U] m lst]
  show "lst_inv (metas M B) (lst_remove (ms_list st) (meta_at mo b))" by (rule r(1))
  show "bid_key ` set (lst_public (lst_remove (ms_list st) (meta_at mo b))) = bundle_key ` set (remove1 b (ms_bundles st))"
    unfolding r(2) core_take(1) [OF U core b mo] image_without [OF refl] keys by simp
qed

lemma ms_remove_inv:
  assumes U: "steady M B" and inv: "ms_inv M B st" and mo: "mo \<in> M" and i: "id_fits i B"
    and r: "ms_remove mo i st = Inr st'"
  shows "ms_inv M B st'" and "ms_map st' = (ms_map st)(bid_key i := None)"
    and "\<exists>b. ms_map st (bid_key i) = Some b \<and> ms_bundles st' = remove1 b (ms_bundles st)
           \<and> ms_currentsize st' = ms_currentsize st - ms_length b \<and> ms_bundle_lengths st' = ms_bundle_lengths st"
proof -
  have core: "ms_core M B st" using inv by (simp add: ms_inv_def)
  obtain b where f: "ms_find i (ms_bundles st) = Some b"
    using r by (auto simp: ms_remove_def split: option.splits)
  then have b: "b \<in> set (ms_bundles st)" "bundle_key b = bid_key i"
    using ms_find_map [OF core i] ms_map_eq [OF core] by auto
  then have B: "b \<in> B" using core by (auto simp: ms_core_def)
  have st': "st' = st\<lparr>ms_priority_index := oset_erase priority_less (meta_at mo b) (ms_priority_index st),
      ms_list := lst_remove (ms_list st) (meta_at mo b), ms_bundle_lengths := ms_bundle_lengths st,
      ms_currentsize := ms_currentsize st - ms_length b, ms_bundles := remove1 b (ms_bundles st)\<rparr>"
    using r f by (simp add: ms_remove_def erase_first_find ms_find_def)
  note take = core_take [OF U core b(1) mo]
  have core': "ms_core M B st'" unfolding st' using core by (intro take(2)) (auto simp: ms_core_def)
  show "ms_inv M B st'"
    using core' list_take [OF U inv b(1) mo] by (simp add: ms_inv_def st')
  show "ms_map st' = (ms_map st)(bid_key i := None)"
    using take(1) st' b(2) by (intro ms_map_take [OF core core']) simp
  show "\<exists>b. ms_map st (bid_key i) = Some b \<and> ms_bundles st' = remove1 b (ms_bundles st)
      \<and> ms_currentsize st' = ms_currentsize st - ms_length b \<and> ms_bundle_lengths st' = ms_bundle_lengths st"
    using f ms_find_map [OF core i] st' by simp
qed

lemma ms_remove_filter_inv:
  assumes U: "steady M B" and inv: "ms_inv M B st" and mo: "mo \<in> M" and r: "ms_remove_filter mo contains st = Inr st'"
  shows "ms_inv M B st'"
    and "\<exists>b \<in> set (ms_bundles st). contains (primary_toString b) \<and> ms_map st' = (ms_map st)(bundle_key b := None)
           \<and> ms_bundles st' = remove1 b (ms_bundles st)
           \<and> ms_currentsize st' = ms_currentsize (ms_forget_length b st)
           \<and> ms_bundle_lengths st' = ms_bundle_lengths (ms_forget_length b st)"
proof -
  have core: "ms_core M B st" using inv by (simp add: ms_inv_def)
  obtain b where f: "find (\<lambda>b. contains (primary_toString b)) (ms_bundles st) = Some b"
    using r by (auto simp: ms_remove_filter_def split: option.splits)
  then have b: "b \<in> set (ms_bundles st)" "contains (primary_toString b)" by (auto simp: find_Some_iff)
  then have B: "b \<in> B" using core by (auto simp: ms_core_def)
  have st': "st' = st\<lparr>ms_priority_index := oset_erase priority_less (meta_at mo b) (ms_priority_index st),
      ms_list := lst_remove (ms_list st) (meta_at mo b),
      ms_bundle_lengths := omap_erase bid_less (bid_of_bundle b) (ms_bundle_lengths st),
      ms_currentsize := ms_currentsize (ms_forget_length b st), ms_bundles := remove1 b (ms_bundles st)\<rparr>"
    using r f by (simp add: ms_remove_filter_def erase_first_find ms_forget_length_def Let_def)
  note take = core_take [OF U core b(1) mo]
  have core': "ms_core M B st'"
    unfolding st' using core_lengths(3,4) [OF U core B] by (intro take(2))
  show "ms_inv M B st'"
    using core' list_take [OF U inv b(1) mo] by (simp add: ms_inv_def st')
  have "ms_map st' = (ms_map st)(bundle_key b := None)"
    using take(1) st' by (intro ms_map_take [OF core core']) simp
  then show "\<exists>b \<in> set (ms_bundles st). contains (primary_toString b) \<and> ms_map st' = (ms_map st)(bundle_key b := None)
      \<and> ms_bundles st' = remove1 b (ms_bundles st) \<and> ms_currentsize st' = ms_currentsize (ms_forget_length b st)
      \<and> ms_bundle_lengths st' = ms_bundle_lengths (ms_forget_length b st)"
    using b st' by (intro bexI [of _ b]) (simp_all add: ms_forget_length_def Let_def)
qed

section \<open>Expiry\<close>

lemma metas_fit: "steady M B \<Longrightarrow> m \<in> metas M B \<Longrightarrow> id_fits m B"
  by (auto simp: id_fits_def metas_def steady_def)

lemma ms_expired_core:
  assumes U: "steady M B" and core: "ms_core M B st" and mo: "mo \<in> M" and m: "m \<in> metas M B"
  shows "ms_core M B (ms_expired mo m st)"
    and "ms_map (ms_expired mo m st) = (ms_map st)(bid_key m := None)"
    and "ms_list (ms_expired mo m st) = ms_list st"
proof -
  note f = ms_find_map [OF core metas_fit [OF U m]]
  have "ms_core M B (ms_expired mo m st) \<and> ms_map (ms_expired mo m st) = (ms_map st)(bid_key m := None)"
  proof (cases "ms_map st (bid_key m)")
    case None
    then show ?thesis using f core by (simp add: ms_expired_def fun_upd_idem)
  next
    case (Some b)
    then have b: "b \<in> set (ms_bundles st)" "bundle_key b = bid_key m" using ms_map_eq [OF core] by auto
    then have B: "b \<in> B" using core by (auto simp: ms_core_def)
    have st': "ms_expired mo m st = st\<lparr>ms_priority_index := oset_erase priority_less (meta_at mo b) (ms_priority_index st),
        ms_list := ms_list st, ms_bundle_lengths := omap_erase bid_less (bid_of_bundle b) (ms_bundle_lengths st),
        ms_currentsize := ms_currentsize (ms_forget_length b st), ms_bundles := remove1 b (ms_bundles st)\<rparr>"
      using f Some by (simp add: ms_expired_def ms_find_def erase_first_find ms_forget_length_def Let_def)
    note take = core_take [OF U core b(1) mo]
    have core': "ms_core M B (ms_expired mo m st)"
      unfolding st' using core_lengths(3,4) [OF U core B] by (intro take(2))
    moreover have "ms_map (ms_expired mo m st) = (ms_map st)(bid_key m := None)"
      using take(1) b(2) by (intro ms_map_take [OF core core']) (simp add: st')
    ultimately show ?thesis by simp
  qed
  then show "ms_core M B (ms_expired mo m st)" "ms_map (ms_expired mo m st) = (ms_map st)(bid_key m := None)" by auto
  show "ms_list (ms_expired mo m st) = ms_list st"
    by (simp add: ms_expired_def ms_forget_length_def Let_def split: option.splits)
qed

lemma ms_expired_all:
  assumes "steady M B" and "mo \<in> M" and "ms_core M B st" and "set gone \<subseteq> metas M B"
  shows "ms_core M B (foldl (\<lambda>s m. ms_expired mo m s) st gone)
    \<and> ms_map (foldl (\<lambda>s m. ms_expired mo m s) st gone) = ms_map st |` (- bid_key ` set gone)
    \<and> ms_list (foldl (\<lambda>s m. ms_expired mo m s) st gone) = ms_list st"
  using assms(3,4)
proof (induction gone arbitrary: st)
  case (Cons m gone)
  have m: "m \<in> metas M B" using Cons.prems by simp
  note e = ms_expired_core [OF assms(1) Cons.prems(1) assms(2) m]
  have "(ms_map st)(bid_key m := None) |` (- bid_key ` set gone) = ms_map st |` (- bid_key ` set (m # gone))"
    by (auto simp: restrict_map_def)
  moreover have "set gone \<subseteq> metas M B" using Cons.prems(2) by simp
  ultimately show ?case using Cons.IH [OF e(1)] unfolding e(2,3) foldl.simps by metis
qed (auto simp: restrict_map_def)

text \<open>The computed expiry time of the stored bundles.\<close>

lemma expiry_of:
  assumes U: "steady M B" and inv: "ms_inv M B st" and mo: "mo \<in> M" and x: "x \<in> set (lst_public (ms_list st))"
    and b: "b \<in> set (ms_bundles st)" and k: "bid_key x = bundle_key b"
  shows "m_expiretime x = m_expiretime (meta_at mo b)"
proof -
  have "x \<in> metas M B" "meta_at mo b \<in> metas M B"
    using inv x b mo by (auto simp: ms_inv_def lst_inv_def ms_core_def metas_def)
  then show ?thesis using steady_metas [OF U] k unfolding meta_consistent_def by (metis meta_at_key(1))
qed

lemma ms_tick_inv:
  assumes U: "steady M B" and inv: "ms_inv M B st" and mo: "mo \<in> M" and q: "\<not> clk_quality_zero (mo_clock mo)"
    and r: "ms_tick mo ts st = (st', evs)"
  shows "ms_inv M B st'"
    and "ms_map st' = (\<lambda>k. case ms_map st k of None \<Rightarrow> None
           | Some b \<Rightarrow> if m_expiretime (meta_at mo b) < ts then None else Some b)"
proof -
  have core: "ms_core M B st" and lst: "lst_inv (metas M B) (ms_list st)"
    and keys: "bid_key ` set (lst_public (ms_list st)) = bundle_key ` set (ms_bundles st)"
    using inv by (auto simp: ms_inv_def)
  obtain l gone where e: "lst_expire (mo_clock mo) ts (ms_list st) = (l, gone)" by fastforce
  note ex = lst_expire_inv [OF steady_metas [OF U] lst q e]
  let ?st = "st\<lparr>ms_list := l\<rparr>"
  have st': "st' = foldl (\<lambda>s m. ms_expired mo m s) ?st gone" using r e by (simp add: ms_tick_def)
  have "ms_core M B ?st" "set gone \<subseteq> metas M B" using core ex(2) lst by (auto simp: ms_core_def lst_inv_def)
  from ms_expired_all [OF U mo this] have f: "ms_core M B st'" "ms_map st' = ms_map st |` (- bid_key ` set gone)"
      "ms_list st' = l" unfolding st' [symmetric] by (simp_all add: ms_map_def)
  have gone: "bundle_key b \<in> bid_key ` set gone \<longleftrightarrow> m_expiretime (meta_at mo b) < ts" if b: "b \<in> set (ms_bundles st)" for b
  proof -
    have "bundle_key b \<in> bid_key ` set (lst_public (ms_list st))" unfolding keys using b by (rule imageI)
    then obtain x where x: "x \<in> set (lst_public (ms_list st))" "bid_key x = bundle_key b" by (rule imageE) simp
    have same: "m_expiretime y = m_expiretime (meta_at mo b)" if "y \<in> set (lst_public (ms_list st))" "bid_key y = bundle_key b" for y
      by (rule expiry_of [OF U inv mo that(1) b that(2)])
    show ?thesis
    proof
      assume "bundle_key b \<in> bid_key ` set gone"
      then obtain y where "y \<in> set gone" "bid_key y = bundle_key b" by (rule imageE) simp
      then show "m_expiretime (meta_at mo b) < ts" using same [of y] ex(2) by simp
    next
      assume "m_expiretime (meta_at mo b) < ts"
      then have "x \<in> set gone" using same [OF x] x(1) ex(2) by simp
      then show "bundle_key b \<in> bid_key ` set gone" unfolding x(2) [symmetric] by (rule imageI)
    qed
  qed
  have map: "ms_map st' k = (case ms_map st k of None \<Rightarrow> None
      | Some b \<Rightarrow> if m_expiretime (meta_at mo b) < ts then None else Some b)" for k
  proof (cases "ms_map st k")
    case None
    then show ?thesis by (simp add: f(2) restrict_map_def)
  next
    case (Some b)
    then have "b \<in> set (ms_bundles st)" "bundle_key b = k" using ms_map_eq [OF core] by auto
    then show ?thesis using gone [of b] Some by (simp add: f(2) restrict_map_def)
  qed
  then show "ms_map st' = (\<lambda>k. case ms_map st k of None \<Rightarrow> None
      | Some b \<Rightarrow> if m_expiretime (meta_at mo b) < ts then None else Some b)" by blast
  have "k \<in> bid_key ` set (lst_public l) \<longleftrightarrow> k \<in> dom (ms_map st')" for k
  proof
    assume "k \<in> bid_key ` set (lst_public l)"
    then obtain y where y: "y \<in> set (lst_public (ms_list st))" "ts \<le> m_expiretime y" "bid_key y = k"
      using ex(3) by auto
    then have "k \<in> bundle_key ` set (ms_bundles st)" unfolding keys [symmetric] by blast
    then obtain b where b: "b \<in> set (ms_bundles st)" "bundle_key b = k" by blast
    then have "ms_map st k = Some b" "m_expiretime y = m_expiretime (meta_at mo b)"
      using ms_map_eq [OF core] expiry_of [OF U inv mo y(1) b(1)] y(3) by auto
    then show "k \<in> dom (ms_map st')" using y(2) map [of k] by (simp add: domIff not_less)
  next
    assume "k \<in> dom (ms_map st')"
    then obtain b where b: "ms_map st k = Some b" "ts \<le> m_expiretime (meta_at mo b)"
      using map [of k] by (auto simp: domIff not_less split: option.splits if_splits)
    then have b': "b \<in> set (ms_bundles st)" "bundle_key b = k" using ms_map_eq [OF core] by auto
    then have "k \<in> bid_key ` set (lst_public (ms_list st))" unfolding keys by blast
    then obtain x where x: "x \<in> set (lst_public (ms_list st))" "bid_key x = k" by blast
    then have "m_expiretime x = m_expiretime (meta_at mo b)" using expiry_of [OF U inv mo x(1) b'(1)] b'(2) by simp
    then show "k \<in> bid_key ` set (lst_public l)" using x b(2) ex(3) by auto
  qed
  then have "bid_key ` set (lst_public (ms_list st')) = bundle_key ` set (ms_bundles st')"
    using dom_ms_map [OF f(1)] f(3) by blast
  then show "ms_inv M B st'" using f ex(1) by (simp add: ms_inv_def)
qed

section \<open>Accounting\<close>

text \<open>The size in use is the sum of the lengths of the bundles, as recorded in the table.\<close>

definition ms_used :: "mem_storage \<Rightarrow> nat" where
  "ms_used st = sum_list (map (\<lambda>b. unat (ms_length b)) (ms_bundles st))"

definition ms_acc :: "mem_storage \<Rightarrow> bool" where
  "ms_acc st \<longleftrightarrow> unat (ms_currentsize st) = ms_used st \<and> ms_used st \<le> unat (ms_maxsize st)
     \<and> (\<forall>b \<in> set (ms_bundles st). kmap bid_key (ms_bundle_lengths st) (bundle_key b) = Some (ms_length b))"

lemma sum_insert:
  "length (oset_insert lt x xs) \<noteq> length xs \<Longrightarrow>
     sum_list (map f (oset_insert lt x xs)) = (f x :: nat) + sum_list (map f xs)"
  by (induction xs) (auto split: if_splits)

lemma acc_take:
  assumes "ms_acc st" and b: "b \<in> set (ms_bundles st)" and "ms_bundles st' = remove1 b (ms_bundles st)"
    and "ms_currentsize st' = ms_currentsize st - ms_length b" and "ms_maxsize st' = ms_maxsize st"
    and keep: "\<And>x. x \<in> set (ms_bundles st') \<Longrightarrow>
      kmap bid_key (ms_bundle_lengths st') (bundle_key x) = kmap bid_key (ms_bundle_lengths st) (bundle_key x)"
  shows "ms_acc st'"
proof -
  have used: "ms_used st = unat (ms_length b) + ms_used st'"
    using sum_list_map_remove1 [OF b, of "\<lambda>b. unat (ms_length b)"] assms(3) by (simp add: ms_used_def)
  then have "ms_length b \<le> ms_currentsize st" using assms(1) by (simp add: ms_acc_def word_le_nat_alt)
  then have "unat (ms_currentsize st') = ms_used st'"
    using assms(1,4) used by (simp add: ms_acc_def unat_sub)
  moreover have "set (ms_bundles st') \<subseteq> set (ms_bundles st)" using assms(3) by (simp add: set_remove1_subset)
  ultimately show ?thesis using assms(1,5) keep used by (auto simp: ms_acc_def)
qed

lemma ms_forget_lengths:
  assumes U: "steady M B" and core: "ms_core M B st" and acc: "ms_acc st" and b: "b \<in> set (ms_bundles st)"
  shows "ms_currentsize (ms_forget_length b st) = ms_currentsize st - ms_length b"
    and "bundle_key x \<noteq> bundle_key b \<Longrightarrow>
      kmap bid_key (ms_bundle_lengths (ms_forget_length b st)) (bundle_key x) = kmap bid_key (ms_bundle_lengths st) (bundle_key x)"
proof -
  have B: "b \<in> B" and sorted: "key_sorted bid_key (map fst (ms_bundle_lengths st))"
    using core b by (auto simp: ms_core_def)
  note fit = lengths_fit [OF U core B]
  have "omap_find bid_less (bid_of_bundle b) (ms_bundle_lengths st) = Some (ms_length b)"
    using bid.omap_find_kmap [OF sorted fit] acc b by (simp add: ms_acc_def bundle_key_def)
  then show "ms_currentsize (ms_forget_length b st) = ms_currentsize st - ms_length b"
    by (simp add: ms_forget_length_def)
  show "kmap bid_key (ms_bundle_lengths (ms_forget_length b st)) (bundle_key x)
      = kmap bid_key (ms_bundle_lengths st) (bundle_key x)" if "bundle_key x \<noteq> bundle_key b"
    using bid.omap_erase_kmap [OF sorted fit] that by (simp add: ms_forget_length_def Let_def bundle_key_def)
qed

lemma ms_store_acc:
  assumes U: "steady M B" and inv: "ms_inv M B st" and acc: "ms_acc st" and b: "b \<in> B" "mo \<in> M"
    and fresh: "bundle_key b \<notin> dom (ms_map st)" and pos: "0 < ms_maxsize st"
    and room: "unat (ms_maxsize st) + unat (ms_length b) < 2 ^ 64" and r: "ms_store mo b st = Inr st'"
  shows "ms_acc st'"
proof -
  have core: "ms_core M B st" using inv by (simp add: ms_inv_def)
  have sorted: "key_sorted bundle_key (ms_bundles st)" "key_sorted bid_key (map fst (ms_bundle_lengths st))"
    using core by (auto simp: ms_core_def)
  have fresh': "bundle_key b \<notin> bundle_key ` set (ms_bundles st)" using fresh dom_ms_map [OF core] by simp
  have ins: "length (oset_insert primary_less b (ms_bundles st)) \<noteq> length (ms_bundles st)"
      "set (oset_insert primary_less b (ms_bundles st)) = insert b (set (ms_bundles st))"
    using stored.insert_length [OF sorted(1) core_fit(1) [OF U core b]] fresh'
      stored.insert_set [OF sorted(1) core_fit(1) [OF U core b]] by auto
  have le: "ms_currentsize st + ms_length b \<le> ms_maxsize st"
    and st': "ms_bundles st' = oset_insert primary_less b (ms_bundles st)" "ms_maxsize st' = ms_maxsize st"
      "ms_currentsize st' = ms_currentsize st + ms_length b"
      "ms_bundle_lengths st' = omap_update bid_less (bid_of_bundle b) (ms_length b) (ms_bundle_lengths st)"
    using r pos ins(1) by (auto simp: ms_store_def Let_def split: if_splits)
  have "unat (ms_currentsize st) + unat (ms_length b) < 2 ^ 64"
    using acc room by (simp add: ms_acc_def)
  then have "unat (ms_currentsize st') = unat (ms_currentsize st) + unat (ms_length b)"
    using st'(3) by (simp add: unat_word_ariths)
  moreover have "ms_used st' = unat (ms_length b) + ms_used st"
    using sum_insert [OF ins(1)] st'(1) by (simp add: ms_used_def)
  moreover have "kmap bid_key (ms_bundle_lengths st') = (kmap bid_key (ms_bundle_lengths st))(bundle_key b \<mapsto> ms_length b)"
    using bid.omap_update_kmap [OF sorted(2) lengths_fit [OF U core b(1)]] st'(4) by (simp add: bundle_key_def)
  moreover have "bundle_key x \<noteq> bundle_key b" if "x \<in> set (ms_bundles st)" for x
    using fresh' that by (metis imageI)
  ultimately show ?thesis
    using acc le st'(1,2,3) ins(2) by (auto simp: ms_acc_def word_le_nat_alt)
qed

lemma ms_expired_acc:
  assumes U: "steady M B" and core: "ms_core M B st" and acc: "ms_acc st" and mo: "mo \<in> M" and m: "m \<in> metas M B"
  shows "ms_acc (ms_expired mo m st)"
proof (cases "ms_find m (ms_bundles st)")
  case None
  then show ?thesis using acc by (simp add: ms_expired_def)
next
  case (Some b)
  then have b: "b \<in> set (ms_bundles st)" by (auto simp: ms_find_def find_Some_iff)
  note f = ms_forget_lengths [OF U core acc b]
  let ?st = "ms_expired mo m st"
  have st: "ms_bundles ?st = remove1 b (ms_bundles st)" "ms_currentsize ?st = ms_currentsize (ms_forget_length b st)"
      "ms_bundle_lengths ?st = ms_bundle_lengths (ms_forget_length b st)" "ms_maxsize ?st = ms_maxsize st"
    using Some by (simp_all add: ms_expired_def ms_find_def erase_first_find ms_forget_length_def Let_def)
  show ?thesis
    using f st core_take(1) [OF U core b mo] by (intro acc_take [OF acc b]) simp_all
qed

end
