(* ===== verification/StorageSpec.thy ===== *)
theory StorageSpec
  imports Storage
begin

text \<open>
  The contract of a bundle storage (\<open>daemon/src/core/BundleStorage.h\<close>) over a map from
  identifiers to bundles, its consequences for a client, and the storage in memory as an
  implementation of it in all of its histories.
\<close>

section \<open>The contract\<close>

locale bundle_store =
  fixes inv :: "'s \<Rightarrow> bool"
    and abs :: "'s \<Rightarrow> id_key \<Rightarrow> dtn_bundle option"
    and store :: "dtn_bundle \<Rightarrow> 's \<Rightarrow> storage_error + 's"
    and get :: "bundle_id \<Rightarrow> 's \<Rightarrow> storage_error + dtn_bundle"
    and remove :: "bundle_id \<Rightarrow> 's \<Rightarrow> storage_error + 's"
    and clear :: "'s \<Rightarrow> 's"
    and ok :: "dtn_bundle \<Rightarrow> bool"
    and fits :: "bundle_id \<Rightarrow> bool"
  assumes store_law: "inv s \<Longrightarrow> ok b \<Longrightarrow> store b s = Inr s' \<Longrightarrow>
      inv s' \<and> abs s' = (if bundle_key b \<in> dom (abs s) then abs s else (abs s)(bundle_key b \<mapsto> b))"
    and get_law: "inv s \<Longrightarrow> fits i \<Longrightarrow>
      get i s = (case abs s (bid_key i) of Some b \<Rightarrow> Inr b | None \<Rightarrow> Inl NoBundleFoundException)"
    and remove_law: "inv s \<Longrightarrow> fits i \<Longrightarrow> remove i s = Inr s' \<Longrightarrow> inv s' \<and> abs s' = (abs s)(bid_key i := None)"
    and remove_fails: "inv s \<Longrightarrow> fits i \<Longrightarrow>
      remove i s = Inl e \<longleftrightarrow> abs s (bid_key i) = None \<and> e = NoBundleFoundException"
    and clear_law: "inv s \<Longrightarrow> inv (clear s) \<and> abs (clear s) = Map.empty"
begin

lemma get_stored:
  assumes "inv s" and "ok b" and "fits i" and "bid_key i = bundle_key b" and "store b s = Inr s'"
  shows "get i s' = (case abs s (bundle_key b) of None \<Rightarrow> Inr b | Some old \<Rightarrow> Inr old)"
  using get_law [of s' i] store_law [OF assms(1,2,5)] assms(3,4) by (auto split: option.splits)

lemma get_other:
  assumes "inv s" and "ok b" and "fits i" and "bid_key i \<noteq> bundle_key b" and "store b s = Inr s'"
  shows "get i s' = get i s"
  using get_law [of s' i] get_law [of s i] store_law [OF assms(1,2,5)] assms(1,3,4) by auto

lemma get_removed:
  assumes "inv s" and "fits i" and "remove i s = Inr s'"
  shows "get i s' = Inl NoBundleFoundException \<and> remove i s' = Inl NoBundleFoundException"
  using get_law [of s' i] remove_law [OF assms(1,2,3)] remove_fails [of s' i] assms(2) by auto

lemma store_remove:
  assumes "inv s" and "ok b" and "fits i" and "bid_key i = bundle_key b" and "abs s (bid_key i) = None"
    and "store b s = Inr s'"
  shows "\<exists>s''. remove i s' = Inr s'' \<and> inv s'' \<and> abs s'' = abs s"
proof -
  have s': "inv s'" "abs s' = (abs s)(bid_key i \<mapsto> b)"
    using store_law [OF assms(1,2,6)] assms(4,5) by (auto simp: domIff)
  then obtain s'' where "remove i s' = Inr s''"
    using remove_fails [OF s'(1) assms(3)] by (cases "remove i s'") auto
  then show ?thesis
    using remove_law [OF s'(1) assms(3)] s'(2) assms(5) by (auto simp: fun_upd_idem)
qed

end

lemma ms_clear_inv: "ms_inv M B (ms_clear st)" "ms_map (ms_clear st) = Map.empty"
  by (simp_all add: ms_inv_def ms_core_def ms_clear_def lst_inv_def lst_clear_def ms_map_def)

lemma ms_remove_fails:
  assumes "ms_core M B st" and "id_fits i B"
  shows "ms_remove mo i st = Inl e \<longleftrightarrow> ms_map st (bid_key i) = None \<and> e = NoBundleFoundException"
  using ms_find_map [OF assms] by (auto simp: ms_remove_def split: option.splits)

interpretation mem: bundle_store "\<lambda>st. steady M B \<and> mo \<in> M \<and> ms_inv M B st" ms_map "ms_store mo" ms_get "ms_remove mo"
  ms_clear "\<lambda>b. b \<in> B" "\<lambda>i. id_fits i B" for M B mo
proof (unfold_locales, goal_cases)
  case (1 s b s')
  then show ?case using ms_store_inv [of M B s b mo s'] by blast
next
  case (2 s i)
  then show ?case using ms_get_map [of M B s i] by (simp add: ms_inv_def)
next
  case (3 s i s')
  then show ?case using ms_remove_inv [of M B s mo i s'] by blast
next
  case (4 s i e)
  then show ?case using ms_remove_fails [of M B s i mo e] by (simp add: ms_inv_def)
next
  case (5 s)
  then show ?case using ms_clear_inv by blast
qed

section \<open>Histories\<close>

text \<open>Successful operations; \<open>dup\<close> allows a bundle to be stored while it is in the storage.\<close>

inductive ms_step :: "bool \<Rightarrow> moment set \<Rightarrow> dtn_bundle set \<Rightarrow> mem_storage \<Rightarrow> mem_storage \<Rightarrow> bool"
  for dup :: bool and M :: "moment set" and B :: "dtn_bundle set" where
  ms_step_store: "b \<in> B \<Longrightarrow> mo \<in> M \<Longrightarrow> dup \<or> bundle_key b \<notin> dom (ms_map st) \<Longrightarrow> ms_store mo b st = Inr st' \<Longrightarrow>
    ms_step dup M B st st'"
| ms_step_remove: "mo \<in> M \<Longrightarrow> id_fits (i :: bundle_id) B \<Longrightarrow> ms_remove mo i st = Inr st' \<Longrightarrow> ms_step dup M B st st'"
| ms_step_filter: "mo \<in> M \<Longrightarrow> ms_remove_filter mo contains st = Inr st' \<Longrightarrow> ms_step dup M B st st'"
| ms_step_tick: "mo \<in> M \<Longrightarrow> ms_tick mo ts st = (st', evs) \<Longrightarrow> ms_step dup M B st st'"
| ms_step_clear: "ms_step dup M B st (ms_clear st)"

inductive_cases ms_stepE: "ms_step dup M B st st'"

lemma ms_tick_zero: "clk_quality_zero (mo_clock mo) \<Longrightarrow> ms_tick mo ts st = (st, [])"
  by (simp add: ms_tick_def lst_expire_def)

lemma ms_step_inv:
  assumes "ms_step dup M B st st'" and "steady M B" and "ms_inv M B st"
  shows "ms_inv M B st'"
  using assms(1)
proof (cases rule: ms_step.cases)
  case (ms_step_tick mo ts evs)
  then show ?thesis
    using ms_tick_inv(1) [OF assms(2,3), of mo ts st' evs] ms_tick_zero [of mo ts st] assms(3)
    by (cases "clk_quality_zero (mo_clock mo)") auto
next
  case (ms_step_store b mo)
  then show ?thesis by (intro ms_store_inv(1) [OF assms(2,3)])
next
  case (ms_step_remove mo i)
  then show ?thesis by (intro ms_remove_inv(1) [OF assms(2,3)])
next
  case (ms_step_filter mo contains)
  then show ?thesis by (intro ms_remove_filter_inv(1) [OF assms(2,3)])
next
  case ms_step_clear
  then show ?thesis by (simp add: ms_clear_inv)
qed

lemma ms_reachable_inv:
  assumes "(ms_step dup M B)\<^sup>*\<^sup>* (ms_new n) st" and "steady M B"
  shows "ms_inv M B st"
  using assms(1) by (induction rule: rtranclp_induct) (auto intro: ms_inv_new ms_step_inv assms(2))





section \<open>Correctness\<close>

text \<open>C32: in every history of the storage in memory over bundles none of which is together with a fragment of its own,
  where an identifier has one expiry time at all moments (\<open>steady\<close>), its operations are, at a moment at which the clock has
  a quality (with none nothing expires), those of a finite map from identifiers to bundles: \<open>store\<close> adds a bundle unless its identifier is taken, \<open>get\<close> looks
  it up, \<open>remove\<close> deletes it or fails when it is missing, a tick of the clock deletes exactly the
  expired bundles, and the number of bundles is the number of entries.\<close>

theorem storage_refines_map:
  assumes reach: "(ms_step dup M B)\<^sup>*\<^sup>* (ms_new n) st" and U: "steady M B" and mo: "mo \<in> M"
    and q: "\<not> clk_quality_zero (mo_clock mo)" and b: "b \<in> B" and i: "id_fits (i :: bundle_id) B"
  shows "(\<forall>st'. ms_store mo b st = Inr st' \<longrightarrow>
            ms_map st' = (if bundle_key b \<in> dom (ms_map st) then ms_map st else (ms_map st)(bundle_key b \<mapsto> b)))
    \<and> ms_get i st = (case ms_map st (bid_key i) of Some x \<Rightarrow> Inr x | None \<Rightarrow> Inl NoBundleFoundException)
    \<and> (case ms_remove mo i st of Inl e \<Rightarrow> ms_map st (bid_key i) = None \<and> e = NoBundleFoundException
         | Inr st' \<Rightarrow> ms_map st' = (ms_map st)(bid_key i := None))
    \<and> ms_map (fst (ms_tick mo ts st)) = (\<lambda>k. case ms_map st k of None \<Rightarrow> None
         | Some x \<Rightarrow> if m_expiretime (meta_at mo x) < ts then None else Some x)
    \<and> ms_map (ms_clear st) = Map.empty \<and> ms_count st = card (dom (ms_map st))"
proof -
  have inv: "ms_inv M B st" by (rule ms_reachable_inv [OF reach U])
  then have core: "ms_core M B st" by (simp add: ms_inv_def)
  have m: "steady M B \<and> mo \<in> M \<and> ms_inv M B st" using U mo inv by blast
  obtain st1 evs where t: "ms_tick mo ts st = (st1, evs)" by fastforce
  have "card (dom (ms_map st)) = ms_count st"
    using core_distinct [OF core] dom_ms_map [OF core]
    by (metis distinct_card length_map ms_count_def set_map)
  moreover have "case ms_remove mo i st of Inl e \<Rightarrow> ms_map st (bid_key i) = None \<and> e = NoBundleFoundException
      | Inr st' \<Rightarrow> ms_map st' = (ms_map st)(bid_key i := None)"
    using mem.remove_law [OF m i] mem.remove_fails [OF m i] by (cases "ms_remove mo i st") auto
  ultimately show ?thesis
    using mem.store_law [OF m b] mem.get_law [OF m i] ms_tick_inv(2) [OF U inv mo q t] t ms_clear_inv(2) by simp
qed

text \<open>A storage of one bundle.\<close>

definition sample_moment :: moment where
  "sample_moment = \<lparr>mo_clock = sample_clock, mo_sys = \<lparr>tv_sec = 0, tv_usec = 0\<rparr>, mo_elapsed = (\<lambda>_. 0), mo_now = sample_time\<rparr>"

definition sample_storage :: mem_storage where
  "sample_storage = projr (ms_store sample_moment sample_bundle (ms_new 1000))"

lemma sample_steady: "steady {sample_moment} {sample_bundle}"
  by (simp add: steady_def bundle_compat_def bid_compat_def bid_of_bundle_def)

lemma sample_fits: "id_fits (bid_of_bundle sample_bundle) {sample_bundle}"
  by (simp add: id_fits_def bid_compat_def bid_of_bundle_def)

lemma sample_length: "ms_length sample_bundle = 46"
  by code_simp

lemma sample_storage_store: "ms_store sample_moment sample_bundle (ms_new 1000) = Inr sample_storage"
  by (simp add: sample_storage_def ms_store_def sample_length ms_new_def)

lemma sample_storage_reached: "(ms_step dup {sample_moment} {sample_bundle})\<^sup>*\<^sup>* (ms_new 1000) sample_storage"
  by (rule r_into_rtranclp, rule ms_step_store [OF _ _ _ sample_storage_store]) (simp_all add: ms_map_def ms_new_def)

lemma sample_storage_holds: "ms_bundles sample_storage = [sample_bundle]" "ms_size sample_storage = 46" "ms_maxsize sample_storage = 1000"
  by (simp_all add: sample_storage_def ms_store_def sample_length ms_new_def ms_size_def)

theorem storage_refines_map_witness:
  "ms_get (bid_of_bundle sample_bundle) sample_storage = Inr sample_bundle \<and> ms_count sample_storage = 1
   \<and> ms_map (fst (ms_tick sample_moment 5000 sample_storage)) (bundle_key sample_bundle) = None"
proof -
  have "\<not> clk_quality_zero (mo_clock sample_moment)" by (simp add: sample_moment_def sample_clock_def)
  from storage_refines_map [OF sample_storage_reached [of True] sample_steady _ this _ sample_fits,
      of sample_bundle 5000]
  have "ms_get (bid_of_bundle sample_bundle) sample_storage
      = (case ms_map sample_storage (bundle_key sample_bundle) of Some x \<Rightarrow> Inr x | None \<Rightarrow> Inl NoBundleFoundException)"
    "ms_map (fst (ms_tick sample_moment 5000 sample_storage)) = (\<lambda>k. case ms_map sample_storage k of None \<Rightarrow> None
         | Some x \<Rightarrow> if m_expiretime (meta_at sample_moment x) < 5000 then None else Some x)"
    "ms_count sample_storage = card (dom (ms_map sample_storage))"
    by (simp_all add: bundle_key_def)
  moreover have "m_expiretime (meta_at sample_moment sample_bundle) < 5000" by code_simp
  ultimately show ?thesis by (simp add: ms_map_def sample_storage_holds)
qed

section \<open>Size\<close>



text \<open>Storing a bundle that is already there changes neither the bundles nor the indices, but its
  length is added to the size in use; removing the bundle takes it off only once, so an empty
  storage still counts it.\<close>

theorem storage_duplicate_leak:
  assumes reach: "(ms_step dup M B)\<^sup>*\<^sup>* (ms_new n) st" and U: "steady M B" and b: "b \<in> B" "mo \<in> M"
    and there: "bundle_key b \<in> dom (ms_map st)" and r: "ms_store mo b st = Inr st'"
  shows "ms_bundles st' = ms_bundles st \<and> ms_priority_index st' = ms_priority_index st \<and> ms_list st' = ms_list st
    \<and> ms_size st' = ms_size st + ms_length b
    \<and> (ms_bundles st = [b] \<longrightarrow> (\<exists>st''. ms_remove mo (bid_of_bundle b) st' = Inr st'' \<and> ms_empty st'' \<and> ms_size st'' = ms_size st))"
proof -
  have core: "ms_core M B st" using ms_reachable_inv [OF reach U] by (simp add: ms_inv_def)
  have "length (oset_insert primary_less b (ms_bundles st)) = length (ms_bundles st)"
    using stored.insert_length [OF _ core_fit(1) [OF U core b]] core there dom_ms_map [OF core]
    by (auto simp: ms_core_def)
  then have st': "st' = st\<lparr>ms_currentsize := ms_currentsize st + ms_length b,
      ms_bundle_lengths := omap_update bid_less (bid_of_bundle b) (ms_length b) (ms_bundle_lengths st)\<rparr>"
    using r by (auto simp: ms_store_def Let_def split: if_splits)
  have "bid_eq (bid_of_bundle b) (bid_of_bundle b)"
    using bid_eq_key [of "bid_of_bundle b" "bid_of_bundle b"] U b by (simp add: steady_def bundle_compat_def)
  then show ?thesis by (auto simp: st' ms_size_def ms_remove_def ms_find_def ms_empty_def)
qed

lemma ms_store_accepts: "ms_size st + ms_length b \<le> ms_maxsize st \<Longrightarrow> \<exists>st'. ms_store mo b st = Inr st'"
  by (auto simp: ms_store_def ms_size_def Let_def)

theorem storage_duplicate_leak_witness:
  "\<exists>st' st''. ms_store sample_moment sample_bundle sample_storage = Inr st'
     \<and> ms_remove sample_moment (bid_of_bundle sample_bundle) st' = Inr st'' \<and> ms_empty st'' \<and> ms_size st'' = 46"
proof -
  obtain st' where st': "ms_store sample_moment sample_bundle sample_storage = Inr st'"
    using ms_store_accepts [of sample_storage sample_bundle] by (auto simp: sample_storage_holds(2,3) sample_length)
  have "bundle_key sample_bundle \<in> dom (ms_map sample_storage)" by (simp add: ms_map_def sample_storage_holds)
  from storage_duplicate_leak [OF sample_storage_reached [of True] sample_steady _ _ this st'] st' show ?thesis
    by (simp add: sample_storage_holds)
qed

section \<open>Queries\<close>

lemma ms_select_take:
  "ms_select limit P result ms
    = result @ (if limit = 0 then filter P ms else take (limit - length result) (filter P ms))"
  by (induction limit P result ms rule: ms_select.induct) (auto simp: Suc_diff_le not_less take_Cons')

lemma priority_sorted:
  assumes "key_sorted priority_key ms"
  shows "sorted_wrt (\<lambda>a b. meta_getPriority b \<le> meta_getPriority a) ms"
  using assms by (induction ms) (auto simp: priority_key_def less_prod_def)

lemma core_pkeys_distinct: "ms_core M B st \<Longrightarrow> distinct (map bundle_pkey (ms_bundles st))"
  using core_distinct [of M B st] by (auto simp: distinct_map inj_on_def bundle_pkey_def)

lemma index_keys:
  assumes core: "ms_core M B st"
  shows "bid_key ` set (ms_priority_index st) = bundle_key ` set (ms_bundles st)" and "distinct (map bid_key (ms_priority_index st))"
proof -
  have s: "key_sorted priority_key (ms_priority_index st)"
    and keys: "priority_key ` set (ms_priority_index st) = bundle_pkey ` set (ms_bundles st)"
    using core by (auto simp: ms_core_def)
  have "snd ` priority_key ` set (ms_priority_index st) = snd ` bundle_pkey ` set (ms_bundles st)"
    using keys by simp
  then show ids: "bid_key ` set (ms_priority_index st) = bundle_key ` set (ms_bundles st)"
    by (simp add: image_image priority_key_def bundle_pkey_def)
  have "length (ms_priority_index st) = length (ms_bundles st)"
    using keys priority.distinct_keys [OF s] core_pkeys_distinct [OF core]
    by (metis distinct_card length_map set_map)
  then show "distinct (map bid_key (ms_priority_index st))"
    using ids core_distinct [OF core] by (metis card_distinct distinct_card length_map set_map)
qed

text \<open>A query returns the first bundles the filter accepts, as many as the limit allows and all
  of them when it is zero, among exactly the stored bundles in the order of falling priority.\<close>

theorem storage_query:
  assumes reach: "(ms_step dup M B)\<^sup>*\<^sup>* (ms_new n) st" and U: "steady M B"
  shows "ms_query limit P st
      = (if limit = 0 then filter P (ms_priority_index st) else take limit (filter P (ms_priority_index st)))
    \<and> bid_key ` set (ms_priority_index st) = dom (ms_map st) \<and> distinct (map bid_key (ms_priority_index st))
    \<and> sorted_wrt (\<lambda>x y. meta_getPriority y \<le> meta_getPriority x) (ms_query limit P st)"
proof -
  have core: "ms_core M B st" using ms_reachable_inv [OF reach U] by (simp add: ms_inv_def)
  then have s: "key_sorted priority_key (ms_priority_index st)" by (simp add: ms_core_def)
  have "sorted_wrt (\<lambda>x y. meta_getPriority y \<le> meta_getPriority x) (filter P (ms_priority_index st))"
    using priority_sorted [OF s] by (rule sorted_wrt_filter)
  then show ?thesis
    using index_keys [OF core] dom_ms_map [OF core] by (auto simp: ms_query_def ms_select_take intro: sorted_wrt_take)
qed

theorem storage_query_witness:
  "ms_query 1 (\<lambda>m. m_lifetime m = 3600) sample_storage = [meta_at sample_moment sample_bundle]
   \<and> ms_query 0 (\<lambda>m. m_lifetime m = 7) sample_storage = []"
proof -
  have "ms_priority_index sample_storage = [meta_at sample_moment sample_bundle]"
    by (simp add: sample_storage_def ms_store_def sample_length ms_new_def)
  moreover have "m_lifetime (meta_at sample_moment sample_bundle) = 3600" by code_simp
  ultimately show ?thesis
    using storage_query [OF sample_storage_reached [of True] sample_steady] by simp
qed

end
