(* ===== verification/Routing.thy ===== *)
theory Routing
  imports Neighbors StorageSpec
begin

text \<open>
  The search of the routing extensions for bundles to send to a neighbor: epidemic
  (\<open>daemon/src/routing/epidemic/EpidemicRoutingExtension.cpp\<close>), flooding
  (\<open>daemon/src/routing/flooding/FloodRoutingExtension.cpp\<close>), static
  (\<open>daemon/src/routing/StaticRoutingExtension.cpp\<close>) and direct
  (\<open>daemon/src/routing/NeighborRoutingExtension.cpp\<close>), over the storage in memory and the
  neighbor database.
\<close>

section \<open>Filters\<close>

datatype route_error =
    NeighborError neighbor_error
  | EidError ibr_error
  | StorageError storage_error

text \<open>A query whose filter may throw; the exception leaves the query.\<close>

fun query_try :: "nat \<Rightarrow> (meta_bundle \<Rightarrow> route_error + bool) \<Rightarrow> meta_bundle list \<Rightarrow> meta_bundle list
    \<Rightarrow> route_error + meta_bundle list" where
  "query_try limit shouldAdd result [] = Inr result"
| "query_try limit shouldAdd result (m # ms) =
     (if limit = 0 \<or> length result < limit then
        (case shouldAdd m of
           Inl e \<Rightarrow> Inl e
         | Inr add \<Rightarrow> query_try limit shouldAdd (if add then result @ [m] else result) ms)
      else Inr result)"

definition query_storage :: "nat \<Rightarrow> (meta_bundle \<Rightarrow> route_error + bool) \<Rightarrow> mem_storage \<Rightarrow> route_error + meta_bundle list" where
  "query_storage limit shouldAdd st = query_try limit shouldAdd [] (ms_priority_index st)"

definition entry_has :: "'f bloom \<Rightarrow> meta_bundle \<Rightarrow> bool \<Rightarrow> 'f neighbor_entry \<Rightarrow> route_error + bool" where
  "entry_has F m req e = (case ne_has F m req e of Inl x \<Rightarrow> Inl (NeighborError x) | Inr known \<Rightarrow> Inr known)"

text \<open>\<open>local\<close> is \<open>BundleCore::local\<close>, the identifier of the node.\<close>

definition epidemic_shouldAdd :: "'f bloom \<Rightarrow> eid \<Rightarrow> eid list \<Rightarrow> 'f neighbor_entry \<Rightarrow> meta_bundle \<Rightarrow> route_error + bool" where
  "epidemic_shouldAdd F local blacklist entry m =
     (if m_hopcount m = 0 then Inr False
      else (case eid_getApplication (id_source m) of
              Inl x \<Rightarrow> Inl (EidError x)
            | Inr app \<Rightarrow>
                (if app = ''/routing'' then Inr False
                 else (case eid_getNode (m_destination m) of
                         Inl x \<Rightarrow> Inl (EidError x)
                       | Inr dest \<Rightarrow>
                           (if dest = local \<and> meta_get DESTINATION_IS_SINGLETON m then Inr False
                            else if m_hopcount m \<le> 1 \<and> meta_get DESTINATION_IS_SINGLETON m then Inr False
                            else if oset_mem eid_less dest blacklist then Inr False
                            else (case entry_has F m True entry of
                                    Inl x \<Rightarrow> Inl x
                                  | Inr known \<Rightarrow> Inr (\<not> known)))))))"

definition flood_shouldAdd :: "'f bloom \<Rightarrow> eid \<Rightarrow> eid list \<Rightarrow> 'f neighbor_entry \<Rightarrow> meta_bundle \<Rightarrow> route_error + bool" where
  "flood_shouldAdd F local blacklist entry m =
     (if m_hopcount m = 0 then Inr False
      else (case eid_getNode (m_destination m) of
              Inl x \<Rightarrow> Inl (EidError x)
            | Inr dest \<Rightarrow>
                (if dest = local \<and> meta_get DESTINATION_IS_SINGLETON m then Inr False
                 else if m_hopcount m \<le> 1 \<and> meta_get DESTINATION_IS_SINGLETON m then Inr False
                 else if oset_mem eid_less dest blacklist then Inr False
                 else (case entry_has F m False entry of
                         Inl x \<Rightarrow> Inl x
                       | Inr known \<Rightarrow> Inr (\<not> known)))))"

text \<open>
  A static route: its next hop, and its regular expression as the predicate on strings that
  \<open>regexec\<close> of the C library decides; a route whose expression does not compile is invalid.
\<close>

record static_route =
  sr_dest :: eid
  sr_invalid :: bool
  sr_regex :: "string \<Rightarrow> bool"

definition sr_match :: "static_route \<Rightarrow> eid \<Rightarrow> bool" where
  "sr_match route e = (if sr_invalid route then False else sr_regex route (eid_getString e))"

definition static_shouldAdd ::
  "'f bloom \<Rightarrow> eid list \<Rightarrow> static_route list \<Rightarrow> 'f neighbor_entry \<Rightarrow> meta_bundle \<Rightarrow> route_error + bool" where
  "static_shouldAdd F blacklist routes entry m =
     (case eid_getNode (m_destination m) of
        Inl x \<Rightarrow> Inl (EidError x)
      | Inr dest \<Rightarrow>
          (if oset_mem eid_less dest blacklist then Inr False
           else (case entry_has F m False entry of
                   Inl x \<Rightarrow> Inl x
                 | Inr known \<Rightarrow> (if known then Inr False else Inr (list_ex (\<lambda>r. sr_match r (m_destination m)) routes)))))"

definition neighbor_shouldAdd :: "eid \<Rightarrow> meta_bundle \<Rightarrow> route_error + bool" where
  "neighbor_shouldAdd destination m =
     (case eid_getNode destination of
        Inl x \<Rightarrow> Inl (EidError x)
      | Inr d \<Rightarrow>
          (case eid_getNode (m_destination m) of
             Inl x \<Rightarrow> Inl (EidError x)
           | Inr d' \<Rightarrow> Inr (d = d')))"

section \<open>Transfers\<close>

text \<open>\<open>transferTo\<close> of \<open>BaseRouter.cpp\<close> for a list of bundles: the bundles handed to the core.\<close>

definition entry_acquire :: "meta_bundle \<Rightarrow> 'f neighbor_entry \<Rightarrow> neighbor_error + 'f neighbor_entry" where
  "entry_acquire m e = ne_acquireTransfer (bundle_id.truncate m) e"

definition send_bundles :: "eid \<Rightarrow> meta_bundle list \<Rightarrow> 'f neighbor_db \<Rightarrow> meta_bundle list \<times> neighbor_error option \<times> 'f neighbor_db" where
  "send_bundles peer list db =
     (case ndb_get peer db of
        Inl x \<Rightarrow> ([], Some x, db)
      | Inr entry \<Rightarrow>
          (case transfer_list entry_acquire list entry of
             (sent, e, entry') \<Rightarrow> (sent, e, omap_update eid_less peer entry' db)))"

text \<open>
  The task \<open>SearchNextBundleTask\<close> of each extension: the bundles sent, whether a handshake is
  requested, and the database. All exceptions end in the loop of the task queue.
\<close>

definition epidemic_search ::
  "'f bloom \<Rightarrow> eid \<Rightarrow> eid \<Rightarrow> mem_storage \<Rightarrow> 'f neighbor_db \<Rightarrow> meta_bundle list \<times> bool \<times> 'f neighbor_db" where
  "epidemic_search F local peer st db =
     (case ndb_get peer db of
        Inl x \<Rightarrow> ([], False, db)
      | Inr entry \<Rightarrow>
          (case query_storage 10 (epidemic_shouldAdd F local [peer] entry) st of
             Inl (NeighborError (BloomfilterNotAvailableException _)) \<Rightarrow> ([], True, db)
           | Inl _ \<Rightarrow> ([], False, db)
           | Inr list \<Rightarrow> (case send_bundles peer list db of (sent, _, db') \<Rightarrow> (sent, False, db'))))"

definition flood_search ::
  "'f bloom \<Rightarrow> eid \<Rightarrow> eid \<Rightarrow> mem_storage \<Rightarrow> 'f neighbor_db \<Rightarrow> meta_bundle list \<times> 'f neighbor_db" where
  "flood_search F local peer st db =
     (case ndb_get peer db of
        Inl x \<Rightarrow> ([], db)
      | Inr entry \<Rightarrow>
          (case query_storage 10 (flood_shouldAdd F local [peer] entry) st of
             Inl _ \<Rightarrow> ([], db)
           | Inr list \<Rightarrow> (case send_bundles peer list db of (sent, _, db') \<Rightarrow> (sent, db'))))"

text \<open>The static and the direct extension end their thread on other exceptions (\<open>False\<close>).\<close>

definition static_search ::
  "'f bloom \<Rightarrow> static_route list \<Rightarrow> eid \<Rightarrow> mem_storage \<Rightarrow> 'f neighbor_db \<Rightarrow> meta_bundle list \<times> bool \<times> 'f neighbor_db" where
  "static_search F all_routes peer st db =
     (let routes = filter (\<lambda>r. sr_dest r = peer) all_routes
      in if routes = [] then ([], True, db)
         else case ndb_get peer db of
                Inl x \<Rightarrow> ([], True, db)
              | Inr entry \<Rightarrow>
                  (case query_storage 10 (static_shouldAdd F [peer] routes entry) st of
                     Inl (EidError x) \<Rightarrow> ([], False, db)
                   | Inl _ \<Rightarrow> ([], True, db)
                   | Inr list \<Rightarrow> (case send_bundles peer list db of (sent, _, db') \<Rightarrow> (sent, True, db'))))"

fun static_process :: "static_route list \<Rightarrow> meta_bundle \<Rightarrow> 'f neighbor_db \<Rightarrow> (eid \<times> meta_bundle) list \<times> 'f neighbor_db" where
  "static_process [] m db = ([], db)"
| "static_process (r # routes) m db =
     (if sr_match r (m_destination m) then
        (case ndb_get (sr_dest r) db of
           Inl _ \<Rightarrow> static_process routes m db
         | Inr n \<Rightarrow>
             (case entry_acquire m n of
                Inl _ \<Rightarrow> static_process routes m db
              | Inr n' \<Rightarrow>
                  (case static_process routes m (omap_update eid_less (sr_dest r) n' db) of
                     (sent, db') \<Rightarrow> ((sr_dest r, m) # sent, db'))))
      else static_process routes m db)"

definition neighbor_search :: "eid \<Rightarrow> mem_storage \<Rightarrow> 'f neighbor_db \<Rightarrow> meta_bundle list \<times> bool \<times> 'f neighbor_db" where
  "neighbor_search peer st db =
     (case query_storage 10 (neighbor_shouldAdd peer) st of
        Inl x \<Rightarrow> ([], False, db)
      | Inr list \<Rightarrow> if list = [] then ([], True, db)
                   else case send_bundles peer list db of (sent, _, db') \<Rightarrow> (sent, True, db'))"

section \<open>Queries\<close>

lemma query_try_select:
  "query_try limit f result ms = Inr r \<Longrightarrow> ms_select limit (\<lambda>m. f m = Inr True) result ms = r"
  by (induction limit f result ms rule: query_try.induct) (auto split: if_splits sum.splits)

lemma ms_select_set: "set (ms_select limit P result ms) \<subseteq> set result \<union> {m \<in> set ms. P m}"
  by (induction limit P result ms rule: ms_select.induct) (auto split: if_splits)

lemma query_storage_found:
  assumes "query_storage limit f st = Inr r" and "m \<in> set r"
  shows "m \<in> set (ms_priority_index st)" and "f m = Inr True"
  using query_try_select [OF assms(1) [unfolded query_storage_def]] ms_select_set [of limit "\<lambda>m. f m = Inr True" "[]" "ms_priority_index st"]
    assms(2) by auto

section \<open>Sending\<close>

interpretation sending: transfer_pool "transit_ok (bundle_id.truncate ` U)" in_transit ne_transit_max bid_key
  "\<lambda>m. meta_consistent U \<and> m \<in> U" entry_acquire for U
proof (unfold_locales, goal_cases)
  case (1 s)
  then show ?case by (rule transit.bounded)
next
  case (2 s m)
  then show ?case using transit.acquire_held [OF 2(1), of "bundle_id.truncate m"] metas_ids by (simp add: entry_acquire_def)
next
  case (3 s m)
  then show ?case using transit.acquire_full [OF 3(1), of "bundle_id.truncate m"] metas_ids by (simp add: entry_acquire_def)
next
  case (4 s m)
  then show ?case using transit.acquire_free [OF 4(1), of "bundle_id.truncate m"] metas_ids by (simp add: entry_acquire_def)
qed

lemma transfer_list_summary:
  "transfer_list entry_acquire ms n = (sent, e, n') \<Longrightarrow> ne_summary n' = ne_summary n \<and> ne_filter n' = ne_filter n
     \<and> ne_filter_state n' = ne_filter_state n \<and> ne_transit_max n' = ne_transit_max n"
proof (induction ms arbitrary: n sent)
  case (Cons m ms)
  show ?case
  proof (cases "entry_acquire m n")
    case (Inl x)
    then show ?thesis using Cons by (cases x) auto
  next
    case (Inr n1)
    then have "ne_summary n1 = ne_summary n \<and> ne_filter n1 = ne_filter n \<and> ne_filter_state n1 = ne_filter_state n
        \<and> ne_transit_max n1 = ne_transit_max n"
      by (auto simp: entry_acquire_def ne_acquireTransfer_def split: if_splits)
    moreover obtain t where "transfer_list entry_acquire ms n1 = (t, e, n')"
      using Cons.prems Inr by (auto split: prod.splits)
    ultimately show ?thesis using Cons.IH by simp
  qed
qed simp

text \<open>What a neighbor gets: distinct bundles of the list, none of them in transit before.\<close>

definition sent_to :: "'f neighbor_entry \<Rightarrow> 'f neighbor_entry \<Rightarrow> meta_bundle list \<Rightarrow> bool" where
  "sent_to n n' sent \<longleftrightarrow> in_transit n' = in_transit n \<union> bid_key ` set sent \<and> in_transit n \<inter> bid_key ` set sent = {}
     \<and> distinct (map bid_key sent) \<and> card (in_transit n') \<le> 5"

lemma send_bundles_spec:
  assumes U: "meta_consistent U" "set list \<subseteq> U" and db: "ndb_inv F U db" and r: "send_bundles peer list db = (sent, e, db')"
    and n: "ndb_map db (eid_getString peer) = Some n"
  shows "ndb_inv F U db' \<and> set sent \<subseteq> set list
    \<and> (\<exists>n'. ndb_map db' = (ndb_map db)(eid_getString peer \<mapsto> n') \<and> sent_to n n' sent)"
proof -
  have inv: "ne_inv F U n" using db n by (simp add: ndb_inv_def)
  obtain n' where t: "transfer_list entry_acquire list n = (sent, e, n')" "db' = omap_update eid_less peer n' db"
    using r n by (auto simp: send_bundles_def ndb_get_map [OF db] split: prod.splits)
  have ok: "transit_ok (bundle_id.truncate ` U) n" "list_all (\<lambda>m. meta_consistent U \<and> m \<in> U) list"
    using inv U by (auto simp: ne_inv_def list_all_iff)
  note spec = sending.transfer_list_spec [OF ok t(1)]
  note same = transfer_list_summary [OF t(1)]
  have inv': "ne_inv F U n'" using inv spec same by (simp add: ne_inv_def)
  note u = ndb_update_inv [OF db inv', of peer]
  have "sent_to n n' sent"
    using spec inv' transit.bounded [of "bundle_id.truncate ` U" n'] by (auto simp: sent_to_def ne_inv_def)
  then show ?thesis using u spec t(2) by blast
qed

section \<open>Correctness\<close>

lemma epidemic_shouldAdd_True:
  assumes "epidemic_shouldAdd F local bl n m = Inr True"
  shows "m_hopcount m \<noteq> 0" and "eid_getApplication (id_source m) \<noteq> Inr ''/routing''"
    and "meta_get DESTINATION_IS_SINGLETON m \<Longrightarrow> eid_getNode (m_destination m) \<noteq> Inr local \<and> 1 < m_hopcount m"
    and "ne_has F m True n = Inr False"
  using assms by (auto simp: epidemic_shouldAdd_def entry_has_def split: if_splits sum.splits)

text \<open>C4: what the epidemic router sends to a neighbor are stored bundles, each once, not yet in transit to it and
  at most five in transit altogether; none of them is a routing message, addressed to the own node, out of hops
  or known to the neighbor. When its filter is not available nothing is sent and a handshake is requested.\<close>

theorem epidemic_sends:
  assumes U: "meta_consistent U" "set (ms_priority_index st) \<subseteq> U" and db: "ndb_inv F U db"
    and r: "epidemic_search F local peer st db = (sent, request, db')" and n: "ndb_map db (eid_getString peer) = Some n"
  shows "ndb_inv F U db' \<and> (request \<longrightarrow> sent = [] \<and> db' = db)
    \<and> (\<exists>n'. ndb_map db' = (ndb_map db)(eid_getString peer \<mapsto> n') \<and> (sent \<noteq> [] \<longrightarrow> sent_to n n' sent))
    \<and> (\<forall>m \<in> set sent. m \<in> set (ms_priority_index st) \<and> m_hopcount m \<noteq> 0
         \<and> eid_getApplication (id_source m) \<noteq> Inr ''/routing''
         \<and> (meta_get DESTINATION_IS_SINGLETON m \<longrightarrow> eid_getNode (m_destination m) \<noteq> Inr local \<and> 1 < m_hopcount m)
         \<and> ne_filter_state n = FILTER_AVAILABLE \<and> ne_has F m True n = Inr False)"
proof (cases "query_storage 10 (epidemic_shouldAdd F local [peer] n) st")
  case (Inl x)
  have "sent = [] \<and> db' = db"
    using r n Inl by (auto simp: epidemic_search_def ndb_get_map [OF db] split: route_error.splits neighbor_error.splits)
  then show ?thesis using db n by (auto intro!: exI [of _ n] simp: fun_upd_idem)
next
  case (Inr list)
  note found = query_storage_found [OF Inr]
  obtain e where s: "send_bundles peer list db = (sent, e, db')" "request = False"
    using r n Inr by (auto simp: epidemic_search_def ndb_get_map [OF db] split: prod.splits)
  have sub: "set list \<subseteq> U" using found(1) U(2) by blast
  note spec = send_bundles_spec [OF U(1) sub db s(1) n]
  have "m \<in> set (ms_priority_index st) \<and> m_hopcount m \<noteq> 0 \<and> eid_getApplication (id_source m) \<noteq> Inr ''/routing''
         \<and> (meta_get DESTINATION_IS_SINGLETON m \<longrightarrow> eid_getNode (m_destination m) \<noteq> Inr local \<and> 1 < m_hopcount m)
         \<and> ne_filter_state n = FILTER_AVAILABLE \<and> ne_has F m True n = Inr False" if "m \<in> set sent" for m
  proof -
    have m: "m \<in> set list" using that spec by blast
    note f = epidemic_shouldAdd_True [OF found(2) [OF m]]
    have "ne_filter_state n = FILTER_AVAILABLE" using f(4) by (auto simp: ne_has_def split: if_splits)
    then show ?thesis using found(1) [OF m] f by blast
  qed
  then show ?thesis using spec s(2) by blast
qed

text \<open>A neighbor with an empty filter, and the storage of one bundle.\<close>

definition sample_peer :: eid where
  "sample_peer = \<lparr>scheme = ''dtn'', ssp = ''//n''\<rparr>"

definition sample_entry :: "byte neighbor_entry" where
  "sample_entry = ne_update sample_clock \<lparr>tv_sec = 0, tv_usec = 0\<rparr> 0 0 (ne_new sample_bloom sample_peer)"

definition sample_db :: "byte neighbor_db" where
  "sample_db = omap_update eid_less sample_peer sample_entry []"

definition sample_metas :: "meta_bundle set" where
  "sample_metas = metas {sample_moment} {sample_bundle}"

lemma sample_metas_consistent: "meta_consistent sample_metas"
  unfolding sample_metas_def by (rule steady_metas [OF sample_steady])

lemma sample_index: "ms_priority_index sample_storage = [meta_at sample_moment sample_bundle]"
  by (simp add: sample_storage_def ms_store_def sample_length ms_new_def)

lemma sample_index_metas: "set (ms_priority_index sample_storage) \<subseteq> sample_metas"
  by (auto simp: sample_index sample_metas_def metas_def)

lemma sample_db_inv:
  "ndb_inv sample_bloom sample_metas sample_db" "ndb_map sample_db (eid_getString sample_peer) = Some sample_entry"
proof -
  have "ndb_inv sample_bloom sample_metas ([] :: byte neighbor_db)" by (simp add: ndb_inv_def ndb_map_def)
  moreover have "ne_inv sample_bloom sample_metas sample_entry" by (simp add: sample_entry_def ne_plain_inv ne_inv_new)
  ultimately show "ndb_inv sample_bloom sample_metas sample_db" "ndb_map sample_db (eid_getString sample_peer) = Some sample_entry"
    unfolding sample_db_def using ndb_update_inv [of sample_bloom sample_metas "[]" sample_entry sample_peer]
    by (simp_all del: omap_update.simps)
qed

lemma sample_query:
  "query_storage 10 (epidemic_shouldAdd sample_bloom eid_none [sample_peer] sample_entry) sample_storage
     = Inr [meta_at sample_moment sample_bundle]"
proof -
  have "epidemic_shouldAdd sample_bloom eid_none [sample_peer] sample_entry (meta_at sample_moment sample_bundle) = Inr True"
    by code_simp
  then show ?thesis by (simp add: query_storage_def sample_index)
qed

theorem epidemic_sends_witness:
  "\<exists>db' n'. epidemic_search sample_bloom eid_none sample_peer sample_storage sample_db
       = ([meta_at sample_moment sample_bundle], False, db')
     \<and> ndb_map db' (eid_getString sample_peer) = Some n' \<and> in_transit n' = {bundle_key sample_bundle}"
proof -
  obtain n' where "transfer_list entry_acquire [meta_at sample_moment sample_bundle] sample_entry
      = ([meta_at sample_moment sample_bundle], None, n')"
    by (simp add: entry_acquire_def ne_acquireTransfer_def sample_entry_def ne_update_def ne_new_def oset_mem_def)
  then obtain db' where r: "epidemic_search sample_bloom eid_none sample_peer sample_storage sample_db
      = ([meta_at sample_moment sample_bundle], False, db')"
    by (auto simp: epidemic_search_def send_bundles_def ndb_get_map [OF sample_db_inv(1)] sample_db_inv(2) sample_query
        simp del: transfer_list.simps)
  have "in_transit sample_entry = {}" by (simp add: sample_entry_def ne_update_def ne_new_def in_transit_def)
  with epidemic_sends [OF sample_metas_consistent sample_index_metas sample_db_inv(1) r sample_db_inv(2)] r
  show ?thesis by (auto simp: sent_to_def)
qed

text \<open>Direct delivery sends a neighbor only bundles whose destination is on that node, and static routing
  only bundles with a route over the neighbor that does not know them yet; nothing in transit is sent
  again, and at most five bundles are in transit.\<close>

theorem direct_and_static_send:
  assumes U: "meta_consistent U" "set (ms_priority_index st) \<subseteq> U" and db: "ndb_inv F U db"
    and n: "ndb_map db (eid_getString peer) = Some n"
  shows "(case neighbor_search peer st db of (sent, alive, db') \<Rightarrow>
            ndb_inv F U db' \<and> (sent \<noteq> [] \<longrightarrow> (\<exists>n'. ndb_map db' = (ndb_map db)(eid_getString peer \<mapsto> n') \<and> sent_to n n' sent))
            \<and> (\<forall>m \<in> set sent. m \<in> set (ms_priority_index st) \<and> eid_sameHost (m_destination m) peer = Inr True))
    \<and> (case static_search F routes peer st db of (sent, alive, db') \<Rightarrow>
            ndb_inv F U db' \<and> (sent \<noteq> [] \<longrightarrow> (\<exists>n'. ndb_map db' = (ndb_map db)(eid_getString peer \<mapsto> n') \<and> sent_to n n' sent))
            \<and> (\<forall>m \<in> set sent. m \<in> set (ms_priority_index st) \<and> ne_has F m False n = Inr False
                 \<and> (\<exists>r \<in> set routes. sr_dest r = peer \<and> sr_match r (m_destination m))))"
proof
  show "case neighbor_search peer st db of (sent, alive, db') \<Rightarrow>
            ndb_inv F U db' \<and> (sent \<noteq> [] \<longrightarrow> (\<exists>n'. ndb_map db' = (ndb_map db)(eid_getString peer \<mapsto> n') \<and> sent_to n n' sent))
            \<and> (\<forall>m \<in> set sent. m \<in> set (ms_priority_index st) \<and> eid_sameHost (m_destination m) peer = Inr True)"
  proof (cases "query_storage 10 (neighbor_shouldAdd peer) st")
    case (Inr list)
    note found = query_storage_found [OF Inr]
    have sub: "set list \<subseteq> U" using found(1) U(2) by blast
    have same: "eid_sameHost (m_destination m) peer = Inr True" if "m \<in> set list" for m
      using found(2) [OF that] by (auto simp: neighbor_shouldAdd_def eid_sameHost_def split: sum.splits)
    obtain sent e db' where s: "send_bundles peer list db = (sent, e, db')" by (metis prod_cases3)
    then show ?thesis
      using send_bundles_spec [OF U(1) sub db s n] same found(1) Inr db by (auto simp: neighbor_search_def)
  qed (simp add: neighbor_search_def db)
next
  let ?r = "filter (\<lambda>r. sr_dest r = peer) routes"
  show "case static_search F routes peer st db of (sent, alive, db') \<Rightarrow>
            ndb_inv F U db' \<and> (sent \<noteq> [] \<longrightarrow> (\<exists>n'. ndb_map db' = (ndb_map db)(eid_getString peer \<mapsto> n') \<and> sent_to n n' sent))
            \<and> (\<forall>m \<in> set sent. m \<in> set (ms_priority_index st) \<and> ne_has F m False n = Inr False
                 \<and> (\<exists>r \<in> set routes. sr_dest r = peer \<and> sr_match r (m_destination m)))"
  proof (cases "query_storage 10 (static_shouldAdd F [peer] ?r n) st")
    case (Inl x)
    then show ?thesis
      using db n by (auto simp: static_search_def Let_def ndb_get_map [OF db] split: route_error.splits)
  next
    case (Inr list)
    note found = query_storage_found [OF Inr]
    have sub: "set list \<subseteq> U" using found(1) U(2) by blast
    have ok: "ne_has F m False n = Inr False \<and> (\<exists>r \<in> set routes. sr_dest r = peer \<and> sr_match r (m_destination m))"
      if "m \<in> set list" for m
      using found(2) [OF that] by (auto simp: static_shouldAdd_def entry_has_def list_ex_iff split: sum.splits if_splits)
    obtain sent e db' where s: "send_bundles peer list db = (sent, e, db')" by (metis prod_cases3)
    then show ?thesis
      using send_bundles_spec [OF U(1) sub db s n] ok found(1) Inr db n
      by (auto simp: static_search_def Let_def ndb_get_map [OF db])
  qed
qed

theorem direct_and_static_send_witness:
  "\<exists>sent alive db'. neighbor_search sample_peer sample_storage sample_db = (sent, alive, db')
     \<and> ndb_inv sample_bloom sample_metas db' \<and> sent = []"
proof -
  have "neighbor_shouldAdd sample_peer (meta_at sample_moment sample_bundle) = Inr False" by code_simp
  then have "query_storage 10 (neighbor_shouldAdd sample_peer) sample_storage = Inr []"
    by (simp add: query_storage_def sample_index)
  then show ?thesis
    using direct_and_static_send [OF sample_metas_consistent sample_index_metas sample_db_inv]
    by (auto simp: neighbor_search_def)
qed

end
