(* ===== verification/Router.thy ===== *)
theory Router
  imports Routing
begin

text \<open>
  The base of the router (\<open>daemon/src/routing/BaseRouter.cpp\<close>), built without the security
  extension: it keeps the known and the purged bundles and the neighbor database, stores what
  arrives, and tells the rest of the daemon.
\<close>

section \<open>State and events\<close>

record 'f router =
  ro_storage :: mem_storage
  ro_known_bundles :: "'f bundle_summary"
  ro_purged_bundles :: "'f bundle_summary"
  ro_neighbor_database :: "'f neighbor_db"

datatype abort_reason =
    REASON_UNDEFINED | REASON_CONNECTION_DOWN | REASON_REFUSED | REASON_RETRY_LIMIT_REACHED | REASON_BUNDLE_DELETED

datatype router_event =
    NodeAvailable eid
  | NodeUnavailable eid
  | TransferCompleted eid meta_bundle
  | TransferAborted eid bundle_id abort_reason
  | BundleReceived eid dtn_bundle bool
  | BundleGenerated dtn_bundle
  | TimeTick u64
  | OtherEvent

datatype router_output =
    QueueBundle meta_bundle eid
  | ReportReceived meta_bundle
  | ReportDeleted meta_bundle
  | NotifyExtensions

definition ro_new :: "'f bloom \<Rightarrow> u64 \<Rightarrow> 'f router" where
  "ro_new F maxsize =
     \<lparr>ro_storage = ms_new maxsize, ro_known_bundles = bs_new F, ro_purged_bundles = bs_new F, ro_neighbor_database = []\<rparr>"

definition ro_setKnown :: "'f bloom \<Rightarrow> meta_bundle \<Rightarrow> 'f router \<Rightarrow> 'f router" where
  "ro_setKnown F m r = r\<lparr>ro_known_bundles := bs_add F m (ro_known_bundles r)\<rparr>"

definition ro_isKnown :: "'f bloom \<Rightarrow> 'a bundle_id_scheme \<Rightarrow> 'f router \<Rightarrow> bool" where
  "ro_isKnown F i r = bs_contains F i (ro_known_bundles r)"

definition ro_getSummaryVector :: "'f router \<Rightarrow> 'f summary_vector" where
  "ro_getSummaryVector r = bs_vector (ro_known_bundles r)"

definition ro_addPurgedBundle :: "'f bloom \<Rightarrow> meta_bundle \<Rightarrow> 'f router \<Rightarrow> 'f router" where
  "ro_addPurgedBundle F m r = r\<lparr>ro_purged_bundles := bs_add F m (ro_purged_bundles r)\<rparr>"

definition ro_getPurgedBundles :: "'f router \<Rightarrow> 'f summary_vector" where
  "ro_getPurgedBundles r = bs_vector (ro_purged_bundles r)"

section \<open>Handlers\<close>

type_synonym 'f handled = "route_error option \<times> router_output list \<times> 'f router"

definition ro_node_available :: "'f bloom \<Rightarrow> eid \<Rightarrow> 'f router \<Rightarrow> 'f handled" where
  "ro_node_available F e r =
     (None, [NotifyExtensions], r\<lparr>ro_neighbor_database := ndb_create F e (ro_neighbor_database r)\<rparr>)"

text \<open>The exception for a neighbor that is not in the database is not caught here.\<close>

definition ro_node_unavailable :: "moment \<Rightarrow> eid \<Rightarrow> 'f router \<Rightarrow> 'f handled" where
  "ro_node_unavailable mo e r =
     (case ndb_reset (mo_clock mo) (mo_sys mo) e (ro_neighbor_database r) of
        Inl x \<Rightarrow> (Some (NeighborError x), [], r)
      | Inr db \<Rightarrow> (None, [NotifyExtensions], r\<lparr>ro_neighbor_database := db\<rparr>))"

definition ro_transfer_completed :: "'f bloom \<Rightarrow> eid \<Rightarrow> meta_bundle \<Rightarrow> 'f router \<Rightarrow> 'f handled" where
  "ro_transfer_completed F peer m r =
     (case eid_sameHost (m_destination m) peer of
        Inl x \<Rightarrow> (Some (EidError x), [], r)
      | Inr same \<Rightarrow>
          (let r1 = (if same \<and> meta_get DESTINATION_IS_SINGLETON m then ro_addPurgedBundle F m r else r)
           in case ndb_with peer (ne_releaseTransfer (bundle_id.truncate m)) (ro_neighbor_database r1) of
                Inl x \<Rightarrow> (None, [NotifyExtensions], r1)
              | Inr db \<Rightarrow> (None, [NotifyExtensions], r1\<lparr>ro_neighbor_database := ndb_addBundle F peer m db\<rparr>)))"

text \<open>
  A refused bundle that is no longer stored raises an exception that is not caught here: the
  extensions are not told.
\<close>

definition ro_transfer_aborted :: "'f bloom \<Rightarrow> moment \<Rightarrow> eid \<Rightarrow> bundle_id \<Rightarrow> abort_reason \<Rightarrow> 'f router \<Rightarrow> 'f handled" where
  "ro_transfer_aborted F mo peer i reason r =
     (case ndb_with peer (ne_releaseTransfer i) (ro_neighbor_database r) of
        Inl x \<Rightarrow> (None, [NotifyExtensions], r)
      | Inr db \<Rightarrow>
          (let r1 = r\<lparr>ro_neighbor_database := db\<rparr>
           in if reason = REASON_REFUSED then
                (case ms_get i (ro_storage r) of
                   Inl x \<Rightarrow> (Some (StorageError x), [], r1)
                 | Inr b \<Rightarrow> (None, [NotifyExtensions], r1\<lparr>ro_neighbor_database := ndb_addBundle F peer (meta_at mo b) db\<rparr>))
              else (None, [NotifyExtensions], r1)))"

definition DTN_NULL :: eid where
  "DTN_NULL = eid_parse ''dtn:null''"

text \<open>Storing a bundle and telling the receivers about it; \<open>None\<close> when there is no space left.\<close>

definition ro_store_queue :: "'f bloom \<Rightarrow> moment \<Rightarrow> dtn_bundle \<Rightarrow> eid \<Rightarrow> 'f router \<Rightarrow> (router_output list \<times> 'f router) option" where
  "ro_store_queue F mo b origin r =
     (case ms_store mo b (ro_storage r) of
        Inl _ \<Rightarrow> None
      | Inr st \<Rightarrow> Some ([QueueBundle (meta_at mo b) origin], ro_setKnown F (meta_at mo b) (r\<lparr>ro_storage := st\<rparr>)))"

definition ro_bundle_received :: "'f bloom \<Rightarrow> moment \<Rightarrow> eid \<Rightarrow> dtn_bundle \<Rightarrow> bool \<Rightarrow> 'f router \<Rightarrow> 'f handled" where
  "ro_bundle_received F mo peer b fromlocal r =
     (if p_destination b = DTN_NULL then (None, [], r)
      else if fromlocal \<or> \<not> ro_isKnown F (bid_of_bundle b) r then
        (case ro_store_queue F mo b peer r of
           None \<Rightarrow> (None, [ReportDeleted (meta_at mo b)], r)
         | Some (outs, r') \<Rightarrow> (None, outs @ [ReportReceived (meta_at mo b)], r'))
      else (None, [ReportReceived (meta_at mo b)], r))"

text \<open>A generated bundle is known before it is stored.\<close>

definition ro_bundle_generated :: "'f bloom \<Rightarrow> moment \<Rightarrow> eid \<Rightarrow> dtn_bundle \<Rightarrow> 'f router \<Rightarrow> 'f handled" where
  "ro_bundle_generated F mo local b r =
     (let r1 = ro_setKnown F (meta_at mo b) r
      in case ms_store mo b (ro_storage r1) of
           Inl _ \<Rightarrow> (None, [], r1)
         | Inr st \<Rightarrow> (None, [QueueBundle (meta_at mo b) local], r1\<lparr>ro_storage := st\<rparr>))"

definition ro_time :: "'f bloom \<Rightarrow> moment \<Rightarrow> u64 \<Rightarrow> 'f router \<Rightarrow> 'f handled" where
  "ro_time F mo ts r =
     (None, [NotifyExtensions],
      r\<lparr>ro_known_bundles := bs_expire F (mo_clock mo) ts (ro_known_bundles r),
        ro_purged_bundles := bs_expire F (mo_clock mo) ts (ro_purged_bundles r),
        ro_neighbor_database := ndb_expire F (mo_clock mo) ts (ro_neighbor_database r)\<rparr>)"

fun ro_raiseEvent :: "'f bloom \<Rightarrow> moment \<Rightarrow> eid \<Rightarrow> router_event \<Rightarrow> 'f router \<Rightarrow> 'f handled" where
  "ro_raiseEvent F mo local (NodeAvailable e) r = ro_node_available F e r"
| "ro_raiseEvent F mo local (NodeUnavailable e) r = ro_node_unavailable mo e r"
| "ro_raiseEvent F mo local (TransferCompleted peer m) r = ro_transfer_completed F peer m r"
| "ro_raiseEvent F mo local (TransferAborted peer i reason) r = ro_transfer_aborted F mo peer i reason r"
| "ro_raiseEvent F mo local (BundleReceived peer b fromlocal) r = ro_bundle_received F mo peer b fromlocal r"
| "ro_raiseEvent F mo local (BundleGenerated b) r = ro_bundle_generated F mo local b r"
| "ro_raiseEvent F mo local (TimeTick ts) r = ro_time F mo ts r"
| "ro_raiseEvent F mo local OtherEvent r = (None, [NotifyExtensions], r)"

section \<open>Invariant\<close>

text \<open>The universe of the storage is that of the summaries.\<close>

definition ro_inv :: "'f bloom \<Rightarrow> moment set \<Rightarrow> dtn_bundle set \<Rightarrow> 'f router \<Rightarrow> bool" where
  "ro_inv F M B r \<longleftrightarrow> ms_inv M B (ro_storage r) \<and> bs_inv F (metas M B) (ro_known_bundles r)
     \<and> bs_inv F (metas M B) (ro_purged_bundles r) \<and> ndb_inv F (metas M B) (ro_neighbor_database r)"

text \<open>Events about the bundles of the universe.\<close>

fun event_ok :: "moment set \<Rightarrow> dtn_bundle set \<Rightarrow> router_event \<Rightarrow> bool" where
  "event_ok M B (TransferCompleted peer m) = (m \<in> metas M B)"
| "event_ok M B (TransferAborted peer i reason) = (i \<in> bundle_id.truncate ` metas M B)"
| "event_ok M B (BundleReceived peer b fromlocal) = (b \<in> B)"
| "event_ok M B (BundleGenerated b) = (b \<in> B)"
| "event_ok M B _ = True"

lemma ro_inv_new: "ro_inv F M B (ro_new F n)"
  by (simp add: ro_inv_def ro_new_def ms_inv_new bs_inv_new ndb_inv_def ndb_map_def)

lemma meta_in: "mo \<in> M \<Longrightarrow> b \<in> B \<Longrightarrow> meta_at mo b \<in> metas M B"
  by (auto simp: metas_def)

text \<open>Releasing a transfer keeps the database, whatever the identifier belongs to.\<close>

lemma release_inv:
  assumes "steady M B" and "i \<in> bundle_id.truncate ` metas M B" and "ndb_inv F (metas M B) db"
    and "ndb_with peer (ne_releaseTransfer i) db = Inr db'"
  shows "ndb_inv F (metas M B) db'"
    and "\<exists>n. ndb_map db (eid_getString peer) = Some n \<and> ndb_map db' = (ndb_map db)(eid_getString peer \<mapsto> ne_releaseTransfer i n)"
  using ndb_with_inv [OF assms(3) _ assms(4)] ne_transfer_inv(2) [OF steady_metas [OF assms(1)] assms(2)] by blast+

lemma setKnown_inv:
  "bloom_ok F \<Longrightarrow> steady M B \<Longrightarrow> m \<in> metas M B \<Longrightarrow> ro_inv F M B r \<Longrightarrow> ro_inv F M B (ro_setKnown F m r)"
  by (simp add: ro_inv_def ro_setKnown_def bs_add_inv steady_metas)

lemma addPurged_inv:
  "bloom_ok F \<Longrightarrow> steady M B \<Longrightarrow> m \<in> metas M B \<Longrightarrow> ro_inv F M B r \<Longrightarrow> ro_inv F M B (ro_addPurgedBundle F m r)"
  by (simp add: ro_inv_def ro_addPurgedBundle_def bs_add_inv steady_metas)

lemma db_inv: "ro_inv F M B r \<Longrightarrow> ndb_inv F (metas M B) db \<Longrightarrow> ro_inv F M B (r\<lparr>ro_neighbor_database := db\<rparr>)"
  by (simp add: ro_inv_def)

lemma storage_inv: "ro_inv F M B r \<Longrightarrow> ms_inv M B st \<Longrightarrow> ro_inv F M B (r\<lparr>ro_storage := st\<rparr>)"
  by (simp add: ro_inv_def)

lemma ro_received_inv:
  assumes F: "bloom_ok F" and U: "steady M B" and inv: "ro_inv F M B r" and mo: "mo \<in> M" and b: "b \<in> B"
    and r: "ro_bundle_received F mo peer b loc r = (e, outs, r')"
  shows "ro_inv F M B r'"
proof -
  have "ro_inv F M B (ro_setKnown F (meta_at mo b) (r\<lparr>ro_storage := st\<rparr>))" if "ms_store mo b (ro_storage r) = Inr st" for st
    using ms_store_inv(1) [OF U _ b mo that] inv
    by (intro setKnown_inv [OF F U meta_in [OF mo b]] storage_inv [OF inv]) (simp add: ro_inv_def)
  then show ?thesis
    using r inv by (auto simp: ro_bundle_received_def ro_store_queue_def split: if_splits sum.splits option.splits)
qed

lemma ro_generated_inv:
  assumes F: "bloom_ok F" and U: "steady M B" and inv: "ro_inv F M B r" and mo: "mo \<in> M" and b: "b \<in> B"
    and r: "ro_bundle_generated F mo local b r = (e, outs, r')"
  shows "ro_inv F M B r'"
proof -
  let ?r = "ro_setKnown F (meta_at mo b) r"
  have known: "ro_inv F M B ?r" by (rule setKnown_inv [OF F U meta_in [OF mo b] inv])
  have "ro_inv F M B (?r\<lparr>ro_storage := st\<rparr>)" if "ms_store mo b (ro_storage ?r) = Inr st" for st
    using ms_store_inv(1) [OF U _ b mo that] known by (intro storage_inv [OF known]) (simp add: ro_inv_def)
  then show ?thesis
    using r known by (auto simp: ro_bundle_generated_def Let_def split: sum.splits)
qed

lemma ro_completed_inv:
  assumes F: "bloom_ok F" and U: "steady M B" and inv: "ro_inv F M B r" and m: "m \<in> metas M B"
    and r: "ro_transfer_completed F peer m r = (e, outs, r')"
  shows "ro_inv F M B r'"
proof (cases "eid_sameHost (m_destination m) peer")
  case (Inl x)
  then show ?thesis using r inv by (simp add: ro_transfer_completed_def)
next
  case (Inr same)
  let ?r = "if same \<and> meta_get DESTINATION_IS_SINGLETON m then ro_addPurgedBundle F m r else r"
  have r1: "ro_inv F M B ?r" using inv addPurged_inv [OF F U m inv] by simp
  have "ro_inv F M B (?r\<lparr>ro_neighbor_database := ndb_addBundle F peer m db\<rparr>)"
    if "ndb_with peer (ne_releaseTransfer (bundle_id.truncate m)) (ro_neighbor_database ?r) = Inr db" for db
  proof (rule db_inv [OF r1])
    have "ndb_inv F (metas M B) (ro_neighbor_database ?r)" using r1 by (simp add: ro_inv_def)
    from release_inv(1) [OF U imageI [OF m] this that] show "ndb_inv F (metas M B) (ndb_addBundle F peer m db)"
      by (rule ndb_addBundle_inv(1) [OF F steady_metas [OF U] m])
  qed
  then show ?thesis
    using r r1 Inr by (auto simp: ro_transfer_completed_def Let_def split: sum.splits)
qed

lemma ro_aborted_inv:
  assumes F: "bloom_ok F" and U: "steady M B" and inv: "ro_inv F M B r" and mo: "mo \<in> M"
    and i: "i \<in> bundle_id.truncate ` metas M B" and r: "ro_transfer_aborted F mo peer i reason r = (e, outs, r')"
  shows "ro_inv F M B r'"
proof (cases "ndb_with peer (ne_releaseTransfer i) (ro_neighbor_database r)")
  case (Inl x)
  then show ?thesis using r inv by (simp add: ro_transfer_aborted_def)
next
  case (Inr db)
  have "ndb_inv F (metas M B) (ro_neighbor_database r)" using inv by (simp add: ro_inv_def)
  from release_inv(1) [OF U i this Inr] have db: "ndb_inv F (metas M B) db" .
  have "ndb_inv F (metas M B) (ndb_addBundle F peer (meta_at mo b) db)" if "ms_get i (ro_storage r) = Inr b" for b
  proof -
    have "b \<in> set (ms_bundles (ro_storage r))"
      using that by (auto simp: ms_get_def ms_find_def find_Some_iff split: option.splits)
    then have "b \<in> B" using inv by (auto simp: ro_inv_def ms_inv_def ms_core_def)
    from ndb_addBundle_inv(1) [OF F steady_metas [OF U] meta_in [OF mo this] db] show ?thesis .
  qed
  then show ?thesis
    using r Inr inv db_inv [OF inv] db by (auto simp: ro_transfer_aborted_def Let_def split: sum.splits if_splits)
qed

lemma ro_event_inv:
  assumes F: "bloom_ok F" and U: "steady M B" and inv: "ro_inv F M B r" and mo: "mo \<in> M" and ok: "event_ok M B ev"
    and r: "ro_raiseEvent F mo local ev r = (e, outs, r')"
  shows "ro_inv F M B r'"
proof (cases ev)
  case (NodeAvailable x)
  then show ?thesis using r inv ndb_create_inv(1) [of F "metas M B"] by (auto simp: ro_node_available_def ro_inv_def)
next
  case (NodeUnavailable x)
  then show ?thesis
    using r inv ndb_with_inv(1) [of F "metas M B" _ "ne_reset (mo_clock mo) (mo_sys mo)"]
    by (auto simp: ro_node_unavailable_def ndb_reset_def ro_inv_def ne_plain_inv split: sum.splits)
next
  case (TransferCompleted peer m)
  then show ?thesis using ro_completed_inv [OF F U inv] r ok by simp
next
  case (TransferAborted peer i reason)
  then show ?thesis using ro_aborted_inv [OF F U inv mo] r ok by simp
next
  case (BundleReceived peer b loc)
  then show ?thesis using ro_received_inv [OF F U inv mo] r ok by simp
next
  case (BundleGenerated b)
  then show ?thesis using ro_generated_inv [OF F U inv mo] r ok by simp
next
  case (TimeTick ts)
  then show ?thesis
    using r inv bs_expire_inv [OF F steady_metas [OF U]] ndb_expire_inv [OF F steady_metas [OF U]]
    by (auto simp: ro_time_def ro_inv_def)
next
  case OtherEvent
  then show ?thesis using r inv by simp
qed

section \<open>Histories\<close>

text \<open>
  The events of the router, the transfers its extensions start, and the removals from the
  storage. With \<open>ticks\<close> false the time stands still.
\<close>

inductive ro_step :: "bool \<Rightarrow> 'f bloom \<Rightarrow> eid \<Rightarrow> moment set \<Rightarrow> dtn_bundle set \<Rightarrow> 'f router \<Rightarrow> 'f router \<Rightarrow> bool"
  for ticks :: bool and F :: "'f bloom" and local :: eid and M :: "moment set" and B :: "dtn_bundle set" where
  ro_step_event: "mo \<in> M \<Longrightarrow> event_ok M B ev \<Longrightarrow> ticks \<or> (\<forall>ts. ev \<noteq> TimeTick ts) \<Longrightarrow>
    ro_raiseEvent F mo local ev r = (e, outs, r') \<Longrightarrow> ro_step ticks F local M B r r'"
| ro_step_send: "set list \<subseteq> metas M B \<Longrightarrow> send_bundles peer list (ro_neighbor_database r) = (sent, e, db) \<Longrightarrow>
    ro_step ticks F local M B r (r\<lparr>ro_neighbor_database := db\<rparr>)"
| ro_step_storage: "ms_step True M B (ro_storage r) st \<Longrightarrow> ro_step ticks F local M B r (r\<lparr>ro_storage := st\<rparr>)"

lemma send_bundles_inv:
  assumes "meta_consistent U" and "set list \<subseteq> U" and "ndb_inv F U db" and "send_bundles peer list db = (sent, e, db')"
  shows "ndb_inv F U db'"
proof (cases "ndb_map db (eid_getString peer)")
  case None
  then show ?thesis using assms(3,4) by (simp add: send_bundles_def ndb_get_map [OF assms(3)])
next
  case (Some n)
  then show ?thesis using send_bundles_spec [OF assms] by blast
qed

lemma ro_step_inv:
  assumes "ro_step ticks F local M B r r'" and F: "bloom_ok F" and U: "steady M B" and inv: "ro_inv F M B r"
  shows "ro_inv F M B r'"
  using assms(1)
proof (cases rule: ro_step.cases)
  case (ro_step_event mo ev e outs)
  then show ?thesis using ro_event_inv [OF F U inv] by blast
next
  case (ro_step_send list peer sent e db)
  then show ?thesis
    using send_bundles_inv [OF steady_metas [OF U]] inv by (auto simp: ro_inv_def)
next
  case (ro_step_storage st)
  then show ?thesis using ms_step_inv [OF _ U] inv by (auto simp: ro_inv_def)
qed

lemma ro_reachable_inv:
  assumes "(ro_step ticks F local M B)\<^sup>*\<^sup>* (ro_new F n) r" and "bloom_ok F" and "steady M B"
  shows "ro_inv F M B r"
  using assms(1) by (induction rule: rtranclp_induct) (auto intro: ro_inv_new ro_step_inv assms(2,3))

text \<open>Known bundles stay known while no time passes.\<close>

definition known_keys :: "'f router \<Rightarrow> id_key set" where
  "known_keys r = bid_key ` set (lst_public (bs_list (ro_known_bundles r)))"

lemma known_set:
  assumes "bloom_ok F" and "steady M B" and "m \<in> metas M B" and "ro_inv F M B r"
  shows "known_keys (ro_setKnown F m r) = insert (bid_key m) (known_keys r)"
  using lst_add_inv(2) [OF steady_metas [OF assms(2)] assms(3), of "bs_list (ro_known_bundles r)"] assms(4)
  by (simp add: known_keys_def ro_setKnown_def bs_add_def ro_inv_def bs_inv_def)

lemma known_same [simp]:
  "known_keys (r\<lparr>ro_neighbor_database := db\<rparr>) = known_keys r" "known_keys (r\<lparr>ro_storage := st\<rparr>) = known_keys r"
  "known_keys (ro_addPurgedBundle F m r) = known_keys r"
  by (simp_all add: known_keys_def ro_addPurgedBundle_def)

lemma known_mono_event:
  assumes F: "bloom_ok F" and U: "steady M B" and inv: "ro_inv F M B r" and mo: "mo \<in> M" and ok: "event_ok M B ev"
    and no: "\<forall>ts. ev \<noteq> TimeTick ts" and r: "ro_raiseEvent F mo local ev r = (e, outs, r')"
  shows "known_keys r \<subseteq> known_keys r'"
proof (cases ev)
  case (BundleReceived peer b loc)
  have "known_keys r \<subseteq> known_keys (ro_setKnown F (meta_at mo b) (r\<lparr>ro_storage := st\<rparr>))"
    if "ms_store mo b (ro_storage r) = Inr st" for st
  proof -
    have b: "b \<in> B" using ok BundleReceived by simp
    have "ro_inv F M B (r\<lparr>ro_storage := st\<rparr>)"
      using ms_store_inv(1) [OF U _ b mo that] inv by (intro storage_inv [OF inv]) (simp add: ro_inv_def)
    from known_set [OF F U meta_in [OF mo b] this] show ?thesis by auto
  qed
  then show ?thesis
    using r BundleReceived by (auto simp: ro_bundle_received_def ro_store_queue_def split: if_splits sum.splits option.splits)
next
  case (BundleGenerated b)
  then have "known_keys r \<subseteq> known_keys (ro_setKnown F (meta_at mo b) r)"
    using known_set [OF F U meta_in [OF mo] inv] ok by auto
  then show ?thesis using r BundleGenerated by (auto simp: ro_bundle_generated_def Let_def split: sum.splits)
qed (use r no in \<open>auto simp: ro_node_available_def ro_node_unavailable_def ro_transfer_completed_def ro_transfer_aborted_def Let_def
      split: sum.splits if_splits\<close>)

lemma known_mono:
  assumes "(ro_step False F local M B)\<^sup>*\<^sup>* r r'" and F: "bloom_ok F" and U: "steady M B" and inv: "ro_inv F M B r"
  shows "ro_inv F M B r' \<and> known_keys r \<subseteq> known_keys r'"
  using assms(1)
proof (induction rule: rtranclp_induct)
  case (step y z)
  have y: "ro_inv F M B y" using step.IH by simp
  have "known_keys y \<subseteq> known_keys z"
    using step.hyps(2)
  proof (cases rule: ro_step.cases)
    case (ro_step_event mo ev e outs)
    then show ?thesis using known_mono_event [OF F U y] by blast
  qed simp_all
  then show ?case using ro_step_inv [OF step.hyps(2) F U y] step.IH by blast
qed (use inv in simp)

lemma isKnown_keys:
  assumes F: "bloom_ok F" and U: "steady M B" and inv: "ro_inv F M B r" and b: "b \<in> B" and mo: "mo \<in> M"
  shows "ro_isKnown F (bid_of_bundle b) r \<longleftrightarrow> bundle_key b \<in> known_keys r"
proof -
  have fit: "\<forall>m \<in> metas M B. bid_compat (bid_of_bundle b) m"
    using U b by (auto simp: metas_def steady_def dest: bid_compat_sym) (metis bid_compat_sym meta_at_compat(2))
  have known: "bs_inv F (metas M B) (ro_known_bundles r)" using inv by (simp add: ro_inv_def)
  then have "list_all (bid_compat (bid_of_bundle b)) (lst_public (bs_list (ro_known_bundles r)))"
    using fit by (auto simp: bs_inv_def lst_inv_def list_all_iff)
  moreover have "sv_contains F (bid_of_bundle b) (bs_vector (ro_known_bundles r))" if "bundle_key b \<in> known_keys r"
    using that known fit
    by (intro sv_contains_keys [of F "bundle_id.truncate ` metas M B"]) (auto simp: bs_inv_def known_keys_def bundle_key_def)
  ultimately show ?thesis by (auto simp: ro_isKnown_def bs_contains_def lst_contains_key known_keys_def bundle_key_def)
qed

section \<open>Correctness\<close>

text \<open>C11: in every history of the router over bundles none of which is together with a fragment of its own, where an
  identifier has one expiry time at all moments (\<open>steady\<close>), and with filters that contain what was inserted, its parts stay
  consistent: the storage is a map with its indices, one of these bundles is known exactly if the summary of
  the known bundles lists it, and no neighbor has more than five bundles in transit.\<close>

theorem router_consistent:
  assumes reach: "(ro_step True F local M B)\<^sup>*\<^sup>* (ro_new F n) r" and F: "bloom_ok F" and U: "steady M B"
    and b: "b \<in> B" and mo: "mo \<in> M"
  shows "ms_inv M B (ro_storage r) \<and> ms_count (ro_storage r) = card (dom (ms_map (ro_storage r)))
    \<and> (ro_isKnown F (bid_of_bundle b) r \<longleftrightarrow> bundle_key b \<in> known_keys r)
    \<and> (\<forall>peer x. ndb_map (ro_neighbor_database r) peer = Some x \<longrightarrow> card (in_transit x) \<le> 5)"
proof -
  have inv: "ro_inv F M B r" by (rule ro_reachable_inv [OF reach F U])
  then have core: "ms_core M B (ro_storage r)" by (simp add: ro_inv_def ms_inv_def)
  have "card (dom (ms_map (ro_storage r))) = ms_count (ro_storage r)"
    using core_distinct [OF core] dom_ms_map [OF core] by (metis distinct_card length_map ms_count_def set_map)
  moreover have "card (in_transit x) \<le> 5" if "ndb_map (ro_neighbor_database r) peer = Some x" for peer x
  proof -
    have "ne_inv F (metas M B) x" using inv that by (auto simp: ro_inv_def ndb_inv_def)
    then show ?thesis using transit.bounded [of "bundle_id.truncate ` metas M B" x] by (simp add: ne_inv_def)
  qed
  ultimately show ?thesis using inv isKnown_keys [OF F U inv b mo] by (simp add: ro_inv_def)
qed

text \<open>A router that has received a bundle.\<close>

definition sample_router :: "byte router" where
  "sample_router = ro_setKnown sample_bloom (meta_at sample_moment sample_bundle)
     ((ro_new sample_bloom 1000)\<lparr>ro_storage := sample_storage\<rparr>)"

lemma sample_received:
  "ro_bundle_received sample_bloom sample_moment sample_peer sample_bundle False (ro_new sample_bloom 1000)
     = (None, [QueueBundle (meta_at sample_moment sample_bundle) sample_peer, ReportReceived (meta_at sample_moment sample_bundle)],
        sample_router)"
proof -
  have "p_destination sample_bundle \<noteq> DTN_NULL" by code_simp
  moreover have "ro_storage (ro_new sample_bloom 1000) = ms_new 1000" by (simp add: ro_new_def)
  moreover have "\<not> ro_isKnown sample_bloom (bid_of_bundle sample_bundle) (ro_new sample_bloom 1000)"
    by (simp add: ro_isKnown_def ro_new_def bs_contains_def bs_new_def lst_new_def lst_contains_def)
  ultimately show ?thesis
    by (simp add: ro_bundle_received_def ro_store_queue_def sample_storage_store sample_router_def)
qed

lemma sample_router_reached:
  "(ro_step True sample_bloom eid_none {sample_moment} {sample_bundle})\<^sup>*\<^sup>* (ro_new sample_bloom 1000) sample_router"
proof (rule r_into_rtranclp)
  have "ro_raiseEvent sample_bloom sample_moment eid_none (BundleReceived sample_peer sample_bundle False) (ro_new sample_bloom 1000)
      = (None, [QueueBundle (meta_at sample_moment sample_bundle) sample_peer, ReportReceived (meta_at sample_moment sample_bundle)],
         sample_router)" by (simp add: sample_received)
  then show "ro_step True sample_bloom eid_none {sample_moment} {sample_bundle} (ro_new sample_bloom 1000) sample_router"
    by (intro ro_step_event [of sample_moment _ _ "BundleReceived sample_peer sample_bundle False"]) simp_all
qed

theorem router_consistent_witness:
  "ms_count (ro_storage sample_router) = 1 \<and> ro_isKnown sample_bloom (bid_of_bundle sample_bundle) sample_router"
proof -
  have "ro_inv sample_bloom {sample_moment} {sample_bundle} (ro_new sample_bloom 1000)" by (rule ro_inv_new)
  then have "bundle_key sample_bundle \<in> known_keys ((ro_setKnown sample_bloom (meta_at sample_moment sample_bundle) (ro_new sample_bloom 1000)))"
    using known_set [OF sample_bloom_ok(1) sample_steady, of "meta_at sample_moment sample_bundle" "ro_new sample_bloom 1000"]
    by (simp add: metas_def)
  then have "bundle_key sample_bundle \<in> known_keys sample_router"
    by (simp add: sample_router_def known_keys_def ro_setKnown_def)
  moreover have "dom (ms_map (ro_storage sample_router)) = {bundle_key sample_bundle}"
    by (auto simp: sample_router_def ro_setKnown_def ms_map_def sample_storage_holds)
  ultimately show ?thesis
    using router_consistent [OF sample_router_reached sample_bloom_ok(1) sample_steady, of sample_bundle sample_moment] by simp
qed

lemma ro_received_queued:
  assumes "ro_bundle_received F mo peer b loc r = (e, outs, r1)" and "QueueBundle m peer \<in> set outs"
  shows "\<exists>st. ms_store mo b (ro_storage r) = Inr st \<and> r1 = ro_setKnown F (meta_at mo b) (r\<lparr>ro_storage := st\<rparr>)"
proof (cases "p_destination b = DTN_NULL \<or> \<not> (loc \<or> \<not> ro_isKnown F (bid_of_bundle b) r)")
  case True
  then show ?thesis using assms by (auto simp: ro_bundle_received_def split: if_splits)
next
  case False
  then show ?thesis
    using assms by (cases "ms_store mo b (ro_storage r)") (auto simp: ro_bundle_received_def ro_store_queue_def)
qed

text \<open>C10: after a bundle was accepted from a neighbor, from a client, or generated here, and while no time passes, receiving
  it from any neighbor (\<open>fromlocal\<close> is false) changes nothing and queues nothing, whatever happened in between. The bundles
  of the history do not include one together with a fragment of its own, an identifier has one expiry time
  (\<open>steady\<close>), and the filters contain what was inserted. A bundle that a client sends again, or that is generated again,
  is stored and queued whether it is known or not.\<close>

theorem router_takes_once:
  assumes F: "bloom_ok F" and U: "steady M B" and reach: "(ro_step True F local M B)\<^sup>*\<^sup>* (ro_new F n) r"
    and b: "b \<in> B" "mo \<in> M" and b2: "b2 \<in> B" "mo2 \<in> M" and same: "bundle_key b2 = bundle_key b"
    and first: "ro_bundle_received F mo peer b loc r = (None, outs, r1) \<and> QueueBundle (meta_at mo b) peer \<in> set outs
      \<or> ro_bundle_generated F mo local b r = (None, outs, r1)"
    and between: "(ro_step False F local M B)\<^sup>*\<^sup>* r1 r2"
  shows "\<exists>outs2. ro_bundle_received F mo2 peer2 b2 False r2 = (None, outs2, r2) \<and> set outs2 \<subseteq> {ReportReceived (meta_at mo2 b2)}"
proof -
  have inv: "ro_inv F M B r" by (rule ro_reachable_inv [OF reach F U])
  have key: "bundle_key b \<in> known_keys r1"
    using first
  proof
    assume rec: "ro_bundle_received F mo peer b loc r = (None, outs, r1) \<and> QueueBundle (meta_at mo b) peer \<in> set outs"
    then obtain st where st: "ms_store mo b (ro_storage r) = Inr st"
        "r1 = ro_setKnown F (meta_at mo b) (r\<lparr>ro_storage := st\<rparr>)"
      using ro_received_queued by blast
    have "ro_inv F M B (r\<lparr>ro_storage := st\<rparr>)"
      using ms_store_inv(1) [OF U _ b st(1)] inv by (intro storage_inv [OF inv]) (simp add: ro_inv_def)
    from known_set [OF F U meta_in [OF b(2,1)] this] show ?thesis using st(2) by simp
  next
    assume "ro_bundle_generated F mo local b r = (None, outs, r1)"
    then have "known_keys r1 = known_keys (ro_setKnown F (meta_at mo b) r)"
      by (auto simp: ro_bundle_generated_def Let_def split: sum.splits)
    then show ?thesis using known_set [OF F U meta_in [OF b(2,1)] inv] by simp
  qed
  have inv1: "ro_inv F M B r1"
    using first ro_received_inv [OF F U inv b(2,1)] ro_generated_inv [OF F U inv b(2,1)] by blast
  from known_mono [OF between F U inv1] have "ro_inv F M B r2" "bundle_key b2 \<in> known_keys r2" using key same by auto
  then have "ro_isKnown F (bid_of_bundle b2) r2" using isKnown_keys [OF F U _ b2] by blast
  then show ?thesis by (auto simp: ro_bundle_received_def)
qed

theorem router_takes_once_witness:
  "\<exists>outs2. ro_bundle_received sample_bloom sample_moment eid_none sample_bundle False sample_router = (None, outs2, sample_router)
     \<and> set outs2 \<subseteq> {ReportReceived (meta_at sample_moment sample_bundle)}"
  by (rule router_takes_once [OF sample_bloom_ok(1) sample_steady rtranclp.rtrancl_refl _ _ _ _ refl
        disjI1 [OF conjI [OF sample_received]] rtranclp.rtrancl_refl]) simp_all

text \<open>When a transfer to a neighbor is completed, its slot is free again, the neighbor is known to have the
  bundle, so that no router offers it again, and a singleton bundle that reached its destination is among
  the purged.\<close>

theorem router_transfer_done:
  assumes reach: "(ro_step True F local M B)\<^sup>*\<^sup>* (ro_new F n) r" and F: "bloom_ok F" and U: "steady M B"
    and m: "m \<in> metas M B" and x: "ndb_map (ro_neighbor_database r) (eid_getString peer) = Some x"
    and host: "eid_sameHost (m_destination m) peer = Inr same" and r: "ro_transfer_completed F peer m r = (e, outs, r')"
  shows "e = None \<and> (\<exists>x'. ndb_map (ro_neighbor_database r') (eid_getString peer) = Some x'
       \<and> in_transit x' = in_transit x - {bid_key m} \<and> ne_has F m False x' = Inr True)
    \<and> (same \<and> meta_get DESTINATION_IS_SINGLETON m \<longrightarrow> bs_contains F m (ro_purged_bundles r'))
    \<and> ro_storage r' = ro_storage r"
proof -
  have inv: "ro_inv F M B r" by (rule ro_reachable_inv [OF reach F U])
  let ?U = "metas M B"
  note UU = steady_metas [OF U]
  let ?r = "if same \<and> meta_get DESTINATION_IS_SINGLETON m then ro_addPurgedBundle F m r else r"
  have db: "ndb_inv F ?U (ro_neighbor_database ?r)" "ro_neighbor_database ?r = ro_neighbor_database r"
    using inv by (simp_all add: ro_inv_def ro_addPurgedBundle_def)
  obtain db1 where db1: "ndb_with peer (ne_releaseTransfer (bundle_id.truncate m)) (ro_neighbor_database ?r) = Inr db1"
    using ndb_with_fails [OF db(1)] x db(2) by (cases "ndb_with peer (ne_releaseTransfer (bundle_id.truncate m)) (ro_neighbor_database ?r)") auto
  have r': "e = None" "r' = ?r\<lparr>ro_neighbor_database := ndb_addBundle F peer m db1\<rparr>"
    using r host db1 by (auto simp: ro_transfer_completed_def Let_def)
  let ?x = "ne_releaseTransfer (bundle_id.truncate m) x"
  have map1: "ndb_map db1 = (ndb_map (ro_neighbor_database r))(eid_getString peer \<mapsto> ?x)" "ndb_inv F ?U db1"
    using release_inv [OF U imageI [OF m] db(1) db1] x db(2) by auto
  have x': "ndb_map (ro_neighbor_database r') (eid_getString peer) = Some (ne_add F m ?x)"
    using ndb_addBundle_inv(2) [OF F UU m map1(2), of peer] r'(2) map1(1) by simp
  have xi: "ne_inv F ?U x" using inv x by (auto simp: ro_inv_def ndb_inv_def)
  have "in_transit (ne_add F m ?x) = in_transit x - {bid_key m}"
    using ne_releaseTransfer_inv(2) [OF metas_ids [OF UU] imageI [OF m], of x] xi
    by (simp add: in_transit_def ne_add_def ne_inv_def)
  moreover have "ne_has F m False (ne_add F m ?x) = Inr True"
  proof -
    have "bs_inv F ?U (ne_summary ?x)" using xi by (simp add: ne_inv_def ne_releaseTransfer_def)
    from bs_add_contains [OF F UU m this] show ?thesis by (simp add: ne_has_def ne_add_def)
  qed
  moreover have "bs_contains F m (ro_purged_bundles r')" if "same \<and> meta_get DESTINATION_IS_SINGLETON m"
    using bs_add_contains [OF F UU m, of "ro_purged_bundles r"] inv that r'(2) by (simp add: ro_inv_def ro_addPurgedBundle_def)
  ultimately show ?thesis using r' x' by (auto simp: ro_addPurgedBundle_def)
qed

text \<open>A router with the destination of the sample bundle for a neighbor.\<close>

definition sample_target :: eid where
  "sample_target = \<lparr>scheme = ''dtn'', ssp = ''//b''\<rparr>"

definition sample_meeting :: "byte router" where
  "sample_meeting = (ro_new sample_bloom 1000)\<lparr>ro_neighbor_database := ndb_create sample_bloom sample_target []\<rparr>"

lemma sample_meeting_reached:
  "(ro_step True sample_bloom eid_none {sample_moment} {sample_bundle})\<^sup>*\<^sup>* (ro_new sample_bloom 1000) sample_meeting"
proof (rule r_into_rtranclp)
  have "ro_raiseEvent sample_bloom sample_moment eid_none (NodeAvailable sample_target) (ro_new sample_bloom 1000)
      = (None, [NotifyExtensions], sample_meeting)"
    by (simp add: ro_node_available_def sample_meeting_def) (simp add: ro_new_def)
  then show "ro_step True sample_bloom eid_none {sample_moment} {sample_bundle} (ro_new sample_bloom 1000) sample_meeting"
    by (intro ro_step_event [of sample_moment _ _ "NodeAvailable sample_target"]) simp_all
qed

theorem router_transfer_done_witness:
  "\<exists>outs r'. ro_transfer_completed sample_bloom sample_target (meta_at sample_moment sample_bundle) sample_meeting = (None, outs, r')
     \<and> bs_contains sample_bloom (meta_at sample_moment sample_bundle) (ro_purged_bundles r')"
proof -
  have m: "meta_at sample_moment sample_bundle \<in> metas {sample_moment} {sample_bundle}" by (simp add: metas_def)
  have x: "ndb_map (ro_neighbor_database sample_meeting) (eid_getString sample_target) = Some (ne_new sample_bloom sample_target)"
    by (simp add: sample_meeting_def ndb_create_def ndb_map_def)
  have host: "eid_sameHost (m_destination (meta_at sample_moment sample_bundle)) sample_target = Inr True"
    "meta_get DESTINATION_IS_SINGLETON (meta_at sample_moment sample_bundle)" by code_simp+
  obtain e outs r' where r: "ro_transfer_completed sample_bloom sample_target (meta_at sample_moment sample_bundle) sample_meeting = (e, outs, r')"
    by (metis prod_cases3)
  from router_transfer_done [OF sample_meeting_reached sample_bloom_ok(1) sample_steady m x host(1) r] host(2) r
  show ?thesis by auto
qed

end
