(* ===== verification/Retransmission.thy ===== *)
theory Retransmission
  imports Router
begin

text \<open>
  The retransmission extension of the router
  (\<open>daemon/src/routing/RetransmissionExtension.cpp\<close>): bundles whose transfer was put off, in a
  queue, and a set that counts the attempts.
\<close>

section \<open>State\<close>

record retry_data = bundle_id +
  rd_destination :: eid
  rd_timestamp :: u64
  rd_count :: u64
  rd_retry :: u64

record retransmission =
  rx_queue :: "retry_data list"
  rx_set :: "retry_data list"

datatype retransmission_event =
    RxTime u64
  | RxCompleted eid meta_bundle
  | RxAborted eid bundle_id
  | RxRequeue eid bundle_id
  | RxExpired bundle_id
  | RxOther

datatype retransmission_output =
    TransferTo eid bundle_id
  | RaiseAborted eid bundle_id abort_reason

definition rx_new :: retransmission where
  "rx_new = \<lparr>rx_queue = [], rx_set = []\<rparr>"

text \<open>\<open>operator++\<close>: the next attempt, after a pause that doubles; \<open>now\<close> is the clock's time.\<close>

definition rd_next :: "u64 \<Rightarrow> retry_data \<Rightarrow> retry_data" where
  "rd_next now d =
     (let count = rd_count d + 1
      in d\<lparr>rd_count := count, rd_timestamp := now + word_of_nat (unat (rd_retry d) ^ (unat count - 1))\<rparr>)"

definition rd_of :: "u64 \<Rightarrow> bundle_id \<Rightarrow> eid \<Rightarrow> u64 \<Rightarrow> retry_data" where
  "rd_of now i dest retry =
     rd_next now (bundle_id.extend i \<lparr>rd_destination = dest, rd_timestamp = 0, rd_count = 0, rd_retry = retry\<rparr>)"

definition rd_id :: "retry_data \<Rightarrow> bundle_id" where
  "rd_id d = bundle_id.truncate d"

text \<open>
  \<open>find\<close> of the set. Its order is the one inherited from the identifier: two entries for
  different destinations are the same to it.
\<close>

definition rx_find :: "retry_data \<Rightarrow> retry_data list \<Rightarrow> retry_data option" where
  "rx_find d xs = find (\<lambda>x. \<not> bid_less x d \<and> \<not> bid_less d x) xs"

section \<open>Handlers\<close>

definition rx_time :: "u64 \<Rightarrow> retransmission \<Rightarrow> retransmission_output list \<times> retransmission" where
  "rx_time ts r =
     (case rx_queue r of
        [] \<Rightarrow> ([], r)
      | d # q \<Rightarrow> if rd_timestamp d \<le> ts then ([TransferTo (rd_destination d) (rd_id d)], r\<lparr>rx_queue := q\<rparr>) else ([], r))"

definition rx_done :: "u64 \<Rightarrow> eid \<Rightarrow> bundle_id \<Rightarrow> retransmission \<Rightarrow> retransmission" where
  "rx_done now peer i r = r\<lparr>rx_set := oset_erase bid_less (rd_of now i peer 2) (rx_set r)\<rparr>"

definition rx_requeue :: "u64 \<Rightarrow> eid \<Rightarrow> bundle_id \<Rightarrow> retransmission \<Rightarrow> retransmission_output list \<times> retransmission" where
  "rx_requeue now peer i r =
     (let d = rd_of now i peer 2
      in case rx_find d (rx_set r) of
           Some x \<Rightarrow>
             (let d2 = rd_next now x; s = oset_erase bid_less d (rx_set r)
              in if rd_count d2 \<le> 8
                 then ([], \<lparr>rx_queue = rx_queue r @ [d2], rx_set = oset_insert bid_less d2 s\<rparr>)
                 else ([RaiseAborted peer i REASON_RETRY_LIMIT_REACHED], r\<lparr>rx_set := s\<rparr>))
         | None \<Rightarrow> ([], \<lparr>rx_queue = rx_queue r @ [d], rx_set = oset_insert bid_less d (rx_set r)\<rparr>))"

text \<open>The loop over the queue, turned once around.\<close>

fun rx_turn :: "nat \<Rightarrow> bundle_id \<Rightarrow> retry_data list \<Rightarrow> retransmission_output list \<times> retry_data list" where
  "rx_turn 0 i q = ([], q)"
| "rx_turn (Suc n) i [] = ([], [])"
| "rx_turn (Suc n) i (d # q) =
     (if bid_eq d i then
        (case rx_turn n i q of (outs, q') \<Rightarrow> (RaiseAborted (rd_destination d) (rd_id d) REASON_BUNDLE_DELETED # outs, q'))
      else rx_turn n i (q @ [d]))"

definition rx_expired :: "bundle_id \<Rightarrow> retransmission \<Rightarrow> retransmission_output list \<times> retransmission" where
  "rx_expired i r =
     (case rx_turn (length (rx_queue r)) i (rx_queue r) of (outs, q) \<Rightarrow> (outs, r\<lparr>rx_queue := q\<rparr>))"

fun rx_notify :: "u64 \<Rightarrow> retransmission_event \<Rightarrow> retransmission \<Rightarrow> retransmission_output list \<times> retransmission" where
  "rx_notify now (RxTime ts) r = rx_time ts r"
| "rx_notify now (RxCompleted peer m) r = ([], rx_done now peer (bundle_id.truncate m) r)"
| "rx_notify now (RxAborted peer i) r = ([], rx_done now peer i r)"
| "rx_notify now (RxRequeue peer i) r = rx_requeue now peer i r"
| "rx_notify now (RxExpired i) r = rx_expired i r"
| "rx_notify now RxOther r = ([], r)"

section \<open>Attempts\<close>

lemma rd_sel [simp]:
  "bid_key (rd_next now d) = bid_key d" "rd_destination (rd_next now d) = rd_destination d" "rd_retry (rd_next now d) = rd_retry d"
  "rd_count (rd_next now d) = rd_count d + 1" "rd_id (rd_next now d) = rd_id d"
  "bid_compat (rd_next now d) e = bid_compat d e" "bid_compat e (rd_next now d) = bid_compat e d"
  "bid_key (rd_id d) = bid_key d" "bid_compat (rd_id d) e = bid_compat d e" "bid_compat e (rd_id d) = bid_compat e d"
  by (simp_all add: rd_next_def Let_def bid_key_def bid_compat_def rd_id_def bundle_id.truncate_def)

lemma rd_of_sel [simp]:
  "bid_key (rd_of now i p n) = bid_key i" "rd_destination (rd_of now i p n) = p" "rd_retry (rd_of now i p n) = n"
  "rd_count (rd_of now i p n) = 1" "rd_id (rd_of now i p n) = i"
  "bid_compat (rd_of now i p n) e = bid_compat i e" "bid_compat e (rd_of now i p n) = bid_compat e i"
  by (simp_all add: rd_of_def bundle_id.defs) (simp_all add: bid_key_def bid_compat_def rd_id_def bundle_id.truncate_def)

definition rx_inv :: "bundle_id set \<Rightarrow> retransmission \<Rightarrow> bool" where
  "rx_inv I r \<longleftrightarrow> rd_id ` set (rx_set r) \<subseteq> I \<and> rd_id ` set (rx_queue r) \<subseteq> I \<and> key_sorted bid_key (rx_set r)
     \<and> (\<forall>d \<in> set (rx_set r) \<union> set (rx_queue r). 1 \<le> rd_count d \<and> rd_count d \<le> 8 \<and> rd_retry d = 2)"

lemma rx_fit:
  assumes "ids_ok I" and "rd_id d \<in> I" and "rd_id ` set xs \<subseteq> I"
  shows "list_all (bid_compat d) xs"
  unfolding list_all_iff
proof
  fix x
  assume "x \<in> set xs"
  then have "rd_id x \<in> I" using assms(3) by blast
  then have "bid_compat (rd_id d) (rd_id x)" using assms(1,2) unfolding ids_ok_def by blast
  then show "bid_compat d x" by simp
qed

lemma rx_inv_new: "rx_inv I rx_new"
  by (simp add: rx_inv_def rx_new_def)

lemma rx_find_key:
  assumes "list_all (bid_compat d) xs"
  shows "rx_find d xs = find (\<lambda>x. bid_key x = bid_key d) xs"
  unfolding rx_find_def
proof (rule find_cong [OF refl])
  fix x
  assume "x \<in> set xs"
  then have "bid_compat d x" using assms by (simp add: list_all_iff)
  then show "(\<not> bid_less x d \<and> \<not> bid_less d x) = (bid_key x = bid_key d)"
    unfolding bid_less_key [OF \<open>bid_compat d x\<close>] bid_less_key [OF bid_compat_sym [OF \<open>bid_compat d x\<close>]]
    using linorder_neq_iff [of "bid_key x" "bid_key d"] by blast
qed

text \<open>The attempts counted for a bundle.\<close>

definition rx_attempts :: "id_key \<Rightarrow> retransmission \<Rightarrow> nat" where
  "rx_attempts k r = (case find (\<lambda>x. bid_key x = k) (rx_set r) of None \<Rightarrow> 0 | Some x \<Rightarrow> unat (rd_count x))"

lemma find_sorted:
  assumes "key_sorted bid_key xs" and "x \<in> set xs"
  shows "find (\<lambda>y. bid_key y = bid_key x) xs = Some x"
  using assms by (induction xs) auto

lemma find_None_key: "find (\<lambda>y. bid_key y = k) xs = None \<longleftrightarrow> k \<notin> bid_key ` set xs"
  unfolding find_None_iff image_iff by metis

lemma attempts_in:
  assumes "key_sorted bid_key (rx_set r)" and "x \<in> set (rx_set r)"
  shows "rx_attempts (bid_key x) r = unat (rd_count x)"
  using find_sorted [OF assms] by (simp add: rx_attempts_def)

lemma attempts_out: "k \<notin> bid_key ` set (rx_set r) \<Longrightarrow> rx_attempts k r = 0"
  using find_None_key [of k "rx_set r"] by (simp add: rx_attempts_def)

text \<open>Two sets that agree on a key count the same attempts for it.\<close>

lemma attempts_agree:
  assumes "key_sorted bid_key (rx_set r)" and "key_sorted bid_key (rx_set r')"
    and "\<And>x. bid_key x = k \<Longrightarrow> x \<in> set (rx_set r) \<longleftrightarrow> x \<in> set (rx_set r')"
  shows "rx_attempts k r = rx_attempts k r'"
proof (cases "k \<in> bid_key ` set (rx_set r)")
  case True
  then obtain x where x: "x \<in> set (rx_set r)" "k = bid_key x" by (rule imageE) simp
  then have "x \<in> set (rx_set r')" using assms(3) by simp
  then show ?thesis using attempts_in [OF assms(1) x(1)] attempts_in [OF assms(2)] x(2) by simp
next
  case False
  have "k \<notin> bid_key ` set (rx_set r')"
  proof
    assume "k \<in> bid_key ` set (rx_set r')"
    then obtain x where "x \<in> set (rx_set r')" "k = bid_key x" by (rule imageE) simp
    then show False using False assms(3) [of x] by simp
  qed
  then show ?thesis using attempts_out False by simp
qed

lemma erase_set_of:
  assumes I: "ids_ok I" and inv: "rx_inv I r" and d: "rd_id d \<in> I"
  shows "set (oset_erase bid_less d (rx_set r)) = {x \<in> set (rx_set r). bid_key x \<noteq> bid_key d}"
    and "key_sorted bid_key (oset_erase bid_less d (rx_set r))"
proof -
  have fit: "list_all (bid_compat d) (rx_set r)" using inv by (intro rx_fit [OF I d]) (simp add: rx_inv_def)
  show "set (oset_erase bid_less d (rx_set r)) = {x \<in> set (rx_set r). bid_key x \<noteq> bid_key d}"
    "key_sorted bid_key (oset_erase bid_less d (rx_set r))"
    using bid.erase_set [OF _ fit] bid.erase_sorted [OF _ fit] inv by (simp_all add: rx_inv_def)
qed

lemma rx_done_inv:
  assumes I: "ids_ok I" "i \<in> I" and inv: "rx_inv I r"
  shows "rx_inv I (rx_done now peer i r)" and "rx_attempts (bid_key i) (rx_done now peer i r) = 0"
    and "bid_key j \<noteq> bid_key i \<Longrightarrow> rx_attempts (bid_key j) (rx_done now peer i r) = rx_attempts (bid_key j) r"
proof -
  note e = erase_set_of [OF I(1) inv, of "rd_of now i peer 2"]
  have set: "set (rx_set (rx_done now peer i r)) = {x \<in> set (rx_set r). bid_key x \<noteq> bid_key i}"
    and sorted: "key_sorted bid_key (rx_set (rx_done now peer i r))"
    using e I(2) by (simp_all add: rx_done_def)
  show "rx_inv I (rx_done now peer i r)"
    using set sorted inv by (auto simp: rx_inv_def) (auto simp: rx_done_def)
  show "rx_attempts (bid_key i) (rx_done now peer i r) = 0"
    using set by (intro attempts_out) auto
  show "rx_attempts (bid_key j) (rx_done now peer i r) = rx_attempts (bid_key j) r" if "bid_key j \<noteq> bid_key i"
    using inv set sorted that by (intro attempts_agree) (simp_all add: rx_inv_def)
qed

text \<open>Counting up: an entry replaces the one of its key.\<close>

lemma insert_entry:
  assumes I: "ids_ok I" and d: "rd_id d \<in> I" and s: "rd_id ` set xs \<subseteq> I" "key_sorted bid_key xs"
    and new: "\<And>x. x \<in> set xs \<Longrightarrow> bid_key x \<noteq> bid_key d"
  shows "set (oset_insert bid_less d xs) = insert d (set xs)" and "key_sorted bid_key (oset_insert bid_less d xs)"
proof -
  note fit = rx_fit [OF I d s(1)]
  have "bid_key d \<notin> bid_key ` set xs"
  proof
    assume "bid_key d \<in> bid_key ` set xs"
    then obtain x where "x \<in> set xs" "bid_key d = bid_key x" by (rule imageE) simp
    then show False using new [of x] by simp
  qed
  then show "set (oset_insert bid_less d xs) = insert d (set xs)" using bid.insert_set [OF s(2) fit] by simp
  show "key_sorted bid_key (oset_insert bid_less d xs)" by (rule bid.insert_sorted [OF s(2) fit])
qed

lemma rx_requeue_new:
  assumes I: "ids_ok I" "i \<in> I" and inv: "rx_inv I r" and none: "rx_attempts (bid_key i) r = 0"
  shows "rx_requeue now peer i r = ([], \<lparr>rx_queue = rx_queue r @ [rd_of now i peer 2],
      rx_set = oset_insert bid_less (rd_of now i peer 2) (rx_set r)\<rparr>) \<and> (\<forall>x \<in> set (rx_set r). bid_key x \<noteq> bid_key i)"
proof -
  have fit: "list_all (bid_compat (rd_of now i peer 2)) (rx_set r)"
    using inv I(2) by (intro rx_fit [OF I(1)]) (simp_all add: rx_inv_def)
  have out: "bid_key x \<noteq> bid_key i" if x: "x \<in> set (rx_set r)" for x
  proof
    assume "bid_key x = bid_key i"
    moreover have "rx_attempts (bid_key x) r = unat (rd_count x)" "1 \<le> rd_count x"
      using inv x by (auto simp: rx_inv_def intro: attempts_in)
    ultimately show False using none by (simp add: word_le_nat_alt)
  qed
  then have "find (\<lambda>x. bid_key x = bid_key i) (rx_set r) = None" by (simp add: find_None_iff)
  then show ?thesis using out by (simp add: rx_requeue_def Let_def rx_find_key [OF fit])
qed

lemma rx_requeue_again:
  assumes I: "ids_ok I" "i \<in> I" and inv: "rx_inv I r" and x: "x \<in> set (rx_set r)" "bid_key x = bid_key i"
  shows "rx_requeue now peer i r =
    (let s = oset_erase bid_less (rd_of now i peer 2) (rx_set r)
     in if rd_count x + 1 \<le> 8
        then ([], \<lparr>rx_queue = rx_queue r @ [rd_next now x], rx_set = oset_insert bid_less (rd_next now x) s\<rparr>)
        else ([RaiseAborted peer i REASON_RETRY_LIMIT_REACHED], r\<lparr>rx_set := s\<rparr>))"
proof -
  have fit: "list_all (bid_compat (rd_of now i peer 2)) (rx_set r)"
    using inv I(2) by (intro rx_fit [OF I(1)]) (simp_all add: rx_inv_def)
  have "find (\<lambda>y. bid_key y = bid_key i) (rx_set r) = Some x"
    using find_sorted [OF _ x(1)] inv x(2) by (simp add: rx_inv_def)
  then show ?thesis by (simp add: rx_requeue_def Let_def rx_find_key [OF fit])
qed

text \<open>The next attempt of a bundle.\<close>

definition next_attempt :: "u64 \<Rightarrow> id_key \<Rightarrow> nat \<Rightarrow> retry_data \<Rightarrow> bool" where
  "next_attempt now k n d \<longleftrightarrow> bid_key d = k \<and> unat (rd_count d) = Suc n \<and> rd_timestamp d = now + 2 ^ n"

lemma next_attempt_of: "next_attempt now (bid_key i) 0 (rd_of now i peer 2)"
  by (simp add: next_attempt_def) (simp add: rd_of_def rd_next_def Let_def bundle_id.defs)

lemma next_attempt_next:
  assumes "rd_count x < 8" and "rd_retry x = 2"
  shows "next_attempt now (bid_key x) (unat (rd_count x)) (rd_next now x)"
proof -
  have "unat (rd_count x + 1) = Suc (unat (rd_count x))"
    using assms(1) by (simp add: unat_word_ariths word_less_nat_alt)
  then show ?thesis using assms(2) by (simp add: next_attempt_def) (simp add: rd_next_def Let_def)
qed

text \<open>What an entry \<open>d\<close> put in, in place of the one of its key, does to the state.\<close>

lemma rx_entry_spec:
  assumes I: "ids_ok I" and d: "rd_id d \<in> I" "1 \<le> rd_count d" "rd_count d \<le> 8" "rd_retry d = 2"
    and inv: "rx_inv I r" and s: "set s = {y \<in> set (rx_set r). bid_key y \<noteq> bid_key d}" "key_sorted bid_key s"
    and r': "rx_queue r' = rx_queue r @ [d]" "rx_set r' = oset_insert bid_less d s"
  shows "rx_inv I r'" and "rx_attempts (bid_key d) r' = unat (rd_count d)"
    and "bid_key j \<noteq> bid_key d \<Longrightarrow> rx_attempts (bid_key j) r' = rx_attempts (bid_key (j :: bundle_id)) r"
proof -
  have sub: "rd_id ` set s \<subseteq> I" "rd_id ` set (rx_queue r) \<subseteq> I" using s(1) inv unfolding rx_inv_def by blast+
  have new: "bid_key y \<noteq> bid_key d" if "y \<in> set s" for y using that s(1) by blast
  have set: "set (rx_set r') = insert d (set s)" and sorted: "key_sorted bid_key (rx_set r')"
    unfolding r'(2) by (rule insert_entry [OF I d(1) sub(1) s(2) new], assumption)+
  have all: "\<forall>y \<in> set (rx_set r) \<union> set (rx_queue r). 1 \<le> rd_count y \<and> rd_count y \<le> 8 \<and> rd_retry y = 2"
    using inv unfolding rx_inv_def by blast
  have q: "set (rx_queue r') = insert d (set (rx_queue r))" using r'(1) by simp
  have "rd_id ` set (rx_set r') \<subseteq> I" "rd_id ` set (rx_queue r') \<subseteq> I"
    unfolding set q image_insert using sub d(1) by blast+
  moreover have "\<forall>y \<in> set (rx_set r') \<union> set (rx_queue r'). 1 \<le> rd_count y \<and> rd_count y \<le> 8 \<and> rd_retry y = 2"
    unfolding set q s(1) using all d(2-4) by blast
  ultimately show "rx_inv I r'" unfolding rx_inv_def using sorted by blast
  show "rx_attempts (bid_key d) r' = unat (rd_count d)"
    by (rule attempts_in [OF sorted]) (unfold set, rule insertI1)
  have old: "key_sorted bid_key (rx_set r)" using inv unfolding rx_inv_def by blast
  show "rx_attempts (bid_key j) r' = rx_attempts (bid_key j) r" if j: "bid_key j \<noteq> bid_key d" for j :: bundle_id
  proof (rule attempts_agree [OF sorted old])
    fix x :: retry_data
    assume x: "bid_key x = bid_key j"
    have "bid_key x \<noteq> bid_key d" unfolding x by (rule j)
    then show "(x \<in> set (rx_set r')) = (x \<in> set (rx_set r))" unfolding set s(1) by blast
  qed
qed

lemma rx_requeue_fresh:
  assumes I: "ids_ok I" "i \<in> I" and inv: "rx_inv I r" and r: "rx_requeue now peer i r = (outs, r')"
    and none: "rx_attempts (bid_key i) r = 0"
  shows "rx_inv I r' \<and> outs = [] \<and> rx_attempts (bid_key i) r' = Suc 0
    \<and> rx_queue r' = rx_queue r @ [rd_of now i peer 2]
    \<and> (\<forall>j. bid_key j \<noteq> bid_key i \<longrightarrow> rx_attempts (bid_key j) r' = rx_attempts (bid_key (j :: bundle_id)) r)"
proof -
  let ?d = "rd_of now i peer 2"
  note new = rx_requeue_new [OF I inv none, of now peer]
  have r': "outs = []" "rx_queue r' = rx_queue r @ [?d]" "rx_set r' = oset_insert bid_less ?d (rx_set r)"
    using conjunct1 [OF new] r by simp_all
  have d: "rd_id ?d \<in> I" "1 \<le> rd_count ?d" "rd_count ?d \<le> 8" "rd_retry ?d = 2" using I(2) by simp_all
  have s: "set (rx_set r) = {y \<in> set (rx_set r). bid_key y \<noteq> bid_key ?d}" "key_sorted bid_key (rx_set r)"
    using conjunct2 [OF new] inv unfolding rd_of_sel rx_inv_def by blast+
  note e = rx_entry_spec [OF I(1) d inv s r'(2,3), unfolded rd_of_sel]
  have "rx_attempts (bid_key i) r' = Suc 0" unfolding e(2) by simp
  then show ?thesis using e(1) e(3) r'(1,2) by blast
qed

lemma count_next:
  assumes "c < (8 :: u64)"
  shows "c + 1 \<le> 8" and "1 \<le> c + 1" and "unat (c + 1) = Suc (unat c)"
proof -
  show s: "unat (c + 1) = Suc (unat c)" using assms by (simp add: unat_word_ariths word_less_nat_alt)
  show "c + 1 \<le> 8" "1 \<le> c + 1" using s assms by (simp_all add: word_le_nat_alt word_less_nat_alt)
qed

lemma rx_requeue_counted:
  assumes I: "ids_ok I" "i \<in> I" and inv: "rx_inv I r" and r: "rx_requeue now peer i r = (outs, r')"
    and x: "x \<in> set (rx_set r)" "bid_key x = bid_key i" and lt: "rd_count x < 8"
  shows "rx_inv I r' \<and> outs = [] \<and> rx_attempts (bid_key i) r' = Suc (unat (rd_count x))
    \<and> rx_queue r' = rx_queue r @ [rd_next now x]
    \<and> (\<forall>j. bid_key j \<noteq> bid_key i \<longrightarrow> rx_attempts (bid_key j) r' = rx_attempts (bid_key (j :: bundle_id)) r)"
proof -
  let ?d = "rd_next now x"
  let ?s = "oset_erase bid_less (rd_of now i peer 2) (rx_set r)"
  note bounds = count_next [OF lt]
  have r': "outs = []" "rx_queue r' = rx_queue r @ [?d]" "rx_set r' = oset_insert bid_less ?d ?s"
    using rx_requeue_again [OF I inv x, of now peer] r bounds(1) unfolding Let_def by simp_all
  have xI: "rd_id x \<in> I" "rd_retry x = 2" using inv x(1) unfolding rx_inv_def by blast+
  have d: "rd_id ?d \<in> I" "1 \<le> rd_count ?d" "rd_count ?d \<le> 8" "rd_retry ?d = 2" using xI bounds by simp_all
  have key: "bid_key ?d = bid_key i" unfolding rd_sel by (rule x(2))
  have s: "set ?s = {y \<in> set (rx_set r). bid_key y \<noteq> bid_key ?d}" "key_sorted bid_key ?s"
    unfolding key using erase_set_of [OF I(1) inv, of "rd_of now i peer 2"] I(2) by simp_all
  note e = rx_entry_spec [OF I(1) d inv s r'(2,3), unfolded key]
  have "rx_attempts (bid_key i) r' = Suc (unat (rd_count x))" unfolding e(2) rd_sel by (rule bounds(3))
  then show ?thesis using e(1) e(3) r'(1,2) by blast
qed

lemma rx_requeue_limit:
  assumes I: "ids_ok I" "i \<in> I" and inv: "rx_inv I r" and r: "rx_requeue now peer i r = (outs, r')"
    and x: "x \<in> set (rx_set r)" "bid_key x = bid_key i" and full: "rd_count x = 8"
  shows "outs = [RaiseAborted peer i REASON_RETRY_LIMIT_REACHED] \<and> r' = rx_done now peer i r"
  using rx_requeue_again [OF I inv x, of now peer] r full unfolding Let_def rx_done_def by simp

lemma rx_requeue_spec:
  assumes I: "ids_ok I" "i \<in> I" and inv: "rx_inv I r" and r: "rx_requeue now peer i r = (outs, r')"
  shows "rx_inv I r'
    \<and> (if rx_attempts (bid_key i) r < 8
       then outs = [] \<and> rx_attempts (bid_key i) r' = Suc (rx_attempts (bid_key i) r)
            \<and> (\<exists>d. rx_queue r' = rx_queue r @ [d] \<and> next_attempt now (bid_key i) (rx_attempts (bid_key i) r) d)
       else outs = [RaiseAborted peer i REASON_RETRY_LIMIT_REACHED] \<and> rx_attempts (bid_key i) r' = 0 \<and> rx_queue r' = rx_queue r)
    \<and> (\<forall>j. bid_key j \<noteq> bid_key i \<longrightarrow> rx_attempts (bid_key j) r' = rx_attempts (bid_key (j :: bundle_id)) r)"
proof (cases "rx_attempts (bid_key i) r = 0")
  case True
  have lt: "(0 :: nat) < 8" by simp
  show ?thesis unfolding True if_P [OF lt] using rx_requeue_fresh [OF I inv r True] next_attempt_of [of now i peer] by blast
next
  case False
  have "bid_key i \<in> bid_key ` set (rx_set r)"
    by (rule ccontr) (rule notE [OF False], rule attempts_out)
  then obtain x where x: "x \<in> set (rx_set r)" "bid_key i = bid_key x" by (rule imageE)
  note x' = x(1) x(2) [symmetric]
  have sorted: "key_sorted bid_key (rx_set r)" and b: "rd_count x \<le> 8" "rd_retry x = 2"
    using inv x(1) unfolding rx_inv_def by blast+
  have cnt: "rx_attempts (bid_key i) r = unat (rd_count x)" unfolding x(2) by (rule attempts_in [OF sorted x(1)])
  show ?thesis
  proof (cases "rd_count x < 8")
    case True
    then have lt: "unat (rd_count x) < 8" by (simp add: word_less_nat_alt)
    have "next_attempt now (bid_key i) (unat (rd_count x)) (rd_next now x)"
      unfolding x(2) by (rule next_attempt_next [OF True b(2)])
    then show ?thesis unfolding cnt if_P [OF lt] using rx_requeue_counted [OF I inv r x' True] by blast
  next
    case False
    then have full: "rd_count x = 8" using b(1) by simp
    have ge: "\<not> unat (8 :: u64) < 8" by simp
    note l = rx_requeue_limit [OF I inv r x' full]
    have "rx_queue r' = rx_queue r" using l by (simp add: rx_done_def)
    then show ?thesis unfolding cnt full if_not_P [OF ge] using l rx_done_inv [OF I inv, where now = now and peer = peer] by blast
  qed
qed

section \<open>Histories\<close>

text \<open>What the events of a history name are identifiers of \<open>I\<close>.\<close>

fun rx_event_in :: "bundle_id set \<Rightarrow> retransmission_event \<Rightarrow> bool" where
  "rx_event_in I (RxCompleted peer m) = (bundle_id.truncate m \<in> I)"
| "rx_event_in I (RxAborted peer i) = (i \<in> I)"
| "rx_event_in I (RxRequeue peer i) = (i \<in> I)"
| "rx_event_in I e = True"

inductive rx_reachable :: "bundle_id set \<Rightarrow> retransmission \<Rightarrow> bool" for I where
  rx_start: "rx_reachable I rx_new"
| rx_event: "rx_reachable I r \<Longrightarrow> rx_event_in I e \<Longrightarrow> rx_notify now e r = (outs, r') \<Longrightarrow> rx_reachable I r'"

text \<open>The turn of the queue keeps what does not match, in its order.\<close>

lemma rx_turn_split:
  "rx_turn (length q) i (q @ p) =
     (map (\<lambda>d. RaiseAborted (rd_destination d) (rd_id d) REASON_BUNDLE_DELETED) (filter (\<lambda>d. bid_eq d i) q),
      p @ filter (\<lambda>d. \<not> bid_eq d i) q)"
  by (induction q arbitrary: p) simp_all

lemma rx_expired_filter:
  "rx_expired i r =
     (map (\<lambda>d. RaiseAborted (rd_destination d) (rd_id d) REASON_BUNDLE_DELETED) (filter (\<lambda>d. bid_eq d i) (rx_queue r)),
      r\<lparr>rx_queue := filter (\<lambda>d. \<not> bid_eq d i) (rx_queue r)\<rparr>)"
  using rx_turn_split [of "rx_queue r" i "[]"] by (simp add: rx_expired_def)

lemma rx_inv_queue:
  assumes "rx_inv I r" and "set q \<subseteq> set (rx_queue r)"
  shows "rx_inv I (r\<lparr>rx_queue := q\<rparr>)"
proof -
  have "rd_id ` set q \<subseteq> I" using assms unfolding rx_inv_def by blast
  moreover have "\<forall>d \<in> set (rx_set r) \<union> set q. 1 \<le> rd_count d \<and> rd_count d \<le> 8 \<and> rd_retry d = 2"
    using assms unfolding rx_inv_def by blast
  ultimately show ?thesis using assms(1) by (simp add: rx_inv_def)
qed

lemma rx_notify_inv:
  assumes I: "ids_ok I" and inv: "rx_inv I r" and e: "rx_event_in I e" and n: "rx_notify now e r = (outs, r')"
  shows "rx_inv I r'"
proof (cases e)
  case (RxTime ts)
  then show ?thesis using n inv rx_inv_queue [OF inv, of "tl (rx_queue r)"]
    by (auto simp: rx_time_def split: list.splits if_splits)
next
  case (RxExpired i)
  then have r': "r' = r\<lparr>rx_queue := filter (\<lambda>d. \<not> bid_eq d i) (rx_queue r)\<rparr>" using n by (simp add: rx_expired_filter)
  show ?thesis unfolding r' by (rule rx_inv_queue [OF inv filter_is_subset])
next
  case (RxRequeue peer i)
  then show ?thesis using n e rx_requeue_spec [OF I _ inv, of i now peer outs r'] by auto
next
  case (RxCompleted peer m)
  then show ?thesis using n e rx_done_inv(1) [OF I _ inv] by auto
next
  case (RxAborted peer i)
  then show ?thesis using n e rx_done_inv(1) [OF I _ inv] by auto
qed (use n inv in auto)

lemma rx_reachable_inv:
  assumes "rx_reachable I r" and "ids_ok I"
  shows "rx_inv I r"
  using assms by induction (auto intro: rx_inv_new rx_notify_inv)

section \<open>Properties\<close>

lemma attempts_bound:
  assumes "rx_inv I r"
  shows "rx_attempts k r \<le> 8"
proof (cases "find (\<lambda>x. bid_key x = k) (rx_set r)")
  case (Some x)
  then have "x \<in> set (rx_set r)" by (auto simp: find_Some_iff)
  then have "rd_count x \<le> 8" using assms unfolding rx_inv_def by blast
  then show ?thesis using Some by (simp add: rx_attempts_def word_le_nat_alt)
qed (simp add: rx_attempts_def)

text \<open>C19: in every history of the extension a bundle that is put off is queued again for at most eight
  attempts, the pause before each is twice the one before, the ninth request aborts the transfer, a completed
  or aborted transfer starts the count again, and the counts of other bundles stay.\<close>

theorem retransmission_attempts:
  assumes "rx_reachable I r" and "ids_ok I" and "i \<in> I"
  shows "let n = rx_attempts (bid_key i) r; requeued = rx_notify now (RxRequeue peer i) r;
             finished = snd (rx_notify now (RxAborted peer i) r)
         in n \<le> 8 \<and> rx_attempts (bid_key i) finished = 0
            \<and> (if n < 8
               then fst requeued = [] \<and> rx_attempts (bid_key i) (snd requeued) = Suc n
                    \<and> (\<exists>d. rx_queue (snd requeued) = rx_queue r @ [d] \<and> bid_key d = bid_key i
                          \<and> unat (rd_count d) = Suc n \<and> rd_timestamp d = now + 2 ^ n)
               else fst requeued = [RaiseAborted peer i REASON_RETRY_LIMIT_REACHED]
                    \<and> rx_attempts (bid_key i) (snd requeued) = 0 \<and> rx_queue (snd requeued) = rx_queue r)
            \<and> (\<forall>j :: bundle_id. bid_key j \<noteq> bid_key i \<longrightarrow>
                  rx_attempts (bid_key j) (snd requeued) = rx_attempts (bid_key j) r
                  \<and> rx_attempts (bid_key j) finished = rx_attempts (bid_key j) r)"
proof -
  have inv: "rx_inv I r" by (rule rx_reachable_inv [OF assms(1,2)])
  obtain outs r' where r: "rx_requeue now peer i r = (outs, r')" by (cases "rx_requeue now peer i r")
  note spec = rx_requeue_spec [OF assms(2,3) inv r]
  note fin = rx_done_inv [OF assms(2,3) inv, where now = now and peer = peer]
  show ?thesis
    unfolding Let_def rx_notify.simps r fst_conv snd_conv
    using attempts_bound [OF inv] fin spec unfolding next_attempt_def by blast
qed

lemma rx_requeue_first:
  "rx_requeue now p i rx_new = ([], \<lparr>rx_queue = [rd_of now i p 2], rx_set = [rd_of now i p 2]\<rparr>)"
  by (simp add: rx_requeue_def rx_new_def rx_find_def Let_def)

lemma bid_same:
  assumes "bid_key a = bid_key b" and "bid_compat a b"
  shows "\<not> bid_less a b"
  unfolding bid_less_key [OF assms(2)] assms(1) by (rule order.irrefl)

lemma bid_compat_self [simp]: "bid_compat i i"
  by (simp add: bid_compat_def)

lemma rd_same:
  "\<not> bid_less (rd_of t i p n) (rd_of u i q m)"
  "\<not> bid_less (rd_next now2 (rd_of t i p n)) (rd_of u i q m)"
  "\<not> bid_less (rd_of u i q m) (rd_next now2 (rd_of t i p n))"
  by (rule bid_same; simp)+

lemma rx_requeue_second:
  "rx_requeue now2 q i (snd (rx_requeue now p i rx_new)) =
     ([], \<lparr>rx_queue = [rd_of now i p 2, rd_next now2 (rd_of now i p 2)], rx_set = [rd_next now2 (rd_of now i p 2)]\<rparr>)"
  unfolding rx_requeue_first snd_conv
  by (simp add: rx_requeue_def Let_def rx_find_def rd_same)

theorem retransmission_attempts_witness:
  "let i = bid_of_bundle sample_bundle; r = snd (rx_notify 100 (RxRequeue eid_none i) rx_new);
       s = rx_notify 200 (RxRequeue eid_none i) r
   in fst s = [] \<and> rx_attempts (bid_key i) r = 1 \<and> rx_attempts (bid_key i) (snd s) = 2
      \<and> map rd_timestamp (rx_queue (snd s)) = [101, 202]"
proof -
  let ?i = "bid_of_bundle sample_bundle"
  let ?r = "snd (rx_notify 100 (RxRequeue eid_none ?i) rx_new)"
  have r: "rx_notify 100 (RxRequeue eid_none ?i) rx_new = ([], ?r)" by (simp add: rx_requeue_first)
  have "rx_reachable {?i} ?r" by (rule rx_event [OF rx_start _ r]) simp
  moreover have "ids_ok {?i}" by (simp add: ids_ok_def)
  moreover have "rx_attempts (bid_key ?i) ?r = 1" by (simp add: rx_requeue_first rx_attempts_def)
  moreover have "map rd_timestamp (rx_queue ?r) = [101]"
    by (simp add: rx_requeue_first) (simp add: rd_of_def rd_next_def Let_def bundle_id.defs)
  ultimately show ?thesis
    using retransmission_attempts [of "{?i}" ?r ?i 200 eid_none] unfolding Let_def by auto
qed

text \<open>The set of the extension is ordered by the bundle alone: when the transfers of one bundle to two
  neighbors are put off, the bundle is queued twice for the first of them, and the count of one is the
  count of both.\<close>

theorem retransmission_wrong_peer:
  "let r = snd (rx_notify now2 (RxRequeue q i) (snd (rx_notify now (RxRequeue p i) rx_new)))
   in map rd_destination (rx_queue r) = [p, p] \<and> map rd_count (rx_queue r) = [1, 2] \<and> rx_attempts (bid_key i) r = 2
      \<and> rx_set (snd (rx_notify now3 (RxAborted q i) r)) = []"
  unfolding Let_def rx_notify.simps rx_requeue_second snd_conv rx_done_def
  by (simp add: rx_attempts_def rd_same)

text \<open>A tick of the clock releases the first bundle of the queue when its time has come and no
  other; an expired bundle leaves the queue with one aborted transfer for each of its entries, in order, and
  the others keep their order.\<close>

theorem retransmission_queue:
  "rx_notify now (RxTime ts) r =
     (if rx_queue r = [] \<or> ts < rd_timestamp (hd (rx_queue r)) then ([], r)
      else ([TransferTo (rd_destination (hd (rx_queue r))) (rd_id (hd (rx_queue r)))], r\<lparr>rx_queue := tl (rx_queue r)\<rparr>))
   \<and> rx_notify now (RxExpired i) r =
     (map (\<lambda>d. RaiseAborted (rd_destination d) (rd_id d) REASON_BUNDLE_DELETED) (filter (\<lambda>d. bid_eq d i) (rx_queue r)),
      r\<lparr>rx_queue := filter (\<lambda>d. \<not> bid_eq d i) (rx_queue r)\<rparr>)"
  by (auto simp: rx_time_def rx_expired_filter not_le split: list.split)

end
