(* ===== verification/Nodes.thy ===== *)
theory Nodes
  imports Retransmission Capsule
begin

text \<open>
  Neighbors and the ways to reach them: nodes with their addresses and attributes
  (\<open>daemon/src/core/Node.cpp\<close>), the connection manager (\<open>daemon/src/net/ConnectionManager.cpp\<close>),
  and how the core hands a bundle to it (\<open>daemon/src/core/BundleCore.cpp\<close>).
\<close>

section \<open>Nodes\<close>

datatype protocol =
    CONN_UNSUPPORTED | CONN_UNDEFINED | CONN_TCPIP | CONN_UDPIP | CONN_LOWPAN | CONN_BLUETOOTH | CONN_HTTP | CONN_FILE
  | CONN_DGRAM_UDP | CONN_DGRAM_LOWPAN | CONN_DGRAM_ETHERNET

fun protocol_num :: "protocol \<Rightarrow> int" where
  "protocol_num CONN_UNSUPPORTED = -1"
| "protocol_num CONN_UNDEFINED = 0"
| "protocol_num CONN_TCPIP = 1"
| "protocol_num CONN_UDPIP = 2"
| "protocol_num CONN_LOWPAN = 3"
| "protocol_num CONN_BLUETOOTH = 4"
| "protocol_num CONN_HTTP = 5"
| "protocol_num CONN_FILE = 6"
| "protocol_num CONN_DGRAM_UDP = 7"
| "protocol_num CONN_DGRAM_LOWPAN = 8"
| "protocol_num CONN_DGRAM_ETHERNET = 9"

datatype node_type = NODE_UNAVAILABLE | NODE_CONNECTED | NODE_DISCOVERED | NODE_STATIC

fun node_type_num :: "node_type \<Rightarrow> int" where
  "node_type_num NODE_UNAVAILABLE = 0"
| "node_type_num NODE_CONNECTED = 1"
| "node_type_num NODE_DISCOVERED = 2"
| "node_type_num NODE_STATIC = 3"

record node_uri =
  nu_type :: node_type
  nu_protocol :: protocol
  nu_value :: string
  nu_expire :: u64

record node_attribute =
  na_type :: node_type
  na_name :: string
  na_value :: string
  na_expire :: u64

record node =
  n_eid :: eid
  n_uris :: "node_uri list"
  n_attributes :: "node_attribute list"
  n_connect_immediately :: bool

text \<open>The constructors turn a timeout into a point in time; none means never.\<close>

definition node_deadline :: "u64 \<Rightarrow> u64 \<Rightarrow> u64" where
  "node_deadline now timeout = (if timeout = 0 then 0 else now + timeout)"

definition uri_new :: "u64 \<Rightarrow> node_type \<Rightarrow> protocol \<Rightarrow> string \<Rightarrow> u64 \<Rightarrow> node_uri" where
  "uri_new now t p v timeout = \<lparr>nu_type = t, nu_protocol = p, nu_value = v, nu_expire = node_deadline now timeout\<rparr>"

definition attribute_new :: "u64 \<Rightarrow> node_type \<Rightarrow> string \<Rightarrow> string \<Rightarrow> u64 \<Rightarrow> node_attribute" where
  "attribute_new now t n v timeout = \<lparr>na_type = t, na_name = n, na_value = v, na_expire = node_deadline now timeout\<rparr>"

definition uri_less :: "node_uri \<Rightarrow> node_uri \<Rightarrow> bool" where
  "uri_less a b \<longleftrightarrow>
     (if protocol_num (nu_protocol a) < protocol_num (nu_protocol b) then True
      else if nu_protocol a \<noteq> nu_protocol b then False
      else if node_type_num (nu_type a) < node_type_num (nu_type b) then True
      else if nu_type a \<noteq> nu_type b then False
      else nu_value a < nu_value b)"

definition uri_eq :: "node_uri \<Rightarrow> node_uri \<Rightarrow> bool" where
  "uri_eq a b \<longleftrightarrow> nu_type a = nu_type b \<and> nu_protocol a = nu_protocol b \<and> nu_value a = nu_value b"

definition attribute_less :: "node_attribute \<Rightarrow> node_attribute \<Rightarrow> bool" where
  "attribute_less a b \<longleftrightarrow>
     (if na_name a < na_name b then True
      else if na_name a \<noteq> na_name b then False
      else node_type_num (na_type a) < node_type_num (na_type b))"

definition attribute_eq :: "node_attribute \<Rightarrow> node_attribute \<Rightarrow> bool" where
  "attribute_eq a b \<longleftrightarrow> na_type a = na_type b \<and> na_name a = na_name b"

text \<open>
  \<open>decode\<close>: the last address and port of the value win. \<open>stream >> port\<close> needs a digit, and
  a number that does not fit becomes the greatest one. A parameter without a value is read behind
  the end of a vector.
\<close>

definition read_port :: "string \<Rightarrow> nat option" where
  "read_port s =
     (let ds = takeWhile is_digit (dropWhile is_blank s)
      in if ds = [] then None else Some (min 4294967295 (digits_value ds)))"

definition uri_param :: "string \<Rightarrow> string \<times> nat \<Rightarrow> (string \<times> nat) option" where
  "uri_param s r =
     (case tokenize ''='' s (2 ^ 64 - 1) of
        Some (k # vs) \<Rightarrow>
          if k = ''ip'' then (case vs of [] \<Rightarrow> None | v # _ \<Rightarrow> Some (v, snd r))
          else if k = ''port'' then
            (case vs of [] \<Rightarrow> None | v # _ \<Rightarrow> (case read_port v of None \<Rightarrow> None | Some n \<Rightarrow> Some (fst r, n)))
          else Some r
      | _ \<Rightarrow> None)"

fun uri_params :: "string list \<Rightarrow> string \<times> nat \<Rightarrow> (string \<times> nat) option" where
  "uri_params [] r = Some r"
| "uri_params (s # ss) r = (case uri_param s r of None \<Rightarrow> None | Some r' \<Rightarrow> uri_params ss r')"

definition uri_decode :: "string \<Rightarrow> string \<times> nat \<Rightarrow> (string \<times> nat) option" where
  "uri_decode v r = (case tokenize '';'' v (2 ^ 64 - 1) of None \<Rightarrow> None | Some ss \<Rightarrow> uri_params ss r)"

definition node_new :: "eid \<Rightarrow> node" where
  "node_new e = \<lparr>n_eid = e, n_uris = [], n_attributes = [], n_connect_immediately = False\<rparr>"

definition node_has :: "protocol \<Rightarrow> node \<Rightarrow> bool" where
  "node_has p n = list_ex (\<lambda>u. nu_protocol u = p) (n_uris n)"

definition node_has_attribute :: "string \<Rightarrow> node \<Rightarrow> bool" where
  "node_has_attribute name n = list_ex (\<lambda>a. na_name a = name) (n_attributes n)"

definition node_add_uri :: "node_uri \<Rightarrow> node \<Rightarrow> node" where
  "node_add_uri u n = n\<lparr>n_uris := oset_insert uri_less u (oset_erase uri_less u (n_uris n))\<rparr>"

definition node_add_attribute :: "node_attribute \<Rightarrow> node \<Rightarrow> node" where
  "node_add_attribute a n = n\<lparr>n_attributes := oset_insert attribute_less a (oset_erase attribute_less a (n_attributes n))\<rparr>"

definition node_remove_uri :: "node_uri \<Rightarrow> node \<Rightarrow> node" where
  "node_remove_uri u n = n\<lparr>n_uris := oset_erase uri_less u (n_uris n)\<rparr>"

definition node_remove_attribute :: "node_attribute \<Rightarrow> node \<Rightarrow> node" where
  "node_remove_attribute a n = n\<lparr>n_attributes := oset_erase attribute_less a (n_attributes n)\<rparr>"

definition node_clear :: "node \<Rightarrow> node" where
  "node_clear n = n\<lparr>n_uris := [], n_attributes := []\<rparr>"

definition node_get :: "protocol \<Rightarrow> node \<Rightarrow> node_uri list" where
  "node_get p n = filter (\<lambda>u. nu_protocol u = p) (n_uris n)"

definition node_get_type :: "node_type \<Rightarrow> protocol \<Rightarrow> node \<Rightarrow> node_uri list" where
  "node_get_type t p n = filter (\<lambda>u. nu_protocol u = p \<and> nu_type u = t) (n_uris n)"

definition node_get_attribute :: "string \<Rightarrow> node \<Rightarrow> node_attribute list" where
  "node_get_attribute name n = filter (\<lambda>a. na_name a = name) (n_attributes n)"

definition outdated :: "u64 \<Rightarrow> u64 \<Rightarrow> bool" where
  "outdated now expire \<longleftrightarrow> 0 < expire \<and> expire < now"

definition node_expire :: "u64 \<Rightarrow> node \<Rightarrow> bool \<times> node" where
  "node_expire now n =
     (let n' = n\<lparr>n_attributes := filter (\<lambda>a. \<not> outdated now (na_expire a)) (n_attributes n),
                 n_uris := filter (\<lambda>u. \<not> outdated now (nu_expire u)) (n_uris n)\<rparr>
      in (n_attributes n' = [] \<and> n_uris n' = [], n'))"

definition node_plus :: "node \<Rightarrow> node \<Rightarrow> node" where
  "node_plus n other = foldl (\<lambda>n u. node_add_uri u n) (foldl (\<lambda>n a. node_add_attribute a n) n (n_attributes other)) (n_uris other)"

definition node_minus :: "node \<Rightarrow> node \<Rightarrow> node" where
  "node_minus n other =
     foldl (\<lambda>n u. node_remove_uri u n) (foldl (\<lambda>n a. node_remove_attribute a n) n (n_attributes other)) (n_uris other)"

definition node_less :: "node \<Rightarrow> node \<Rightarrow> bool" where
  "node_less a b = eid_less (n_eid a) (n_eid b)"

definition node_isAvailable :: "node \<Rightarrow> bool" where
  "node_isAvailable n \<longleftrightarrow> n_uris n \<noteq> []"

fun node_type_string :: "node_type \<Rightarrow> string" where
  "node_type_string NODE_UNAVAILABLE = ''unavailable''"
| "node_type_string NODE_DISCOVERED = ''discovered''"
| "node_type_string NODE_STATIC = ''static''"
| "node_type_string NODE_CONNECTED = ''connected''"

fun protocol_string :: "protocol \<Rightarrow> string" where
  "protocol_string CONN_UNSUPPORTED = ''unsupported''"
| "protocol_string CONN_UNDEFINED = ''undefined''"
| "protocol_string CONN_UDPIP = ''UDP''"
| "protocol_string CONN_TCPIP = ''TCP''"
| "protocol_string CONN_LOWPAN = ''LoWPAN''"
| "protocol_string CONN_BLUETOOTH = ''Bluetooth''"
| "protocol_string CONN_HTTP = ''HTTP''"
| "protocol_string CONN_FILE = ''FILE''"
| "protocol_string CONN_DGRAM_UDP = ''DGRAM:UDP''"
| "protocol_string CONN_DGRAM_ETHERNET = ''DGRAM:ETHERNET''"
| "protocol_string CONN_DGRAM_LOWPAN = ''DGRAM:LOWPAN''"

definition uri_string :: "node_uri \<Rightarrow> string" where
  "uri_string u = node_type_string (nu_type u) @ ''#'' @ protocol_string (nu_protocol u) @ ''#'' @ nu_value u"

definition attribute_string :: "node_attribute \<Rightarrow> string" where
  "attribute_string a = node_type_string (na_type a) @ ''#'' @ na_name a @ ''#'' @ na_value a"

definition node_string :: "node \<Rightarrow> string" where
  "node_string n =
     ''Node: '' @ eid_getString (n_eid n) @ '' [ ''
     @ concat (map (\<lambda>a. attribute_string a @ ''#expire='' @ show_size (na_expire a) @ ''; '') (n_attributes n))
     @ concat (map (\<lambda>u. uri_string u @ ''#expire='' @ show_size (nu_expire u) @ ''; '') (n_uris n))
     @ '' ]''"

section \<open>Addresses of a node\<close>

definition uri_key :: "node_uri \<Rightarrow> int \<times> int \<times> string" where
  "uri_key u = (protocol_num (nu_protocol u), node_type_num (nu_type u), nu_value u)"

definition attribute_key :: "node_attribute \<Rightarrow> string \<times> int" where
  "attribute_key a = (na_name a, node_type_num (na_type a))"

lemma protocol_num_inj: "protocol_num a = protocol_num b \<longleftrightarrow> a = b"
  by (cases a; cases b; simp)

lemma node_type_num_inj: "node_type_num a = node_type_num b \<longleftrightarrow> a = b"
  by (cases a; cases b; simp)

lemma uri_key_less: "uri_less a b \<longleftrightarrow> uri_key a < uri_key b"
  by (auto simp: uri_less_def uri_key_def less_prod_def protocol_num_inj node_type_num_inj)

lemma attribute_key_less: "attribute_less a b \<longleftrightarrow> attribute_key a < attribute_key b"
  by (auto simp: attribute_less_def attribute_key_def less_prod_def)

interpretation uri: key_order uri_less uri_key "\<lambda>a b. True"
  by unfold_locales (simp_all add: uri_key_less)

interpretation attr: key_order attribute_less attribute_key "\<lambda>a b. True"
  by unfold_locales (simp_all add: attribute_key_less)

text \<open>A node whose addresses and attributes are in order.\<close>

definition node_ok :: "node \<Rightarrow> bool" where
  "node_ok n \<longleftrightarrow> key_sorted uri_key (n_uris n) \<and> key_sorted attribute_key (n_attributes n)"

text \<open>Adding replaces by key, removing removes by key; the two loops work on each part alone.\<close>

lemma foldl_update:
  "(\<And>n x. f (upd n x) = g (f n) x) \<Longrightarrow> f (foldl upd n xs) = foldl g (f n) xs"
  by (induction xs arbitrary: n) simp_all

lemma foldl_same [simp]: "foldl (\<lambda>a b. a) x xs = x"
  by (induction xs) simp_all

lemma plus_fields:
  "n_uris (node_plus n m) = foldl (\<lambda>s u. oset_insert uri_less u (oset_erase uri_less u s)) (n_uris n) (n_uris m)"
  "n_attributes (node_plus n m) = foldl (\<lambda>s a. oset_insert attribute_less a (oset_erase attribute_less a s)) (n_attributes n) (n_attributes m)"
  "n_eid (node_plus n m) = n_eid n"
proof -
  have keep: "n_uris (foldl (\<lambda>n a. node_add_attribute a n) n xs) = n_uris n" "n_eid (foldl (\<lambda>n a. node_add_attribute a n) n xs) = n_eid n" for n xs
    by (induction xs arbitrary: n) (simp_all add: node_add_attribute_def)
  have "n_attributes (foldl (\<lambda>n u. node_add_uri u n) n xs) = n_attributes n" "n_eid (foldl (\<lambda>n u. node_add_uri u n) n xs) = n_eid n" for n xs
    by (induction xs arbitrary: n) (simp_all add: node_add_uri_def)
  with keep show "n_uris (node_plus n m) = foldl (\<lambda>s u. oset_insert uri_less u (oset_erase uri_less u s)) (n_uris n) (n_uris m)"
    "n_attributes (node_plus n m) = foldl (\<lambda>s a. oset_insert attribute_less a (oset_erase attribute_less a s)) (n_attributes n) (n_attributes m)"
    "n_eid (node_plus n m) = n_eid n"
    by (simp_all add: node_plus_def foldl_update [where f = n_uris] foldl_update [where f = n_attributes] node_add_uri_def node_add_attribute_def)
qed

lemma minus_fields:
  "n_uris (node_minus n m) = foldl (\<lambda>s u. oset_erase uri_less u s) (n_uris n) (n_uris m)"
  "n_attributes (node_minus n m) = foldl (\<lambda>s a. oset_erase attribute_less a s) (n_attributes n) (n_attributes m)"
  "n_eid (node_minus n m) = n_eid n"
proof -
  have keep: "n_uris (foldl (\<lambda>n a. node_remove_attribute a n) n xs) = n_uris n" "n_eid (foldl (\<lambda>n a. node_remove_attribute a n) n xs) = n_eid n" for n xs
    by (induction xs arbitrary: n) (simp_all add: node_remove_attribute_def)
  have "n_attributes (foldl (\<lambda>n u. node_remove_uri u n) n xs) = n_attributes n" "n_eid (foldl (\<lambda>n u. node_remove_uri u n) n xs) = n_eid n" for n xs
    by (induction xs arbitrary: n) (simp_all add: node_remove_uri_def)
  with keep show "n_uris (node_minus n m) = foldl (\<lambda>s u. oset_erase uri_less u s) (n_uris n) (n_uris m)"
    "n_attributes (node_minus n m) = foldl (\<lambda>s a. oset_erase attribute_less a s) (n_attributes n) (n_attributes m)"
    "n_eid (node_minus n m) = n_eid n"
    by (simp_all add: node_minus_def foldl_update [where f = n_uris] foldl_update [where f = n_attributes] node_remove_uri_def node_remove_attribute_def)
qed

lemma node_plus_set:
  assumes "node_ok n" and "node_ok m"
  shows "set (n_uris (node_plus n m)) = {u \<in> set (n_uris n). uri_key u \<notin> uri_key ` set (n_uris m)} \<union> set (n_uris m)"
    and "set (n_attributes (node_plus n m))
      = {a \<in> set (n_attributes n). attribute_key a \<notin> attribute_key ` set (n_attributes m)} \<union> set (n_attributes m)"
    and "node_ok (node_plus n m)"
  using assms uri.replace_all [of "n_uris n" "n_uris m"] attr.replace_all [of "n_attributes n" "n_attributes m"]
    uri.distinct_keys [of "n_uris m"] attr.distinct_keys [of "n_attributes m"]
  unfolding node_ok_def plus_fields by simp_all

lemma node_minus_set:
  assumes "node_ok n"
  shows "set (n_uris (node_minus n m)) = {u \<in> set (n_uris n). uri_key u \<notin> uri_key ` set (n_uris m)}"
    and "set (n_attributes (node_minus n m)) = {a \<in> set (n_attributes n). attribute_key a \<notin> attribute_key ` set (n_attributes m)}"
    and "node_ok (node_minus n m)"
  using assms uri.erase_all [of "n_uris n" "n_uris m"] attr.erase_all [of "n_attributes n" "n_attributes m"]
  unfolding node_ok_def minus_fields by simp_all

lemma key_sorted_filter: "key_sorted key xs \<Longrightarrow> key_sorted key (filter P xs)"
  by (induction xs) auto

lemma node_expire_ok: "node_ok n \<Longrightarrow> node_ok (snd (node_expire now n)) \<and> n_eid (snd (node_expire now n)) = n_eid n"
  by (simp add: node_ok_def node_expire_def Let_def key_sorted_filter)

section \<open>The connection manager\<close>

text \<open>
  Convergence layers are a set of pointers; the list holds them in the order of their addresses,
  each as a number with the protocol it answers to. What they do with a node or a bundle is output.
\<close>

datatype cm_error = NeighborNotAvailableException | ConnectionNotAvailableException

record connection_manager =
  cm_nodes :: "node list"
  cm_cl :: "(nat \<times> protocol) list"
  cm_next_autoconnect :: u64

datatype cm_output =
    RaiseAvailable node
  | RaiseUnavailable node
  | ClOpen nat node
  | ClQueue nat node eid bundle_id

datatype connection_state = CONNECTION_UP | CONNECTION_DOWN | CONNECTION_TIMEOUT | CONNECTION_SETUP

datatype cm_event =
    CmInfoUpdated node
  | CmAvailable node
  | CmSecondTick
  | CmConnection connection_state node
  | CmOther

definition cm_new :: "connection_manager" where
  "cm_new = \<lparr>cm_nodes = [], cm_cl = [], cm_next_autoconnect = 0\<rparr>"

definition cm_startup :: "u64 \<Rightarrow> u64 \<Rightarrow> connection_manager \<Rightarrow> connection_manager" where
  "cm_startup now autoconnect cm =
     (if autoconnect \<noteq> 0 then cm\<lparr>cm_next_autoconnect := now + autoconnect\<rparr> else cm)"

definition cm_shutdown :: "connection_manager \<Rightarrow> connection_manager" where
  "cm_shutdown cm = cm\<lparr>cm_cl := []\<rparr>"

text \<open>\<open>getNode\<close> returns a reference to the first node of that name, which is then changed.\<close>

fun cm_change :: "eid \<Rightarrow> (node \<Rightarrow> node) \<Rightarrow> node list \<Rightarrow> node list option" where
  "cm_change e f [] = None"
| "cm_change e f (n # ns) =
     (if n_eid n = e then Some (f n # ns)
      else map_option (\<lambda>ns'. n # ns') (cm_change e f ns))"

definition cm_addConnection :: "node \<Rightarrow> connection_manager \<Rightarrow> cm_output list \<times> connection_manager" where
  "cm_addConnection n cm =
     (case cm_change (n_eid n) (\<lambda>db. node_plus db n) (cm_nodes cm) of
        Some ns \<Rightarrow> ([], cm\<lparr>cm_nodes := ns\<rparr>)
      | None \<Rightarrow> ([RaiseAvailable n], cm\<lparr>cm_nodes := cm_nodes cm @ [n]\<rparr>))"

definition cm_removeConnection :: "node \<Rightarrow> connection_manager \<Rightarrow> connection_manager" where
  "cm_removeConnection n cm =
     (case cm_change (n_eid n) (\<lambda>db. node_minus db n) (cm_nodes cm) of
        Some ns \<Rightarrow> cm\<lparr>cm_nodes := ns\<rparr>
      | None \<Rightarrow> cm)"

definition cm_discovered :: "eid \<Rightarrow> node \<Rightarrow> connection_manager \<Rightarrow> cm_output list \<times> connection_manager" where
  "cm_discovered local n cm = (if n_eid n = local then ([], cm) else cm_addConnection n cm)"

fun cm_check_nodes :: "u64 \<Rightarrow> node list \<Rightarrow> cm_output list \<times> node list" where
  "cm_check_nodes now [] = ([], [])"
| "cm_check_nodes now (n # ns) =
     (case (node_expire now n, cm_check_nodes now ns) of
        ((gone, n'), (outs, ns')) \<Rightarrow> if gone then (RaiseUnavailable n' # outs, ns') else (outs, n' # ns'))"

definition cm_check_unavailable :: "u64 \<Rightarrow> connection_manager \<Rightarrow> cm_output list \<times> connection_manager" where
  "cm_check_unavailable now cm =
     (case cm_check_nodes now (cm_nodes cm) of (outs, ns) \<Rightarrow> (outs, cm\<lparr>cm_nodes := ns\<rparr>))"

text \<open>The first convergence layer whose protocol the node has.\<close>

definition cm_layer :: "node \<Rightarrow> connection_manager \<Rightarrow> nat option" where
  "cm_layer n cm = map_option fst (find (\<lambda>(i, p). node_has p n) (cm_cl cm))"

definition cm_open :: "node \<Rightarrow> connection_manager \<Rightarrow> cm_error option \<times> cm_output list" where
  "cm_open n cm =
     (case cm_layer n cm of
        Some i \<Rightarrow> (None, [ClOpen i n])
      | None \<Rightarrow> (Some ConnectionNotAvailableException, []))"

text \<open>An exception of \<open>open\<close> leaves the loop, and the handler of the event.\<close>

fun cm_open_all :: "node list \<Rightarrow> connection_manager \<Rightarrow> cm_error option \<times> cm_output list" where
  "cm_open_all [] cm = (None, [])"
| "cm_open_all (n # ns) cm =
     (case cm_open n cm of
        (Some e, outs) \<Rightarrow> (Some e, outs)
      | (None, outs) \<Rightarrow> (case cm_open_all ns cm of (e, outs') \<Rightarrow> (e, outs @ outs')))"

definition cm_check_autoconnect ::
  "u64 \<Rightarrow> u64 \<Rightarrow> connection_manager \<Rightarrow> cm_error option \<times> cm_output list \<times> connection_manager" where
  "cm_check_autoconnect now autoconnect cm =
     (if autoconnect = 0 \<or> \<not> cm_next_autoconnect cm < now then (None, [], cm)
      else
        (let ns = filter (\<lambda>n. node_get_type NODE_CONNECTED CONN_TCPIP n = [] \<and> node_isAvailable n) (cm_nodes cm);
             cm' = cm\<lparr>cm_next_autoconnect := now + autoconnect\<rparr>;
             (e, outs) = cm_open_all ns cm'
         in (e, outs, cm')))"

fun cm_raiseEvent ::
  "u64 \<Rightarrow> eid \<Rightarrow> u64 \<Rightarrow> cm_event \<Rightarrow> connection_manager \<Rightarrow> cm_error option \<times> cm_output list \<times> connection_manager" where
  "cm_raiseEvent now local autoconnect (CmInfoUpdated n) cm =
     (case cm_discovered local n cm of (outs, cm') \<Rightarrow> (None, outs, cm'))"
| "cm_raiseEvent now local autoconnect (CmAvailable n) cm =
     (if n_connect_immediately n then (case cm_open n cm of (e, outs) \<Rightarrow> (e, outs, cm)) else (None, [], cm))"
| "cm_raiseEvent now local autoconnect CmSecondTick cm =
     (case cm_check_unavailable now cm of
        (outs, cm1) \<Rightarrow> (case cm_check_autoconnect now autoconnect cm1 of (e, outs', cm2) \<Rightarrow> (e, outs @ outs', cm2)))"
| "cm_raiseEvent now local autoconnect (CmConnection st n) cm =
     (case st of
        CONNECTION_UP \<Rightarrow> (case cm_addConnection n cm of (outs, cm') \<Rightarrow> (None, outs, cm'))
      | CONNECTION_DOWN \<Rightarrow> (None, [], cm_removeConnection n cm)
      | _ \<Rightarrow> (None, [], cm))"
| "cm_raiseEvent now local autoconnect CmOther cm = (None, [], cm)"

definition cm_addConvergenceLayer :: "nat \<times> protocol \<Rightarrow> connection_manager \<Rightarrow> connection_manager" where
  "cm_addConvergenceLayer cl cm = cm\<lparr>cm_cl := oset_insert (\<lambda>a b. fst a < fst b) cl (cm_cl cm)\<rparr>"

text \<open>\<open>queue(Job)\<close>: the first node of that name.\<close>

definition cm_queue :: "eid \<Rightarrow> bundle_id \<Rightarrow> connection_manager \<Rightarrow> cm_error + cm_output" where
  "cm_queue dest b cm =
     (case find (\<lambda>n. n_eid n = dest) (cm_nodes cm) of
        None \<Rightarrow> Inl NeighborNotAvailableException
      | Some n \<Rightarrow>
          (case cm_layer n cm of
             Some i \<Rightarrow> Inr (ClQueue i n dest b)
           | None \<Rightarrow> Inl ConnectionNotAvailableException))"

definition cm_getNeighbors :: "connection_manager \<Rightarrow> node list" where
  "cm_getNeighbors cm = foldl (\<lambda>ret n. if node_isAvailable n then oset_insert node_less n ret else ret) [] (cm_nodes cm)"

definition cm_isNeighbor :: "node \<Rightarrow> connection_manager \<Rightarrow> bool" where
  "cm_isNeighbor n cm = list_ex (\<lambda>x. n_eid x = n_eid n \<and> node_isAvailable x) (cm_nodes cm)"

text \<open>\<open>BundleCore::transferTo\<close>: what becomes of an error.\<close>

datatype core_transfer =
    Queued cm_output
  | AbortTransfer eid bundle_id abort_reason
  | Requeue eid bundle_id

definition core_transferTo :: "eid \<Rightarrow> bundle_id \<Rightarrow> connection_manager \<Rightarrow> core_transfer" where
  "core_transferTo dest b cm =
     (case cm_queue dest b cm of
        Inr x \<Rightarrow> Queued x
      | Inl NeighborNotAvailableException \<Rightarrow> AbortTransfer dest b REASON_CONNECTION_DOWN
      | Inl ConnectionNotAvailableException \<Rightarrow> Requeue dest b)"

section \<open>Histories\<close>

inductive cm_reachable :: "eid \<Rightarrow> u64 \<Rightarrow> cm_output list \<Rightarrow> connection_manager \<Rightarrow> bool" for local autoconnect where
  cm_start: "cm_reachable local autoconnect [] cm_new"
| cm_layered: "cm_reachable local autoconnect tr cm \<Longrightarrow> cm_reachable local autoconnect tr (cm_addConvergenceLayer cl cm)"
| cm_started: "cm_reachable local autoconnect tr cm \<Longrightarrow> cm_reachable local autoconnect tr (cm_startup now autoconnect cm)"
| cm_event: "cm_reachable local autoconnect tr cm \<Longrightarrow> cm_raiseEvent now local autoconnect e cm = (err, outs, cm')
    \<Longrightarrow> cm_reachable local autoconnect (tr @ outs) cm'"
| cm_added: "cm_reachable local autoconnect tr cm \<Longrightarrow> cm_addConnection n cm = (outs, cm') \<Longrightarrow> cm_reachable local autoconnect (tr @ outs) cm'"
| cm_removed: "cm_reachable local autoconnect tr cm \<Longrightarrow> cm_reachable local autoconnect tr (cm_removeConnection n cm)"

text \<open>The neighbors a listener knows from the announcements, as long as they make sense to it.\<close>

fun announced :: "eid set \<Rightarrow> cm_output list \<Rightarrow> eid set option" where
  "announced S [] = Some S"
| "announced S (RaiseAvailable n # outs) = (if n_eid n \<in> S then None else announced (insert (n_eid n) S) outs)"
| "announced S (RaiseUnavailable n # outs) = (if n_eid n \<notin> S then None else announced (S - {n_eid n}) outs)"
| "announced S (_ # outs) = announced S outs"

lemma announced_append: "announced S (xs @ ys) = (case announced S xs of None \<Rightarrow> None | Some T \<Rightarrow> announced T ys)"
  by (induction S xs rule: announced.induct) auto

lemma cm_change_eids:
  assumes "\<And>n. n_eid (f n) = n_eid n"
  shows "case cm_change e f ns of None \<Rightarrow> e \<notin> n_eid ` set ns
    | Some ns' \<Rightarrow> map n_eid ns' = map n_eid ns \<and> n_eid ` set ns' = n_eid ` set ns"
  using assms by (induction ns) (auto split: option.splits)

text \<open>An operation that changes the nodes of a manager and announces the changes.\<close>

definition announces :: "connection_manager \<Rightarrow> cm_output list \<Rightarrow> connection_manager \<Rightarrow> bool" where
  "announces cm outs cm' \<longleftrightarrow> (distinct (map n_eid (cm_nodes cm)) \<longrightarrow>
     distinct (map n_eid (cm_nodes cm')) \<and> announced (n_eid ` set (cm_nodes cm)) outs = Some (n_eid ` set (cm_nodes cm')))"

lemma announces_trans: "announces a xs b \<Longrightarrow> announces b ys c \<Longrightarrow> announces a (xs @ ys) c"
  by (auto simp: announces_def announced_append)

lemma announces_add:
  assumes "cm_addConnection n cm = (outs, cm')"
  shows "announces cm outs cm'"
proof (cases "cm_change (n_eid n) (\<lambda>db. node_plus db n) (cm_nodes cm)")
  case None
  then show ?thesis
    using assms cm_change_eids [of "\<lambda>db. node_plus db n" "n_eid n" "cm_nodes cm"]
    by (auto simp: announces_def cm_addConnection_def plus_fields)
next
  case (Some ns)
  then have "outs = []" "cm' = cm\<lparr>cm_nodes := ns\<rparr>" using assms by (simp_all add: cm_addConnection_def)
  then show ?thesis
    using Some cm_change_eids [of "\<lambda>db. node_plus db n" "n_eid n" "cm_nodes cm"]
    by (simp add: plus_fields announces_def)
qed

lemma announces_remove: "announces cm [] (cm_removeConnection n cm)"
proof (cases "cm_change (n_eid n) (\<lambda>db. node_minus db n) (cm_nodes cm)")
  case None
  then show ?thesis by (simp add: cm_removeConnection_def announces_def)
next
  case (Some ns)
  then show ?thesis
    using cm_change_eids [of "\<lambda>db. node_minus db n" "n_eid n" "cm_nodes cm"]
    by (simp add: cm_removeConnection_def minus_fields announces_def)
qed

lemma expire_eid: "node_expire now n = (gone, n') \<Longrightarrow> n_eid n' = n_eid n"
  by (auto simp: node_expire_def Let_def)

lemma check_announced:
  assumes "cm_check_nodes now ns = (outs, ns')" and "distinct (map n_eid ns)" and "S \<inter> n_eid ` set ns = {}"
  shows "announced (S \<union> n_eid ` set ns) outs = Some (S \<union> n_eid ` set ns') \<and> distinct (map n_eid ns')
    \<and> n_eid ` set ns' \<subseteq> n_eid ` set ns"
  using assms
proof (induction ns arbitrary: outs ns' S)
  case (Cons n ns)
  obtain gone n' where e: "node_expire now n = (gone, n')" by (cases "node_expire now n")
  obtain outs1 ns1 where r: "cm_check_nodes now ns = (outs1, ns1)" by (cases "cm_check_nodes now ns")
  have eid: "n_eid n' = n_eid n" by (rule expire_eid [OF e])
  have fresh: "n_eid n \<notin> n_eid ` set ns" "n_eid n \<notin> S" "distinct (map n_eid ns)" "S \<inter> n_eid ` set ns = {}"
    using Cons.prems(2,3) by auto
  show ?case
  proof (cases gone)
    case True
    then have out: "outs = RaiseUnavailable n' # outs1" "ns' = ns1" using Cons.prems(1) e r by simp_all
    have less: "(S \<union> n_eid ` set (n # ns)) - {n_eid n} = S \<union> n_eid ` set ns" "n_eid n \<in> S \<union> n_eid ` set (n # ns)"
      using fresh(1,2) by auto
    note IH = Cons.IH [OF r fresh(3,4)]
    have "announced (S \<union> n_eid ` set (n # ns)) outs = announced (S \<union> n_eid ` set ns) outs1"
      unfolding out(1) announced.simps eid less(1) using less(2) by (simp only: not_True_eq_False if_False)
    moreover have "n_eid ` set ns1 \<subseteq> n_eid ` set (n # ns)" using IH by (simp add: subset_insertI2)
    ultimately show ?thesis using IH unfolding out(2) by simp
  next
    case False
    then have out: "outs = outs1" "ns' = n' # ns1" using Cons.prems(1) e r by simp_all
    have "insert (n_eid n) S \<inter> n_eid ` set ns = {}" using fresh by auto
    note IH = Cons.IH [OF r fresh(3) this]
    have "S \<union> n_eid ` set (n # ns) = insert (n_eid n) S \<union> n_eid ` set ns"
      "S \<union> n_eid ` set (n' # ns1) = insert (n_eid n) S \<union> n_eid ` set ns1" by (simp_all add: eid)
    moreover have "n_eid n \<notin> n_eid ` set ns1" using IH fresh(1) by blast
    ultimately show ?thesis using IH unfolding out by (auto simp: eid)
  qed
qed simp

lemma announces_check:
  assumes "cm_check_unavailable now cm = (outs, cm')"
  shows "announces cm outs cm'"
proof -
  obtain ns' where r: "cm_check_nodes now (cm_nodes cm) = (outs, ns')" "cm' = cm\<lparr>cm_nodes := ns'\<rparr>"
    using assms by (auto simp: cm_check_unavailable_def split: prod.splits)
  then show ?thesis using check_announced [OF r(1), of "{}"] by (simp add: announces_def)
qed

lemma open_silent: "cm_open n cm = (e, outs) \<Longrightarrow> announced S outs = Some S"
  by (auto simp: cm_open_def split: option.splits)

lemma open_all_silent: "cm_open_all ns cm = (e, outs) \<Longrightarrow> announced S outs = Some S"
  by (induction ns arbitrary: e outs)
     (auto simp: announced_append dest!: open_silent [where S = S] split: option.splits prod.splits)

lemma announces_autoconnect:
  "cm_check_autoconnect now autoconnect cm = (e, outs, cm') \<Longrightarrow> announces cm outs cm'"
  by (auto simp: announces_def cm_check_autoconnect_def Let_def split: if_splits prod.splits dest!: open_all_silent)

lemma announces_silent: "announced (n_eid ` set (cm_nodes cm)) outs = Some (n_eid ` set (cm_nodes cm)) \<Longrightarrow> announces cm outs cm"
  unfolding announces_def by blast

lemma announces_event:
  assumes "cm_raiseEvent now local autoconnect e cm = (err, outs, cm')"
  shows "announces cm outs cm'"
proof (cases e)
  case (CmInfoUpdated n)
  then have d: "cm_discovered local n cm = (outs, cm')" using assms by (simp split: prod.splits)
  show ?thesis
  proof (cases "n_eid n = local")
    case True
    then show ?thesis using d by (auto simp: cm_discovered_def intro: announces_silent)
  next
    case False
    then show ?thesis using d by (auto simp: cm_discovered_def intro: announces_add)
  qed
next
  case (CmAvailable n)
  then have "cm' = cm" "outs = [] \<or> cm_open n cm = (err, outs)" using assms by (auto split: if_splits prod.splits)
  then show ?thesis using open_silent [of n cm err outs] by (auto intro: announces_silent)
next
  case CmSecondTick
  then obtain outs1 cm1 outs2 where "cm_check_unavailable now cm = (outs1, cm1)"
      "cm_check_autoconnect now autoconnect cm1 = (err, outs2, cm')" "outs = outs1 @ outs2"
    using assms by (auto split: prod.splits)
  then show ?thesis using announces_trans [OF announces_check announces_autoconnect] by blast
next
  case (CmConnection st n)
  show ?thesis
  proof (cases st)
    case CONNECTION_UP
    then have "cm_addConnection n cm = (outs, cm')" using assms CmConnection by (simp split: prod.splits)
    then show ?thesis by (rule announces_add)
  qed (use assms CmConnection in \<open>auto intro: announces_remove announces_silent\<close>)
next
  case CmOther
  then show ?thesis using assms by (auto intro: announces_silent)
qed

text \<open>C27: in every history of the connection manager the nodes have different names, and the announcements
  alternate: a node is announced as available exactly when it is new and as unavailable exactly when it goes,
  so a listener always knows the nodes the manager has.\<close>

theorem neighbor_announcements:
  assumes "cm_reachable local autoconnect tr cm"
  shows "distinct (map n_eid (cm_nodes cm)) \<and> announced {} tr = Some (n_eid ` set (cm_nodes cm))"
  using assms
proof induction
  case (cm_event tr cm now e err outs cm')
  then show ?case using announces_event [OF cm_event.hyps(2)] by (simp add: announces_def announced_append)
next
  case (cm_added tr cm n outs cm')
  then show ?case using announces_add [OF cm_added.hyps(2)] by (simp add: announces_def announced_append)
next
  case (cm_removed tr cm n)
  then show ?case using announces_remove [of cm n] by (simp add: announces_def)
qed (simp_all add: cm_new_def cm_addConvergenceLayer_def cm_startup_def)

definition sample_peer_node :: node where
  "sample_peer_node = node_add_uri (uri_new 10 NODE_DISCOVERED CONN_TCPIP ''ip=10.0.0.1;port=4556;'' 5) (node_new sample_target)"

theorem neighbor_announcements_witness:
  "let r1 = cm_raiseEvent 10 eid_none 0 (CmInfoUpdated sample_peer_node) cm_new;
       r2 = cm_raiseEvent 16 eid_none 0 CmSecondTick (snd (snd r1))
   in map n_eid (cm_nodes (snd (snd r1))) = [sample_target]
      \<and> announced {} (fst (snd r1)) = Some {sample_target} \<and> announced {} (fst (snd r1) @ fst (snd r2)) = Some {}"
proof -
  let ?r1 = "cm_raiseEvent 10 eid_none 0 (CmInfoUpdated sample_peer_node) cm_new"
  let ?r2 = "cm_raiseEvent 16 eid_none 0 CmSecondTick (snd (snd ?r1))"
  have r1: "?r1 = (None, fst (snd ?r1), snd (snd ?r1))" and n1: "map n_eid (cm_nodes (snd (snd ?r1))) = [sample_target]"
    by code_simp+
  have r2: "?r2 = (None, fst (snd ?r2), snd (snd ?r2))" and n2: "cm_nodes (snd (snd ?r2)) = []"
    by code_simp+
  have "cm_reachable eid_none 0 ([] @ fst (snd ?r1)) (snd (snd ?r1))" by (rule cm_event [OF cm_start r1])
  moreover from this have "cm_reachable eid_none 0 (([] @ fst (snd ?r1)) @ fst (snd ?r2)) (snd (snd ?r2))"
    by (rule cm_event [OF _ r2])
  moreover have "n_eid ` set (cm_nodes (snd (snd ?r1))) = {sample_target}" using n1 by (simp flip: set_map)
  ultimately show ?thesis
    using neighbor_announcements [of eid_none 0 "[] @ fst (snd ?r1)"]
      neighbor_announcements [of eid_none 0 "([] @ fst (snd ?r1)) @ fst (snd ?r2)"] n1 n2
    unfolding Let_def by auto
qed

text \<open>The addresses and attributes of one node are added to another under their keys, the new ones in place of
  the old, and removed by their keys; what has a deadline that is over is dropped, and the node is gone when
  nothing is left.\<close>

theorem node_merge:
  assumes "node_ok n" and "node_ok m"
  shows "set (n_uris (node_plus n m)) = {u \<in> set (n_uris n). uri_key u \<notin> uri_key ` set (n_uris m)} \<union> set (n_uris m)
    \<and> set (n_attributes (node_plus n m))
        = {a \<in> set (n_attributes n). attribute_key a \<notin> attribute_key ` set (n_attributes m)} \<union> set (n_attributes m)
    \<and> set (n_uris (node_minus n m)) = {u \<in> set (n_uris n). uri_key u \<notin> uri_key ` set (n_uris m)}
    \<and> set (n_attributes (node_minus n m)) = {a \<in> set (n_attributes n). attribute_key a \<notin> attribute_key ` set (n_attributes m)}
    \<and> node_ok (node_plus n m) \<and> node_ok (node_minus n m)
    \<and> (case node_expire now n of (gone, n') \<Rightarrow> node_ok n'
        \<and> set (n_uris n') = {u \<in> set (n_uris n). nu_expire u = 0 \<or> now \<le> nu_expire u}
        \<and> set (n_attributes n') = {a \<in> set (n_attributes n). na_expire a = 0 \<or> now \<le> na_expire a}
        \<and> gone = (n_uris n' = [] \<and> n_attributes n' = []))"
  using node_plus_set [OF assms] node_minus_set [OF assms(1)] node_expire_ok [OF assms(1), of now]
  by (auto simp: node_expire_def Let_def outdated_def not_less word_neq_0_conv)

theorem node_merge_witness:
  "let n = node_add_uri (uri_new 0 NODE_STATIC CONN_TCPIP ''ip=a;'' 0) (node_new sample_target);
       m = node_add_uri (uri_new 5 NODE_STATIC CONN_TCPIP ''ip=a;'' 7) (node_new sample_target)
   in set (n_uris (node_plus n m)) = set (n_uris m) \<and> set (n_uris (node_minus n m)) = {}"
proof -
  let ?n = "node_add_uri (uri_new 0 NODE_STATIC CONN_TCPIP ''ip=a;'' 0) (node_new sample_target)"
  let ?m = "node_add_uri (uri_new 5 NODE_STATIC CONN_TCPIP ''ip=a;'' 7) (node_new sample_target)"
  have "node_ok ?n" "node_ok ?m" by (simp_all add: node_ok_def node_add_uri_def node_new_def)
  note merge = node_merge [OF this, of 0]
  have "uri_key u \<in> uri_key ` set (n_uris ?m)" if "u \<in> set (n_uris ?n)" for u
    using that by (simp add: node_add_uri_def node_new_def uri_new_def uri_key_def)
  then have none: "{u \<in> set (n_uris ?n). uri_key u \<notin> uri_key ` set (n_uris ?m)} = {}" by blast
  show ?thesis
    using conjunct1 [OF merge] conjunct1 [OF conjunct2 [OF conjunct2 [OF merge]]] unfolding none Let_def
    by (simp only: Un_empty_left simp_thms)
qed

section \<open>Putting a bundle off\<close>

text \<open>
  One tick of the clock at the time \<open>now\<close>: a bundle that is due is handed to the connection manager
  (\<open>BundleCore::transferTo\<close>), and what becomes of it goes back to the extension. The outputs are those of the extension
  and the aborts of \<open>transferTo\<close>.
\<close>

definition retry_tick :: "connection_manager \<Rightarrow> u64 \<Rightarrow> retransmission \<Rightarrow> retransmission_output list \<times> retransmission" where
  "retry_tick cm now r =
     (case rx_notify now (RxTime now) r of
        ([TransferTo p i], r') \<Rightarrow>
          (case core_transferTo p i cm of
             Requeue p' i' \<Rightarrow> (case rx_notify now (RxRequeue p' i') r' of (outs, r'') \<Rightarrow> (TransferTo p i # outs, r''))
           | AbortTransfer p' i' reason \<Rightarrow>
               ([TransferTo p i, RaiseAborted p' i' reason], snd (rx_notify now (RxAborted p' i') r'))
           | Queued x \<Rightarrow> ([TransferTo p i], r'))
      | (outs, r') \<Rightarrow> (outs, r'))"

text \<open>The ticks of the seconds \<open>1\<close> to \<open>k\<close> after the time \<open>t\<close>, and the outputs with their seconds.\<close>

fun retry_ticks ::
  "connection_manager \<Rightarrow> u64 \<Rightarrow> nat \<Rightarrow> retransmission \<Rightarrow> (nat \<times> retransmission_output) list \<times> retransmission" where
  "retry_ticks cm t 0 r = ([], r)"
| "retry_ticks cm t (Suc k) r =
     (case retry_ticks cm t k r of
        (log, r') \<Rightarrow>
          (case retry_tick cm (t + word_of_nat (Suc k)) r' of (outs, r'') \<Rightarrow> (log @ map (Pair (Suc k)) outs, r'')))"

text \<open>The bundle waiting for its attempt \<open>n\<close>.\<close>

definition waiting :: "u64 \<Rightarrow> eid \<Rightarrow> bundle_id \<Rightarrow> nat \<Rightarrow> retry_data" where
  "waiting t p i n = (rd_of t i p 2)\<lparr>rd_count := word_of_nat n, rd_timestamp := t + 2 ^ n - 1\<rparr>"

lemma small_count: "n \<le> 8 \<Longrightarrow> unat (word_of_nat n :: u64) = n"
  by (simp add: unsigned_of_nat take_bit_nat_eq_self)

lemma retry_update [simp]:
  "bid_key (d\<lparr>rd_count := c, rd_timestamp := s\<rparr>) = bid_key d" "rd_id (d\<lparr>rd_count := c, rd_timestamp := s\<rparr>) = rd_id d"
  "bid_compat (d\<lparr>rd_count := c, rd_timestamp := s\<rparr>) e = bid_compat d e"
  "bid_compat e (d\<lparr>rd_count := c, rd_timestamp := s\<rparr>) = bid_compat e d"
  by (simp_all add: bid_key_def bid_compat_def rd_id_def bundle_id.truncate_def)

lemma waiting_sel [simp]:
  "bid_key (waiting t p i n) = bid_key i" "rd_id (waiting t p i n) = i" "rd_destination (waiting t p i n) = p"
  "rd_count (waiting t p i n) = word_of_nat n" "rd_timestamp (waiting t p i n) = t + 2 ^ n - 1"
  "rd_retry (waiting t p i n) = 2" "bid_compat (waiting t p i n) e = bid_compat i e" "bid_compat e (waiting t p i n) = bid_compat e i"
  unfolding waiting_def by simp_all

lemma waiting_first: "rd_of t i p 2 = waiting t p i 1"
  by (simp add: waiting_def rd_of_def rd_next_def Let_def bundle_id.defs)

lemma waiting_next:
  assumes "n < 8"
  shows "rd_next (t + 2 ^ n - 1) (waiting t p i n) = waiting t p i (Suc n)"
proof -
  have n: "unat (word_of_nat n + 1 :: u64) - Suc 0 = n"
    using assms count_next(3) [of "word_of_nat n"] by (simp add: word_less_nat_alt small_count)
  have "rd_next now (waiting t p i n) = (waiting t p i n)\<lparr>rd_count := word_of_nat n + 1, rd_timestamp := now + 2 ^ n\<rparr>" for now
    by (simp add: rd_next_def Let_def n)
  then show ?thesis by (simp add: waiting_def algebra_simps)
qed

lemma word_second:
  assumes "unat t + 255 < 2 ^ 64" and "k \<le> 255" and "n \<le> 8"
  shows "(t :: u64) + 2 ^ n - 1 \<le> t + word_of_nat k \<longleftrightarrow> 2 ^ n - 1 \<le> k"
    and "k = 2 ^ n - 1 \<Longrightarrow> t + word_of_nat k = t + 2 ^ n - 1"
proof -
  have p: "(2 :: nat) ^ n \<le> 256" using power_increasing [OF assms(3), of "2 :: nat"] by simp
  have w: "(2 :: u64) ^ n - 1 = word_of_nat (2 ^ n - 1)" by simp
  have eq: "t + 2 ^ n - 1 = t + word_of_nat (2 ^ n - 1)" unfolding w [symmetric] by simp
  have u: "unat (t + word_of_nat m) = unat t + m" if "m \<le> 255" for m
    using that assms(1) by (simp add: unat_word_ariths unsigned_of_nat take_bit_nat_eq_self)
  have b: "(2 :: nat) ^ n - 1 \<le> 255" using p by simp
  show "t + 2 ^ n - 1 \<le> t + word_of_nat k \<longleftrightarrow> 2 ^ n - 1 \<le> k"
    unfolding eq word_le_nat_alt u [OF assms(2)] u [OF b] by (rule add_le_cancel_left)
  show "k = 2 ^ n - 1 \<Longrightarrow> t + word_of_nat k = t + 2 ^ n - 1" unfolding eq by simp
qed

definition waits :: "u64 \<Rightarrow> eid \<Rightarrow> bundle_id \<Rightarrow> nat \<Rightarrow> retransmission" where
  "waits t p i n = \<lparr>rx_queue = [waiting t p i n], rx_set = [waiting t p i n]\<rparr>"

lemma retry_tick_idle: "\<not> t + 2 ^ n - 1 \<le> now \<Longrightarrow> retry_tick cm now (waits t p i n) = ([], waits t p i n)"
  by (simp add: retry_tick_def waits_def rx_time_def)

lemma retry_tick_due:
  assumes "find (\<lambda>n. n_eid n = p) (cm_nodes cm) = Some nd" and "cm_layer nd cm = None" and "0 < n" and "n \<le> 8"
  shows "retry_tick cm (t + 2 ^ n - 1) (waits t p i n) =
     (if n < 8 then ([TransferTo p i], waits t p i (Suc n))
      else ([TransferTo p i, RaiseAborted p i REASON_RETRY_LIMIT_REACHED], rx_new))"
proof -
  have transfer: "core_transferTo p i cm = Requeue p i"
    using assms(1,2) by (simp add: core_transferTo_def cm_queue_def)
  have same: "\<not> bid_less (waiting t p i n) (rd_of now i p 2)" "\<not> bid_less (rd_of now i p 2) (waiting t p i n)" for now
    by (rule bid_same; simp)+
  have count: "word_of_nat n + 1 \<le> (8 :: u64) \<longleftrightarrow> n < 8"
  proof (cases "n < 8")
    case True
    then show ?thesis using count_next(1) [of "word_of_nat n"] by (simp add: word_less_nat_alt small_count)
  next
    case False
    then have "n = 8" using assms(4) by simp
    then show ?thesis by simp
  qed
  show ?thesis
    using transfer count waiting_next [of n t p i]
    by (simp add: retry_tick_def waits_def rx_time_def rx_requeue_def rx_find_def same Let_def rx_new_def)
qed

lemma retry_ticks_waits:
  assumes "find (\<lambda>n. n_eid n = p) (cm_nodes cm) = Some nd" and "cm_layer nd cm = None" and "unat t + 255 < 2 ^ 64"
    and "0 < n" and "n \<le> 8" and "2 ^ (n - 1) \<le> Suc k" and "Suc k < 2 ^ n"
  shows "retry_ticks cm t k (waits t p i 1) = (map (\<lambda>m. (2 ^ m - 1, TransferTo p i)) [1 ..< n], waits t p i n)"
  using assms(4-7)
proof (induction k arbitrary: n)
  case 0
  then have "2 ^ (n - 1) \<le> Suc 0" by simp
  then have "n = 1" using 0(1) less_exp [of "n - 1"] by linarith
  then show ?case by simp
next
  case (Suc k)
  obtain m where m: "n = Suc m" using Suc.prems(1) by (cases n) auto
  have k: "Suc k \<le> 255" using Suc.prems(2,4) power_increasing [OF Suc.prems(2), of "2 :: nat"] by simp
  show ?case
  proof (cases "2 ^ m \<le> Suc k")
    case True
    have "\<not> 2 ^ n - 1 \<le> Suc k" using Suc.prems(4) by linarith
    then have "\<not> t + 2 ^ n - 1 \<le> t + word_of_nat (Suc k)" using word_second(1) [OF assms(3) k Suc.prems(2)] by blast
    then show ?thesis using Suc.IH [OF Suc.prems(1,2)] True Suc.prems(4) retry_tick_idle m by simp
  next
    case False
    then have at: "Suc k = 2 ^ m - 1" using Suc.prems(3) m by simp
    then have m0: "0 < m" "m < 8" using Suc.prems(2) m by (cases m; simp)+
    then have "2 ^ (m - 1) \<le> Suc k" "Suc k < 2 ^ m" using at power_increasing [of "m - 1" "m" "2 :: nat"] False
      by (cases m; simp)+
    then have before: "retry_ticks cm t k (waits t p i 1) = (map (\<lambda>m. (2 ^ m - 1, TransferTo p i)) [1 ..< m], waits t p i m)"
      using Suc.IH [of m] m0 by simp
    have second: "t + word_of_nat (Suc k) = t + 2 ^ m - 1" using word_second(2) [OF assms(3) k less_imp_le [OF m0(2)] at] .
    have due: "retry_tick cm (t + word_of_nat (Suc k)) (waits t p i m) = ([TransferTo p i], waits t p i n)"
      unfolding second m using retry_tick_due [OF assms(1,2) m0(1), of t i] m0 by simp
    have "retry_ticks cm t (Suc k) (waits t p i 1)
        = (map (\<lambda>m. (2 ^ m - 1, TransferTo p i)) [1 ..< m] @ [(Suc k, TransferTo p i)], waits t p i n)"
      unfolding retry_ticks.simps before prod.case due by simp
    then show ?thesis unfolding at m using m0 by simp
  qed
qed

text \<open>C26: a bundle for a neighbor that is known but that no convergence layer serves, when no other bundle waits in the
  extension and the clock ticks every second (and does not wrap around), is handed to the connection manager again at the seconds
  1, 3, 7, ..., 127 and 255 after the first attempt, each time in vain; at the last one the transfer is aborted, and nothing is
  left behind. Another bundle that waits in front of it can put this off, as only the front of the queue is looked at.\<close>

theorem unreachable_neighbor:
  assumes "find (\<lambda>n. n_eid n = p) (cm_nodes cm) = Some nd" and "cm_layer nd cm = None" and "unat t + 255 < 2 ^ 64"
  shows "core_transferTo p i cm = Requeue p i
    \<and> retry_ticks cm t 255 (snd (rx_notify t (RxRequeue p i) rx_new))
        = (map (\<lambda>s. (s, TransferTo p i)) [1, 3, 7, 15, 31, 63, 127, 255]
             @ [(255, RaiseAborted p i REASON_RETRY_LIMIT_REACHED)], rx_new)"
proof -
  have r0: "snd (rx_notify t (RxRequeue p i) rx_new) = waits t p i 1"
    by (simp only: rx_notify.simps rx_requeue_first waiting_first snd_conv waits_def)
  define w where "w = waits t p i 8"
  have "retry_ticks cm t 254 (waits t p i 1) = (map (\<lambda>m. (2 ^ m - 1, TransferTo p i)) [1 ..< 8], w)"
    unfolding w_def by (rule retry_ticks_waits [OF assms]) simp_all
  moreover have "t + word_of_nat (Suc 254) = t + 2 ^ 8 - 1" by (rule word_second(2) [OF assms(3)]) simp_all
  then have "retry_tick cm (t + word_of_nat (Suc 254)) w = ([TransferTo p i, RaiseAborted p i REASON_RETRY_LIMIT_REACHED], rx_new)"
    using retry_tick_due [OF assms(1,2), of 8 t i] by (simp only: w_def) simp
  moreover have "[1 ..< 8] = [1, 2, 3, 4, 5, 6, 7 :: nat]" by (simp add: upt_rec)
  ultimately have "retry_ticks cm t (Suc 254) (waits t p i 1)
        = (map (\<lambda>s. (s, TransferTo p i)) [1, 3, 7, 15, 31, 63, 127, 255] @ [(255, RaiseAborted p i REASON_RETRY_LIMIT_REACHED)], rx_new)"
    unfolding retry_ticks.simps by (simp del: of_nat_Suc of_nat_numeral)
  moreover have "core_transferTo p i cm = Requeue p i" using assms by (simp add: core_transferTo_def cm_queue_def)
  ultimately show ?thesis unfolding r0 by simp
qed

theorem unreachable_neighbor_witness:
  "let cm = cm_new\<lparr>cm_nodes := [sample_peer_node]\<rparr>; i = bid_of_bundle sample_bundle
   in retry_ticks cm 100 255 (snd (rx_notify 100 (RxRequeue sample_target i) rx_new))
        = (map (\<lambda>s. (s, TransferTo sample_target i)) [1, 3, 7, 15, 31, 63, 127, 255]
             @ [(255, RaiseAborted sample_target i REASON_RETRY_LIMIT_REACHED)], rx_new)"
proof -
  let ?cm = "cm_new\<lparr>cm_nodes := [sample_peer_node]\<rparr>" and ?i = "bid_of_bundle sample_bundle"
  have "find (\<lambda>n. n_eid n = sample_target) (cm_nodes ?cm) = Some sample_peer_node"
    by (simp add: sample_peer_node_def node_add_uri_def node_new_def)
  moreover have "cm_layer sample_peer_node ?cm = None" by (simp add: cm_layer_def cm_new_def)
  ultimately show ?thesis
    using unreachable_neighbor [of sample_target ?cm sample_peer_node 100 ?i] unfolding Let_def by simp
qed

section \<open>Addresses\<close>

lemma tokens_skip: "tokens {c} (c # s) = tokens {c} s"
  using tokens_dropWhile [of "{c}" "c # s"] tokens_dropWhile [of "{c}" s] by simp

lemma tokens_one:
  assumes "t \<noteq> []" and "c \<notin> set t"
  shows "tokens {c} t = [t]"
proof -
  have split: "takeWhile (\<lambda>x. x \<notin> {c}) t = t" "dropWhile (\<lambda>x. x \<notin> {c}) t = []"
    using assms(2) by (auto)
  have "hd t \<notin> {c}" using assms by (cases t) auto
  from tokens_step [OF _ this] assms(1) show ?thesis unfolding split by simp
qed

lemma tokens_more:
  assumes "t \<noteq> []" and "c \<notin> set t"
  shows "tokens {c} (t @ c # s) = t # tokens {c} s"
proof -
  have split: "takeWhile (\<lambda>x. x \<notin> {c}) (t @ c # s) = t" "dropWhile (\<lambda>x. x \<notin> {c}) (t @ c # s) = c # s"
    using assms(2) by (auto simp: takeWhile_append dropWhile_append)
  have "hd (t @ c # s) \<notin> {c}" using assms by (cases t) auto
  from tokens_step [OF _ this] show ?thesis unfolding split tokens_dropWhile tokens_skip by simp
qed

lemma tokenize_tokens:
  assumes "length (tokens (set token) s) < limit"
  shows "tokenize token s limit = Some (tokens (set token) s)"
proof -
  let ?s = "dropWhile (\<lambda>c. c \<in> set token) s"
  have "?s = [] \<or> hd ?s \<notin> set token" using hd_dropWhile_in [of "\<lambda>c. c \<in> set token" s] by blast
  from tok_loop_eq [OF this, of "[]" limit] show ?thesis
    using assms by (simp add: tokenize_def tokens_dropWhile)
qed

lemma tokenize_pair:
  assumes "t \<noteq> []" and "c \<notin> set t" and "s \<noteq> []" and "c \<notin> set s"
  shows "tokenize [c] (t @ c # s) (2 ^ 64 - 1) = Some [t, s]"
  using assms tokenize_tokens [of "[c]" "t @ c # s" "2 ^ 64 - 1"] by (simp add: tokens_more tokens_one)

lemma read_port_show: "n < 2 ^ 32 \<Longrightarrow> read_port (show_nat n) = Some n"
proof -
  assume n: "n < 2 ^ 32"
  have digits: "list_all is_digit (show_nat n)" by (rule show_nat_digits)
  have "\<not> is_blank (hd (show_nat n))"
    using digits show_nat_nonempty [of n] by (cases "show_nat n") (auto simp: is_digit_def is_blank_def)
  then have "dropWhile is_blank (show_nat n) = show_nat n" using show_nat_nonempty [of n] by (cases "show_nat n") auto
  then show ?thesis
    using n show_nat_nonempty [of n] by (simp add: read_port_def takeWhile_digits [OF digits] digits_value_show_nat)
qed

lemma show_nat_clean: "\<not> is_digit c \<Longrightarrow> c \<notin> set (show_nat n)"
  using show_nat_digits [of n] by (auto simp: list_all_iff)

text \<open>The address of a node, as it is written for the discovery and the configuration, is decoded into its host and port.\<close>

theorem node_uri_roundtrip:
  assumes "a \<noteq> []" and "CHR '';'' \<notin> set a" and "CHR ''='' \<notin> set a" and "n < 2 ^ 32"
  shows "uri_decode (''ip='' @ a @ '';port='' @ show_nat n @ '';'') r = Some (a, n)"
proof -
  let ?ip = "''ip='' @ a" and ?port = "''port='' @ show_nat n"
  have clean: "CHR '';'' \<notin> set ?ip" "CHR '';'' \<notin> set ?port"
    using assms(2) show_nat_clean [of "CHR '';''" n] by (simp_all add: is_digit_def)
  have "tokens (set '';'') (?ip @ CHR '';'' # ?port @ CHR '';'' # []) = [?ip, ?port]"
    using tokens_more [OF _ clean(1)] tokens_more [OF _ clean(2), of "[]"] by simp
  then have outer: "tokenize '';'' (''ip='' @ a @ '';port='' @ show_nat n @ '';'') (2 ^ 64 - 1) = Some [?ip, ?port]"
    using tokenize_tokens [of "'';''" "?ip @ CHR '';'' # ?port @ CHR '';'' # []" "2 ^ 64 - 1"] by simp
  have "tokenize ''='' ?ip (2 ^ 64 - 1) = Some [''ip'', a]"
    using tokenize_pair [of "''ip''" "CHR ''=''" a] assms(1,3) by simp
  moreover have "tokenize ''='' ?port (2 ^ 64 - 1) = Some [''port'', show_nat n]"
    using tokenize_pair [of "''port''" "CHR ''=''" "show_nat n"] show_nat_nonempty [of n] show_nat_clean [of "CHR ''=''" n]
    by (simp add: is_digit_def)
  ultimately show ?thesis
    unfolding uri_decode_def outer by (simp add: uri_param_def read_port_show [OF assms(4)])
qed

theorem node_uri_roundtrip_witness:
  "uri_decode ''ip=10.0.0.1;port=4556;'' ([], 0) = Some (''10.0.0.1'', 4556)"
proof -
  have "show_nat 4556 = ''4556''" by (simp add: show_nat.simps digit_char_def char_of_def bit_0)
  then show ?thesis using node_uri_roundtrip [of "''10.0.0.1''" 4556 "([], 0)"] by simp
qed

end
