(* ===== verification/Discovery.thy ===== *)
theory Discovery
  imports Nodes
begin

text \<open>
  The discovery of neighbors: services and announcements with their wire formats
  (\<open>daemon/src/net/DiscoveryService.cpp\<close>, \<open>daemon/src/net/DiscoveryAnnouncement.cpp\<close>), the agent
  (\<open>daemon/src/net/DiscoveryAgent.cpp\<close>), and what the agent for IP networks
  (\<open>daemon/src/net/IPNDAgent.cpp\<close>) puts into datagrams and takes out of them.
\<close>

section \<open>Services\<close>

record discovery_service =
  ds_name :: string
  ds_parameters :: string

definition ds_getLength :: "discovery_service \<Rightarrow> nat" where
  "ds_getLength s = bstr_getLength (ds_name s) + bstr_getLength (ds_parameters s)"

definition ds_bytes :: "discovery_service \<Rightarrow> byte list" where
  "ds_bytes s = bstr_bytes (ds_name s) @ bstr_bytes (ds_parameters s)"

definition get_ds :: "discovery_service reader" where
  "get_ds = rbind get_bstr (\<lambda>n. rbind get_bstr (\<lambda>p. rret \<lparr>ds_name = n, ds_parameters = p\<rparr>))"

section \<open>Announcements\<close>

datatype discovery_version = DTND_IPDISCOVERY | DISCO_VERSION_00 | DISCO_VERSION_01

fun version_byte :: "discovery_version \<Rightarrow> byte" where
  "version_byte DTND_IPDISCOVERY = 0"
| "version_byte DISCO_VERSION_00 = 1"
| "version_byte DISCO_VERSION_01 = 2"

definition BEACON_SHORT :: byte where "BEACON_SHORT = 1"

definition BEACON_CONTAINS_EID :: byte where "BEACON_CONTAINS_EID = 1"

definition BEACON_SERVICE_BLOCK :: byte where "BEACON_SERVICE_BLOCK = 2"

record announcement =
  an_version :: discovery_version
  an_flags :: byte
  an_eid :: eid
  an_sn :: "16 word"
  an_services :: "discovery_service list"

text \<open>The sequence number is left as it is by the constructor; \<open>sn\<close> stands for what the memory holds.\<close>

definition an_new :: "discovery_version \<Rightarrow> eid \<Rightarrow> 16 word \<Rightarrow> announcement" where
  "an_new v e sn = \<lparr>an_version = v, an_flags = 0, an_eid = e, an_sn = sn, an_services = []\<rparr>"

definition an_isShort :: "announcement \<Rightarrow> bool" where
  "an_isShort a =
     (case an_version a of
        DISCO_VERSION_00 \<Rightarrow> an_flags a AND BEACON_SHORT \<noteq> 0
      | DISCO_VERSION_01 \<Rightarrow> an_flags a AND BEACON_SERVICE_BLOCK = 0
      | DTND_IPDISCOVERY \<Rightarrow> False)"

definition an_getService :: "string \<Rightarrow> announcement \<Rightarrow> discovery_service option" where
  "an_getService name a = find (\<lambda>s. ds_name s = name) (an_services a)"

definition an_addService :: "discovery_service \<Rightarrow> announcement \<Rightarrow> announcement" where
  "an_addService s a = a\<lparr>an_services := an_services a @ [s]\<rparr>"

definition an_clearServices :: "announcement \<Rightarrow> announcement" where
  "an_clearServices a = a\<lparr>an_services := []\<rparr>"

text \<open>\<open>htons\<close> and the two bytes as they are in memory.\<close>

definition be16 :: "16 word \<Rightarrow> byte list" where
  "be16 w = [ucast (drop_bit 8 w), ucast w]"

definition get_be16 :: "(16 word) reader" where
  "get_be16 = rbind rbyte (\<lambda>a. rbind rbyte (\<lambda>b. rret (push_bit 8 (ucast a) OR ucast b)))"

definition services_bytes :: "discovery_service list \<Rightarrow> byte list" where
  "services_bytes ss = concat (map ds_bytes ss)"

definition beacon_length :: "announcement \<Rightarrow> u64" where
  "beacon_length a =
     foldl (\<lambda>n s. n + word_of_nat (ds_getLength s)) (word_of_nat (bstr_getLength (eid_getString (an_eid a)))) (an_services a)"

text \<open>
  \<open>operator<<\<close>. The second version tests its flags with a logical and, so any flag makes it
  write both the identifier and the services.
\<close>

definition an_flags_01 :: "announcement \<Rightarrow> byte" where
  "an_flags_01 a =
     (if an_eid a \<noteq> eid_none then BEACON_CONTAINS_EID else 0) OR (if an_services a \<noteq> [] then BEACON_SERVICE_BLOCK else 0)"

definition an_bytes :: "announcement \<Rightarrow> byte list" where
  "an_bytes a =
     (case an_version a of
        DISCO_VERSION_00 \<Rightarrow>
          if an_services a = [] then [version_byte DISCO_VERSION_00, BEACON_SHORT OR an_flags a]
          else [version_byte DISCO_VERSION_00, an_flags a] @ sdnv_bytes (beacon_length a)
               @ bstr_bytes (eid_getString (an_eid a)) @ services_bytes (an_services a)
      | DISCO_VERSION_01 \<Rightarrow>
          [version_byte DISCO_VERSION_01, an_flags_01 a] @ be16 (an_sn a)
          @ wopt (an_flags_01 a \<noteq> 0) (bstr_bytes (eid_getString (an_eid a)))
          @ wopt (an_flags_01 a \<noteq> 0) (sdnv_bytes (word_of_nat (length (an_services a))) @ services_bytes (an_services a))
      | DTND_IPDISCOVERY \<Rightarrow>
          (let e = eid_getString (an_eid a); add_zeros = (4 - length e mod 4) mod 4
           in [1, 10] @ be16 (word_of_nat (12 + length e + add_zeros)) @ [0, 0, 0, 0] @ be16 4556
              @ be16 (word_of_nat (length e)) @ str_bytes e @ replicate add_zeros 0))"

text \<open>
  \<open>operator>>\<close>. The loop of the first version runs while a signed number is positive; each
  turn reads at least the two lengths of a service, so the test that the stream got shorter always
  succeeds.
\<close>

function get_services_00 :: "32 word \<Rightarrow> discovery_service list \<Rightarrow> discovery_service list reader" where
  "get_services_00 remain acc s =
     (if 0 <s remain then
        (case get_ds s of
           Inl e \<Rightarrow> Inl e
         | Inr (d, s') \<Rightarrow>
             if length s' < length s then get_services_00 (remain - word_of_nat (ds_getLength d)) (acc @ [d]) s'
             else Inl (Indeterminate, s'))
      else Inr (acc, s))"
  by pat_completeness auto

termination get_services_00
  by (relation "measure (\<lambda>(remain, acc, s). length s)") auto

declare get_services_00.simps [simp del]

definition get_an_00 :: "announcement \<Rightarrow> announcement reader" where
  "get_an_00 a =
     rbind rbyte (\<lambda>flags.
     if flags = BEACON_SHORT then rret (a\<lparr>an_flags := flags, an_eid := eid_none\<rparr>)
     else rbind get_sdnv (\<lambda>beacon_len. rbind get_bstr (\<lambda>e.
       rbind (get_services_00 (ucast beacon_len - word_of_nat (bstr_getLength e)) []) (\<lambda>services.
       rret (a\<lparr>an_flags := flags, an_eid := eid_parse e, an_services := services\<rparr>)))))"

definition get_an_01 :: "announcement \<Rightarrow> announcement reader" where
  "get_an_01 a =
     rbind rbyte (\<lambda>flags. rbind get_be16 (\<lambda>sn.
     rbind (ropt (flags AND BEACON_CONTAINS_EID \<noteq> 0) (rbind get_bstr (\<lambda>e. rret (eid_parse e))) (an_eid a)) (\<lambda>e.
     rbind (ropt (flags AND BEACON_SERVICE_BLOCK \<noteq> 0) (rbind get_sdnv (\<lambda>n. rrepeat (unat n) get_ds)) (an_services a)) (\<lambda>services.
     rret (a\<lparr>an_flags := flags, an_eid := e, an_services := services\<rparr>)))))"

text \<open>
  The format of DTN2: the string is made of an array without a terminating zero, so unless there is
  a zero among the bytes of the identifier the program reads behind the array.
\<close>

definition get_an_ipd :: "announcement \<Rightarrow> announcement reader" where
  "get_an_ipd a =
     rbind (rtake 10) (\<lambda>hdr. rbind get_be16 (\<lambda>eid_len. rbind (rtake (unat eid_len)) (\<lambda>e.
     if 0 \<in> set e then
       rret (a\<lparr>an_version := DTND_IPDISCOVERY, an_eid := eid_parse (bytes_str (takeWhile (\<lambda>b. b \<noteq> 0) e))\<rparr>)
     else rfail Indeterminate)))"

definition get_an :: "announcement \<Rightarrow> announcement reader" where
  "get_an a s =
     (if an_version a = DTND_IPDISCOVERY then get_an_ipd a s
      else case s of
             [] \<Rightarrow> Inl (InvalidProtocolException, [])
           | v # s' \<Rightarrow>
               if v = version_byte DISCO_VERSION_00 then get_an_00 a s'
               else if v = version_byte DISCO_VERSION_01 then get_an_01 a s'
               else if v = version_byte DTND_IPDISCOVERY then get_an_ipd a s'
               else Inl (InvalidProtocolException, s'))"

section \<open>The agent\<close>

record discovery_config =
  dc_timeout :: u64
  dc_announce :: bool
  dc_shortbeacon :: bool

text \<open>A service is told by its provider for each interface, or not there.\<close>

record 'i discovery_agent =
  da_version :: discovery_version
  da_config :: discovery_config
  da_sn :: "16 word"
  da_services :: "('i \<Rightarrow> discovery_service option) list"
  da_interfaces :: "'i list"
  da_last_announce_sent :: u64


definition da_addProvider :: "('i \<Rightarrow> discovery_service option) \<Rightarrow> 'i discovery_agent \<Rightarrow> 'i discovery_agent" where
  "da_addProvider p da = da\<lparr>da_services := da_services da @ [p]\<rparr>"

text \<open>\<open>sendAnnoucement\<close>: one announcement for each interface.\<close>

definition ipnd_announcement :: "eid \<Rightarrow> 'i discovery_agent \<Rightarrow> 'i \<Rightarrow> announcement" where
  "ipnd_announcement local da i =
     (let a = (an_new (da_version da) local 0)\<lparr>an_sn := da_sn da\<rparr>
      in if dc_shortbeacon (da_config da) then a
         else foldl (\<lambda>a p. case p i of Some s \<Rightarrow> an_addService s a | None \<Rightarrow> a) a (da_services da))"

definition ipnd_send :: "eid \<Rightarrow> 'i discovery_agent \<Rightarrow> ('i \<times> byte list) list" where
  "ipnd_send local da = map (\<lambda>i. (i, an_bytes (ipnd_announcement local da i))) (da_interfaces da)"




definition da_timeout :: "eid \<Rightarrow> 'i discovery_agent \<Rightarrow> ('i \<times> byte list) list \<times> 'i discovery_agent" where
  "da_timeout local da =
     (if dc_announce (da_config da) then (ipnd_send local da, da\<lparr>da_sn := da_sn da + 1\<rparr>) else ([], da))"


section \<open>Round trips\<close>

definition bstr_ok :: "string \<Rightarrow> bool" where
  "bstr_ok s \<longleftrightarrow> length s < 2 ^ 30"

definition service_ok :: "discovery_service \<Rightarrow> bool" where
  "service_ok s \<longleftrightarrow> bstr_ok (ds_name s) \<and> bstr_ok (ds_parameters s)"

lemma get_bstr_ok: "bstr_ok str \<Longrightarrow> get_bstr (bstr_bytes str @ s) = Inr (str, s)"
  by (simp add: bstr_ok_def get_bstr_bytes)

lemma get_ds_bytes: "service_ok d \<Longrightarrow> get_ds (ds_bytes d @ s) = Inr (d, s)"
  by (simp add: get_ds_def ds_bytes_def service_ok_def rbind_def get_bstr_ok rret_def)

lemma length_bstr_bytes: "length (bstr_bytes s) = bstr_getLength s"
  by (simp add: bstr_bytes_def bstr_getLength_def length_sdnv_bytes)

lemma length_ds_bytes: "length (ds_bytes d) = ds_getLength d"
  by (simp add: ds_bytes_def ds_getLength_def length_bstr_bytes)

lemma bstr_getLength_pos: "0 < bstr_getLength s"
  by (simp add: bstr_getLength_def)

lemma get_services_bytes:
  "list_all service_ok ss \<Longrightarrow> rrepeat (length ss) get_ds (services_bytes ss @ s) = Inr (ss, s)"
  by (induction ss) (simp_all add: services_bytes_def get_ds_bytes rbind_def)

definition services_length :: "discovery_service list \<Rightarrow> nat" where
  "services_length ss = sum_list (map ds_getLength ss)"

lemma get_services_00_bytes:
  assumes "list_all service_ok ss" and "services_length ss < 2 ^ 31"
  shows "get_services_00 (word_of_nat (services_length ss)) acc (services_bytes ss @ s) = Inr (acc @ ss, s)"
  using assms
proof (induction ss arbitrary: acc)
  case Nil
  then show ?case by (subst get_services_00.simps) (simp add: services_length_def services_bytes_def)
next
  case (Cons d ss)
  let ?n = "services_length (d # ss)"
  have n: "?n = ds_getLength d + services_length ss" "0 < ds_getLength d"
    using bstr_getLength_pos [of "ds_name d"] by (simp_all add: services_length_def ds_getLength_def)
  have "(word_of_nat ?n :: 32 word) = word_of_int (int ?n)" by simp
  then have "sint (word_of_nat ?n :: 32 word) = int ?n"
    using Cons.prems(2) by (simp only: sint_sbintrunc') (simp add: signed_take_bit_int_eq_self)
  then have pos: "0 <s (word_of_nat ?n :: 32 word)" using n by (simp add: word_sless_alt)
  have sub: "(word_of_nat ?n :: 32 word) - word_of_nat (ds_getLength d) = word_of_nat (services_length ss)"
    using n by simp
  have "length (services_bytes ss @ s) < length (services_bytes (d # ss) @ s)"
    using n by (simp add: services_bytes_def length_ds_bytes)
  moreover have "get_ds (services_bytes (d # ss) @ s) = Inr (d, services_bytes ss @ s)"
    using Cons.prems(1) by (simp add: services_bytes_def get_ds_bytes)
  ultimately show ?case
    using Cons pos sub by (subst get_services_00.simps) (simp add: services_length_def)
qed

lemma beacon_length_eq:
  "beacon_length a = word_of_nat (bstr_getLength (eid_getString (an_eid a)) + services_length (an_services a))"
proof -
  have "foldl (\<lambda>n s. n + word_of_nat (ds_getLength s)) w ss = (w + word_of_nat (services_length ss) :: u64)" for w ss
    by (induction ss arbitrary: w) (simp_all add: services_length_def algebra_simps)
  then show ?thesis by (simp add: beacon_length_def)
qed

text \<open>An announcement whose strings fit.\<close>

definition an_ok :: "announcement \<Rightarrow> bool" where
  "an_ok a \<longleftrightarrow> eid_canonical (an_eid a) \<and> bstr_ok (eid_getString (an_eid a)) \<and> list_all service_ok (an_services a)
     \<and> services_length (an_services a) < 2 ^ 31"

lemma get_be16_be16: "get_be16 (be16 w @ s) = Inr (w, s)"
proof -
  have "push_bit 8 (ucast (ucast (drop_bit 8 w) :: byte)) OR ucast (ucast w :: byte) = w"
    by (rule bit_word_eqI) (auto simp: bit_simps)
  then show ?thesis by (simp add: get_be16_def be16_def rbind_def)
qed

lemma service_count: "length ss \<le> services_length ss"
proof (induction ss)
  case (Cons d ss)
  then show ?case using bstr_getLength_pos [of "ds_name d"] by (simp add: services_length_def ds_getLength_def)
qed (simp add: services_length_def)

lemma ucast_of_nat: "(ucast (word_of_nat n :: u64) :: 32 word) = word_of_nat n"
  by (simp add: unsigned_of_nat word_of_nat_eq_iff)

lemma get_an_00_bytes:
  assumes "an_ok a" and "an_flags a \<noteq> BEACON_SHORT"
  shows "get_an_00 a0 (an_flags a # (sdnv_bytes (beacon_length a) @ bstr_bytes (eid_getString (an_eid a)) @ services_bytes (an_services a)) @ s)
    = Inr (a0\<lparr>an_flags := an_flags a, an_eid := an_eid a, an_services := an_services a\<rparr>, s)"
proof -
  let ?e = "eid_getString (an_eid a)"
  have n: "ucast (beacon_length a) - word_of_nat (bstr_getLength ?e) = (word_of_nat (services_length (an_services a)) :: 32 word)"
    unfolding beacon_length_eq ucast_of_nat by simp
  show ?thesis
    using assms get_services_00_bytes [of "an_services a" "[]" s]
    by (simp add: get_an_00_def rbind_def get_sdnv_bytes get_bstr_ok an_ok_def n eid_parse_getString)
qed

lemma get_an_01_bytes:
  assumes "an_ok a" and "an_eid a \<noteq> eid_none"
  shows "get_an_01 a0 (an_flags_01 a # be16 (an_sn a) @ bstr_bytes (eid_getString (an_eid a))
      @ sdnv_bytes (word_of_nat (length (an_services a))) @ services_bytes (an_services a) @ s)
    = Inr (a0\<lparr>an_flags := an_flags_01 a, an_eid := an_eid a,
                an_services := (if an_services a = [] then an_services a0 else an_services a)\<rparr>,
           if an_services a = [] then 0 # s else s)"
proof -
  have len: "unat (word_of_nat (length (an_services a)) :: u64) = length (an_services a)"
    using assms(1) service_count [of "an_services a"]
    by (simp add: an_ok_def unsigned_of_nat take_bit_nat_eq_self)
  have zero: "sdnv_bytes 0 = [0]" by code_simp
  show ?thesis
    using assms get_services_bytes [of "an_services a" s]
    by (simp add: get_an_01_def an_flags_01_def BEACON_CONTAINS_EID_def BEACON_SERVICE_BLOCK_def rbind_def ropt_def
        get_be16_be16 get_bstr_ok an_ok_def get_sdnv_bytes len eid_parse_getString services_bytes_def zero)
qed

section \<open>From an announcement to a neighbor\<close>










section \<open>Correctness\<close>

text \<open>What a listener makes of an announcement.\<close>

definition an_arrived :: "announcement \<Rightarrow> announcement \<Rightarrow> announcement" where
  "an_arrived a0 a =
     (if an_version a = DISCO_VERSION_00 \<and> an_services a = []
      then a0\<lparr>an_flags := BEACON_SHORT, an_eid := eid_none\<rparr>
      else a0\<lparr>an_flags := (if an_version a = DISCO_VERSION_00 then an_flags a else an_flags_01 a), an_eid := an_eid a,
              an_services := (if an_services a = [] then an_services a0 else an_services a)\<rparr>)"

lemma get_an_bytes:
  assumes "an_ok a" and "an_version a \<noteq> DTND_IPDISCOVERY" and "an_version a0 \<noteq> DTND_IPDISCOVERY"
    and "an_flags a = 0" and "an_eid a \<noteq> eid_none"
  shows "get_an a0 (an_bytes a @ s) = Inr (an_arrived a0 a,
    if an_version a = DISCO_VERSION_01 \<and> an_services a = [] then 0 # s else s)"
proof (cases "an_version a")
  case DISCO_VERSION_00
  then show ?thesis
    using assms get_an_00_bytes [OF assms(1), of a0 s]
    by (auto simp: get_an_def an_bytes_def an_arrived_def BEACON_SHORT_def get_an_00_def rbind_def)
next
  case DISCO_VERSION_01
  have "an_flags_01 a \<noteq> 0"
    using assms(5) by (simp add: an_flags_01_def BEACON_CONTAINS_EID_def BEACON_SERVICE_BLOCK_def)
  then show ?thesis
    using DISCO_VERSION_01 assms(3) get_an_01_bytes [OF assms(1,5), of a0 s]
    by (simp add: get_an_def an_bytes_def an_arrived_def wopt_def)
qed (use assms(2) in simp)

text \<open>An announcement is read back with its identifier and its services. Without services, the first version
  is a short beacon that loses the identifier, and the second leaves one byte unread.\<close>

theorem announcement_roundtrip:
  assumes "an_ok a" and "an_version a \<noteq> DTND_IPDISCOVERY" and "an_version a0 \<noteq> DTND_IPDISCOVERY"
    and "an_flags a = 0" and "an_eid a \<noteq> eid_none"
  shows "get_an a0 (an_bytes a @ s) = Inr (an_arrived a0 a,
      if an_version a = DISCO_VERSION_01 \<and> an_services a = [] then 0 # s else s)
    \<and> (an_eid (an_arrived a0 a) = an_eid a \<longleftrightarrow> \<not> (an_version a = DISCO_VERSION_00 \<and> an_services a = []))
    \<and> (an_services a \<noteq> [] \<longrightarrow> an_services (an_arrived a0 a) = an_services a)"
  using get_an_bytes [OF assms] assms(5) by (simp add: an_arrived_def)

definition sample_announcement :: announcement where
  "sample_announcement = an_addService \<lparr>ds_name = ''tcpcl'', ds_parameters = ''ip=a;port=4556;''\<rparr> (an_new DISCO_VERSION_01 sample_target 7)"

lemma sample_announcement_ok: "an_ok sample_announcement"
proof -
  have "services_length (an_services sample_announcement) = 22" by code_simp
  then show ?thesis
    by (simp add: an_ok_def sample_announcement_def an_addService_def an_new_def sample_target_def eid_canonical_def bstr_ok_def
        service_ok_def is_blank_def eid_getString_def)
qed

theorem announcement_roundtrip_witness:
  "get_an (an_new DISCO_VERSION_00 eid_none 0) (an_bytes sample_announcement @ [9]) =
     Inr (\<lparr>an_version = DISCO_VERSION_00, an_flags = 3, an_eid = sample_target, an_sn = 0,
           an_services = [\<lparr>ds_name = ''tcpcl'', ds_parameters = ''ip=a;port=4556;''\<rparr>]\<rparr>, [9])"
proof -
  have e: "sample_target \<noteq> eid_none" by (simp add: sample_target_def eid_none_def)
  have "an_arrived (an_new DISCO_VERSION_00 eid_none 0) sample_announcement =
      \<lparr>an_version = DISCO_VERSION_00, an_flags = 3, an_eid = sample_target, an_sn = 0,
       an_services = [\<lparr>ds_name = ''tcpcl'', ds_parameters = ''ip=a;port=4556;''\<rparr>]\<rparr>"
    using e by (simp add: an_arrived_def sample_announcement_def an_addService_def an_new_def an_flags_01_def
        BEACON_CONTAINS_EID_def BEACON_SERVICE_BLOCK_def)
  then show ?thesis
    using announcement_roundtrip [OF sample_announcement_ok, of "an_new DISCO_VERSION_00 eid_none 0" "[9]"] e
    by (simp add: sample_announcement_def an_addService_def an_new_def)
qed

lemma rrepeat_fail: "f s = Inl x \<Longrightarrow> 0 < n \<Longrightarrow> rrepeat n f s = Inl x"
  by (cases n) (simp_all add: rbind_def)

text \<open>The second version tests its flags with a logical and. The announcement of services without an identifier
  carries the identifier all the same; its reader takes the length of the identifier for the number of services, the
  first letter of the identifier for the length of a name, and runs past the end of the datagram.\<close>

theorem announcement_without_eid:
  assumes "an_version a = DISCO_VERSION_01" and "an_eid a = eid_none" and "an_services a \<noteq> []"
    and "an_version a0 \<noteq> DTND_IPDISCOVERY" and "length (an_bytes a) < 100"
  shows "\<exists>rest. get_an a0 (an_bytes a) = Inl (EndOfStream, rest)"
proof -
  let ?tail = "sdnv_bytes (word_of_nat (length (an_services a))) @ services_bytes (an_services a)"
  have flags: "an_flags_01 a = 2" using assms(2,3) by (simp add: an_flags_01_def BEACON_SERVICE_BLOCK_def)
  have none: "bstr_bytes (eid_getString eid_none) = sdnv_bytes 8 @ 100 # [116, 110, 58, 110, 111, 110, 101]" by code_simp
  have bytes: "an_bytes a = 2 # 2 # be16 (an_sn a) @ sdnv_bytes 8 @ 100 # [116, 110, 58, 110, 111, 110, 101] @ ?tail"
    using assms(1,2) flags none by (simp add: an_bytes_def wopt_def)
  let ?s = "[116, 110, 58, 110, 111, 110, 101] @ ?tail"
  have "sdnv_bytes 100 = [100]" by code_simp
  then have "get_sdnv (100 # ?s) = Inr (100, ?s)" using get_sdnv_bytes [of 100 ?s] by simp
  moreover have "length ?s < 100" using assms(5) unfolding bytes by simp
  ultimately have "get_bstr (100 # ?s) = Inl (EndOfStream, ?s)"
    by (simp add: get_bstr_def rbind_def rtake_def del: append.simps)
  then have ds: "get_ds (100 # ?s) = Inl (EndOfStream, ?s)" by (simp add: get_ds_def rbind_def)
  have loop: "rrepeat 8 get_ds (100 # ?s) = Inl (EndOfStream, ?s)" by (rule rrepeat_fail [where f = get_ds, OF ds]) simp
  have "get_an_01 a0 (2 # be16 (an_sn a) @ sdnv_bytes 8 @ 100 # ?s) = Inl (EndOfStream, ?s)"
    using loop by (simp add: get_an_01_def rbind_def ropt_def get_be16_be16 get_sdnv_bytes BEACON_CONTAINS_EID_def
        BEACON_SERVICE_BLOCK_def del: append.simps)
  then show ?thesis using assms(4) unfolding bytes by (simp add: get_an_def)
qed

definition sample_anonymous :: announcement where
  "sample_anonymous = an_addService \<lparr>ds_name = ''tcpcl'', ds_parameters = ''port=4556;''\<rparr> (an_new DISCO_VERSION_01 eid_none 7)"

theorem announcement_without_eid_witness:
  "\<exists>rest. get_an (an_new DISCO_VERSION_01 sample_target 0) (an_bytes sample_anonymous) = Inl (EndOfStream, rest)"
proof (rule announcement_without_eid)
  show "length (an_bytes sample_anonymous) < 100" by code_simp
qed (simp_all add: sample_anonymous_def an_addService_def an_new_def)





end
