(* ===== verification/Datagram.thy ===== *)
theory Datagram
  imports Discovery
begin

text \<open>
  The datagram convergence layers (\<open>daemon/src/net/DatagramConnection.cpp\<close>,
  \<open>daemon/src/net/DatagramConvergenceLayer.cpp\<close>): a stream of bytes is cut into datagrams with sequence numbers
  and marks for the first and the last segment of a bundle; with flow control every datagram waits for its
  acknowledgement.
\<close>

section \<open>Streams\<close>

definition SEGMENT_FIRST :: byte where "SEGMENT_FIRST = 2"

definition SEGMENT_LAST :: byte where "SEGMENT_LAST = 1"

definition SEGMENT_MIDDLE :: byte where "SEGMENT_MIDDLE = 0"

datatype flowcontrol = FLOW_NONE | FLOW_STOPNWAIT

record dg_stream =
  dg_buf_size :: nat
  dg_maxseqno :: "32 word"
  dg_in_state :: byte
  dg_out_state :: byte
  dg_queue_buf :: "byte list"
  dg_out :: "byte list"
  dg_in_seq :: "32 word"
  dg_out_seq :: "32 word"
  dg_abort :: bool

definition dg_new :: "nat \<Rightarrow> 32 word \<Rightarrow> dg_stream" where
  "dg_new maxmsglen maxseqno =
     \<lparr>dg_buf_size = maxmsglen, dg_maxseqno = maxseqno, dg_in_state = SEGMENT_FIRST, dg_out_state = SEGMENT_FIRST,
      dg_queue_buf = [], dg_out = [], dg_in_seq = 0, dg_out_seq = 0, dg_abort = False\<rparr>"

record dg_frame =
  fr_flags :: byte
  fr_seqno :: "32 word"
  fr_data :: "byte list"

section \<open>Receiving\<close>

text \<open>
  \<open>Stream::queue\<close>. It waits until the reader has taken what is in the buffer; here it is called when the buffer is
  free, and \<open>Waiting\<close> otherwise.
\<close>

datatype queued = Taken | Dropped | DatagramException | Waiting

definition dg_queue :: "dg_frame \<Rightarrow> dg_stream \<Rightarrow> queued \<times> dg_stream" where
  "dg_queue f s =
     (if dg_abort s then (DatagramException, s)
      else if dg_in_seq s \<noteq> fr_seqno f then
        (if fr_flags f AND SEGMENT_FIRST \<noteq> 0 then DatagramException else Dropped, s\<lparr>dg_abort := True\<rparr>)
      else if dg_in_state s AND SEGMENT_FIRST \<noteq> 0 \<and> fr_flags f AND SEGMENT_FIRST = 0 then (Dropped, s\<lparr>dg_abort := True\<rparr>)
      else if dg_in_state s = SEGMENT_MIDDLE \<and> fr_flags f AND SEGMENT_FIRST \<noteq> 0 then (Dropped, s\<lparr>dg_abort := True\<rparr>)
      else
        let s1 = s\<lparr>dg_in_state := (if fr_flags f AND SEGMENT_LAST \<noteq> 0 then SEGMENT_FIRST else SEGMENT_MIDDLE),
                   dg_in_seq := (dg_in_seq s + 1) mod dg_maxseqno s\<rparr>
        in if dg_queue_buf s \<noteq> [] then (Waiting, s1) else (Taken, s1\<lparr>dg_queue_buf := fr_data f\<rparr>))"

text \<open>\<open>underflow\<close>: the bytes that are put into the get area; \<open>None\<close> is the exception, or waiting for bytes.\<close>

definition dg_underflow :: "dg_stream \<Rightarrow> byte list option \<times> dg_stream" where
  "dg_underflow s = (if dg_queue_buf s = [] then (None, s) else (Some (dg_queue_buf s), s\<lparr>dg_queue_buf := []\<rparr>))"

text \<open>\<open>DatagramConnection::queue\<close>: the flag says that the frame is acknowledged, which it is unless an exception is thrown.\<close>

definition dg_conn_queue :: "flowcontrol \<Rightarrow> dg_frame \<Rightarrow> dg_stream \<Rightarrow> bool \<times> dg_stream" where
  "dg_conn_queue flow f s =
     (case dg_queue f s of (q, s1) \<Rightarrow> (q \<noteq> DatagramException \<and> flow = FLOW_STOPNWAIT, s1))"

section \<open>Sending\<close>

text \<open>
  What happens to a datagram that is sent is up to a medium: it tells whether the acknowledgement of the frame comes
  within 200 milliseconds.
\<close>

type_synonym 'm medium = "dg_frame \<Rightarrow> 'm \<Rightarrow> bool \<times> 'm"

fun dg_tries :: "nat \<Rightarrow> flowcontrol \<Rightarrow> 'm medium \<Rightarrow> dg_frame \<Rightarrow> 'm \<Rightarrow> bool \<times> 'm" where
  "dg_tries 0 flow send f m = (False, m)"
| "dg_tries (Suc n) flow send f m =
     (case send f m of (ack, m1) \<Rightarrow> if flow = FLOW_NONE \<or> ack then (True, m1) else dg_tries n flow send f m1)"

definition dg_stream_send :: "flowcontrol \<Rightarrow> 'm medium \<Rightarrow> dg_frame \<Rightarrow> 'm \<Rightarrow> bool \<times> 'm" where
  "dg_stream_send flow send f m = dg_tries 5 flow send f m"

text \<open>\<open>overflow\<close>, with \<open>None\<close> for \<open>eof()\<close>; \<open>False\<close> is the exception.\<close>

definition dg_overflow :: "flowcontrol \<Rightarrow> 'm medium \<Rightarrow> byte option \<Rightarrow> dg_stream \<times> 'm \<Rightarrow> bool \<times> dg_stream \<times> 'm" where
  "dg_overflow flow send c sm =
     (case sm of (s, m) \<Rightarrow>
        if dg_abort s then (False, s, m)
        else
          let data = dg_out s @ (case c of None \<Rightarrow> [] | Some x \<Rightarrow> [x]); s1 = s\<lparr>dg_out := []\<rparr>
          in if data = [] then (True, s1, m)
             else
               (case dg_stream_send flow send \<lparr>fr_flags = dg_out_state s, fr_seqno = dg_out_seq s, fr_data = data\<rparr> m of
                 (False, m1) \<Rightarrow> (False, s1, m1)
               | (True, m1) \<Rightarrow>
                   (True, s1\<lparr>dg_out_seq := (dg_out_seq s + 1) mod dg_maxseqno s, dg_out_state := SEGMENT_MIDDLE\<rparr>, m1)))"

text \<open>An exception out of \<open>overflow\<close> leaves the state with the mark of the last segment.\<close>

definition dg_sync :: "flowcontrol \<Rightarrow> 'm medium \<Rightarrow> dg_stream \<times> 'm \<Rightarrow> bool \<times> dg_stream \<times> 'm" where
  "dg_sync flow send sm =
     (case dg_overflow flow send None ((fst sm)\<lparr>dg_out_state := dg_out_state (fst sm) OR SEGMENT_LAST\<rparr>, snd sm) of
        (False, s, m) \<Rightarrow> (False, s, m)
      | (True, s, m) \<Rightarrow> (True, s\<lparr>dg_out_state := SEGMENT_FIRST\<rparr>, m))"

definition dg_sputc :: "flowcontrol \<Rightarrow> 'm medium \<Rightarrow> byte \<Rightarrow> dg_stream \<times> 'm \<Rightarrow> bool \<times> dg_stream \<times> 'm" where
  "dg_sputc flow send x sm =
     (if length (dg_out (fst sm)) < dg_buf_size (fst sm) - 1
      then (True, (fst sm)\<lparr>dg_out := dg_out (fst sm) @ [x]\<rparr>, snd sm)
      else dg_overflow flow send (Some x) sm)"

fun dg_sputn :: "flowcontrol \<Rightarrow> 'm medium \<Rightarrow> byte list \<Rightarrow> dg_stream \<times> 'm \<Rightarrow> bool \<times> dg_stream \<times> 'm" where
  "dg_sputn flow send [] sm = (True, sm)"
| "dg_sputn flow send (x # xs) sm =
     (case dg_sputc flow send x sm of (False, sm1) \<Rightarrow> (False, sm1) | (True, sm1) \<Rightarrow> dg_sputn flow send xs sm1)"

text \<open>
  A bundle as \<open>Sender::run\<close> writes it: its bytes, and a flush. The stream does not pass exceptions of the buffer on, it
  gets bad; what is written to a bad stream is dropped.
\<close>

definition dg_write :: "flowcontrol \<Rightarrow> 'm medium \<Rightarrow> byte list \<Rightarrow> dg_stream \<times> 'm \<Rightarrow> bool \<times> dg_stream \<times> 'm" where
  "dg_write flow send data sm =
     (case dg_sputn flow send data sm of (False, sm1) \<Rightarrow> (False, sm1) | (True, sm1) \<Rightarrow> dg_sync flow send sm1)"

text \<open>
  The loop of \<open>Sender::run\<close> over the queued bundles, as long as the stream is good: the first part of the result are the
  bundles for which \<open>TransferCompletedEvent\<close> is raised.
\<close>

fun dg_sender_run :: "flowcontrol \<Rightarrow> 'm medium \<Rightarrow> byte list list \<Rightarrow> bool \<Rightarrow> dg_stream \<times> 'm \<Rightarrow> byte list list \<times> bool \<times> dg_stream \<times> 'm" where
  "dg_sender_run flow send [] good sm = ([], good, sm)"
| "dg_sender_run flow send (d # ds) good sm =
     (if good
      then (case dg_write flow send d sm of
              (ok, sm1) \<Rightarrow> (case dg_sender_run flow send ds ok sm1 of (completed, r) \<Rightarrow> (d # completed, r)))
      else ([], False, sm))"

section \<open>A link between two connections\<close>

text \<open>
  The medium between the sender of one connection and the stream of another, whose reader takes what comes at once. What
  happens to each datagram is a list of outcomes; behind its end everything is delivered.
\<close>

datatype outcome = Delivered | FrameLost | AckLost

record dg_link =
  lk_rx :: dg_stream
  lk_got :: "byte list"
  lk_outcomes :: "outcome list"

definition link_arrive :: "dg_frame \<Rightarrow> dg_link \<Rightarrow> bool \<times> dg_link" where
  "link_arrive f l =
     (case dg_conn_queue FLOW_STOPNWAIT f (lk_rx l) of
        (ack, rx) \<Rightarrow>
          (case dg_underflow rx of
             (None, rx1) \<Rightarrow> (ack, l\<lparr>lk_rx := rx1\<rparr>)
           | (Some bytes, rx1) \<Rightarrow> (ack, l\<lparr>lk_rx := rx1, lk_got := lk_got l @ bytes\<rparr>)))"

definition link_send :: "dg_link medium" where
  "link_send f l =
     (case lk_outcomes l of
        [] \<Rightarrow> link_arrive f l
      | Delivered # os \<Rightarrow> link_arrive f (l\<lparr>lk_outcomes := os\<rparr>)
      | FrameLost # os \<Rightarrow> (False, l\<lparr>lk_outcomes := os\<rparr>)
      | AckLost # os \<Rightarrow> (False, snd (link_arrive f (l\<lparr>lk_outcomes := os\<rparr>))))"

text \<open>No acknowledgement is lost, and no five datagrams in a row; \<open>n\<close> were lost just before.\<close>

fun link_calm :: "nat \<Rightarrow> outcome list \<Rightarrow> bool" where
  "link_calm n [] = True"
| "link_calm n (Delivered # os) = link_calm 0 os"
| "link_calm n (FrameLost # os) = (n < 4 \<and> link_calm (Suc n) os)"
| "link_calm n (AckLost # os) = False"

text \<open>Sender and receiver agree on the next sequence number, and on whether the next segment is the first of a bundle.\<close>

definition in_step :: "dg_stream \<Rightarrow> dg_link \<Rightarrow> bool" where
  "in_step tx l \<longleftrightarrow>
     \<not> dg_abort tx \<and> \<not> dg_abort (lk_rx l) \<and> dg_queue_buf (lk_rx l) = [] \<and> dg_out_seq tx = dg_in_seq (lk_rx l)
     \<and> dg_maxseqno tx = dg_maxseqno (lk_rx l) \<and> dg_out_state tx = dg_in_state (lk_rx l)
     \<and> dg_out_state tx \<in> {SEGMENT_FIRST, SEGMENT_MIDDLE} \<and> link_calm 0 (lk_outcomes l)"

definition segment_frame :: "bool \<Rightarrow> dg_stream \<Rightarrow> byte list \<Rightarrow> dg_frame" where
  "segment_frame final tx data =
     \<lparr>fr_flags = (if final then dg_out_state tx OR SEGMENT_LAST else dg_out_state tx), fr_seqno = dg_out_seq tx, fr_data = data\<rparr>"

lemma segment_marks:
  "SEGMENT_FIRST AND SEGMENT_FIRST \<noteq> 0" "SEGMENT_MIDDLE AND SEGMENT_FIRST = 0" "SEGMENT_FIRST AND SEGMENT_LAST = 0"
  "SEGMENT_MIDDLE AND SEGMENT_LAST = 0" "(SEGMENT_FIRST OR SEGMENT_LAST) AND SEGMENT_LAST \<noteq> 0"
  "(SEGMENT_MIDDLE OR SEGMENT_LAST) AND SEGMENT_LAST \<noteq> 0" "(SEGMENT_FIRST OR SEGMENT_LAST) AND SEGMENT_FIRST \<noteq> 0"
  "(SEGMENT_MIDDLE OR SEGMENT_LAST) AND SEGMENT_FIRST = 0" "SEGMENT_FIRST \<noteq> SEGMENT_MIDDLE"
  by (simp_all add: SEGMENT_FIRST_def SEGMENT_LAST_def SEGMENT_MIDDLE_def)

text \<open>What the receiver makes of the next segment.\<close>

definition link_after :: "bool \<Rightarrow> dg_stream \<Rightarrow> byte list \<Rightarrow> dg_link \<Rightarrow> dg_link" where
  "link_after final tx data l =
     l\<lparr>lk_rx := (lk_rx l)\<lparr>dg_in_state := (if final then SEGMENT_FIRST else SEGMENT_MIDDLE),
                          dg_in_seq := (dg_in_seq (lk_rx l) + 1) mod dg_maxseqno (lk_rx l)\<rparr>,
        lk_got := lk_got l @ data\<rparr>"

lemma dg_queue_next:
  assumes "in_step tx l"
  shows "dg_queue (segment_frame final tx data) (lk_rx l) = (Taken, (lk_rx (link_after final tx data l))\<lparr>dg_queue_buf := data\<rparr>)"
proof -
  from assms consider "dg_out_state tx = SEGMENT_FIRST" | "dg_out_state tx = SEGMENT_MIDDLE" by (auto simp: in_step_def)
  then show ?thesis
  proof cases
    case 1
    then show ?thesis
      using assms segment_marks
      by (cases final) (simp_all add: dg_queue_def in_step_def segment_frame_def link_after_def Let_def)
  next
    case 2
    then show ?thesis
      using assms segment_marks
      by (cases final) (simp_all add: dg_queue_def in_step_def segment_frame_def link_after_def Let_def)
  qed
qed

lemma link_arrive_next:
  assumes "in_step tx l" and "data \<noteq> []" and "lk_rx l' = lk_rx l" and "lk_got l' = lk_got l"
  shows "link_arrive (segment_frame final tx data) l' = (True, (link_after final tx data l)\<lparr>lk_outcomes := lk_outcomes l'\<rparr>)"
proof -
  have "dg_queue_buf (lk_rx l) = []" using assms(1) by (simp add: in_step_def)
  then show ?thesis
    using assms(2-4) dg_queue_next [OF assms(1)] by (cases l') (simp add: link_arrive_def dg_conn_queue_def dg_underflow_def link_after_def)
qed

lemma dg_tries_calm:
  assumes "in_step tx l" and "data \<noteq> []" and "lk_rx l' = lk_rx l" and "lk_got l' = lk_got l"
    and "link_calm n (lk_outcomes l')" and "n + k = 5" and "n \<le> 4"
  shows "\<exists>os. dg_tries k FLOW_STOPNWAIT link_send (segment_frame final tx data) l' = (True, (link_after final tx data l)\<lparr>lk_outcomes := os\<rparr>)
    \<and> link_calm 0 os"
  using assms(3-7)
proof (induction k arbitrary: n l')
  case (Suc k)
  note arrive = link_arrive_next [OF assms(1,2)]
  show ?case
  proof (cases "lk_outcomes l'")
    case Nil
    then show ?thesis
      using Suc.prems arrive [of l' final] by (intro exI [of _ "[]"]) (simp add: link_send_def)
  next
    case (Cons x os)
    show ?thesis
    proof (cases x)
      case Delivered
      then show ?thesis
        using Suc.prems Cons arrive [of "l'\<lparr>lk_outcomes := os\<rparr>" final] by (intro exI [of _ os]) (simp add: link_send_def)
    next
      case FrameLost
      then have "n < 4" "link_calm (Suc n) os" using Suc.prems Cons by simp_all
      then show ?thesis
        using Suc.IH [of "l'\<lparr>lk_outcomes := os\<rparr>" "Suc n"] Suc.prems Cons FrameLost by (simp add: link_send_def)
    next
      case AckLost
      then show ?thesis using Suc.prems Cons by simp
    qed
  qed
qed simp

text \<open>A segment that is sent keeps the two in step.\<close>

definition sent_segment :: "bool \<Rightarrow> dg_stream \<Rightarrow> dg_stream" where
  "sent_segment final tx =
     tx\<lparr>dg_out := [], dg_out_seq := (dg_out_seq tx + 1) mod dg_maxseqno tx,
        dg_out_state := (if final then SEGMENT_FIRST else SEGMENT_MIDDLE)\<rparr>"

lemma in_step_sent:
  assumes "in_step tx l" and "link_calm 0 os"
  shows "in_step (sent_segment final tx) ((link_after final tx data l)\<lparr>lk_outcomes := os\<rparr>)"
  using assms by (cases final) (simp_all add: in_step_def sent_segment_def link_after_def)

lemma dg_overflow_link:
  assumes step: "in_step tx l" and data: "dg_out tx @ [x] = data"
  shows "\<exists>os. dg_overflow FLOW_STOPNWAIT link_send (Some x) (tx, l)
      = (True, sent_segment False tx, (link_after False tx data l)\<lparr>lk_outcomes := os\<rparr>)
    \<and> link_calm 0 os"
proof -
  have "data \<noteq> []" and "link_calm 0 (lk_outcomes l)" using assms by (auto simp: in_step_def)
  from dg_tries_calm [OF step this(1) refl refl this(2), where k = 5 and final = False] obtain os
    where "dg_tries 5 FLOW_STOPNWAIT link_send (segment_frame False tx data) l = (True, (link_after False tx data l)\<lparr>lk_outcomes := os\<rparr>)"
      and "link_calm 0 os" by auto
  moreover have "\<not> dg_abort tx" using step by (simp add: in_step_def)
  ultimately show ?thesis
    using data
    by (intro exI [of _ os]) (auto simp: dg_overflow_def dg_stream_send_def segment_frame_def sent_segment_def Let_def)
qed

lemma dg_sync_link:
  assumes step: "in_step tx l" and data: "dg_out tx \<noteq> []"
  shows "\<exists>os. dg_sync FLOW_STOPNWAIT link_send (tx, l)
      = (True, sent_segment True tx, (link_after True tx (dg_out tx) l)\<lparr>lk_outcomes := os\<rparr>)
    \<and> link_calm 0 os"
proof -
  have "link_calm 0 (lk_outcomes l)" using assms by (simp add: in_step_def)
  from dg_tries_calm [OF step data refl refl this, where k = 5 and final = True] obtain os
    where "dg_tries 5 FLOW_STOPNWAIT link_send (segment_frame True tx (dg_out tx)) l
        = (True, (link_after True tx (dg_out tx) l)\<lparr>lk_outcomes := os\<rparr>)"
      and "link_calm 0 os" by auto
  moreover have "\<not> dg_abort tx" using step by (simp add: in_step_def)
  ultimately show ?thesis
    using data
    by (intro exI [of _ os]) (auto simp: dg_sync_def dg_overflow_def dg_stream_send_def segment_frame_def sent_segment_def Let_def)
qed

text \<open>The bytes of a bundle are in the datagrams that were sent and in the buffer, which holds what is left of full ones.\<close>

lemma dg_sputn_link:
  assumes "in_step tx l" and "length (dg_out tx) < dg_buf_size tx"
  shows "\<exists>tx' l'. dg_sputn FLOW_STOPNWAIT link_send xs (tx, l) = (True, tx', l') \<and> in_step tx' l'
    \<and> lk_got l' @ dg_out tx' = lk_got l @ dg_out tx @ xs
    \<and> length (dg_out tx') = (length (dg_out tx) + length xs) mod dg_buf_size tx
    \<and> dg_buf_size tx' = dg_buf_size tx
    \<and> dg_out_state tx' = (if length (dg_out tx) + length xs < dg_buf_size tx then dg_out_state tx else SEGMENT_MIDDLE)"
  using assms
proof (induction xs arbitrary: tx l)
  case Nil
  then show ?case by simp
next
  case (Cons x xs)
  show ?case
  proof (cases "length (dg_out tx) < dg_buf_size tx - 1")
    case True
    let ?tx = "tx\<lparr>dg_out := dg_out tx @ [x]\<rparr>"
    have "in_step ?tx l" using Cons.prems(1) by (auto simp: in_step_def)
    moreover have "length (dg_out ?tx) < dg_buf_size ?tx" using True by simp
    ultimately show ?thesis using Cons.IH [of ?tx l] True by (auto simp: dg_sputc_def split: if_splits)
  next
    case False
    then have full: "Suc (length (dg_out tx)) = dg_buf_size tx" using Cons.prems(2) by linarith
    from dg_overflow_link [OF Cons.prems(1) refl, of x] obtain os
      where over: "dg_overflow FLOW_STOPNWAIT link_send (Some x) (tx, l)
          = (True, sent_segment False tx, (link_after False tx (dg_out tx @ [x]) l)\<lparr>lk_outcomes := os\<rparr>)"
        and calm: "link_calm 0 os" by auto
    let ?tx = "sent_segment False tx" and ?l = "(link_after False tx (dg_out tx @ [x]) l)\<lparr>lk_outcomes := os\<rparr>"
    have fields: "dg_out ?tx = []" "dg_buf_size ?tx = dg_buf_size tx" "dg_out_state ?tx = SEGMENT_MIDDLE"
      "lk_got ?l = lk_got l @ dg_out tx @ [x]"
      by (simp_all add: sent_segment_def link_after_def)
    have "length (dg_out ?tx) < dg_buf_size ?tx" using fields full by simp
    from Cons.IH [OF in_step_sent [OF Cons.prems(1) calm, where data = "dg_out tx @ [x]"] this] obtain tx' l'
      where run: "dg_sputn FLOW_STOPNWAIT link_send xs (?tx, ?l) = (True, tx', l')" "in_step tx' l'"
        "lk_got l' @ dg_out tx' = lk_got l @ dg_out tx @ x # xs"
        "length (dg_out tx') = length xs mod dg_buf_size tx" "dg_buf_size tx' = dg_buf_size tx"
        "dg_out_state tx' = SEGMENT_MIDDLE"
      by (auto simp: fields split: if_splits)
    have "(length (dg_out tx) + length (x # xs)) mod dg_buf_size tx = length xs mod dg_buf_size tx"
      using full mod_add_self1 [of "dg_buf_size tx" "length xs"] by (simp flip: full)
    then show ?thesis using run over False full by (simp add: dg_sputc_def)
  qed
qed

section \<open>Bundles over the link\<close>

definition dg_ready :: "nat \<Rightarrow> dg_stream \<Rightarrow> dg_link \<Rightarrow> bool" where
  "dg_ready B tx l \<longleftrightarrow> in_step tx l \<and> 0 < B \<and> dg_buf_size tx = B \<and> dg_out tx = [] \<and> dg_out_state tx = SEGMENT_FIRST"

lemma dg_write_link:
  assumes ready: "dg_ready B tx l" and len: "length d mod B \<noteq> 0"
  shows "\<exists>tx' l'. dg_write FLOW_STOPNWAIT link_send d (tx, l) = (True, tx', l') \<and> dg_ready B tx' l' \<and> lk_got l' = lk_got l @ d"
proof -
  from ready have tx: "in_step tx l" "length (dg_out tx) < dg_buf_size tx" "dg_out tx = []" "dg_buf_size tx = B" "0 < B"
    by (simp_all add: dg_ready_def)
  from dg_sputn_link [OF tx(1,2), of d] obtain tx1 l1
    where run: "dg_sputn FLOW_STOPNWAIT link_send d (tx, l) = (True, tx1, l1)" "in_step tx1 l1"
      "lk_got l1 @ dg_out tx1 = lk_got l @ d" "length (dg_out tx1) = length d mod B" "dg_buf_size tx1 = B"
    by (auto simp: tx(3,4))
  then have "dg_out tx1 \<noteq> []" using len by auto
  from dg_sync_link [OF run(2) this] obtain os
    where "dg_sync FLOW_STOPNWAIT link_send (tx1, l1)
        = (True, sent_segment True tx1, (link_after True tx1 (dg_out tx1) l1)\<lparr>lk_outcomes := os\<rparr>)" "link_calm 0 os"
    by auto
  with run tx in_step_sent [OF run(2) this(2), of True "dg_out tx1"] show ?thesis
    by (simp add: dg_write_def dg_ready_def sent_segment_def link_after_def)
qed

text \<open>C24: Over a link that loses no acknowledgement and no five datagrams in a row, bundles whose length is not a multiple of
  the datagram size all arrive, byte by byte and in their order, are all reported as completed, and leave sender and
  receiver in step.
\<close>

theorem datagram_delivers:
  assumes "dg_ready B tx l" and "list_all (\<lambda>d. length d mod B \<noteq> 0) ds"
  shows "\<exists>tx' l'. dg_sender_run FLOW_STOPNWAIT link_send ds True (tx, l) = (ds, True, tx', l')
    \<and> dg_ready B tx' l' \<and> lk_got l' = lk_got l @ concat ds"
  using assms
proof (induction ds arbitrary: tx l)
  case Nil
  then show ?case by simp
next
  case (Cons d ds)
  then have "length d mod B \<noteq> 0" by simp
  from dg_write_link [OF Cons.prems(1) this] obtain tx1 l1
    where "dg_write FLOW_STOPNWAIT link_send d (tx, l) = (True, tx1, l1)" "dg_ready B tx1 l1" "lk_got l1 = lk_got l @ d"
    by auto
  then show ?case using Cons.IH [of tx1 l1] Cons.prems(2) by auto
qed

definition link_example :: dg_link where
  "link_example = \<lparr>lk_rx = dg_new 2 4, lk_got = [], lk_outcomes = [Delivered, FrameLost, FrameLost, Delivered, FrameLost]\<rparr>"

theorem datagram_delivers_witness:
  "lk_got (snd (snd (snd (dg_sender_run FLOW_STOPNWAIT link_send [[1, 2, 3], [4]] True (dg_new 2 4, link_example)))))
     = [1, 2, 3, 4]"
proof -
  have "dg_ready 2 (dg_new 2 4) link_example"
    by (simp add: dg_ready_def in_step_def dg_new_def link_example_def)
  from datagram_delivers [OF this, of "[[1, 2, 3], [4]]"] show ?thesis by (auto simp: link_example_def)
qed

text \<open>A medium from which no acknowledgement comes.\<close>

definition unanswered :: "'m medium \<Rightarrow> bool" where
  "unanswered send \<longleftrightarrow> (\<forall>f m. \<not> fst (send f m))"

lemma unansweredD:
  assumes "unanswered send"
  shows "\<exists>m'. send f m = (False, m')"
proof -
  have "fst (send f m) = False" using assms by (simp add: unanswered_def)
  then show ?thesis by (cases "send f m") simp
qed

lemma dg_tries_dead:
  assumes "unanswered send"
  shows "\<exists>m'. dg_tries n FLOW_STOPNWAIT send f m = (False, m')"
proof (induction n arbitrary: m)
  case (Suc n)
  then show ?case using unansweredD [OF assms, of f m] by auto
qed simp

lemma dg_overflow_dead:
  assumes "unanswered send" and "dg_out s \<noteq> [] \<or> c \<noteq> None"
  shows "\<exists>sm. dg_overflow FLOW_STOPNWAIT send c (s, m) = (False, sm)"
proof -
  let ?data = "dg_out s @ (case c of None \<Rightarrow> [] | Some x \<Rightarrow> [x])"
  have "?data \<noteq> []" using assms(2) by (auto split: option.splits)
  moreover from dg_tries_dead [OF assms(1)] obtain m'
    where "dg_tries 5 FLOW_STOPNWAIT send \<lparr>fr_flags = dg_out_state s, fr_seqno = dg_out_seq s, fr_data = ?data\<rparr> m = (False, m')"
    by blast
  ultimately show ?thesis by (cases "dg_abort s") (simp_all add: dg_overflow_def dg_stream_send_def Let_def)
qed

lemma dg_sputn_dead:
  assumes "unanswered send" and "d \<noteq> [] \<or> dg_out s \<noteq> []"
    and "dg_sputn FLOW_STOPNWAIT send d (s, m) = (True, s', m')"
  shows "dg_out s' \<noteq> []"
  using assms(2,3)
proof (induction d arbitrary: s m)
  case (Cons x d)
  show ?case
  proof (cases "length (dg_out s) < dg_buf_size s - 1")
    case True
    then show ?thesis
      using Cons.IH [of "s\<lparr>dg_out := dg_out s @ [x]\<rparr>" m] Cons.prems(2) by (simp add: dg_sputc_def)
  next
    case False
    then obtain sm where "dg_sputc FLOW_STOPNWAIT send x (s, m) = (False, sm)"
      using dg_overflow_dead [OF assms(1), where c = "Some x" and s = s and m = m] by (auto simp: dg_sputc_def)
    then show ?thesis using Cons.prems(2) by simp
  qed
qed simp

lemma dg_write_dead:
  assumes "unanswered send" and "d \<noteq> []"
  shows "\<exists>sm. dg_write FLOW_STOPNWAIT send d (s, m) = (False, sm)"
proof (cases "dg_sputn FLOW_STOPNWAIT send d (s, m)")
  case (fields ok s1 m1)
  show ?thesis
  proof (cases ok)
    case True
    let ?s1 = "s1\<lparr>dg_out_state := dg_out_state s1 OR SEGMENT_LAST\<rparr>"
    have "dg_out s1 \<noteq> []" using dg_sputn_dead [of send d s m s1 m1] assms fields True by simp
    then have "dg_out ?s1 \<noteq> [] \<or> None \<noteq> None" by simp
    from dg_overflow_dead [OF assms(1) this, where m = m1] obtain s2 m2
      where "dg_overflow FLOW_STOPNWAIT send None (?s1, m1) = (False, s2, m2)" by (elim exE) (metis prod.exhaust)
    then show ?thesis using fields True by (simp add: dg_write_def dg_sync_def)
  qed (simp add: dg_write_def fields)
qed

text \<open>With a peer that acknowledges nothing, the bundle that could not be sent is nevertheless reported as completed: the
  exception only makes the stream bad, which \<open>Sender::run\<close> looks at after it has raised the event. The bundles behind it
  are not tried.
\<close>

theorem datagram_failure_completed:
  assumes "unanswered send" and "d \<noteq> []"
  shows "fst (dg_sender_run FLOW_STOPNWAIT send (d # ds) True (s, m)) = [d]
    \<and> fst (snd (dg_sender_run FLOW_STOPNWAIT send (d # ds) True (s, m))) = False"
proof -
  obtain sm where "dg_write FLOW_STOPNWAIT send d (s, m) = (False, sm)"
    using dg_write_dead [OF assms(1) assms(2)] by blast
  then show ?thesis by (cases ds) simp_all
qed

theorem datagram_failure_completed_witness:
  "fst (dg_sender_run FLOW_STOPNWAIT (\<lambda>f n. (False, Suc n)) [[1], [2]] True (dg_new 8 16, 0)) = [[1]]"
  using datagram_failure_completed [of "\<lambda>f n. (False, Suc n)" "[1]" "[[2]]" "dg_new 8 16" 0]
  by (simp add: unanswered_def)

text \<open>A bundle whose length is a multiple of the datagram size leaves nothing for the flush, so no segment of it has the
  mark of the last one: it arrives, but the first segment of the next bundle aborts the stream of the receiver.
\<close>

theorem datagram_boundary:
  assumes ready: "dg_ready B tx l" and len: "length d mod B = 0" "d \<noteq> []" and "lk_outcomes l = []"
  shows "\<exists>tx' l'. dg_write FLOW_STOPNWAIT link_send d (tx, l) = (True, tx', l') \<and> lk_got l' = lk_got l @ d
    \<and> dg_abort (snd (dg_queue (segment_frame False tx' d') (lk_rx l')))"
proof -
  from ready have tx: "in_step tx l" "length (dg_out tx) < dg_buf_size tx" "dg_out tx = []" "dg_buf_size tx = B"
    by (simp_all add: dg_ready_def)
  have "\<not> length d < B" using len by auto
  with dg_sputn_link [OF tx(1,2), of d] len obtain tx1 l1
    where run: "dg_sputn FLOW_STOPNWAIT link_send d (tx, l) = (True, tx1, l1)" "in_step tx1 l1"
      "lk_got l1 @ dg_out tx1 = lk_got l @ d" "dg_out tx1 = []" "dg_out_state tx1 = SEGMENT_MIDDLE"
    by (auto simp: tx(3,4))
  have "dg_sync FLOW_STOPNWAIT link_send (tx1, l1) = (True, tx1\<lparr>dg_out := [], dg_out_state := SEGMENT_FIRST\<rparr>, l1)"
    using run by (simp add: dg_sync_def dg_overflow_def in_step_def)
  moreover have "dg_abort (snd (dg_queue (segment_frame False (tx1\<lparr>dg_out := [], dg_out_state := SEGMENT_FIRST\<rparr>) d') (lk_rx l1)))"
    using run segment_marks by (auto simp: dg_queue_def in_step_def segment_frame_def)
  ultimately show ?thesis using run by (simp add: dg_write_def)
qed

theorem datagram_boundary_witness:
  "\<exists>tx' l'. dg_write FLOW_STOPNWAIT link_send [1, 2, 3, 4] (dg_new 2 16, \<lparr>lk_rx = dg_new 2 16, lk_got = [], lk_outcomes = []\<rparr>)
      = (True, tx', l') \<and> lk_got l' = [1, 2, 3, 4] \<and> dg_abort (snd (dg_queue (segment_frame False tx' [5]) (lk_rx l')))"
  using datagram_boundary [of 2 "dg_new 2 16" "\<lparr>lk_rx = dg_new 2 16, lk_got = [], lk_outcomes = []\<rparr>" "[1, 2, 3, 4]" "[5]"]
  by (simp add: dg_ready_def in_step_def dg_new_def)

end
