(* ===== verification/Reports.thy ===== *)
theory Reports
  imports StorageSpec Separate
begin

text \<open>
  What a node writes about bundles: status reports (\<open>daemon/src/core/StatusReportGenerator.cpp\<close>)
  and custody signals (\<open>daemon/src/core/BundleStorage.cpp\<close>), and what the core does with the
  bundles addressed to it (\<open>daemon/src/core/BundleCore.cpp\<close>).
\<close>

section \<open>Events\<close>

datatype bundle_action =
    BUNDLE_DELETED | BUNDLE_CUSTODY_ACCEPTED | BUNDLE_FORWARDED | BUNDLE_DELIVERED | BUNDLE_RECEIVED | BUNDLE_STORED

record bundle_event =
  be_bundle :: meta_bundle
  be_action :: bundle_action
  be_reason :: byte

datatype custody_action = CUSTODY_REJECT | CUSTODY_ACCEPT

datatype report_type =
    RECEIPT_OF_BUNDLE | CUSTODY_ACCEPTANCE_OF_BUNDLE | FORWARDING_OF_BUNDLE | DELIVERY_OF_BUNDLE | DELETION_OF_BUNDLE

fun report_bit :: "report_type \<Rightarrow> byte" where
  "report_bit RECEIPT_OF_BUNDLE = 1"
| "report_bit CUSTODY_ACCEPTANCE_OF_BUNDLE = 2"
| "report_bit FORWARDING_OF_BUNDLE = 4"
| "report_bit DELIVERY_OF_BUNDLE = 8"
| "report_bit DELETION_OF_BUNDLE = 16"

definition NO_ADDITIONAL_INFORMATION :: byte where "NO_ADDITIONAL_INFORMATION = 0"

definition DESTINATION_ENDPOINT_ID_UNINTELLIGIBLE :: byte where "DESTINATION_ENDPOINT_ID_UNINTELLIGIBLE = 5"

definition BLOCK_UNINTELLIGIBLE :: byte where "BLOCK_UNINTELLIGIBLE = 8"

section \<open>New bundles\<close>

text \<open>
  \<open>Bundle()\<close> and \<open>push_back<T>()\<close> on the blocks themselves. The counter of the sequence
  numbers is passed in and out.
\<close>

definition bundle_new :: "clock \<Rightarrow> timeval \<Rightarrow> u64 \<Rightarrow> dtn_bundle \<times> u64" where
  "bundle_new c sys seqno =
     (let (p, seqno') = primary_new c sys seqno
      in (primary.extend p \<lparr>b_blocks = (if p_timestamp p = 0 then blocks_push_back [] age_new else [])\<rparr>, seqno'))"

definition bundle_append :: "dtn_bundle \<Rightarrow> block_kind \<Rightarrow> block_body \<Rightarrow> dtntime \<Rightarrow> dtn_bundle" where
  "bundle_append b k body now = b\<lparr>b_blocks := blocks_push_back (b_blocks b) ((block_create now k)\<lparr>blk_body := body\<rparr>)\<rparr>"

section \<open>Status reports\<close>

definition report_stamp :: "report_type \<Rightarrow> dtntime \<Rightarrow> status_report \<Rightarrow> status_report" where
  "report_stamp type now r =
     (case type of
        RECEIPT_OF_BUNDLE \<Rightarrow> r\<lparr>sr_timeof_receipt := now\<rparr>
      | CUSTODY_ACCEPTANCE_OF_BUNDLE \<Rightarrow> r\<lparr>sr_timeof_custodyaccept := now\<rparr>
      | FORWARDING_OF_BUNDLE \<Rightarrow> r\<lparr>sr_timeof_forwarding := now\<rparr>
      | DELIVERY_OF_BUNDLE \<Rightarrow> r\<lparr>sr_timeof_delivery := now\<rparr>
      | DELETION_OF_BUNDLE \<Rightarrow> r\<lparr>sr_timeof_deletion := now\<rparr>)"

definition report_fill :: "meta_bundle \<Rightarrow> report_type \<Rightarrow> byte \<Rightarrow> dtntime \<Rightarrow> status_report" where
  "report_fill m type reason now =
     (let r0 = sr_new now;
          r1 = r0\<lparr>sr_status := sr_status r0 OR report_bit type, sr_reasoncode := sr_reasoncode r0 OR reason\<rparr>;
          r2 = report_stamp type now r1;
          r3 = (if meta_get FRAGMENT m
                then r2\<lparr>sr_fragment_offset := id_offset m, sr_fragment_length := m_appdatalength m,
                        sr_admfield := sr_admfield r2 OR 1\<rparr>
                else r2)
      in r3\<lparr>sr_bundle_timestamp := id_timestamp m, sr_bundle_sequence := id_sequencenumber m, sr_source := id_source m\<rparr>)"

definition create_status_report ::
  "clock \<Rightarrow> timeval \<Rightarrow> eid \<Rightarrow> u64 \<Rightarrow> meta_bundle \<Rightarrow> report_type \<Rightarrow> byte \<Rightarrow> dtn_bundle \<times> u64" where
  "create_status_report c sys local seqno m type reason =
     (let now = dtntime_set c sys;
          (b0, seqno') = bundle_new c sys seqno;
          b1 = bundle_append b0 StatusReportK (StatusReportBody (report_fill m type reason now)) now;
          b2 = primary_set DESTINATION_IS_SINGLETON True (primary_set APPDATA_IS_ADMRECORD True b1)
      in (b2\<lparr>p_source := local, p_destination := m_reportto m\<rparr>, seqno'))"

text \<open>Which report an action asks for, and the flag that has to request it.\<close>

definition report_wanted :: "bundle_action \<Rightarrow> (report_type \<times> u64) option" where
  "report_wanted a =
     (case a of
        BUNDLE_RECEIVED \<Rightarrow> Some (RECEIPT_OF_BUNDLE, REQUEST_REPORT_OF_BUNDLE_RECEPTION)
      | BUNDLE_DELETED \<Rightarrow> Some (DELETION_OF_BUNDLE, REQUEST_REPORT_OF_BUNDLE_DELETION)
      | BUNDLE_FORWARDED \<Rightarrow> Some (FORWARDING_OF_BUNDLE, REQUEST_REPORT_OF_BUNDLE_FORWARDING)
      | BUNDLE_DELIVERED \<Rightarrow> Some (DELIVERY_OF_BUNDLE, REQUEST_REPORT_OF_BUNDLE_DELIVERY)
      | BUNDLE_CUSTODY_ACCEPTED \<Rightarrow> Some (CUSTODY_ACCEPTANCE_OF_BUNDLE, REQUEST_REPORT_OF_CUSTODY_ACCEPTANCE)
      | BUNDLE_STORED \<Rightarrow> None)"

definition report_raiseEvent ::
  "clock \<Rightarrow> timeval \<Rightarrow> eid \<Rightarrow> bundle_event \<Rightarrow> u64 \<Rightarrow> dtn_bundle option \<times> u64" where
  "report_raiseEvent c sys local e seqno =
     (let m = be_bundle e
      in if meta_get APPDATA_IS_ADMRECORD m then (None, seqno)
         else case report_wanted (be_action e) of
                None \<Rightarrow> (None, seqno)
              | Some (type, flag) \<Rightarrow>
                  if meta_get flag m
                  then (case create_status_report c sys local seqno m type (be_reason e) of (b, seqno') \<Rightarrow> (Some b, seqno'))
                  else (None, seqno))"

section \<open>Custody\<close>

datatype custody_error = CustodyNotRequested | NoPreviousCustodian

definition cs_setMatch_meta :: "custody_signal \<Rightarrow> meta_bundle \<Rightarrow> custody_signal" where
  "cs_setMatch_meta c m =
     cs_setMatch c (meta_get FRAGMENT m) (id_offset m) (m_appdatalength m) (id_timestamp m) (id_sequencenumber m) (id_source m)"

text \<open>
  What the two operations raise: the signal as a generated bundle, and a custody event about a
  bundle.
\<close>

record custody_result =
  cr_signal :: dtn_bundle
  cr_event_bundle :: meta_bundle
  cr_event_action :: custody_action
  cr_sequence :: u64

definition custody_check :: "meta_bundle \<Rightarrow> custody_error option" where
  "custody_check m =
     (if \<not> meta_get CUSTODY_REQUESTED m then Some CustodyNotRequested
      else if m_custodian m = eid_none then Some NoPreviousCustodian
      else None)"

definition acceptCustody :: "clock \<Rightarrow> timeval \<Rightarrow> eid \<Rightarrow> u64 \<Rightarrow> meta_bundle \<Rightarrow> custody_error + custody_result \<times> eid" where
  "acceptCustody c sys local seqno m =
     (case custody_check m of
        Some e \<Rightarrow> Inl e
      | None \<Rightarrow>
          (let now = dtntime_set c sys;
               (b0, seqno') = bundle_new c sys seqno;
               b1 = primary_set PRIORITY_BIT2 True (primary_set PRIORITY_BIT1 False b0);
               signal = (cs_setMatch_meta (cs_new now) m)\<lparr>cs_accepted := True\<rparr>;
               b2 = bundle_append b1 CustodySignalK (CustodySignalBody signal) now;
               b3 = primary_set DESTINATION_IS_SINGLETON True b2
           in Inr (\<lparr>cr_signal = b3\<lparr>p_destination := m_custodian m, p_source := local\<rparr>,
                    cr_event_bundle = m, cr_event_action = CUSTODY_ACCEPT, cr_sequence = seqno'\<rparr>, local)))"

text \<open>The event of a rejection carries the signal, not the bundle that was rejected.\<close>

definition rejectCustody :: "moment \<Rightarrow> eid \<Rightarrow> u64 \<Rightarrow> meta_bundle \<Rightarrow> byte \<Rightarrow> custody_error + custody_result" where
  "rejectCustody mo local seqno m reason =
     (case custody_check m of
        Some e \<Rightarrow> Inl e
      | None \<Rightarrow>
          (let c = mo_clock mo; sys = mo_sys mo; now = dtntime_set c sys;
               (b0, seqno') = bundle_new c sys seqno;
               signal = (cs_setMatch_meta (cs_new now) m)\<lparr>cs_reason := reason\<rparr>;
               b1 = bundle_append b0 CustodySignalK (CustodySignalBody signal) now;
               b2 = b1\<lparr>p_destination := m_custodian m, p_source := local\<rparr>
           in Inr \<lparr>cr_signal = b2, cr_event_bundle = meta_at mo b2, cr_event_action = CUSTODY_REJECT, cr_sequence = seqno'\<rparr>))"

section \<open>Bundles for the node itself\<close>

datatype core_output =
    ReleaseCustody eid bundle_id
  | CoreEvent bundle_event

definition custody_bundle_id :: "custody_signal \<Rightarrow> bundle_id" where
  "custody_bundle_id s =
     \<lparr>id_source = cs_source s, id_timestamp = cs_bundle_timestamp s, id_sequencenumber = cs_bundle_sequence s,
      id_fragment = 0 < cs_fragment_length s, id_offset = cs_fragment_offset s\<rparr>"

definition bundle_custody :: "dtn_bundle \<Rightarrow> custody_signal option" where
  "bundle_custody b =
     (case blocks_get PAYLOAD_BLOCK_TYPE CustodySignalK (b_blocks b) of
        Inr blk \<Rightarrow> (case blk_body blk of CustodySignalBody s \<Rightarrow> Some s | _ \<Rightarrow> None)
      | Inl _ \<Rightarrow> None)"

text \<open>
  \<open>raiseEvent\<close> for a queued bundle. \<open>releaseCustody\<close> of the storage in memory does
  nothing; the exception of the storage ends the handler silently.
\<close>

definition core_deliver :: "dtn_bundle \<Rightarrow> meta_bundle \<Rightarrow> core_output list" where
  "core_deliver b m =
     (case bundle_custody b of
        Some s \<Rightarrow>
          [ReleaseCustody (p_source b) (custody_bundle_id s),
           CoreEvent \<lparr>be_bundle = m, be_action = BUNDLE_DELIVERED, be_reason = NO_ADDITIONAL_INFORMATION\<rparr>]
      | None \<Rightarrow>
          [CoreEvent \<lparr>be_bundle = m, be_action = BUNDLE_DELETED, be_reason = DESTINATION_ENDPOINT_ID_UNINTELLIGIBLE\<rparr>])"

definition core_queued :: "moment \<Rightarrow> eid \<Rightarrow> meta_bundle \<Rightarrow> mem_storage \<Rightarrow> core_output list \<times> mem_storage" where
  "core_queued mo local m st =
     (if m_destination m = local then
        (case ms_get m st of
           Inl _ \<Rightarrow> ([], st)
         | Inr b \<Rightarrow> (core_deliver b m, case ms_remove mo m st of Inl _ \<Rightarrow> st | Inr st' \<Rightarrow> st'))
      else ([], st))"

section \<open>The blocks of a new bundle\<close>

definition age_first :: block where
  "age_first = block_set LAST_BLOCK False (block_set LAST_BLOCK True age_new)"

definition record_block :: "block_body \<Rightarrow> block" where
  "record_block body = block_set LAST_BLOCK True (block_new PAYLOAD_BLOCK_TYPE body)"

text \<open>The bundles of both generators: an age block if the clock is not set, and a record.\<close>

definition carries :: "dtn_bundle \<Rightarrow> block_body \<Rightarrow> bool" where
  "carries b body \<longleftrightarrow> b_blocks b \<in> {[record_block body], [age_first, record_block body]}"

lemma carries_new:
  assumes "k = StatusReportK \<or> k = CustodySignalK"
  shows "carries (bundle_append (fst (bundle_new c sys seqno)) k body now) body"
  using assms
  by (auto simp: carries_def bundle_append_def bundle_new_def primary.extend_def blocks_push_back_def
      blocks_set_last_def age_first_def record_block_def block_new_def split: prod.splits)

lemma carries_primary [simp]:
  "carries (primary_set f v b) body = carries b body" "carries (b\<lparr>p_source := e\<rparr>) body = carries b body"
  "carries (b\<lparr>p_destination := e\<rparr>) body = carries b body"
  by (simp_all add: carries_def primary_set_def)

text \<open>The identifiers of the primary block can be sent.\<close>

definition eids_sendable :: "dtn_bundle \<Rightarrow> bool" where
  "eids_sendable b \<longleftrightarrow>
     (let es = [p_destination b, p_source b, p_reportto b, p_custodian b]
      in if list_all eid_isCompressable es then list_all eid_exact es
         else list_all eid_ok es \<and> length (dict_bytes (foldl dict_add_eid dict_new es)) < 2 ^ 64)"

lemma age_first_ok [simp]:
  "block_class_ok default_factories adm age_first" "block_kept default_factories age_first" "block_arrived now age_first = age_first"
  "\<not> block_get LAST_BLOCK age_first" "\<not> block_get BLOCK_CONTAINS_EIDS age_first" "blk_eids age_first = []"
  "body_getLength (blk_body age_first) = 1" "body_readable (blk_body age_first)" "blk_type age_first \<noteq> PAYLOAD_BLOCK_TYPE"
  "body_kind (blk_body age_first) \<noteq> CustodySignalK"
proof -
  have cls: "block_class_ok default_factories True age_first" "block_class_ok default_factories False age_first" by code_simp+
  then show "block_class_ok default_factories adm age_first" by (cases adm) simp_all
  have "blk_body age_first = AgeBody 0 0 0" by code_simp
  then show "block_arrived now age_first = age_first" by (simp add: block_arrived_def)
qed (code_simp+)

lemma record_block_sel [simp]:
  "blk_type (record_block body) = PAYLOAD_BLOCK_TYPE" "blk_eids (record_block body) = []" "blk_body (record_block body) = body"
  "block_get LAST_BLOCK (record_block body)" "\<not> block_get BLOCK_CONTAINS_EIDS (record_block body)"
  by (simp_all add: record_block_def block_new_def block_get_def get_set_flag block_flag_defs) (simp add: get_flag_def)

lemma carries_eids: "carries b body \<Longrightarrow> bundle_eids b = [p_destination b, p_source b, p_reportto b, p_custodian b]"
  by (auto simp: carries_def bundle_eids_def)

lemma carries_sendable:
  assumes "carries b body" and "eids_sendable b" and "body_readable body" and "body_getLength body < 2 ^ 64"
    and "block_class_ok default_factories (primary_get APPDATA_IS_ADMRECORD b) (record_block body)"
  shows "bundle_sendable default_factories b"
proof -
  have "ser_isCompressable b = list_all eid_isCompressable (bundle_eids b)"
    using assms(1) unfolding carries_eids [OF assms(1)] by (auto simp: carries_def ser_isCompressable_def)
  then show ?thesis
    using assms(2) carries_eids [OF assms(1)] assms(1,3-5)
    by (auto simp: bundle_sendable_def eids_sendable_def Let_def carries_def blocks_last_ok_def)
qed

text \<open>What a receiver finds in the block of a record that arrived.\<close>

lemma body_mark_sel [simp]: "blk_type (body_mark body x) = blk_type x" "blk_body (body_mark body x) = blk_body x"
  by (cases body; simp)+

lemma body_kind_arrived [simp]: "body_kind (body_arrived now body) = body_kind body"
  by (cases body) simp_all

lemma carries_arrived:
  assumes "carries b body"
  shows "\<exists>blk. blocks_get PAYLOAD_BLOCK_TYPE k (b_blocks (bundle_arrived default_factories now obj b))
      = (if body_kind body = k then Inr blk else Inl NoSuchBlockFoundException)
    \<and> blk_body blk = body_arrived now body"
proof -
  let ?x = "block_set LAST_BLOCK True (block_arrived now (record_block body))"
  have x: "blk_type ?x = PAYLOAD_BLOCK_TYPE" "blk_body ?x = body_arrived now body"
    by (simp_all add: block_arrived_def)
  have kept: "block_kept default_factories (record_block body)" by (simp add: block_kept_def)
  have "b_blocks (bundle_arrived default_factories now obj b) \<in> {[?x], [age_first, ?x]}"
    using assms kept by (auto simp: carries_def bundle_arrived_def primary.extend_def blocks_arrived_def blocks_set_last_def)
  then show ?thesis using x by auto
qed

section \<open>Status reports\<close>

lemma byte_is_space_small: "unat b < 9 \<Longrightarrow> \<not> byte_is_space b"
  by (auto simp: byte_is_space_def word_le_nat_alt)

lemma report_fill_sel [simp]:
  "sr_source (report_fill m type reason now) = id_source m"
  "sr_bundle_timestamp (report_fill m type reason now) = id_timestamp m"
  "sr_bundle_sequence (report_fill m type reason now) = id_sequencenumber m"
  "sr_status (report_fill m type reason now) = report_bit type"
  "sr_reasoncode (report_fill m type reason now) = reason"
  "sr_admfield (report_fill m type reason now) = (if meta_get FRAGMENT m then 17 else 16)"
  by (cases type; simp add: report_fill_def report_stamp_def sr_new_def Let_def)+

lemma sdnv_count_ten: "sdnv_count n \<le> 10"
  by (rule sdnv_count_le) (simp, rule order_less_le_trans [OF unsigned_less], simp)

lemma dtntime_getLength_le: "dtntime_getLength d \<le> 20"
  using sdnv_count_ten [of "dt_seconds d"] sdnv_count_ten [of "dt_nanoseconds d"] by (simp add: dtntime_getLength_def)

lemma sr_getLength_bound:
  assumes "length (eid_getString (sr_source r)) < 2 ^ 62"
  shows "sr_getLength r < 2 ^ 64"
  using assms sdnv_count_ten [of "sr_fragment_offset r"] sdnv_count_ten [of "sr_fragment_length r"]
    sdnv_count_ten [of "sr_bundle_timestamp r"] sdnv_count_ten [of "sr_bundle_sequence r"]
    sdnv_count_ten [of "word_of_nat (length (eid_getString (sr_source r)))"]
    dtntime_getLength_le [of "sr_timeof_receipt r"] dtntime_getLength_le [of "sr_timeof_custodyaccept r"]
    dtntime_getLength_le [of "sr_timeof_forwarding r"] dtntime_getLength_le [of "sr_timeof_delivery r"]
    dtntime_getLength_le [of "sr_timeof_deletion r"]
  by (simp add: sr_getLength_def bstr_getLength_def)

lemma cs_getLength_bound:
  assumes "length (eid_getString (cs_source r)) < 2 ^ 62"
  shows "cs_getLength r < 2 ^ 64"
  using assms sdnv_count_ten [of "cs_fragment_offset r"] sdnv_count_ten [of "cs_fragment_length r"]
    sdnv_count_ten [of "cs_bundle_timestamp r"] sdnv_count_ten [of "cs_bundle_sequence r"]
    sdnv_count_ten [of "word_of_nat (length (eid_getString (cs_source r)))"] dtntime_getLength_le [of "cs_timeofsignal r"]
  by (simp add: cs_getLength_def bstr_getLength_def)

lemma report_fill_fragment:
  "meta_get FRAGMENT m \<Longrightarrow> sr_fragment_offset (report_fill m type reason now) = id_offset m
     \<and> sr_fragment_length (report_fill m type reason now) = m_appdatalength m"
  by (simp add: report_fill_def report_stamp_def sr_new_def Let_def)

lemma report_fill_readable:
  assumes "eid_canonical (id_source m)" and "length (eid_getString (id_source m)) < 2 ^ 63" and "unat reason < 9"
  shows "sr_readable (report_fill m type reason now)"
proof -
  have "\<not> byte_is_space (report_bit type)" "\<not> byte_is_space (if meta_get FRAGMENT m then 17 else 16)"
    by (cases type; simp add: byte_is_space_def word_le_nat_alt) (simp add: byte_is_space_def word_le_nat_alt)
  then show ?thesis using assms byte_is_space_small [OF assms(3)] by (simp add: sr_readable_def)
qed

lemma create_status_report_carries:
  assumes "create_status_report c sys local seqno m type reason = (b, seqno')"
  shows "carries b (StatusReportBody (report_fill m type reason (dtntime_set c sys)))"
    and "primary_get APPDATA_IS_ADMRECORD b" and "p_destination b = m_reportto m" and "p_source b = local"
proof -
  let ?body = "StatusReportBody (report_fill m type reason (dtntime_set c sys))"
  let ?b1 = "bundle_append (fst (bundle_new c sys seqno)) StatusReportK ?body (dtntime_set c sys)"
  have b: "b = (primary_set DESTINATION_IS_SINGLETON True (primary_set APPDATA_IS_ADMRECORD True ?b1))
      \<lparr>p_source := local, p_destination := m_reportto m\<rparr>"
    using assms by (auto simp: create_status_report_def Let_def split: prod.splits)
  show "carries b ?body" unfolding b using carries_new [of StatusReportK] by simp
  show "primary_get APPDATA_IS_ADMRECORD b"
    unfolding b by (simp add: primary_get_def primary_set_def flag_defs get_set_flag)
  show "p_destination b = m_reportto m" "p_source b = local" unfolding b by simp_all
qed

lemma report_raised:
  assumes "report_raiseEvent c sys local e seqno = (Some b, seqno')"
  obtains type flag where "report_wanted (be_action e) = Some (type, flag)" "meta_get flag (be_bundle e)"
    "\<not> meta_get APPDATA_IS_ADMRECORD (be_bundle e)"
    "create_status_report c sys local seqno (be_bundle e) type (be_reason e) = (b, seqno')"
  using assms by (auto simp: report_raiseEvent_def Let_def split: if_splits option.splits prod.splits)

lemma meta_get_at: "meta_get f (meta_at mo b) = primary_get f b"
  by (simp add: meta_get_def meta_at_def meta_of_bundle_def primary_get_def bundle_id.extend_def)

text \<open>An event about a bundle makes a status report exactly if the bundle asks for it and is no
  administrative record itself, so no event about a report makes another report; the report goes to the
  report-to address and uses up one sequence number, and nothing else does.\<close>

theorem status_report_requested:
  shows "case report_raiseEvent c sys local e seqno of (r, seqno') \<Rightarrow>
    (r \<noteq> None \<longleftrightarrow> \<not> meta_get APPDATA_IS_ADMRECORD (be_bundle e)
        \<and> (\<exists>type flag. report_wanted (be_action e) = Some (type, flag) \<and> meta_get flag (be_bundle e)))
    \<and> seqno' = (if r = None then seqno else seqno + 1)
    \<and> (case r of None \<Rightarrow> True | Some b \<Rightarrow> p_destination b = m_reportto (be_bundle e) \<and> p_source b = local
         \<and> report_raiseEvent c2 sys2 local2 \<lparr>be_bundle = meta_at mo b, be_action = a, be_reason = reason\<rparr> n = (None, n))"
proof -
  obtain r seqno' where r: "report_raiseEvent c sys local e seqno = (r, seqno')" by (cases "report_raiseEvent c sys local e seqno")
  show ?thesis
  proof (cases r)
    case None
    then show ?thesis
      using r by (auto simp: report_raiseEvent_def Let_def split: if_splits option.splits prod.splits)
  next
    case (Some b)
    with r have "report_raiseEvent c sys local e seqno = (Some b, seqno')" by simp
    then obtain type flag where w: "report_wanted (be_action e) = Some (type, flag)" "meta_get flag (be_bundle e)"
        "\<not> meta_get APPDATA_IS_ADMRECORD (be_bundle e)"
      and c: "create_status_report c sys local seqno (be_bundle e) type (be_reason e) = (b, seqno')"
      by (rule report_raised)
    have "seqno' = seqno + 1"
      using c by (auto simp: create_status_report_def bundle_new_def primary_new_def primary_relabel_def Let_def)
    then show ?thesis
      unfolding r Some using w create_status_report_carries [OF c]
      by (simp add: report_raiseEvent_def meta_get_at)
  qed
qed

text \<open>C20: a report that was generated and sent is found by its receiver in the payload block, and names the
  bundle, the event and the reason; for a fragment also its place.\<close>

theorem status_report_delivered:
  assumes "blob_copy_ok copy" and "\<not> dict_fail (ser_dict w)" and "\<not> dict_fail (des_dict r)"
    and "report_raiseEvent c sys local e seqno = (Some b, seqno')" and "eids_sendable b" and "unat (be_reason e) < 9"
    and "eid_canonical (id_source (be_bundle e))" and "length (eid_getString (id_source (be_bundle e))) < 2 ^ 62"
  shows "\<exists>bytes w' b' r' blk report type flag.
      ser_bundle w b = Inr (bytes, w')
      \<and> des_bundle copy accept_validator default_factories now r obj (bytes @ s) = Inr ((b', r'), s)
      \<and> blocks_get PAYLOAD_BLOCK_TYPE StatusReportK (b_blocks b') = Inr blk \<and> blk_body blk = StatusReportBody report
      \<and> p_destination b' = m_reportto (be_bundle e)
      \<and> report_wanted (be_action e) = Some (type, flag) \<and> sr_status report = report_bit type
      \<and> sr_reasoncode report = be_reason e \<and> sr_source report = id_source (be_bundle e)
      \<and> sr_bundle_timestamp report = id_timestamp (be_bundle e)
      \<and> sr_bundle_sequence report = id_sequencenumber (be_bundle e)
      \<and> (meta_get FRAGMENT (be_bundle e) \<longrightarrow> sr_fragment_offset report = id_offset (be_bundle e)
           \<and> sr_fragment_length report = m_appdatalength (be_bundle e))"
proof -
  obtain type flag where wanted: "report_wanted (be_action e) = Some (type, flag)"
      and c: "create_status_report c sys local seqno (be_bundle e) type (be_reason e) = (b, seqno')"
    using report_raised [OF assms(4)] by blast
  let ?report = "report_fill (be_bundle e) type (be_reason e) (dtntime_set c sys)"
  note b = create_status_report_carries [OF c]
  have "sr_readable ?report" using assms(6-8) by (intro report_fill_readable) simp_all
  moreover have "sr_getLength ?report < 2 ^ 64" using sr_getLength_bound assms(8) by simp
  moreover have "block_class_ok default_factories True (record_block (StatusReportBody ?report))"
    by (simp add: block_class_ok_def PAYLOAD_BLOCK_TYPE_def)
  ultimately have "bundle_sendable default_factories b"
    using carries_sendable [OF b(1) assms(5)] b(2) by simp
  from des_bundle_ser_bundle [OF assms(1-3) this, of now obj]
  obtain bytes w' r' where ser: "ser_bundle w b = Inr (bytes, w')"
      and des: "des_bundle copy accept_validator default_factories now r obj (bytes @ s)
          = Inr ((bundle_arrived default_factories now obj b, r'), s)"
    by blast
  obtain blk where blk: "blocks_get PAYLOAD_BLOCK_TYPE StatusReportK (b_blocks (bundle_arrived default_factories now obj b)) = Inr blk"
      "blk_body blk = StatusReportBody (sr_seen (sr_new now) ?report)"
    using carries_arrived [OF b(1), of StatusReportK now obj] by auto
  have "p_destination (bundle_arrived default_factories now obj b) = m_reportto (be_bundle e)"
    using b(3) by (simp add: bundle_arrived_def primary.extend_def primary_arrived_def)
  moreover have "meta_get FRAGMENT (be_bundle e) \<longrightarrow>
      sr_fragment_offset (sr_seen (sr_new now) ?report) = id_offset (be_bundle e)
      \<and> sr_fragment_length (sr_seen (sr_new now) ?report) = m_appdatalength (be_bundle e)"
    using report_fill_fragment by (simp add: sr_seen_def byte_flag_def)
  ultimately show ?thesis
    using ser des blk wanted by (intro exI conjI) (assumption | simp add: sr_seen_def)+
qed

section \<open>Custody signals\<close>

definition custody_signal_of :: "clock \<Rightarrow> timeval \<Rightarrow> meta_bundle \<Rightarrow> custody_signal" where
  "custody_signal_of c sys m = (cs_setMatch_meta (cs_new (dtntime_set c sys)) m)\<lparr>cs_accepted := True\<rparr>"

lemma new_bundle_flags: "p_procflags (fst (bundle_new c sys seqno)) = 0"
  by (auto simp: bundle_new_def primary_new_def primary_relabel_def primary.extend_def Let_def split: prod.splits)

lemma acceptCustody_carries:
  assumes "acceptCustody c sys local seqno m = Inr (res, custodian)"
  shows "carries (cr_signal res) (CustodySignalBody (custody_signal_of c sys m))"
    and "\<not> primary_get APPDATA_IS_ADMRECORD (cr_signal res)"
    and "p_destination (cr_signal res) = m_custodian m" and "p_source (cr_signal res) = local"
    and "custodian = local" and "cr_event_bundle res = m" and "cr_event_action res = CUSTODY_ACCEPT"
    and "custody_check m = None"
proof -
  let ?body = "CustodySignalBody (custody_signal_of c sys m)"
  let ?b0 = "fst (bundle_new c sys seqno)"
  let ?b1 = "primary_set PRIORITY_BIT2 True (primary_set PRIORITY_BIT1 False ?b0)"
  let ?b3 = "primary_set DESTINATION_IS_SINGLETON True (bundle_append ?b1 CustodySignalK ?body (dtntime_set c sys))"
  have res: "cr_signal res = ?b3\<lparr>p_destination := m_custodian m, p_source := local\<rparr>" "custody_check m = None"
      "custodian = local" "cr_event_bundle res = m" "cr_event_action res = CUSTODY_ACCEPT"
    using assms by (auto simp: acceptCustody_def custody_signal_of_def Let_def split: option.splits prod.splits)
  have "carries ?b3 ?body = carries (bundle_append ?b0 CustodySignalK ?body (dtntime_set c sys)) ?body"
    by (simp add: carries_def bundle_append_def primary_set_def)
  then show "carries (cr_signal res) ?body" unfolding res(1) using carries_new [of CustodySignalK] by simp
  show "\<not> primary_get APPDATA_IS_ADMRECORD (cr_signal res)"
    unfolding res(1) by (simp add: primary_get_def primary_set_def flag_defs get_set_flag bundle_append_def new_bundle_flags)
       (simp add: get_flag_def)
  show "p_destination (cr_signal res) = m_custodian m" "p_source (cr_signal res) = local" unfolding res(1) by simp_all
qed (use assms in \<open>auto simp: acceptCustody_def Let_def split: option.splits prod.splits\<close>)

lemma carries_custody:
  assumes "carries b body"
  shows "bundle_custody b = (case body of CustodySignalBody s \<Rightarrow> Some s | _ \<Rightarrow> None)"
  using assms by (auto simp: carries_def bundle_custody_def split: block_body.splits)

lemma custody_signal_of_sel [simp]:
  "cs_source (custody_signal_of c sys m) = id_source m" "cs_accepted (custody_signal_of c sys m)"
  "cs_bundle_timestamp (custody_signal_of c sys m) = id_timestamp m"
  "cs_bundle_sequence (custody_signal_of c sys m) = id_sequencenumber m"
  "cs_fragment_offset (custody_signal_of c sys m) = (if meta_get FRAGMENT m then id_offset m else 0)"
  "cs_fragment_length (custody_signal_of c sys m) = (if meta_get FRAGMENT m then m_appdatalength m else 0)"
  by (simp_all add: custody_signal_of_def cs_setMatch_meta_def cs_setMatch_def cs_new_def Let_def)

text \<open>The record as the bytes of a payload block: what is written is the same.\<close>

definition as_payload :: "dtn_bundle \<Rightarrow> byte list \<Rightarrow> dtn_bundle" where
  "as_payload b bytes = b\<lparr>b_blocks := butlast (b_blocks b) @ [record_block (PayloadBody bytes)]\<rparr>"

lemma as_payload_carries: "carries b body \<Longrightarrow> carries (as_payload b bytes) (PayloadBody bytes)"
  by (auto simp: carries_def as_payload_def)

lemma as_payload_primary [simp]:
  "primary.truncate (as_payload b bytes) = primary.truncate b" "primary_get f (as_payload b bytes) = primary_get f b"
  "p_destination (as_payload b bytes) = p_destination b" "p_source (as_payload b bytes) = p_source b"
  "p_reportto (as_payload b bytes) = p_reportto b" "p_custodian (as_payload b bytes) = p_custodian b"
  by (simp_all add: as_payload_def primary.truncate_def primary_get_def)

lemma as_payload_bytes:
  assumes "carries b body" and "body_bytes body = bytes" and "body_getLength body = length bytes"
  shows "ser_bundle w b = ser_bundle w (as_payload b bytes)"
proof -
  have eids: "bundle_eids (as_payload b bytes) = bundle_eids b"
    unfolding carries_eids [OF assms(1)] carries_eids [OF as_payload_carries [OF assms(1)]] by simp
  have dict: "ser_rebuildDictionary w (as_payload b bytes) = ser_rebuildDictionary w b"
    using rebuildDictionary_eq [of w b] rebuildDictionary_eq [of w "as_payload b bytes"] unfolding eids
    by (simp add: ser_rebuildDictionary_def)
  have comp: "ser_isCompressable (as_payload b bytes) = ser_isCompressable b"
    using assms(1) by (auto simp: carries_def as_payload_def ser_isCompressable_def)
  have "ser_block st (record_block (PayloadBody bytes)) = ser_block st (record_block body)" for st
    using assms(2,3) by (simp add: ser_block_def ser_block_header_def record_block_def block_new_def block_get_def)
  then have blocks: "map (ser_block st) (b_blocks (as_payload b bytes)) = map (ser_block st) (b_blocks b)" for st
    using assms(1) by (auto simp: carries_def as_payload_def)
  show ?thesis unfolding ser_bundle_def dict comp blocks as_payload_primary by (rule refl)
qed

text \<open>C22: custody is refused exactly for bundles that do not ask for it or name no custodian; otherwise a
  signal that names the bundle goes from the node to the previous custodian, the node becomes the custodian,
  and a node that gets the signal as it is releases the custody of that bundle and reports the signal as
  delivered.\<close>

theorem custody_accepted:
  "case acceptCustody c sys local seqno m of
     Inl e \<Rightarrow> (e = CustodyNotRequested \<longleftrightarrow> \<not> meta_get CUSTODY_REQUESTED m)
        \<and> (e = NoPreviousCustodian \<longleftrightarrow> meta_get CUSTODY_REQUESTED m \<and> m_custodian m = eid_none)
   | Inr (res, custodian) \<Rightarrow> meta_get CUSTODY_REQUESTED m \<and> m_custodian m \<noteq> eid_none
        \<and> custodian = local \<and> p_source (cr_signal res) = local \<and> p_destination (cr_signal res) = m_custodian m
        \<and> cr_event_bundle res = m \<and> cr_event_action res = CUSTODY_ACCEPT
        \<and> core_deliver (cr_signal res) m' =
            [ReleaseCustody local
               \<lparr>id_source = id_source m, id_timestamp = id_timestamp m, id_sequencenumber = id_sequencenumber m,
                id_fragment = (meta_get FRAGMENT m \<and> 0 < m_appdatalength m),
                id_offset = (if meta_get FRAGMENT m then id_offset m else 0)\<rparr>,
             CoreEvent \<lparr>be_bundle = m', be_action = BUNDLE_DELIVERED, be_reason = NO_ADDITIONAL_INFORMATION\<rparr>]"
proof (cases "acceptCustody c sys local seqno m")
  case (Inl e)
  then have "custody_check m = Some e"
    by (auto simp: acceptCustody_def Let_def split: option.splits prod.splits)
  then show ?thesis unfolding Inl by (auto simp: custody_check_def split: if_splits)
next
  case (Inr x)
  obtain res custodian where x: "x = (res, custodian)" by (cases x)
  note a = acceptCustody_carries [OF Inr [unfolded x]]
  have "meta_get CUSTODY_REQUESTED m" "m_custodian m \<noteq> eid_none"
    using a(8) by (auto simp: custody_check_def split: if_splits)
  then show ?thesis
    unfolding Inr x using a(3-7) carries_custody [OF a(1)]
    by (simp add: core_deliver_def custody_bundle_id_def)
qed

text \<open>C6: a custody signal is sent without the flag of administrative records, so every other node
  reads its bytes as an ordinary payload: the previous custodian does not release the custody, deletes the
  signal and reports its own address as unintelligible.\<close>

theorem custody_signal_unread:
  assumes "blob_copy_ok copy" and "\<not> dict_fail (ser_dict w)" and "\<not> dict_fail (des_dict r)"
    and "acceptCustody c sys local seqno m = Inr (res, custodian)" and "eids_sendable (cr_signal res)"
    and "length (eid_getString (id_source m)) < 2 ^ 62"
  shows "\<exists>bytes w' b' r' blk data. ser_bundle w (cr_signal res) = Inr (bytes, w')
      \<and> des_bundle copy accept_validator default_factories now r obj (bytes @ s) = Inr ((b', r'), s)
      \<and> p_destination b' = m_custodian m
      \<and> blocks_get PAYLOAD_BLOCK_TYPE PayloadK (b_blocks b') = Inr blk \<and> blk_body blk = PayloadBody data
      \<and> (\<forall>m'. core_deliver b' m' = [CoreEvent \<lparr>be_bundle = m', be_action = BUNDLE_DELETED,
                                            be_reason = DESTINATION_ENDPOINT_ID_UNINTELLIGIBLE\<rparr>])"
proof -
  let ?signal = "custody_signal_of c sys m" and ?b = "cr_signal res"
  let ?data = "cs_bytes ?signal"
  let ?p = "as_payload ?b ?data"
  note a = acceptCustody_carries [OF assms(4)]
  have len: "length ?data < 2 ^ 64" using cs_getLength_bound [of ?signal] assms(6) by (simp add: length_cs_bytes)
  note p = as_payload_carries [OF a(1), of ?data]
  have "eids_sendable ?p" using assms(5) by (simp add: eids_sendable_def)
  moreover have "block_class_ok default_factories False (record_block (PayloadBody ?data))"
    by (simp add: block_class_ok_def PAYLOAD_BLOCK_TYPE_def)
  ultimately have "bundle_sendable default_factories ?p"
    using carries_sendable [OF p] a(2) len by simp
  from des_bundle_ser_bundle [OF assms(1-3) this, of now obj]
  obtain bytes w' r' where "ser_bundle w ?p = Inr (bytes, w')"
      and des: "des_bundle copy accept_validator default_factories now r obj (bytes @ s)
          = Inr ((bundle_arrived default_factories now obj ?p, r'), s)"
    by blast
  then have ser: "ser_bundle w ?b = Inr (bytes, w')"
    using as_payload_bytes [OF a(1), of ?data w] by (simp add: length_cs_bytes)
  let ?b' = "bundle_arrived default_factories now obj ?p"
  obtain blk where blk: "blocks_get PAYLOAD_BLOCK_TYPE PayloadK (b_blocks ?b') = Inr blk" "blk_body blk = PayloadBody ?data"
    using carries_arrived [OF p, of PayloadK now obj] by auto
  have "blocks_get PAYLOAD_BLOCK_TYPE CustodySignalK (b_blocks ?b') = Inl NoSuchBlockFoundException"
    using carries_arrived [OF p, of CustodySignalK now obj] by auto
  then have "core_deliver ?b' m' = [CoreEvent \<lparr>be_bundle = m', be_action = BUNDLE_DELETED,
      be_reason = DESTINATION_ENDPOINT_ID_UNINTELLIGIBLE\<rparr>]" for m'
    by (simp add: core_deliver_def bundle_custody_def)
  moreover have "p_destination ?b' = m_custodian m"
    using a(3) by (simp add: bundle_arrived_def primary.extend_def primary_arrived_def)
  ultimately show ?thesis using ser des blk by blast
qed

section \<open>Samples\<close>

definition sample_node :: eid where
  "sample_node = \<lparr>scheme = ''dtn'', ssp = ''//a''\<rparr>"

definition sample_host :: eid where
  "sample_host = \<lparr>scheme = ''dtn'', ssp = ''//b''\<rparr>"

definition sample_subject :: meta_bundle where
  "sample_subject = sample_meta\<lparr>m_procflags := CUSTODY_REQUESTED OR REQUEST_REPORT_OF_BUNDLE_DELIVERY,
     m_custodian := sample_node, m_reportto := sample_node, id_source := sample_node\<rparr>"

definition sample_event :: bundle_event where
  "sample_event = \<lparr>be_bundle = sample_subject, be_action = BUNDLE_DELIVERED, be_reason = NO_ADDITIONAL_INFORMATION\<rparr>"

lemma sample_eids:
  assumes "p_destination b = sample_node" and "p_source b = sample_host" and "p_reportto b = eid_none" and "p_custodian b = eid_none"
  shows "eids_sendable b"
proof -
  let ?es = "[sample_node, sample_host, eid_none, eid_none]"
  have "\<not> eid_isCompressable sample_node" by code_simp
  moreover have "length (dict_bytes (foldl dict_add_eid dict_new ?es)) = 17" by code_simp
  moreover have "list_all eid_ok ?es"
    by (simp add: sample_node_def sample_host_def eid_ok_def str_ok_def eid_none_def DEFAULT_SCHEME_def
        eid_trimmed_def trimmed_def is_blank_def)
  ultimately show ?thesis using assms by (simp add: eids_sendable_def)
qed

lemma sample_source: "eid_canonical (id_source sample_subject)" "length (eid_getString (id_source sample_subject)) = 7"
  by code_simp+

theorem custody_signal_unread_witness:
  "\<exists>res custodian bytes w' b' r'. acceptCustody sample_clock (mo_sys sample_moment) sample_host 7 sample_subject = Inr (res, custodian)
      \<and> ser_bundle ser_new (cr_signal res) = Inr (bytes, w')
      \<and> des_bundle rtake accept_validator default_factories sample_time des_new sample_object (bytes @ [1]) = Inr ((b', r'), [1])
      \<and> core_deliver b' sample_meta = [CoreEvent \<lparr>be_bundle = sample_meta, be_action = BUNDLE_DELETED,
            be_reason = DESTINATION_ENDPOINT_ID_UNINTELLIGIBLE\<rparr>]"
proof -
  let ?r = "acceptCustody sample_clock (mo_sys sample_moment) sample_host 7 sample_subject"
  have "case ?r of Inl _ \<Rightarrow> False | Inr (res, _) \<Rightarrow> p_destination (cr_signal res) = sample_node \<and> p_source (cr_signal res) = sample_host
      \<and> p_reportto (cr_signal res) = eid_none \<and> p_custodian (cr_signal res) = eid_none" by code_simp
  then obtain res custodian where r: "?r = Inr (res, custodian)" and es: "eids_sendable (cr_signal res)"
    by (auto split: sum.splits intro: sample_eids)
  show ?thesis
    using custody_signal_unread [OF blob_copy_ok_rtake _ _ r es, where w = ser_new and r = des_new and s = "[1]"
        and now = sample_time and obj = sample_object] r sample_source
    by (auto simp: ser_new_def des_new_def dict_new_def)
qed

theorem status_report_delivered_witness:
  "\<exists>b n bytes w' b' r' blk report. report_raiseEvent sample_clock (mo_sys sample_moment) sample_host sample_event 7 = (Some b, n)
      \<and> ser_bundle ser_new b = Inr (bytes, w')
      \<and> des_bundle rtake accept_validator default_factories sample_time des_new sample_object (bytes @ [1]) = Inr ((b', r'), [1])
      \<and> blocks_get PAYLOAD_BLOCK_TYPE StatusReportK (b_blocks b') = Inr blk \<and> blk_body blk = StatusReportBody report
      \<and> sr_status report = 8 \<and> sr_source report = sample_node"
proof -
  let ?r = "report_raiseEvent sample_clock (mo_sys sample_moment) sample_host sample_event 7"
  have "case fst ?r of None \<Rightarrow> False | Some b \<Rightarrow> p_destination b = sample_node \<and> p_source b = sample_host
      \<and> p_reportto b = eid_none \<and> p_custodian b = eid_none" by code_simp
  then obtain b n where r: "?r = (Some b, n)" and es: "eids_sendable b"
    by (cases ?r) (auto split: option.splits intro: sample_eids)
  have e: "be_bundle sample_event = sample_subject" "unat (be_reason sample_event) < 9"
    "be_action sample_event = BUNDLE_DELIVERED" "id_source sample_subject = sample_node"
    by (simp_all add: sample_event_def NO_ADDITIONAL_INFORMATION_def sample_subject_def)
  show ?thesis
    using status_report_delivered [OF blob_copy_ok_rtake _ _ r es e(2), where w = ser_new and r = des_new and s = "[1]"
        and now = sample_time and obj = sample_object] r sample_source e
    by (auto simp: ser_new_def des_new_def dict_new_def report_wanted_def)
qed

end
