(* ===== verification/Admission.thy ===== *)
theory Admission
  imports Reports
begin

text \<open>
  The validator of the daemon (\<open>daemon/src/core/BundleCore.cpp\<close>): which bundles the core lets
  in, and what it reports on the way.
\<close>

section \<open>The core\<close>

record core_config =
  cc_local :: eid
  cc_blocksizelimit :: u64
  cc_max_lifetime :: u64
  cc_max_timestamp_future :: u64
  cc_forwarding :: bool

definition TRANSMIT_STATUSREPORT_IF_NOT_PROCESSED :: u64 where
  "TRANSMIT_STATUSREPORT_IF_NOT_PROCESSED = bit_flag 1"

text \<open>\<open>validate(PrimaryBlock)\<close>; the comparison of the hosts can throw.\<close>

definition core_validate_primary :: "core_config \<Rightarrow> clock \<Rightarrow> timeval \<Rightarrow> 'a primary_scheme \<Rightarrow> ibr_error + unit" where
  "core_validate_primary cc c sys p =
     (case (if cc_forwarding cc then Inr True else eid_sameHost (p_destination p) (cc_local cc)) of
        Inl e \<Rightarrow> Inl e
      | Inr False \<Rightarrow> Inl RejectedException
      | Inr True \<Rightarrow>
          if 0 < cc_max_lifetime cc \<and> cc_max_lifetime cc < p_lifetime p then Inl RejectedException
          else if 0 < cc_max_timestamp_future cc \<and> \<not> clk_quality_zero c
                  \<and> clock_getTime c sys + cc_max_timestamp_future cc < p_timestamp p
          then Inl RejectedException
          else Inr ())"

definition core_validate_block :: "core_config \<Rightarrow> block \<Rightarrow> u64 \<Rightarrow> bool" where
  "core_validate_block cc b n \<longleftrightarrow> \<not> (0 < cc_blocksizelimit cc \<and> cc_blocksizelimit cc < n)"

text \<open>The loop over the blocks; a report is raised for each block that asks for it, up to the one that rejects.\<close>

fun core_check_blocks :: "meta_bundle \<Rightarrow> block list \<Rightarrow> bundle_event list \<times> bool" where
  "core_check_blocks m [] = ([], True)"
| "core_check_blocks m (b # bs) =
     (if body_kind (blk_body b) \<noteq> ExtensionK then core_check_blocks m bs
      else if block_get DELETE_BUNDLE_IF_NOT_PROCESSED b then ([], False)
      else case core_check_blocks m bs of
             (evs, ok) \<Rightarrow>
               (if block_get TRANSMIT_STATUSREPORT_IF_NOT_PROCESSED b
                then \<lparr>be_bundle = m, be_action = BUNDLE_RECEIVED, be_reason = BLOCK_UNINTELLIGIBLE\<rparr> # evs else evs,
                ok))"

definition core_validate_bundle :: "moment \<Rightarrow> dtn_bundle \<Rightarrow> bundle_event list \<times> bool" where
  "core_validate_bundle mo b =
     (if bundle_isExpired (mo_clock mo) (mo_sys mo) (mo_elapsed mo b) b then ([], False)
      else core_check_blocks (meta_at mo b) (b_blocks b))"

text \<open>The core as the validator of a deserializer.\<close>

definition core_validator :: "core_config \<Rightarrow> moment \<Rightarrow> validator" where
  "core_validator cc mo =
     \<lparr>val_primary = (\<lambda>p. core_validate_primary cc (mo_clock mo) (mo_sys mo) p = Inr ()),
      val_block = core_validate_block cc,
      val_bundle = (\<lambda>b. snd (core_validate_bundle mo b))\<rparr>"

section \<open>What is let in\<close>

lemma core_check_blocks_ok:
  "snd (core_check_blocks m bs) \<longleftrightarrow>
     list_all (\<lambda>b. body_kind (blk_body b) \<noteq> ExtensionK \<or> \<not> block_get DELETE_BUNDLE_IF_NOT_PROCESSED b) bs"
  by (induction bs) (auto split: prod.splits)

text \<open>The events of the loop when it does not reject.\<close>

lemma core_check_blocks_events:
  assumes "snd (core_check_blocks m bs)"
  shows "fst (core_check_blocks m bs) =
     replicate (length (filter (\<lambda>b. body_kind (blk_body b) = ExtensionK \<and> block_get TRANSMIT_STATUSREPORT_IF_NOT_PROCESSED b) bs))
       \<lparr>be_bundle = m, be_action = BUNDLE_RECEIVED, be_reason = BLOCK_UNINTELLIGIBLE\<rparr>"
  using assms by (induction bs) (auto split: prod.splits if_splits)

lemma core_primary_ok:
  "core_validate_primary cc c sys p = Inr () \<longleftrightarrow>
     (cc_forwarding cc \<or> eid_sameHost (p_destination p) (cc_local cc) = Inr True)
     \<and> (cc_max_lifetime cc = 0 \<or> p_lifetime p \<le> cc_max_lifetime cc)
     \<and> (cc_max_timestamp_future cc = 0 \<or> clk_quality_zero c \<or> p_timestamp p \<le> clock_getTime c sys + cc_max_timestamp_future cc)"
  by (auto simp: core_validate_primary_def not_less word_neq_0_conv split: sum.splits bool.splits)

text \<open>\<open>BLOB::copy\<close> moves the number of bytes it is asked for, or fails.\<close>

definition blob_copy_exact :: "(nat \<Rightarrow> byte list reader) \<Rightarrow> bool" where
  "blob_copy_exact copy \<longleftrightarrow> (\<forall>n s xs s'. copy n s = Inr (xs, s') \<longrightarrow> length xs = n)"

lemma blob_copy_exact_rtake: "blob_copy_exact rtake"
  by (auto simp: blob_copy_exact_def rtake_def split: if_splits)

text \<open>A payload within the limit of the block size.\<close>

definition payload_within :: "core_config \<Rightarrow> block \<Rightarrow> bool" where
  "payload_within cc b \<longleftrightarrow>
     (case blk_body b of PayloadBody d \<Rightarrow> cc_blocksizelimit cc = 0 \<or> length d \<le> unat (cc_blocksizelimit cc) | _ \<Rightarrow> True)"

lemma within_other: "body_kind (blk_body b) \<noteq> PayloadK \<Longrightarrow> payload_within cc b"
  by (cases "blk_body b") (simp_all add: payload_within_def)

lemma within_empty [simp]: "blk_body b = PayloadBody [] \<Longrightarrow> payload_within cc b"
  by (simp add: payload_within_def)

lemma within_set [simp]: "payload_within cc (block_set f v b) = payload_within cc b"
  by (simp add: payload_within_def)

lemma within_create [simp]: "payload_within cc (block_create now k)"
  by (cases k) (simp_all add: payload_within_def block_new_def)

lemma within_set_last [simp]: "list_all (payload_within cc) (blocks_set_last v bs) = list_all (payload_within cc) bs"
  by (cases bs rule: rev_cases) (simp_all add: blocks_set_last_def)

text \<open>The block a reader leaves, whether it succeeded or not.\<close>

definition block_of :: "block_result \<Rightarrow> block" where
  "block_of r = (case r of Inl (e, b, st, s) \<Rightarrow> b | Inr (b, st, s) \<Rightarrow> b)"

lemma block_of_simps [simp]: "block_of (Inl (e, b, st, s)) = b" "block_of (Inr (b, st, s)) = b"
  by (simp_all add: block_of_def)

lemma des_block_eids_body: "blk_body (block_of (des_block_eids n st b s)) = blk_body b"
  by (induction n arbitrary: st b s) (auto simp: block_addEID_def split: sum.splits prod.splits)

lemma block_deserialize_kind:
  "block_deserialize copy b n body s = Inr (b', s') \<Longrightarrow> body_kind (blk_body b') = body_kind body"
  by (cases body) (auto simp: rbind_eq_Inr block_set_def)

lemma body_left_kind [simp]: "body_kind (body_left body s) = body_kind body"
  by (cases body) (auto split: sum.splits prod.splits)

lemma get_blob_length: "blob_copy_exact copy \<Longrightarrow> get_blob copy n s = Inr (xs, s') \<Longrightarrow> length xs = n"
  by (auto simp: blob_copy_exact_def get_blob_def split: sum.splits prod.splits)

text \<open>A reader keeps the class of the block, and what it reads was checked.\<close>

definition checked :: "core_config \<Rightarrow> block \<Rightarrow> block_result \<Rightarrow> bool" where
  "checked cc b r \<longleftrightarrow> body_kind (blk_body (block_of r)) = body_kind (blk_body b)
     \<and> (payload_within cc b \<longrightarrow> payload_within cc (block_of r))"

lemma checked_body: "checked cc b r \<Longrightarrow> blk_body b = blk_body b' \<Longrightarrow> checked cc b' r"
  by (simp add: checked_def payload_within_def)

lemma des_block_body_checked:
  assumes copy: "blob_copy_exact copy" and v: "val_block v = core_validate_block cc"
  shows "checked cc b (des_block_body copy v st b s)"
proof (cases "get_sdnv s")
  case (Inr r)
  obtain n s' where r: "r = (n, s')" by (cases r)
  show ?thesis
  proof (cases "val_block v b n")
    case True
    then have limit: "cc_blocksizelimit cc = 0 \<or> unat n \<le> unat (cc_blocksizelimit cc)"
      by (auto simp: v core_validate_block_def word_less_nat_alt unat_eq_0 [symmetric] not_less)
    show ?thesis
    proof (cases "block_deserialize copy b (unat n) (blk_body b) s'")
      case (Inl e)
      then show ?thesis
        using Inr r True by (cases "blk_body b") (auto simp: des_block_body_def checked_def payload_within_def split: prod.splits sum.splits)
    next
      case I: (Inr x)
      obtain b' s2 where x: "x = (b', s2)" by (cases x)
      have kind: "body_kind (blk_body b') = body_kind (blk_body b)"
        using block_deserialize_kind I x by blast
      have "payload_within cc b'"
      proof (cases "blk_body b")
        case (PayloadBody d)
        then obtain xs where "get_blob copy (unat n) s' = Inr (xs, s2)" "blk_body b' = PayloadBody xs"
          using I x by (auto simp: rbind_eq_Inr block_set_def)
        then show ?thesis using get_blob_length [OF copy] limit by (auto simp: payload_within_def)
      qed (use kind in \<open>simp add: within_other\<close>)+
      then show ?thesis using Inr r True I x kind by (simp add: des_block_body_def checked_def)
    qed
  qed (use Inr r in \<open>simp add: des_block_body_def checked_def\<close>)
qed (auto simp: des_block_body_def checked_def)

lemma des_block_checked:
  assumes "blob_copy_exact copy" and "val_block v = core_validate_block cc"
  shows "checked cc b (des_block copy v st b s)"
proof -
  have body: "checked cc b (des_block_body copy v st2 b2 s2)" if "blk_body b2 = blk_body b" for st2 b2 s2
    using des_block_body_checked [OF assms, of b2 st2 s2] that by (rule checked_body)
  have same: "checked cc b (Inl (e, b2, st2, s2))" if "blk_body b2 = blk_body b" for e b2 st2 s2
    using that by (simp add: checked_def payload_within_def)
  have eids: "blk_body (block_of r) = blk_body b" if "des_block_eids n st (b\<lparr>blk_type := t, blk_flags := f\<rparr>) s2 = r" for n t f s2 r
    using des_block_eids_body [of n st "b\<lparr>blk_type := t, blk_flags := f\<rparr>" s2] that by simp
  show ?thesis
    unfolding des_block_def Let_def
    by (auto split: sum.split prod.split intro!: body same dest: eids)
qed

lemma des_append_within:
  assumes "blob_copy_exact copy" and "val_block v = core_validate_block cc"
    and "list_all (payload_within cc) bs" and "payload_within cc new"
    and "des_append copy v st bs new s = Inr (bs', st', l, s')"
  shows "list_all (payload_within cc) bs'"
proof -
  have "checked cc (last (blocks_push_back bs new)) (des_block copy v st (last (blocks_push_back bs new)) s)"
    by (rule des_block_checked [OF assms(1,2)])
  then show ?thesis
    using assms(3-5) by (auto simp: des_append_def blocks_push_back_def checked_def Let_def split: sum.splits prod.splits)
qed

lemma des_unknown_within:
  assumes "blob_copy_exact copy" and "val_block v = core_validate_block cc"
    and "list_all (payload_within cc) bs" and "des_unknown copy v now st bs s = Inr (bs', st', l, s')"
  shows "list_all (payload_within cc) bs'"
proof -
  obtain bs1 st1 l1 s1 where r: "des_append copy v st bs (block_create now ExtensionK) s = Inr (bs1, st1, l1, s1)"
    using assms(4) by (auto simp: des_unknown_def split: sum.splits)
  have "list_all (payload_within cc) bs1" by (rule des_append_within [OF assms(1-3) within_create r])
  moreover have "list_all (payload_within cc) (butlast bs1)"
    using calculation by (auto simp: list_all_iff dest: in_set_butlastD)
  ultimately show ?thesis using assms(4) r by (auto simp: des_unknown_def blocks_pop_def split: if_splits)
qed

lemma des_extension_within:
  assumes "blob_copy_exact copy" and "val_block v = core_validate_block cc"
    and "list_all (payload_within cc) bs" and "des_extension copy v fs now st bs t s = Inr (bs', st', l, s')"
  shows "list_all (payload_within cc) bs'"
proof (cases "factory_get fs t")
  case (Inl e)
  then show ?thesis using des_unknown_within [OF assms(1-3)] assms(4) by (simp add: des_extension_def)
next
  case (Inr k)
  let ?bs1 = "blocks_push_back bs (block_create now k)"
  have chk: "checked cc (last ?bs1) (des_block copy v st (last ?bs1) s)" by (rule des_block_checked [OF assms(1,2)])
  have last: "payload_within cc (last ?bs1)" and but: "list_all (payload_within cc) (butlast ?bs1)"
    using assms(3) by (simp_all add: blocks_push_back_def)
  then have keep: "list_all (payload_within cc) (butlast ?bs1 @ [block_of (des_block copy v st (last ?bs1) s)])"
    using chk by (simp add: checked_def)
  show ?thesis
  proof (cases "des_block copy v st (last ?bs1) s")
    case (Inr r)
    then show ?thesis using keep assms(4) \<open>factory_get fs t = Inr k\<close> by (auto simp: des_extension_def Let_def split: prod.splits)
  next
    case (Inl r)
    obtain e b st1 s1 where r: "r = (e, b, st1, s1)" by (cases r)
    then have "des_unknown copy v now st1 (butlast ?bs1 @ [b]) s1 = Inr (bs', st', l, s')"
      using assms(4) Inl \<open>factory_get fs t = Inr k\<close> by (auto simp: des_extension_def Let_def split: if_splits)
    moreover have "list_all (payload_within cc) (butlast ?bs1 @ [b])" using keep Inl r by simp
    ultimately show ?thesis using des_unknown_within [OF assms(1,2)] by blast
  qed
qed

lemma des_append_record_within:
  assumes "blob_copy_exact copy" and "list_all (payload_within cc) bs" and "k \<noteq> PayloadK"
    and "des_append copy accept_validator st bs (block_create now k) s = Inr (bs', st', l, s')"
  shows "list_all (payload_within cc) bs'"
proof -
  let ?b = "last (blocks_push_back bs (block_create now k))"
  have "val_block accept_validator = core_validate_block (cc\<lparr>cc_blocksizelimit := 0\<rparr>)"
    by (simp add: accept_validator_def core_validate_block_def fun_eq_iff)
  from des_block_checked [OF assms(1) this, of ?b st s]
  have "body_kind (blk_body (block_of (des_block copy accept_validator st ?b s))) = k"
    by (simp add: checked_def blocks_push_back_def)
  then have "payload_within cc (block_of (des_block copy accept_validator st ?b s))"
    using assms(3) by (intro within_other) simp
  then show ?thesis
    using assms(2,4) by (auto simp: des_append_def blocks_push_back_def Let_def split: sum.splits prod.splits)
qed

lemma des_admin_within:
  assumes "blob_copy_exact copy" and "list_all (payload_within cc) bs" and "des_admin copy v now st bs s = Inr (bs', st', l, s')"
  shows "list_all (payload_within cc) bs'"
proof -
  have old: "list_all (payload_within cc) (blocks_pop (butlast (blocks_push_back bs b) @ [x]))" for b x
    using assms(2) by (simp add: blocks_pop_def blocks_push_back_def)
  have rec: "list_all (payload_within cc) bs2"
    if "des_append copy accept_validator st2 (blocks_pop (blocks_set_last False bs @ [x])) (block_create now k) ss = Inr (bs2, st3, l2, s2)"
      and "k = StatusReportK \<or> k = CustodySignalK" for st2 x k ss bs2 st3 l2 s2
    using des_append_record_within [OF assms(1) _ _ that(1)] old [of "block_create now k" x] that(2)
    by (auto simp: blocks_push_back_def simp del: block_create.simps)
  show ?thesis
    using assms(3) old
    by (auto simp: des_admin_def Let_def simp del: block_create.simps intro: rec
        split: sum.splits prod.splits block_body.splits list.splits if_splits option.splits)
qed

lemma des_next_within:
  assumes "blob_copy_exact copy" and "val_block v = core_validate_block cc"
    and "list_all (payload_within cc) bs" and "des_next copy v fs now adm st bs s = Inr (bs', st', l, s')"
  shows "list_all (payload_within cc) bs'"
  using assms(4) des_admin_within [OF assms(1,3)] des_extension_within [OF assms(1-3)]
    des_append_within [OF assms(1-3) within_create]
  unfolding des_next_def by (auto simp del: block_create.simps split: list.splits if_splits)

lemma des_blocks_within:
  assumes "blob_copy_exact copy" and "val_block v = core_validate_block cc"
    and "des_blocks copy v fs now adm st bs s = Inr ((bs', st'), s')" and "list_all (payload_within cc) bs"
  shows "list_all (payload_within cc) bs'"
  using assms
proof (induction copy v fs now adm st bs s rule: des_blocks.induct)
  case (1 copy v fs now adm st bs s)
  obtain bs1 st1 l s1 where r: "des_next copy v fs now adm st bs s = Inr (bs1, st1, l, s1)"
    using "1.prems"(3) by (auto simp: des_blocks.simps [of copy v fs now adm st bs s] split: sum.splits)
  have within: "list_all (payload_within cc) bs1" by (rule des_next_within [OF "1.prems"(1,2,4) r])
  show ?case
  proof (cases l)
    case True
    then show ?thesis using "1.prems"(3) r within by (simp add: des_blocks.simps [of copy v fs now adm st bs s])
  next
    case False
    then have less: "length s1 < length s" and rest: "des_blocks copy v fs now adm st1 bs1 s1 = Inr ((bs', st'), s')"
      using "1.prems"(3) r by (simp_all add: des_blocks.simps [of copy v fs now adm st bs s] split: if_splits)
    show ?thesis
      by (rule "1.IH" [OF r refl refl refl False less "1.prems"(1,2) rest within])
  qed
qed

section \<open>Correctness\<close>

text \<open>C7: a bundle that comes through a deserializer validated by the core is not expired; it is for
  the node itself if the node does not forward; its lifetime and its timestamp are within the limits that are
  set; none of its unknown blocks asks for the deletion of the bundle; and its payload is no longer than the
  limit of the block size.\<close>

theorem core_admission:
  assumes "des_bundle copy (core_validator cc mo) fs now st obj s = Inr ((b, st'), s')" and "blob_copy_exact copy"
  shows "\<not> bundle_isExpired (mo_clock mo) (mo_sys mo) (mo_elapsed mo b) b
    \<and> (cc_forwarding cc \<or> eid_sameHost (p_destination b) (cc_local cc) = Inr True)
    \<and> (cc_max_lifetime cc = 0 \<or> p_lifetime b \<le> cc_max_lifetime cc)
    \<and> (cc_max_timestamp_future cc = 0 \<or> clk_quality_zero (mo_clock mo)
         \<or> p_timestamp b \<le> clock_getTime (mo_clock mo) (mo_sys mo) + cc_max_timestamp_future cc)
    \<and> list_all (\<lambda>x. body_kind (blk_body x) \<noteq> ExtensionK \<or> \<not> block_get DELETE_BUNDLE_IF_NOT_PROCESSED x) (b_blocks b)
    \<and> list_all (\<lambda>x. case blk_body x of
          PayloadBody d \<Rightarrow> cc_blocksizelimit cc = 0 \<or> length d \<le> unat (cc_blocksizelimit cc)
        | _ \<Rightarrow> True) (b_blocks b)"
proof -
  let ?v = "core_validator cc mo"
  obtain p st1 s1 bs st2 where p: "des_primary ?v st (primary.truncate obj) s = Inr ((p, st1), s1)"
      and bs: "des_blocks copy ?v fs now (primary_get APPDATA_IS_ADMRECORD p) st1 [] s1 = Inr ((bs, st2), s')"
      and b: "b = primary.extend p \<lparr>b_blocks = bs\<rparr>" "val_bundle ?v b"
    using assms(1) by (auto simp: des_bundle_def rbind_eq_Inr Let_def split: if_splits)
  have "val_primary ?v p"
    using p by (auto simp: des_primary_def rbind_eq_Inr Let_def split: if_splits prod.splits)
  then have "core_validate_primary cc (mo_clock mo) (mo_sys mo) b = Inr ()"
    by (simp add: core_validator_def b(1) core_primary_ok primary.extend_def)
  moreover have "snd (core_validate_bundle mo b)" using b(2) by (simp add: core_validator_def)
  moreover have "list_all (payload_within cc) (b_blocks b)"
    using des_blocks_within [OF assms(2) _ bs] b(1) by (simp add: core_validator_def primary.extend_def)
  ultimately show ?thesis
    unfolding core_primary_ok payload_within_def
    by (simp add: core_validate_bundle_def core_check_blocks_ok split: if_splits)
qed

definition sample_core :: core_config where
  "sample_core = \<lparr>cc_local = sample_host, cc_blocksizelimit = 1000, cc_max_lifetime = 7200, cc_max_timestamp_future = 60,
     cc_forwarding = True\<rparr>"

theorem core_admission_witness:
  "\<exists>b st'. des_bundle rtake (core_validator sample_core sample_moment) default_factories sample_time des_new sample_object sample_wire
        = Inr ((b, st'), [])
      \<and> \<not> bundle_isExpired (mo_clock sample_moment) (mo_sys sample_moment) (mo_elapsed sample_moment b) b \<and> p_lifetime b \<le> 7200"
proof -
  let ?r = "des_bundle rtake (core_validator sample_core sample_moment) default_factories sample_time des_new sample_object sample_wire"
  have "case ?r of Inl _ \<Rightarrow> False | Inr (_, s) \<Rightarrow> s = []" by code_simp
  then obtain b st' where r: "?r = Inr ((b, st'), [])"
    by (cases ?r) auto
  from core_admission [OF r blob_copy_exact_rtake] r show ?thesis by (auto simp: sample_core_def)
qed

end
