(* ===== verification/BundleStream.thy ===== *)
theory BundleStream
  imports Storage Reports "HOL-Library.Multiset"
begin

text \<open>
  Streams of bytes over bundles (\<open>daemon/src/api/BundleStreamBuf.cpp\<close>): the sender cuts its bytes into
  bundles with a sequence number, the receiver puts the bundles in order and reads their payload. What the buffer
  asks of its callback (\<open>put\<close>, \<open>get\<close>, \<open>delivered\<close>) are the bundles it puts out and a list of arrivals.
\<close>

section \<open>Chunks\<close>

definition STREAM_BEGIN :: u64 where "STREAM_BEGIN = bit_flag 0"

definition STREAM_END :: u64 where "STREAM_END = bit_flag 1"

record chunk =
  ck_meta :: meta_bundle
  ck_seq :: u64
  ck_first :: bool
  ck_last :: bool

definition chunk_less :: "chunk \<Rightarrow> chunk \<Rightarrow> bool" where
  "chunk_less a b \<longleftrightarrow> ck_seq a < ck_seq b"

text \<open>What the stream block of a bundle says; a bundle without one is chunk zero.\<close>

definition stream_fields :: "dtn_bundle \<Rightarrow> u64 \<times> bool \<times> bool" where
  "stream_fields b =
     (case blocks_get STREAM_BLOCK_TYPE StreamK (b_blocks b) of
        Inl _ \<Rightarrow> (0, False, False)
      | Inr blk \<Rightarrow>
          (case blk_body blk of
             StreamBody flags seq \<Rightarrow> (seq, stream_get STREAM_BEGIN flags, stream_get STREAM_END flags)
           | _ \<Rightarrow> (0, False, False)))"

definition chunk_of_bundle :: "meta_bundle \<Rightarrow> dtn_bundle \<Rightarrow> chunk" where
  "chunk_of_bundle m b =
     (case stream_fields b of (seq, first, final) \<Rightarrow> \<lparr>ck_meta = m, ck_seq = seq, ck_first = first, ck_last = final\<rparr>)"

definition chunk_of :: "mem_storage \<Rightarrow> meta_bundle \<Rightarrow> storage_error + chunk" where
  "chunk_of st m = (case ms_get m st of Inl e \<Rightarrow> Inl e | Inr b \<Rightarrow> Inr (chunk_of_bundle m b))"

definition bundle_payload :: "dtn_bundle \<Rightarrow> byte list option" where
  "bundle_payload b =
     (case blocks_get PAYLOAD_BLOCK_TYPE PayloadK (b_blocks b) of
        Inr blk \<Rightarrow> (case blk_body blk of PayloadBody d \<Rightarrow> Some d | _ \<Rightarrow> None)
      | Inl _ \<Rightarrow> None)"

section \<open>The buffer\<close>

definition BUFF_SIZE :: nat where "BUFF_SIZE = 5120"

record bundle_streambuf =
  bsb_out :: "byte list"
  bsb_chunk_size :: u64
  bsb_chunk_payload :: "byte list"
  bsb_chunks :: "chunk list"
  bsb_chunk_offset :: nat
  bsb_current :: dtn_bundle
  bsb_in_seq :: u64
  bsb_out_seq :: u64
  bsb_streaming :: bool
  bsb_first_chunk :: bool
  bsb_last_chunk_received :: bool
  bsb_timeout :: u64

text \<open>The member \<open>_current_bundle\<close> starts as a new bundle.\<close>

definition bsb_new :: "dtn_bundle \<Rightarrow> u64 \<Rightarrow> bool \<Rightarrow> bundle_streambuf" where
  "bsb_new b chunk_size wait_seq_zero =
     \<lparr>bsb_out = [], bsb_chunk_size = chunk_size, bsb_chunk_payload = [], bsb_chunks = [], bsb_chunk_offset = 0,
      bsb_current = b, bsb_in_seq = 0, bsb_out_seq = 0, bsb_streaming = wait_seq_zero, bsb_first_chunk = True,
      bsb_last_chunk_received = False, bsb_timeout = 0\<rparr>"

definition bsb_setChunkSize :: "u64 \<Rightarrow> bundle_streambuf \<Rightarrow> bundle_streambuf" where
  "bsb_setChunkSize n s = s\<lparr>bsb_chunk_size := n\<rparr>"

definition bsb_setTimeout :: "u64 \<Rightarrow> bundle_streambuf \<Rightarrow> bundle_streambuf" where
  "bsb_setTimeout n s = s\<lparr>bsb_timeout := n\<rparr>"

section \<open>Sending\<close>

text \<open>\<open>BlockList::push_front\<close> on the blocks themselves.\<close>

definition blocks_push_front :: "block list \<Rightarrow> block \<Rightarrow> block list" where
  "blocks_push_front bs b = (if bs = [] then [block_set LAST_BLOCK True b] else b # bs)"

text \<open>
  A sender is the buffer, the counter of the sequence numbers of new bundles, and the bundles handed to \<open>put\<close>.
\<close>

record stream_sender =
  sn_buf :: bundle_streambuf
  sn_seqno :: u64
  sn_put :: "dtn_bundle list"

definition stream_block :: "u64 \<Rightarrow> bool \<Rightarrow> bool \<Rightarrow> block" where
  "stream_block seq first final =
     stream_new\<lparr>blk_body := StreamBody (stream_set STREAM_BEGIN first (if final then stream_set STREAM_END True 0 else 0)) seq\<rparr>"

definition bsb_flushPayload :: "clock \<Rightarrow> timeval \<Rightarrow> bool \<Rightarrow> stream_sender \<Rightarrow> stream_sender" where
  "bsb_flushPayload c sys final sn =
     (let s = sn_buf sn
      in if bsb_first_chunk s \<and> bsb_chunk_payload s = [] then sn
         else
           let (b0, seqno) = bundle_new c sys (sn_seqno sn);
               b1 = b0\<lparr>b_blocks := blocks_push_front (b_blocks b0) (stream_block (bsb_out_seq s) (bsb_first_chunk s) final)\<rparr>;
               b2 = b1\<lparr>b_blocks := blocks_push_back (b_blocks b1) (block_new PAYLOAD_BLOCK_TYPE (PayloadBody (bsb_chunk_payload s)))\<rparr>
           in \<lparr>sn_buf = s\<lparr>bsb_first_chunk := False, bsb_chunk_payload := [], bsb_out_seq := bsb_out_seq s + 1\<rparr>,
               sn_seqno = seqno, sn_put = sn_put sn @ [b2]\<rparr>)"

text \<open>\<open>overflow\<close>; \<open>None\<close> is \<open>eof()\<close>.\<close>

definition bsb_overflow :: "clock \<Rightarrow> timeval \<Rightarrow> byte option \<Rightarrow> stream_sender \<Rightarrow> stream_sender" where
  "bsb_overflow c sys ch sn =
     (let s = sn_buf sn; data = bsb_out s @ (case ch of None \<Rightarrow> [] | Some x \<Rightarrow> [x]); s1 = s\<lparr>bsb_out := []\<rparr>
      in if data = [] then sn\<lparr>sn_buf := s1\<rparr>
         else
           let s2 = s1\<lparr>bsb_chunk_payload := bsb_chunk_payload s1 @ data\<rparr>; sn2 = sn\<lparr>sn_buf := s2\<rparr>
           in if word_of_nat (length (bsb_chunk_payload s2)) > bsb_chunk_size s2 then bsb_flushPayload c sys False sn2 else sn2)"

definition bsb_sync :: "clock \<Rightarrow> timeval \<Rightarrow> stream_sender \<Rightarrow> stream_sender" where
  "bsb_sync c sys sn = bsb_flushPayload c sys True (bsb_overflow c sys None sn)"

text \<open>\<open>std::streambuf::sputc\<close>: a character goes into the buffer while there is room.\<close>

definition bsb_sputc :: "clock \<Rightarrow> timeval \<Rightarrow> byte \<Rightarrow> stream_sender \<Rightarrow> stream_sender" where
  "bsb_sputc c sys x sn =
     (if length (bsb_out (sn_buf sn)) < BUFF_SIZE - 1 then sn\<lparr>sn_buf := (sn_buf sn)\<lparr>bsb_out := bsb_out (sn_buf sn) @ [x]\<rparr>\<rparr>
      else bsb_overflow c sys (Some x) sn)"

fun bsb_sputn :: "clock \<Rightarrow> timeval \<Rightarrow> byte list \<Rightarrow> stream_sender \<Rightarrow> stream_sender" where
  "bsb_sputn c sys [] sn = sn"
| "bsb_sputn c sys (x # xs) sn = bsb_sputn c sys xs (bsb_sputc c sys x sn)"

section \<open>Receiving\<close>

text \<open>
  An arrival is what one call of \<open>get\<close> brings, a bundle or an exception, and the seconds since the reading
  began. A reading that finds no more arrivals is blocked.
\<close>

type_synonym arrival = "meta_bundle option \<times> u64"

datatype stream_reading = Read "byte list" | Eof | Threw | Blocked

text \<open>The first loop: until there is a chunk.\<close>

fun bsb_first :: "mem_storage \<Rightarrow> arrival list \<Rightarrow> bundle_streambuf \<Rightarrow> stream_reading option \<times> arrival list \<times> bundle_streambuf" where
  "bsb_first st as s =
     (if bsb_chunks s \<noteq> [] then (None, as, s)
      else case as of
             [] \<Rightarrow> (Some Blocked, [], s)
           | (None, _) # as' \<Rightarrow> (Some Threw, as', s)
           | (Some m, _) # as' \<Rightarrow>
               (case chunk_of st m of
                  Inl _ \<Rightarrow> (Some Threw, as', s)
                | Inr c \<Rightarrow>
                    bsb_first st as' (if ck_seq c \<ge> bsb_in_seq s
                                      then s\<lparr>bsb_chunks := oset_insert chunk_less c (bsb_chunks s)\<rparr> else s)))"

declare bsb_first.simps [simp del]

definition bsb_accept :: "mem_storage \<Rightarrow> meta_bundle option \<Rightarrow> bundle_streambuf \<Rightarrow> bundle_streambuf" where
  "bsb_accept st a s =
     (case a of
        None \<Rightarrow> s
      | Some m \<Rightarrow>
          (case chunk_of st m of
             Inl _ \<Rightarrow> s
           | Inr c \<Rightarrow> if ck_seq c \<ge> bsb_in_seq s then s\<lparr>bsb_chunks := oset_insert chunk_less c (bsb_chunks s)\<rparr> else s))"

definition bsb_skip :: "u64 \<Rightarrow> bundle_streambuf \<Rightarrow> bundle_streambuf" where
  "bsb_skip seconds s =
     (if bsb_timeout s > 0 \<and> seconds > bsb_timeout s \<or> \<not> bsb_streaming s
      then s\<lparr>bsb_in_seq := ck_seq (hd (bsb_chunks s)), bsb_streaming := True\<rparr> else s)"

text \<open>The second loop: until the chunk that is next in order is there, or the missing ones are skipped.\<close>

fun bsb_order :: "mem_storage \<Rightarrow> arrival list \<Rightarrow> bundle_streambuf \<Rightarrow> stream_reading option \<times> arrival list \<times> bundle_streambuf" where
  "bsb_order st as s =
     (if bsb_in_seq s = ck_seq (hd (bsb_chunks s)) then (None, as, s)
      else case as of
             [] \<Rightarrow> (Some Blocked, [], s)
           | (a, seconds) # as' \<Rightarrow> bsb_order st as' (bsb_skip seconds (bsb_accept st a s)))"

declare bsb_order.simps [simp del]

text \<open>Loading the bundle of the first chunk, unless it is the current one; \<open>process\<close> is \<open>BundleCore::processBlocks\<close>.\<close>

definition bsb_load :: "(dtn_bundle \<Rightarrow> dtn_bundle) \<Rightarrow> mem_storage \<Rightarrow> bundle_streambuf \<Rightarrow> bundle_streambuf option" where
  "bsb_load process st s =
     (let m = ck_meta (hd (bsb_chunks s))
      in if bid_eq m (bid_of_bundle (bsb_current s)) then Some s
         else case ms_get m st of Inl _ \<Rightarrow> None | Inr b \<Rightarrow> Some (s\<lparr>bsb_current := process b\<rparr>))"

text \<open>\<open>Registration::delivered\<close>: a bundle for a single node is removed.\<close>

definition rg_delivered :: "moment \<Rightarrow> meta_bundle \<Rightarrow> mem_storage \<Rightarrow> storage_error + mem_storage" where
  "rg_delivered mo m st = (if meta_get DESTINATION_IS_SINGLETON m then ms_remove mo m st else Inr st)"

lemma oset_insert_chunks: "length (oset_insert chunk_less c cs) \<le> Suc (length cs) \<and> oset_insert chunk_less c cs \<noteq> []"
  using oset_insert_length_le [of chunk_less c cs] by (cases cs) auto

lemma bsb_first_length:
  "bsb_first st as s = (r, as', s') \<Longrightarrow>
     length as' + length (bsb_chunks s') \<le> length as + length (bsb_chunks s) \<and> (r = None \<longrightarrow> bsb_chunks s' \<noteq> [])"
proof (induction st as s rule: bsb_first.induct)
  case (1 st as s)
  show ?case
  proof (cases "bsb_chunks s = [] \<and> as \<noteq> []")
    case False
    then show ?thesis using "1.prems" by (subst (asm) bsb_first.simps) (auto split: if_splits list.splits)
  next
    case True
    then obtain a t as1 where as: "as = (a, t) # as1" by (cases as) auto
    show ?thesis
    proof (cases a)
      case None
      then show ?thesis using "1.prems" True as by (subst (asm) bsb_first.simps) auto
    next
      case (Some m)
      then show ?thesis
      proof (cases "chunk_of st m")
        case (Inl e)
        then show ?thesis using "1.prems" True as Some by (subst (asm) bsb_first.simps) auto
      next
        case (Inr c)
        let ?s = "if ck_seq c \<ge> bsb_in_seq s then s\<lparr>bsb_chunks := oset_insert chunk_less c (bsb_chunks s)\<rparr> else s"
        have "bsb_first st as1 ?s = (r, as', s')"
          using "1.prems" True as Some Inr by (subst (asm) bsb_first.simps) simp
        then have "length as' + length (bsb_chunks s') \<le> length as1 + length (bsb_chunks ?s) \<and> (r = None \<longrightarrow> bsb_chunks s' \<noteq> [])"
          using "1.IH" [of "(a, t)" as1 a t m c] True as Some Inr by blast
        moreover have "length (bsb_chunks ?s) \<le> Suc (length (bsb_chunks s))"
          using oset_insert_chunks [of c "bsb_chunks s"] by simp
        ultimately show ?thesis using as by simp
      qed
    qed
  qed
qed

lemma bsb_accept_length:
  "length (bsb_chunks (bsb_skip t (bsb_accept st a s))) \<le> Suc (length (bsb_chunks s))
    \<and> (bsb_chunks s \<noteq> [] \<longrightarrow> bsb_chunks (bsb_skip t (bsb_accept st a s)) \<noteq> [])"
  using oset_insert_chunks by (auto simp: bsb_accept_def bsb_skip_def split: option.splits sum.splits)

lemma bsb_order_length:
  "bsb_order st as s = (r, as', s') \<Longrightarrow> bsb_chunks s \<noteq> [] \<Longrightarrow>
     length as' + length (bsb_chunks s') \<le> length as + length (bsb_chunks s) \<and> bsb_chunks s' \<noteq> []"
proof (induction as arbitrary: s)
  case Nil
  then show ?case by (subst (asm) bsb_order.simps) (auto split: if_splits)
next
  case (Cons x as)
  obtain a t where x: "x = (a, t)" by (cases x)
  show ?case
  proof (cases "bsb_in_seq s = ck_seq (hd (bsb_chunks s))")
    case True
    then show ?thesis using Cons.prems by (subst (asm) bsb_order.simps) auto
  next
    case False
    then have "bsb_order st as (bsb_skip t (bsb_accept st a s)) = (r, as', s')"
      using Cons.prems(1) x by (subst (asm) bsb_order.simps) simp
    then show ?thesis using Cons.IH Cons.prems(2) bsb_accept_length [of t st a s] by fastforce
  qed
qed

text \<open>
  \<open>underflow\<close>. The result is the new content of the get area, the deliveries announced, and the storage. It calls
  itself when a chunk is used up to its end; each such call has consumed a chunk or an arrival.
\<close>

definition bsb_consume :: "bundle_streambuf \<Rightarrow> bundle_streambuf" where
  "bsb_consume s =
     s\<lparr>bsb_chunks := oset_erase chunk_less (hd (bsb_chunks s)) (bsb_chunks s), bsb_chunk_offset := 0, bsb_in_seq := bsb_in_seq s + 1\<rparr>"

type_synonym underflow_result = "stream_reading \<times> meta_bundle list \<times> mem_storage \<times> arrival list \<times> bundle_streambuf"

function bsb_underflow :: "(dtn_bundle \<Rightarrow> dtn_bundle) \<Rightarrow> moment \<Rightarrow> mem_storage \<Rightarrow> arrival list \<Rightarrow> bundle_streambuf \<Rightarrow> underflow_result" where
  "bsb_underflow process mo st as s =
     (if bsb_last_chunk_received s then (Eof, [], st, as, s)
      else case bsb_first st as s of
             (Some r, as1, s1) \<Rightarrow> (r, [], st, as1, s1)
           | (None, as1, s1) \<Rightarrow>
      (case bsb_order st as1 s1 of
             (Some r, as2, s2) \<Rightarrow> (r, [], st, as2, s2)
           | (None, as2, s2) \<Rightarrow>
      (case bsb_load process st s2 of
             None \<Rightarrow> (Threw, [], st, as2, s2)
           | Some s3 \<Rightarrow>
      (case bundle_payload (bsb_current s3) of
             None \<Rightarrow> (Threw, [], st, as2, s3)
           | Some payload \<Rightarrow>
               let rest = drop (bsb_chunk_offset s3) payload; bytes = take BUFF_SIZE rest; c = hd (bsb_chunks s3)
               in if length rest < BUFF_SIZE then
                    let s4 = (if ck_last c then s3\<lparr>bsb_last_chunk_received := True\<rparr> else s3)
                    in case rg_delivered mo (ck_meta c) st of
                         Inl _ \<Rightarrow> (Threw, [ck_meta c], st, as2, s4)
                       | Inr st' \<Rightarrow>
                           if bytes = [] then
                             (case bsb_underflow process mo st' as2 (bsb_consume s4) of
                                (r, ms, st'', as', s') \<Rightarrow> (r, ck_meta c # ms, st'', as', s'))
                           else (Read bytes, [ck_meta c], st', as2, bsb_consume s4)
                  else (Read bytes, [], st, as2, s3\<lparr>bsb_chunk_offset := bsb_chunk_offset s3 + length bytes\<rparr>)))))"
  by pat_completeness auto

lemma bsb_load_chunks: "bsb_load process st s = Some s' \<Longrightarrow> bsb_chunks s' = bsb_chunks s"
  by (auto simp: bsb_load_def Let_def split: if_splits sum.splits)

lemma bsb_consume_length: "bsb_chunks s \<noteq> [] \<Longrightarrow> Suc (length (bsb_chunks (bsb_consume s))) = length (bsb_chunks s)"
  by (cases "bsb_chunks s") (simp_all add: bsb_consume_def chunk_less_def)

termination bsb_underflow
proof (relation "measure (\<lambda>(process, mo, st, as, s). length as + length (bsb_chunks s))", goal_cases)
  case (2 process mo st as s x y as1 s1 xb yb as2 s2 s3 payload rest bytes c s4 st')
  have "bsb_first st as s = (None, as1, s1)" "bsb_order st as1 s1 = (None, as2, s2)" using 2(2-7) by simp_all
  with bsb_first_length [of st as s None as1 s1] bsb_order_length [of st as1 s1 None as2 s2] bsb_load_chunks [OF 2(8)]
  have "length as2 + length (bsb_chunks s3) \<le> length as + length (bsb_chunks s)" "bsb_chunks s3 \<noteq> []" by auto
  then show ?case
    using bsb_consume_length [of s3] bsb_consume_length [of "s3\<lparr>bsb_last_chunk_received := True\<rparr>"] 2(14) by auto
qed simp

declare bsb_underflow.simps [simp del]

section \<open>What the sender puts out\<close>

text \<open>The bundles put out so far and their payloads.\<close>

definition sender_inv :: "byte list list \<Rightarrow> byte list \<Rightarrow> stream_sender \<Rightarrow> bool" where
  "sender_inv D data sn \<longleftrightarrow>
     length (sn_put sn) = length D
     \<and> (\<forall>i < length D. stream_fields (sn_put sn ! i) = (word_of_nat i, i = 0, False) \<and> bundle_payload (sn_put sn ! i) = Some (D ! i))
     \<and> concat D @ bsb_chunk_payload (sn_buf sn) @ bsb_out (sn_buf sn) = data
     \<and> bsb_out_seq (sn_buf sn) = word_of_nat (length D) \<and> bsb_first_chunk (sn_buf sn) = (D = [])"

text \<open>The bundles of a whole stream.\<close>

definition stream_of :: "dtn_bundle list \<Rightarrow> byte list list \<Rightarrow> bool" where
  "stream_of bs D \<longleftrightarrow> length bs = length D
     \<and> (\<forall>i < length D. stream_fields (bs ! i) = (word_of_nat i, i = 0, Suc i = length D) \<and> bundle_payload (bs ! i) = Some (D ! i))"

lemma stream_flags:
  "stream_get STREAM_BEGIN (stream_set STREAM_BEGIN first (if final then stream_set STREAM_END True 0 else 0)) = first"
  "stream_get STREAM_END (stream_set STREAM_BEGIN first (if final then stream_set STREAM_END True 0 else 0)) = final"
proof -
  have "\<not> get_flag f 0" for f by (simp add: get_flag_def)
  then show "stream_get STREAM_BEGIN (stream_set STREAM_BEGIN first (if final then stream_set STREAM_END True 0 else 0)) = first"
    and "stream_get STREAM_END (stream_set STREAM_BEGIN first (if final then stream_set STREAM_END True 0 else 0)) = final"
    by (auto simp: stream_get_def stream_set_def STREAM_BEGIN_def STREAM_END_def get_set_flag)
qed

lemma new_chunk:
  fixes b :: dtn_bundle
  assumes "b_blocks b = [] \<or> (\<exists>a. b_blocks b = [a] \<and> blk_type a = AGE_BLOCK_TYPE)"
    and "b' = b\<lparr>b_blocks := blocks_push_back (blocks_push_front (b_blocks b) (stream_block seq first final))
                 (block_new PAYLOAD_BLOCK_TYPE (PayloadBody data))\<rparr>"
  shows "stream_fields b' = (seq, first, final) \<and> bundle_payload b' = Some data"
  using assms
  by (auto simp: stream_fields_def bundle_payload_def blocks_push_back_def blocks_push_front_def blocks_set_last_def
      stream_block_def block_new_def block_set_def STREAM_BLOCK_TYPE_def PAYLOAD_BLOCK_TYPE_def AGE_BLOCK_TYPE_def stream_flags)

lemma bundle_new_blocks:
  "b_blocks (fst (bundle_new c sys n)) = []
    \<or> (\<exists>a. b_blocks (fst (bundle_new c sys n)) = [a] \<and> blk_type a = AGE_BLOCK_TYPE)"
  by (auto simp: bundle_new_def primary.extend_def blocks_push_back_def blocks_set_last_def block_set_def block_new_def
      split: prod.splits)

lemma flush_sends:
  fixes c :: clock and sys :: timeval and final :: bool
  assumes "sender_inv D data sn" and "bsb_out (sn_buf sn) = []" and "D \<noteq> [] \<or> bsb_chunk_payload (sn_buf sn) \<noteq> []"
  defines "sn' \<equiv> bsb_flushPayload c sys final sn" and "p \<equiv> bsb_chunk_payload (sn_buf sn)"
  shows "length (sn_put sn') = Suc (length D)
    \<and> (\<forall>i < Suc (length D). stream_fields (sn_put sn' ! i) = (word_of_nat i, i = 0, i = length D \<and> final)
          \<and> bundle_payload (sn_put sn' ! i) = Some ((D @ [p]) ! i))
    \<and> concat (D @ [p]) = data \<and> bsb_chunk_payload (sn_buf sn') = [] \<and> bsb_out (sn_buf sn') = []
    \<and> bsb_out_seq (sn_buf sn') = word_of_nat (Suc (length D)) \<and> \<not> bsb_first_chunk (sn_buf sn')"
proof -
  obtain b0 seqno where b0: "bundle_new c sys (sn_seqno sn) = (b0, seqno)" by fastforce
  define b2 where "b2 = b0\<lparr>b_blocks := blocks_push_back (blocks_push_front (b_blocks b0)
      (stream_block (bsb_out_seq (sn_buf sn)) (bsb_first_chunk (sn_buf sn)) final)) (block_new PAYLOAD_BLOCK_TYPE (PayloadBody p))\<rparr>"
  have "b_blocks b0 = [] \<or> (\<exists>a. b_blocks b0 = [a] \<and> blk_type a = AGE_BLOCK_TYPE)"
    using bundle_new_blocks [of c sys "sn_seqno sn"] b0 by simp
  then have b2: "stream_fields b2 = (word_of_nat (length D), D = [], final) \<and> bundle_payload b2 = Some p"
    using new_chunk [OF _ b2_def] assms(1) by (simp add: sender_inv_def)
  have "sn' = \<lparr>sn_buf = (sn_buf sn)\<lparr>bsb_first_chunk := False, bsb_chunk_payload := [], bsb_out_seq := bsb_out_seq (sn_buf sn) + 1\<rparr>,
      sn_seqno = seqno, sn_put = sn_put sn @ [b2]\<rparr>"
    using assms(1,3) b0 unfolding sn'_def bsb_flushPayload_def b2_def p_def by (auto simp: sender_inv_def Let_def)
  then show ?thesis
    using assms(1,2) b2 by (auto simp: sender_inv_def p_def nth_append less_Suc_eq)
qed

lemma flush_inv:
  assumes "sender_inv D data sn" and "bsb_out (sn_buf sn) = []"
  shows "\<exists>D'. sender_inv D' data (bsb_flushPayload c sys False sn)"
proof (cases "D = [] \<and> bsb_chunk_payload (sn_buf sn) = []")
  case True
  then have "bsb_flushPayload c sys False sn = sn" using assms(1) by (simp add: sender_inv_def bsb_flushPayload_def)
  then show ?thesis using assms(1) by auto
next
  case False
  then have "sender_inv (D @ [bsb_chunk_payload (sn_buf sn)]) data (bsb_flushPayload c sys False sn)"
    using flush_sends [OF assms, of c sys False] by (auto simp: sender_inv_def)
  then show ?thesis by blast
qed

lemma overflow_inv:
  assumes "sender_inv D data sn"
  shows "\<exists>D'. sender_inv D' (data @ (case ch of None \<Rightarrow> [] | Some x \<Rightarrow> [x])) (bsb_overflow c sys ch sn)
    \<and> bsb_out (sn_buf (bsb_overflow c sys ch sn)) = []"
proof -
  let ?new = "case ch of None \<Rightarrow> [] | Some x \<Rightarrow> [x]"
  let ?s = "(sn_buf sn)\<lparr>bsb_out := [], bsb_chunk_payload := bsb_chunk_payload (sn_buf sn) @ bsb_out (sn_buf sn) @ ?new\<rparr>"
  let ?sn = "sn\<lparr>sn_buf := ?s\<rparr>"
  have inv: "sender_inv D (data @ ?new) ?sn" using assms by (simp add: sender_inv_def)
  have out: "bsb_out (sn_buf (bsb_flushPayload c sys f ?sn)) = []" for f
    by (simp add: bsb_flushPayload_def Let_def split: prod.splits)
  show ?thesis
  proof (cases "bsb_out (sn_buf sn) @ ?new = []")
    case True
    then show ?thesis using assms by (auto simp: bsb_overflow_def sender_inv_def Let_def)
  next
    case False
    then have "bsb_overflow c sys ch sn = bsb_flushPayload c sys False ?sn \<or> bsb_overflow c sys ch sn = ?sn"
      by (simp add: bsb_overflow_def Let_def)
    then show ?thesis using inv flush_inv [OF inv, of c sys] out [of False] by fastforce
  qed
qed

lemma sputn_inv:
  "sender_inv D data sn \<Longrightarrow> \<exists>D'. sender_inv D' (data @ xs) (bsb_sputn c sys xs sn)"
proof (induction xs arbitrary: D data sn)
  case (Cons x xs)
  have "\<exists>D'. sender_inv D' (data @ [x]) (bsb_sputc c sys x sn)"
    using Cons.prems overflow_inv [OF Cons.prems, of "Some x" c sys]
    by (auto simp: bsb_sputc_def sender_inv_def)
  then show ?case using Cons.IH by fastforce
qed auto

text \<open>All the bytes of a stream: written, and flushed at its end.\<close>

definition send_stream :: "clock \<Rightarrow> timeval \<Rightarrow> byte list \<Rightarrow> stream_sender \<Rightarrow> dtn_bundle list" where
  "send_stream c sys data sn = sn_put (bsb_sync c sys (bsb_sputn c sys data sn))"

definition sender_new :: "dtn_bundle \<Rightarrow> u64 \<Rightarrow> u64 \<Rightarrow> stream_sender" where
  "sender_new b chunk_size seqno = \<lparr>sn_buf = bsb_new b chunk_size False, sn_seqno = seqno, sn_put = []\<rparr>"

lemma send_stream_pieces:
  assumes "data \<noteq> []"
  shows "\<exists>D. stream_of (send_stream c sys data (sender_new b chunk_size seqno)) D \<and> concat D = data \<and> D \<noteq> []"
proof -
  let ?sn = "bsb_sputn c sys data (sender_new b chunk_size seqno)"
  have "sender_inv [] [] (sender_new b chunk_size seqno)" by (simp add: sender_inv_def sender_new_def bsb_new_def)
  from sputn_inv [OF this, of data c sys] obtain D where "sender_inv D data ?sn" by auto
  from overflow_inv [OF this, of None c sys] obtain D where
    D: "sender_inv D data (bsb_overflow c sys None ?sn)" "bsb_out (sn_buf (bsb_overflow c sys None ?sn)) = []" by auto
  let ?p = "bsb_chunk_payload (sn_buf (bsb_overflow c sys None ?sn))"
  have "D \<noteq> [] \<or> ?p \<noteq> []" using D assms by (auto simp: sender_inv_def)
  from flush_sends [OF D this, of c sys True] have "stream_of (send_stream c sys data (sender_new b chunk_size seqno)) (D @ [?p])
      \<and> concat (D @ [?p]) = data"
    by (simp add: stream_of_def send_stream_def bsb_sync_def)
  then show ?thesis by blast
qed

section \<open>What the receiver reads\<close>

text \<open>The stream as the bytes a reader gets until something else than bytes comes; \<open>None\<close> is a reader that never ends.\<close>

partial_function (option) bsb_drain ::
  "(dtn_bundle \<Rightarrow> dtn_bundle) \<Rightarrow> moment \<Rightarrow> mem_storage \<Rightarrow> arrival list \<Rightarrow> bundle_streambuf \<Rightarrow> (byte list \<times> stream_reading \<times> meta_bundle list) option" where
  "bsb_drain process mo st as s =
     (case bsb_underflow process mo st as s of
        (r, ms, st', as', s') \<Rightarrow>
          (case r of
             Read bytes \<Rightarrow>
               Option.bind (bsb_drain process mo st' as' s') (\<lambda>(rest, r', ms'). Some (bytes @ rest, r', ms @ ms'))
           | _ \<Rightarrow> Some ([], r, ms)))"

text \<open>The bundles of a stream at the receiver: \<open>ms\<close> are their meta data, \<open>rs\<close> the bundles, \<open>D\<close> their payloads.\<close>

definition stream_chunk :: "meta_bundle list \<Rightarrow> nat \<Rightarrow> chunk" where
  "stream_chunk ms i = \<lparr>ck_meta = ms ! i, ck_seq = word_of_nat i, ck_first = (i = 0), ck_last = (Suc i = length ms)\<rparr>"

definition stream_arrivals :: "meta_bundle list \<Rightarrow> (nat \<times> u64) list \<Rightarrow> arrival list" where
  "stream_arrivals ms J = map (\<lambda>(i, t). (Some (ms ! i), t)) J"

definition stream_stored :: "mem_storage \<Rightarrow> meta_bundle list \<Rightarrow> dtn_bundle list \<Rightarrow> nat \<Rightarrow> bool" where
  "stream_stored st ms rs k \<longleftrightarrow> (\<forall>i < length ms. k \<le> i \<longrightarrow> ms_get (ms ! i) st = Inr (rs ! i))"

definition stream_apart :: "meta_bundle list \<Rightarrow> dtn_bundle list \<Rightarrow> bool" where
  "stream_apart ms rs \<longleftrightarrow> (\<forall>i < length ms. \<forall>j < length ms. i \<noteq> j \<longrightarrow> \<not> bid_eq (ms ! i) (bid_of_bundle (rs ! j)))"

text \<open>The processing of the blocks leaves the bundles of the stream as they are.\<close>

definition stream_plain :: "(dtn_bundle \<Rightarrow> dtn_bundle) \<Rightarrow> dtn_bundle list \<Rightarrow> bool" where
  "stream_plain process rs \<longleftrightarrow>
     list_all (\<lambda>r. bid_of_bundle (process r) = bid_of_bundle r \<and> bundle_payload (process r) = bundle_payload r) rs"

definition stream_ok :: "(dtn_bundle \<Rightarrow> dtn_bundle) \<Rightarrow> meta_bundle list \<Rightarrow> dtn_bundle list \<Rightarrow> byte list list \<Rightarrow> bool" where
  "stream_ok process ms rs D \<longleftrightarrow> length ms = length D \<and> length D < 2 ^ 64 \<and> stream_of rs D \<and> stream_apart ms rs \<and> stream_plain process rs"

text \<open>
  The arrivals a reader that does not wait for the beginning gets over: they come in order from chunk \<open>k\<close> on, or up to some
  chunk that is overtaken by one other and comes directly behind it. From then on the reader waits for the missing ones.
\<close>

fun settles :: "nat \<Rightarrow> nat list \<Rightarrow> bool" where
  "settles k [] = True"
| "settles k (i # l) = (if i = k then settles (Suc k) l else l \<noteq> [] \<and> hd l = k)"

text \<open>The receiver before chunk \<open>k\<close>: it holds the chunks \<open>I\<close>, and \<open>J\<close> are still to arrive.\<close>

definition receiver_inv ::
  "meta_bundle list \<Rightarrow> dtn_bundle list \<Rightarrow> byte list list \<Rightarrow> nat \<Rightarrow> mem_storage \<Rightarrow> nat list \<Rightarrow> (nat \<times> u64) list \<Rightarrow> bundle_streambuf \<Rightarrow> bool" where
  "receiver_inv ms rs D k st I J s \<longleftrightarrow>
     k \<le> length D \<and> bsb_in_seq s = word_of_nat k \<and> bsb_timeout s = 0
     \<and> (bsb_streaming s \<or> length I \<le> 1 \<and> settles k (I @ map fst J))
     \<and> bsb_last_chunk_received s = (k = length D)
     \<and> bsb_chunks s = map (stream_chunk ms) I \<and> sorted_wrt (<) I \<and> distinct (map fst J)
     \<and> set I \<inter> fst ` set J = {} \<and> set I \<union> fst ` set J = {k..<length D}
     \<and> stream_stored st ms rs k
     \<and> bsb_chunk_offset s \<le> (if k < length D then length (D ! k) else 0)
     \<and> (\<forall>i < length D. k \<le> i \<longrightarrow> bid_eq (ms ! i) (bid_of_bundle (bsb_current s)) \<longrightarrow> bundle_payload (bsb_current s) = Some (D ! i))"

lemma stream_chunk_of:
  assumes "stream_ok process ms rs D" and "stream_stored st ms rs k" and "k \<le> i" and "i < length D"
  shows "chunk_of st (ms ! i) = Inr (stream_chunk ms i)"
  using assms by (simp add: stream_ok_def stream_stored_def stream_of_def chunk_of_def chunk_of_bundle_def stream_chunk_def)

lemma stream_chunk_less:
  "i < 2 ^ 64 \<Longrightarrow> j < 2 ^ 64 \<Longrightarrow> chunk_less (stream_chunk ms i) (stream_chunk ms j) = (i < j)"
  by (simp add: chunk_less_def stream_chunk_def word_less_nat_alt unsigned_of_nat take_bit_nat_eq_self)

lemma insert_stream_chunk:
  assumes "i \<notin> set I" and "i < 2 ^ 64" and "\<forall>j \<in> set I. j < 2 ^ 64"
  shows "oset_insert chunk_less (stream_chunk ms i) (map (stream_chunk ms) I) = map (stream_chunk ms) (insort i I)"
  using assms by (induction I) (auto simp: stream_chunk_less)

text \<open>An arrival is accepted.\<close>

lemma receiver_accept:
  assumes ok: "stream_ok process ms rs D" and inv: "receiver_inv ms rs D k st I ((i, t) # J) s"
    and room: "bsb_streaming s \<or> I = []"
  defines "s' \<equiv> s\<lparr>bsb_chunks := oset_insert chunk_less (stream_chunk ms i) (bsb_chunks s)\<rparr>"
  shows "receiver_inv ms rs D k st (insort i I) J s'" and "bsb_in_seq s \<le> ck_seq (stream_chunk ms i)"
    and "chunk_of st (ms ! i) = Inr (stream_chunk ms i)"
proof -
  have U: "set I \<union> fst ` set ((i, t) # J) = {k..<length D}" using inv by (simp add: receiver_inv_def)
  have "i \<in> set I \<union> fst ` set ((i, t) # J)" by simp
  then have i: "k \<le> i" "i < length D" unfolding U by simp_all
  have "i \<notin> set I" using inv by (auto simp: receiver_inv_def)
  note i = i this
  have n: "length D < 2 ^ 64" using ok by (simp add: stream_ok_def)
  have I: "\<forall>j \<in> set I. j < 2 ^ 64" using inv n by (fastforce simp: receiver_inv_def)
  have "bsb_chunks s' = map (stream_chunk ms) (insort i I)"
    using inv insert_stream_chunk [OF i(3) _ I, of ms] i(2) n by (simp add: s'_def receiver_inv_def)
  moreover have "sorted_wrt (<) (insort i I)"
    using inv i(3) sorted_insort [of i I] by (auto simp: receiver_inv_def strict_sorted_iff distinct_insort)
  ultimately show "receiver_inv ms rs D k st (insort i I) J s'"
    using inv room by (auto simp: receiver_inv_def s'_def set_insort_key)
  show "bsb_in_seq s \<le> ck_seq (stream_chunk ms i)"
    using inv i n by (simp add: receiver_inv_def stream_chunk_def word_le_nat_alt unsigned_of_nat take_bit_nat_eq_self)
  show "chunk_of st (ms ! i) = Inr (stream_chunk ms i)"
    using stream_chunk_of [OF ok _ i(1,2)] inv by (simp add: receiver_inv_def)
qed

lemma receiver_first:
  assumes ok: "stream_ok process ms rs D" and inv: "receiver_inv ms rs D k st I J s" and k: "k < length D"
  shows "\<exists>I' J' s'. bsb_first st (stream_arrivals ms J) s = (None, stream_arrivals ms J', s')
    \<and> receiver_inv ms rs D k st I' J' s' \<and> I' \<noteq> [] \<and> bsb_chunk_offset s' = bsb_chunk_offset s"
proof (cases "I = []")
  case False
  then have "bsb_first st (stream_arrivals ms J) s = (None, stream_arrivals ms J, s)"
    using inv by (subst bsb_first.simps) (simp add: receiver_inv_def)
  then show ?thesis using inv False by blast
next
  case True
  have "J \<noteq> []"
  proof
    assume "J = []"
    then have "{k..<length D} = {}" using inv True by (simp add: receiver_inv_def)
    then show False using k by simp
  qed
  then obtain i t J' where J: "J = (i, t) # J'" by (cases J) auto
  let ?s = "s\<lparr>bsb_chunks := oset_insert chunk_less (stream_chunk ms i) (bsb_chunks s)\<rparr>"
  note acc = receiver_accept [OF ok inv [unfolded J] disjI2 [OF True]]
  have empty: "bsb_chunks s = []" using inv True by (simp add: receiver_inv_def)
  have "bsb_first st (stream_arrivals ms J') ?s = (None, stream_arrivals ms J', ?s)"
    using oset_insert_chunks by (subst bsb_first.simps) simp
  then have "bsb_first st (stream_arrivals ms J) s = (None, stream_arrivals ms J', ?s)"
    using acc(2,3) empty J by (subst bsb_first.simps) (simp add: stream_arrivals_def)
  moreover have "insort i I \<noteq> []" by (cases I) auto
  ultimately show ?thesis using acc(1) by fastforce
qed

lemma head_of_all:
  assumes "sorted_wrt (<) I" and "k \<in> set I" and "\<forall>i \<in> set I. k \<le> i"
  shows "hd I = (k :: nat)"
  using assms by (cases I) (auto dest: leD)

lemma receiver_order:
  assumes ok: "stream_ok process ms rs D" and k: "k < length D"
  shows "receiver_inv ms rs D k st I J s \<Longrightarrow> I \<noteq> [] \<Longrightarrow>
    \<exists>I' J' s'. bsb_order st (stream_arrivals ms J) s = (None, stream_arrivals ms J', s')
    \<and> receiver_inv ms rs D k st I' J' s' \<and> I' \<noteq> [] \<and> hd I' = k \<and> bsb_chunk_offset s' = bsb_chunk_offset s"
proof (induction J arbitrary: I s)
  case Nil
  have U: "set I = {k..<length D}" using Nil.prems(1) by (simp add: receiver_inv_def)
  then have hd: "hd I = k" using head_of_all [of I k] Nil.prems(1) k by (simp add: receiver_inv_def)
  then have "bsb_in_seq s = ck_seq (hd (bsb_chunks s))"
    using Nil.prems by (simp add: receiver_inv_def hd_map stream_chunk_def)
  then have "bsb_order st (stream_arrivals ms []) s = (None, stream_arrivals ms [], s)"
    by (subst bsb_order.simps) simp
  then show ?case using Nil.prems hd by blast
next
  case (Cons x J)
  obtain i t where x: "x = (i, t)" by (cases x)
  show ?case
  proof (cases "bsb_in_seq s = ck_seq (hd (bsb_chunks s))")
    case True
    have n: "length D < 2 ^ 64" using ok by (simp add: stream_ok_def)
    have "hd I \<in> set I" using Cons.prems(2) by simp
    then have "hd I < length D" using Cons.prems(1) by (fastforce simp: receiver_inv_def)
    have "bsb_in_seq s = word_of_nat k" "bsb_chunks s = map (stream_chunk ms) I"
      using Cons.prems(1) by (simp_all add: receiver_inv_def)
    then have "(word_of_nat k :: u64) = word_of_nat (hd I)"
      using True Cons.prems(2) by (simp add: hd_map stream_chunk_def)
    with \<open>hd I < length D\<close> have "hd I = k" using k n by (simp add: word_of_nat_eq_iff take_bit_nat_eq_self)
    moreover have "bsb_order st (stream_arrivals ms (x # J)) s = (None, stream_arrivals ms (x # J), s)"
      using True by (subst bsb_order.simps) simp
    ultimately show ?thesis using Cons.prems by blast
  next
    case False
    let ?s = "s\<lparr>bsb_streaming := True, bsb_chunks := oset_insert chunk_less (stream_chunk ms i) (bsb_chunks s)\<rparr>"
    have "receiver_inv ms rs D k st I ((i, t) # J) (s\<lparr>bsb_streaming := True\<rparr>)"
      using Cons.prems(1) x by (simp add: receiver_inv_def)
    note acc = receiver_accept [OF ok this, simplified]
    have "bsb_skip t (bsb_accept st (Some (ms ! i)) s) = ?s"
    proof (cases "bsb_streaming s")
      case True
      then show ?thesis using acc(2,3) Cons.prems(1) by (simp add: bsb_accept_def bsb_skip_def receiver_inv_def)
    next
      case wait: False
      then have "length I \<le> 1" "settles k (I @ i # map fst J)" using Cons.prems(1) x by (simp_all add: receiver_inv_def)
      then obtain j where j: "I = [j]" using Cons.prems(2) by (cases I) auto
      have chunks: "bsb_chunks s = [stream_chunk ms j]" "bsb_in_seq s = word_of_nat k"
        using Cons.prems(1) j by (simp_all add: receiver_inv_def)
      then have "j \<noteq> k" using False by (auto simp: stream_chunk_def)
      then have i: "i = k" using \<open>settles k (I @ i # map fst J)\<close> j by simp
      have U: "set I \<union> fst ` set (x # J) = {k..<length D}" using Cons.prems(1) by (simp add: receiver_inv_def)
      have "j \<in> set I \<union> fst ` set (x # J)" using j by simp
      then have "k < j" "j < 2 ^ 64" unfolding U using \<open>j \<noteq> k\<close> ok by (simp_all add: stream_ok_def)
      then have "oset_insert chunk_less (stream_chunk ms i) (bsb_chunks s) = [stream_chunk ms k, stream_chunk ms j]"
        using i chunks stream_chunk_less [of k j ms] stream_chunk_less [of j k ms] by simp
      then show ?thesis using acc(2,3) wait chunks(2) i by (simp add: bsb_accept_def bsb_skip_def) (simp add: stream_chunk_def)
    qed
    then have "bsb_order st (stream_arrivals ms (x # J)) s = bsb_order st (stream_arrivals ms J) ?s"
      using False x by (subst bsb_order.simps) (simp add: stream_arrivals_def)
    moreover have "insort i I \<noteq> []" by (cases I) auto
    ultimately show ?thesis using Cons.IH [OF acc(1)] by simp
  qed
qed

lemma receiver_load:
  assumes ok: "stream_ok process ms rs D" and inv: "receiver_inv ms rs D k st I J s" and k: "k < length D"
    and I: "I \<noteq> []" "hd I = k"
  shows "\<exists>s'. bsb_load process st s = Some s' \<and> receiver_inv ms rs D k st I J s' \<and> bundle_payload (bsb_current s') = Some (D ! k)
    \<and> bsb_chunk_offset s' = bsb_chunk_offset s"
proof -
  have n: "length ms = length D" "length rs = length D" using ok by (simp_all add: stream_ok_def stream_of_def)
  have "bsb_chunks s = map (stream_chunk ms) I" using inv by (simp add: receiver_inv_def)
  then have m: "ck_meta (hd (bsb_chunks s)) = ms ! k" using I by (simp add: hd_map stream_chunk_def)
  show ?thesis
  proof (cases "bid_eq (ms ! k) (bid_of_bundle (bsb_current s))")
    case True
    then have "bsb_load process st s = Some s" using m by (simp add: bsb_load_def)
    moreover have "bundle_payload (bsb_current s) = Some (D ! k)" using inv k True unfolding receiver_inv_def by blast
    ultimately show ?thesis using inv by blast
  next
    case False
    let ?s = "s\<lparr>bsb_current := process (rs ! k)\<rparr>"
    have "ms_get (ms ! k) st = Inr (rs ! k)" using inv k n by (simp add: receiver_inv_def stream_stored_def)
    then have "bsb_load process st s = Some ?s" using m False by (simp add: bsb_load_def)
    moreover have plain: "bid_of_bundle (process (rs ! k)) = bid_of_bundle (rs ! k)"
        "bundle_payload (process (rs ! k)) = Some (D ! k)"
      using ok k n by (simp_all add: stream_ok_def stream_plain_def list_all_length stream_of_def)
    have apart: "\<not> bid_eq (ms ! i) (bid_of_bundle (rs ! k))" if "i < length D" "i \<noteq> k" for i
      using ok that k n by (simp add: stream_ok_def stream_apart_def)
    have "bundle_payload (process (rs ! k)) = Some (D ! i)"
      if "i < length D" "bid_eq (ms ! i) (bid_of_bundle (process (rs ! k)))" for i
      using apart [OF that(1)] that(2) plain by (cases "i = k") simp_all
    then have "receiver_inv ms rs D k st I J ?s" using inv unfolding receiver_inv_def by simp
    ultimately show ?thesis using plain(2) by fastforce
  qed
qed

lemma find_erase_first: "find P xs = Some b \<Longrightarrow> \<not> Q b \<Longrightarrow> find P (erase_first Q xs) = Some b"
  by (induction xs) (auto split: if_splits)

lemma stream_delivered:
  assumes ok: "stream_ok process ms rs D" and st: "stream_stored st ms rs k" and k: "k < length D"
  shows "\<exists>st'. rg_delivered mo (ms ! k) st = Inr st' \<and> stream_stored st' ms rs (Suc k)"
proof (cases "meta_get DESTINATION_IS_SINGLETON (ms ! k)")
  case False
  then show ?thesis using st by (auto simp: rg_delivered_def stream_stored_def)
next
  case True
  have n: "length ms = length D" using ok by (simp add: stream_ok_def)
  have find: "ms_find (ms ! i) (ms_bundles st) = Some (rs ! i)" if "k \<le> i" "i < length D" for i
    using st that n by (auto simp: stream_stored_def ms_get_def split: option.splits)
  have kept: "ms_find (ms ! i) (erase_first (\<lambda>x. bid_eq (ms ! k) (bid_of_bundle x)) (ms_bundles st)) = Some (rs ! i)"
    if "Suc k \<le> i" "i < length D" for i
    using find [of i] that ok n find_erase_first [where P = "\<lambda>b. bid_eq (ms ! i) (bid_of_bundle b)" and xs = "ms_bundles st"]
    by (simp add: ms_find_def stream_ok_def stream_apart_def)
  obtain st' where "ms_remove mo (ms ! k) st = Inr st'"
      "ms_bundles st' = erase_first (\<lambda>x. bid_eq (ms ! k) (bid_of_bundle x)) (ms_bundles st)"
    using find [of k] k by (auto simp: ms_remove_def)
  moreover from this have "stream_stored st' ms rs (Suc k)" using kept n by (simp add: stream_stored_def ms_get_def)
  ultimately show ?thesis using True by (simp add: rg_delivered_def)
qed

lemma receiver_consume:
  assumes ok: "stream_ok process ms rs D" and inv: "receiver_inv ms rs D k st I J s" and k: "k < length D"
    and I: "I \<noteq> []" "hd I = k" and st': "stream_stored st' ms rs (Suc k)"
  defines "s' \<equiv> bsb_consume (if ck_last (hd (bsb_chunks s)) then s\<lparr>bsb_last_chunk_received := True\<rparr> else s)"
  shows "receiver_inv ms rs D (Suc k) st' (tl I) J s'" and "bsb_chunk_offset s' = 0"
proof -
  have n: "length ms = length D" using ok by (simp add: stream_ok_def)
  obtain I' where I': "I = k # I'" using I by (cases I) auto
  have chunks: "bsb_chunks s = stream_chunk ms k # map (stream_chunk ms) I'" using inv I' by (simp add: receiver_inv_def)
  then have last: "ck_last (hd (bsb_chunks s)) = (Suc k = length D)" using n by (simp add: stream_chunk_def)
  have U: "insert k (set I' \<union> fst ` set J) = {k..<length D}" and new: "k \<notin> set I'" "k \<notin> fst ` set J"
    using inv I' by (auto simp: receiver_inv_def)
  have "set I' \<union> fst ` set J = insert k (set I' \<union> fst ` set J) - {k}" using new by auto
  also have "\<dots> = {Suc k..<length D}" unfolding U by auto
  finally have U': "set I' \<union> fst ` set J = {Suc k..<length D}" .
  show "receiver_inv ms rs D (Suc k) st' (tl I) J s'"
    using inv I' chunks last U' st' k unfolding receiver_inv_def s'_def
    by (auto simp: bsb_consume_def chunk_less_def)
  show "bsb_chunk_offset s' = 0" by (simp add: s'_def bsb_consume_def)
qed

definition stream_rest :: "byte list list \<Rightarrow> nat \<Rightarrow> bundle_streambuf \<Rightarrow> byte list" where
  "stream_rest D k s = drop (bsb_chunk_offset s) (concat (drop k D))"

lemma stream_rest_head:
  assumes "k < length D" and "bsb_chunk_offset s \<le> length (D ! k)"
  shows "stream_rest D k s = drop (bsb_chunk_offset s) (D ! k) @ concat (drop (Suc k) D)"
  using assms by (simp add: stream_rest_def Cons_nth_drop_Suc [symmetric])

text \<open>One call of \<open>underflow\<close>: it brings the next bytes, or the end behind the last of them.\<close>

lemma receiver_underflow:
  assumes ok: "stream_ok process ms rs D"
  shows "receiver_inv ms rs D k st I J s \<Longrightarrow>
    \<exists>r st' k' I' J' s'. bsb_underflow process mo st (stream_arrivals ms J) s
        = (r, take (k' - k) (drop k ms), st', stream_arrivals ms J', s')
      \<and> receiver_inv ms rs D k' st' I' J' s' \<and> k \<le> k'
      \<and> (r = Eof \<and> k' = length D \<and> stream_rest D k s = []
         \<or> (\<exists>bytes. r = Read bytes \<and> bytes \<noteq> [] \<and> stream_rest D k s = bytes @ stream_rest D k' s'))"
proof (induction "length D - k" arbitrary: k st I J s)
  case 0
  then have k: "k = length D" by (simp add: receiver_inv_def)
  then have "bsb_underflow process mo st (stream_arrivals ms J) s = (Eof, [], st, stream_arrivals ms J, s)"
    using 0(2) by (subst bsb_underflow.simps) (simp add: receiver_inv_def)
  moreover have "stream_rest D k s = []" using k by (simp add: stream_rest_def)
  ultimately show ?case using 0(2) k by fastforce
next
  case (Suc d)
  then have k: "k < length D" by simp
  have n: "length ms = length D" using ok by (simp add: stream_ok_def)
  obtain I1 J1 s1 where s1: "bsb_first st (stream_arrivals ms J) s = (None, stream_arrivals ms J1, s1)"
      "receiver_inv ms rs D k st I1 J1 s1" "I1 \<noteq> []" "bsb_chunk_offset s1 = bsb_chunk_offset s"
    using receiver_first [OF ok Suc.prems k] by blast
  obtain I2 J2 s2 where s2: "bsb_order st (stream_arrivals ms J1) s1 = (None, stream_arrivals ms J2, s2)"
      "receiver_inv ms rs D k st I2 J2 s2" "I2 \<noteq> []" "hd I2 = k" "bsb_chunk_offset s2 = bsb_chunk_offset s1"
    using receiver_order [OF ok k s1(2,3)] by blast
  obtain s3 where s3: "bsb_load process st s2 = Some s3" "receiver_inv ms rs D k st I2 J2 s3"
      "bundle_payload (bsb_current s3) = Some (D ! k)" "bsb_chunk_offset s3 = bsb_chunk_offset s2"
    using receiver_load [OF ok s2(2) k s2(3,4)] by blast
  have off: "bsb_chunk_offset s3 \<le> length (D ! k)" using s3(2) k by (simp add: receiver_inv_def)
  have same: "bsb_chunk_offset s3 = bsb_chunk_offset s" using s1(4) s2(5) s3(4) by simp
  then have rest: "stream_rest D k s = drop (bsb_chunk_offset s3) (D ! k) @ concat (drop (Suc k) D)"
    using stream_rest_head [OF k, of s] off by simp
  have open_: "\<not> bsb_last_chunk_received s" using Suc.prems k by (simp add: receiver_inv_def)
  have "bsb_chunks s3 = map (stream_chunk ms) I2" using s3(2) by (simp add: receiver_inv_def)
  then have meta: "ck_meta (hd (bsb_chunks s3)) = ms ! k" using s2(3,4) by (simp add: hd_map stream_chunk_def)
  let ?left = "drop (bsb_chunk_offset s3) (D ! k)"
  show ?case
  proof (cases "length ?left < BUFF_SIZE")
    case False
    let ?s = "s3\<lparr>bsb_chunk_offset := bsb_chunk_offset s3 + BUFF_SIZE\<rparr>"
    have "bsb_underflow process mo st (stream_arrivals ms J) s = (Read (take BUFF_SIZE ?left), [], st, stream_arrivals ms J2, ?s)"
      using open_ s1(1) s2(1) s3(1,3) False by (subst bsb_underflow.simps) (simp add: Let_def min_def)
    moreover have fits: "bsb_chunk_offset s3 + BUFF_SIZE \<le> length (D ! k)" using False off by simp
    then have "receiver_inv ms rs D k st I2 J2 ?s" using s3(2) k by (simp add: receiver_inv_def)
    moreover have "take BUFF_SIZE ?left \<noteq> []" using False by (auto simp: BUFF_SIZE_def)
    moreover have "stream_rest D k s = take BUFF_SIZE ?left @ stream_rest D k ?s"
      using rest stream_rest_head [OF k, of ?s] fits by (simp add: add.commute drop_drop [symmetric] del: drop_drop)
    ultimately show ?thesis by fastforce
  next
    case True
    define s4 where "s4 = (if ck_last (hd (bsb_chunks s3)) then s3\<lparr>bsb_last_chunk_received := True\<rparr> else s3)"
    have "stream_stored st ms rs k" using s3(2) by (simp add: receiver_inv_def)
    from stream_delivered [OF ok this k, of mo] obtain st' where
      st': "rg_delivered mo (ms ! k) st = Inr st'" "stream_stored st' ms rs (Suc k)" by blast
    note next_inv = receiver_consume [OF ok s3(2) k s2(3,4) st'(2), folded s4_def]
    have rest': "stream_rest D (Suc k) (bsb_consume s4) = concat (drop (Suc k) D)" using next_inv(2) by (simp add: stream_rest_def)
    have ds: "take (k' - k) (drop k ms) = ms ! k # take (k' - Suc k) (drop (Suc k) ms)" if "Suc k \<le> k'" for k'
      using that k n by (simp add: Cons_nth_drop_Suc [symmetric] take_Cons' Suc_diff_le)
    show ?thesis
    proof (cases "?left = []")
      case False
      have "bsb_underflow process mo st (stream_arrivals ms J) s = (Read ?left, [ms ! k], st', stream_arrivals ms J2, bsb_consume s4)"
        using open_ s1(1) s2(1) s3(1,3) True False meta st'(1) by (subst bsb_underflow.simps) (simp add: Let_def s4_def)
      then have "bsb_underflow process mo st (stream_arrivals ms J) s
          = (Read ?left, take (Suc k - k) (drop k ms), st', stream_arrivals ms J2, bsb_consume s4)"
        using ds [of "Suc k"] by simp
      moreover have "stream_rest D k s = ?left @ stream_rest D (Suc k) (bsb_consume s4)" using rest rest' by simp
      ultimately show ?thesis using next_inv(1) False
        by (intro exI [of _ "Read ?left"] exI [of _ st'] exI [of _ "Suc k"] exI [of _ "tl I2"] exI [of _ J2] exI [of _ "bsb_consume s4"]) simp
    next
      case empty: True
      have d: "d = length D - Suc k" using Suc.hyps(2) by simp
      obtain r st'' k' I' J' s' where rec: "bsb_underflow process mo st' (stream_arrivals ms J2) (bsb_consume s4)
            = (r, take (k' - Suc k) (drop (Suc k) ms), st'', stream_arrivals ms J', s')"
          "receiver_inv ms rs D k' st'' I' J' s'" "Suc k \<le> k'"
          "r = Eof \<and> k' = length D \<and> stream_rest D (Suc k) (bsb_consume s4) = []
           \<or> (\<exists>bytes. r = Read bytes \<and> bytes \<noteq> [] \<and> stream_rest D (Suc k) (bsb_consume s4) = bytes @ stream_rest D k' s')"
        using Suc.hyps(1) [OF d next_inv(1)] by blast
      have "bsb_underflow process mo st (stream_arrivals ms J) s = (r, take (k' - k) (drop k ms), st'', stream_arrivals ms J', s')"
        using open_ s1(1) s2(1) s3(1,3) True empty meta st'(1) rec(1) ds [OF rec(3)]
        by (subst bsb_underflow.simps) (simp add: Let_def s4_def)
      moreover have "stream_rest D k s = stream_rest D (Suc k) (bsb_consume s4)" using rest rest' empty by simp
      ultimately show ?thesis using rec(2-4) Suc_leD [OF rec(3)] by fastforce
    qed
  qed
qed

lemma receiver_drain:
  assumes ok: "stream_ok process ms rs D"
  shows "receiver_inv ms rs D k st I J s \<Longrightarrow>
    bsb_drain process mo st (stream_arrivals ms J) s = Some (stream_rest D k s, Eof, drop k ms)"
proof (induction "length (stream_rest D k s)" arbitrary: k st I J s rule: less_induct)
  case less
  obtain r st' k' I' J' s' where step: "bsb_underflow process mo st (stream_arrivals ms J) s
        = (r, take (k' - k) (drop k ms), st', stream_arrivals ms J', s')"
      "receiver_inv ms rs D k' st' I' J' s'" "k \<le> k'"
      "r = Eof \<and> k' = length D \<and> stream_rest D k s = []
       \<or> (\<exists>bytes. r = Read bytes \<and> bytes \<noteq> [] \<and> stream_rest D k s = bytes @ stream_rest D k' s')"
    using receiver_underflow [OF ok less.prems, of mo] by blast
  have n: "length ms = length D" using ok by (simp add: stream_ok_def)
  from step(4) show ?case
  proof
    assume "r = Eof \<and> k' = length D \<and> stream_rest D k s = []"
    then show ?thesis using step(1) n by (subst bsb_drain.simps) simp
  next
    assume "\<exists>bytes. r = Read bytes \<and> bytes \<noteq> [] \<and> stream_rest D k s = bytes @ stream_rest D k' s'"
    then obtain bytes where bytes: "r = Read bytes" "bytes \<noteq> []" "stream_rest D k s = bytes @ stream_rest D k' s'" by blast
    then have "bsb_drain process mo st' (stream_arrivals ms J') s' = Some (stream_rest D k' s', Eof, drop k' ms)"
      using less.hyps step(2) by simp
    moreover have "take (k' - k) (drop k ms) @ drop k' ms = drop k ms"
      using append_take_drop_id [of "k' - k" "drop k ms"] step(3) by simp
    ultimately show ?thesis using step(1) bytes(1,3) by (subst bsb_drain.simps) simp
  qed
qed

section \<open>Correctness\<close>

text \<open>C23: bytes that are written as a stream and flushed once, at the end, are read again from the first to the last, and the
  bundles are announced as delivered in the order of the stream, by a reader without a timeout, if its storage has the bundles until
  they are delivered, their identifiers are distinct, and the processing of the blocks leaves their payloads. A reader
  that waits for the beginning does so in whatever order the bundles arrive. The reader of
  \<open>OrderedStreamHandler\<close>, which does not, does so if the bundles arrive in order up to the first one that is overtaken, that
  one is overtaken by one other only, and the rest comes in whatever order (\<open>settles\<close>).\<close>

theorem ordered_stream:
  assumes "data \<noteq> []" and "sent = send_stream c sys data (sender_new b chunk_size seqno)" and "length sent < 2 ^ 64"
    and "map stream_fields rs = map stream_fields sent" and "map bundle_payload rs = map bundle_payload sent"
    and "length ms = length sent" and "stream_stored st ms rs 0" and "stream_apart ms rs" and "stream_plain process rs"
    and "mset (map fst order) = mset [0..<length sent]"
    and "list_all (\<lambda>m. \<not> bid_eq m (bid_of_bundle b')) ms"
    and "wait \<or> settles 0 (map fst order)"
  shows "bsb_drain process mo st (stream_arrivals ms order) (bsb_new b' chunk_size' wait) = Some (data, Eof, ms)"
proof -
  obtain D where D: "stream_of sent D" "concat D = data" "D \<noteq> []"
    using send_stream_pieces [OF assms(1)] assms(2) by metis
  have n: "length sent = length D" "length rs = length D" using D(1) arg_cong [OF assms(4), of length] by (simp_all add: stream_of_def)
  have "stream_fields (rs ! i) = stream_fields (sent ! i)" "bundle_payload (rs ! i) = bundle_payload (sent ! i)" if "i < length D" for i
    using arg_cong [OF assms(4), of "\<lambda>l. l ! i"] arg_cong [OF assms(5), of "\<lambda>l. l ! i"] that n by simp_all
  then have ok: "stream_ok process ms rs D"
    using D(1) n assms(3,6,8,9) by (simp add: stream_ok_def stream_of_def)
  have J: "set (map fst order) = {0..<length D}" "distinct (map fst order)"
    using mset_eq_setD [OF assms(10)] mset_eq_imp_distinct_iff [OF assms(10)] n by simp_all
  have "\<not> bid_eq (ms ! i) (bid_of_bundle b')" if "i < length D" for i
    using assms(6,11) that n by (simp add: list_all_length)
  then have "receiver_inv ms rs D 0 st [] order (bsb_new b' chunk_size' wait)"
    using J D(3) assms(7,12) by (simp add: receiver_inv_def bsb_new_def)
  from receiver_drain [OF ok this, of mo] show ?thesis by (simp add: stream_rest_def D(2) bsb_new_def)
qed

text \<open>A reader that does not wait for the beginning, as the one of \<open>OrderedStreamHandler\<close>, gives up a missing
  chunk as soon as one more chunk has arrived: it goes on behind the gap, and does not take the missing chunk any more
  when it comes.\<close>

theorem stream_gap_skipped:
  assumes ok: "stream_ok process ms rs D" and st: "stream_stored st ms rs 0" and order: "k < i" "i < j" "j < length D"
    and s: "\<not> bsb_streaming s" "\<not> bsb_last_chunk_received s" "bsb_chunks s = []" "bsb_in_seq s = word_of_nat k" "bsb_chunk_offset s = 0"
    and current: "\<not> bid_eq (ms ! i) (bid_of_bundle (bsb_current s))" and size: "D ! i \<noteq> []" "length (D ! i) < BUFF_SIZE"
  shows "\<exists>st' s'. bsb_underflow process mo st ((Some (ms ! i), t) # (Some (ms ! j), t') # as) s = (Read (D ! i), [ms ! i], st', as, s')
    \<and> bsb_in_seq s' = word_of_nat (Suc i) \<and> bsb_accept st (Some (ms ! k)) s' = s'"
proof -
  have n: "length D < 2 ^ 64" "length ms = length D" "length rs = length D" using ok by (simp_all add: stream_ok_def stream_of_def)
  have small: "k < 2 ^ 64" "i < 2 ^ 64" "j < 2 ^ 64" "Suc i < 2 ^ 64" using order n(1) by simp_all
  have chunk: "chunk_of st (ms ! x) = Inr (stream_chunk ms x)" if "x < length D" for x
    using stream_chunk_of [OF ok st _ that] by simp
  have le: "(word_of_nat x :: u64) \<le> word_of_nat y \<longleftrightarrow> x \<le> y" if "x < 2 ^ 64" "y < 2 ^ 64" for x y
    using that by (simp add: word_le_nat_alt unsigned_of_nat take_bit_nat_eq_self)
  have ne: "(word_of_nat k :: u64) \<noteq> word_of_nat i" using le [of i k] le [of k i] small order(1) by auto
  let ?s1 = "s\<lparr>bsb_chunks := [stream_chunk ms i]\<rparr>"
  let ?s2 = "s\<lparr>bsb_chunks := [stream_chunk ms i, stream_chunk ms j], bsb_in_seq := word_of_nat i, bsb_streaming := True\<rparr>"
  let ?as = "(Some (ms ! j), t') # as"
  have "bsb_first st ?as ?s1 = (None, ?as, ?s1)" by (subst bsb_first.simps) simp
  then have s1: "bsb_first st ((Some (ms ! i), t) # ?as) s = (None, ?as, ?s1)"
    using s chunk order le small by (subst bsb_first.simps) (simp add: stream_chunk_def)
  have "bsb_accept st (Some (ms ! j)) ?s1 = ?s1\<lparr>bsb_chunks := [stream_chunk ms i, stream_chunk ms j]\<rparr>"
    using s(4) chunk order le small stream_chunk_less [of i j ms] stream_chunk_less [of j i ms]
    by (simp add: bsb_accept_def stream_chunk_def)
  then have "bsb_skip t' (bsb_accept st (Some (ms ! j)) ?s1) = ?s2"
    using s(1) by (simp add: bsb_skip_def) (simp add: stream_chunk_def)
  moreover have "bsb_order st as ?s2 = (None, as, ?s2)" by (subst bsb_order.simps) (simp add: stream_chunk_def)
  ultimately have s2: "bsb_order st ?as ?s1 = (None, as, ?s2)"
    using s(4) ne by (subst bsb_order.simps) (simp add: stream_chunk_def)
  let ?s3 = "?s2\<lparr>bsb_current := process (rs ! i)\<rparr>"
  have "ms_get (ms ! i) st = Inr (rs ! i)" using st order n by (simp add: stream_stored_def)
  then have s3: "bsb_load process st ?s2 = Some ?s3" using current by (simp add: bsb_load_def) (simp add: stream_chunk_def)
  have payload: "bundle_payload (process (rs ! i)) = Some (D ! i)"
    using ok order n by (simp add: stream_ok_def stream_plain_def list_all_length stream_of_def)
  have st_i: "stream_stored st ms rs i" using st by (simp add: stream_stored_def)
  from stream_delivered [OF ok st_i, of mo] order obtain st' where st': "rg_delivered mo (ms ! i) st = Inr st'" by auto
  have final: "ck_last (stream_chunk ms i) = False" and m: "ck_meta (stream_chunk ms i) = ms ! i"
    using order n(2) by (simp_all add: stream_chunk_def)
  have "bsb_underflow process mo st ((Some (ms ! i), t) # ?as) s = (Read (D ! i), [ms ! i], st', as, bsb_consume ?s3)"
    using s(2,5) s1 s2 s3 payload size st' final m by (subst bsb_underflow.simps) (simp add: Let_def)
  moreover have seq: "bsb_in_seq (bsb_consume ?s3) = word_of_nat (Suc i)" by (simp add: bsb_consume_def)
  moreover have "\<not> bsb_in_seq (bsb_consume ?s3) \<le> ck_seq (stream_chunk ms k)"
    unfolding seq using le [OF small(4,1)] order(1) by (simp add: stream_chunk_def del: of_nat_Suc)
  moreover have "chunk_of st (ms ! k) = Inr (stream_chunk ms k)" using chunk order by simp
  ultimately show ?thesis by (intro exI [of _ st'] exI [of _ "bsb_consume ?s3"]) (simp add: bsb_accept_def del: of_nat_Suc)
qed

definition sample_sent :: "dtn_bundle list" where
  "sample_sent = send_stream sample_clock (mo_sys sample_moment) [1, 2, 3] (sender_new sample_bundle 4096 7)"

theorem ordered_stream_witness:
  "let ms = map (meta_at sample_moment) sample_sent
   in length ms = 1 \<and> bsb_drain (\<lambda>b. b) sample_moment ((ms_new 0)\<lparr>ms_bundles := sample_sent\<rparr>) (stream_arrivals ms [(0, 5)]) (bsb_new sample_bundle 10 False)
        = Some ([1, 2, 3], Eof, ms)"
proof -
  have one: "length sample_sent = 1" by code_simp
  then obtain r where r: "sample_sent = [r]" by (auto simp: length_Suc_conv)
  have "\<not> bid_eq (meta_at sample_moment (hd sample_sent)) (bid_of_bundle sample_bundle)" by code_simp
  then have other: "\<not> bid_eq (meta_at sample_moment r) (bid_of_bundle sample_bundle)" by (simp add: r)
  have "bid_eq (meta_at sample_moment (hd sample_sent)) (bid_of_bundle (hd sample_sent))" by code_simp
  then have same: "bid_eq (meta_at sample_moment r) (bid_of_bundle r)" by (simp add: r)
  have "bsb_drain (\<lambda>b. b) sample_moment ((ms_new 0)\<lparr>ms_bundles := sample_sent\<rparr>) (stream_arrivals (map (meta_at sample_moment) sample_sent) [(0, 5)])
      (bsb_new sample_bundle 10 False) = Some ([1, 2, 3], Eof, map (meta_at sample_moment) sample_sent)"
    by (rule ordered_stream [OF _ sample_sent_def, of sample_sent])
      (simp_all add: r other same stream_stored_def stream_apart_def stream_plain_def ms_get_def ms_find_def)
  then show ?thesis using one by (simp add: Let_def)
qed

definition sample_piece :: "nat \<Rightarrow> dtn_bundle" where
  "sample_piece i = sample_bundle\<lparr>p_sequencenumber := word_of_nat (10 + i),
     b_blocks := [stream_block (word_of_nat i) (i = 0) (i = 2), block_new PAYLOAD_BLOCK_TYPE (PayloadBody [word_of_nat i])]\<rparr>"

theorem stream_gap_skipped_witness:
  "\<exists>st' s'. bsb_underflow (\<lambda>b. b) sample_moment ((ms_new 0)\<lparr>ms_bundles := map sample_piece [0, 1, 2]\<rparr>)
        [(Some (meta_at sample_moment (sample_piece 1)), 3), (Some (meta_at sample_moment (sample_piece 2)), 4)] (bsb_new sample_bundle 4096 False)
      = (Read [1], [meta_at sample_moment (sample_piece 1)], st', [], s')"
proof -
  let ?rs = "map sample_piece [0, 1, 2]" and ?D = "[[0], [1], [2]]" and ?st = "(ms_new 0)\<lparr>ms_bundles := map sample_piece [0, 1, 2]\<rparr>"
  let ?ms = "map (\<lambda>i. meta_at sample_moment (sample_piece i)) [0, 1, 2]"
  have eq: "bid_eq (meta_at sample_moment (sample_piece i)) (bid_of_bundle (sample_piece j)) \<longleftrightarrow> i = j" if "i \<in> {0, 1, 2}" "j \<in> {0, 1, 2}" for i j
    using that by (auto simp: bid_eq_def meta_at_def meta_of_bundle_def bundle_id.defs bid_of_bundle_def sample_piece_def)
  have content: "stream_fields (sample_piece i) = (word_of_nat i, i = 0, i = 2) \<and> bundle_payload (sample_piece i) = Some [word_of_nat i]" for i
    using new_chunk [of "sample_bundle" "sample_piece i"]
    by (simp add: stream_fields_def bundle_payload_def sample_piece_def stream_block_def block_new_def STREAM_BLOCK_TYPE_def
        PAYLOAD_BLOCK_TYPE_def stream_flags)
  have "stream_ok (\<lambda>b. b) ?ms ?rs ?D"
    using content eq by (simp add: stream_ok_def stream_of_def stream_apart_def stream_plain_def All_less_Suc)
  moreover have "stream_stored ?st ?ms ?rs 0"
    using eq by (simp add: stream_stored_def ms_get_def ms_find_def All_less_Suc)
  moreover have "\<not> bid_eq (meta_at sample_moment (sample_piece 1)) (bid_of_bundle sample_bundle)" by code_simp
  ultimately show ?thesis
    using stream_gap_skipped [of "\<lambda>b. b" ?ms ?rs ?D ?st 0 1 2 "bsb_new sample_bundle 4096 False" sample_moment 3 4 "[]"]
    by (auto simp: bsb_new_def BUFF_SIZE_def)
qed

end
