(* ===== verification/Registrations.thy ===== *)
theory Registrations
  imports BundleStream StorageSpec Neighbors Nodes
begin

text \<open>
  The registrations of clients (\<open>daemon/src/api/Registration.cpp\<close>), the list of them the server keeps
  (\<open>daemon/src/api/ApiServer.cpp\<close>), and the commands of a client (\<open>daemon/src/api/ClientHandler.cpp\<close>).
\<close>

section \<open>Registrations\<close>

datatype notify_call = NOTIFY_BUNDLE_AVAILABLE | NOTIFY_NEIGHBOR_AVAILABLE | NOTIFY_NEIGHBOR_UNAVAILABLE | NOTIFY_SHUTDOWN

datatype registration_error = AlreadyAttachedException | NotFoundException | NotPersistentException

record registration =
  rg_handle :: string
  rg_queue :: "meta_bundle list"
  rg_endpoints :: "eid list"
  rg_received :: bundle_list
  rg_no_more_bundles :: bool
  rg_notify_queue :: "notify_call list"
  rg_persistent :: bool
  rg_detached :: bool
  rg_expiry :: u64

text \<open>The constructor sets neither \<open>_no_more_bundles\<close> nor \<open>_expiry\<close>; they are what the memory holds.\<close>

definition rg_new :: "string \<Rightarrow> bool \<Rightarrow> u64 \<Rightarrow> registration" where
  "rg_new handle no_more expiry =
     \<lparr>rg_handle = handle, rg_queue = [], rg_endpoints = [], rg_received = lst_new, rg_no_more_bundles = no_more,
      rg_notify_queue = [], rg_persistent = False, rg_detached = False, rg_expiry = expiry\<rparr>"

text \<open>A handle is drawn until there is a free one; \<open>draws\<close> are the strings the generator gives.\<close>

fun rg_alloc_handle :: "string list \<Rightarrow> string list \<Rightarrow> (string \<times> string list) option" where
  "rg_alloc_handle [] handles = None"
| "rg_alloc_handle (h # draws) handles =
     (if h \<in> set handles then rg_alloc_handle draws handles else Some (h, h # handles))"

definition rg_free_handle :: "string \<Rightarrow> string list \<Rightarrow> string list" where
  "rg_free_handle h handles = filter (\<lambda>x. x \<noteq> h) handles"

definition rg_notify :: "notify_call \<Rightarrow> registration \<Rightarrow> registration" where
  "rg_notify call r =
     (if call = NOTIFY_BUNDLE_AVAILABLE then r\<lparr>rg_no_more_bundles := False\<rparr>
      else r\<lparr>rg_notify_queue := rg_notify_queue r @ [call]\<rparr>)"

definition rg_hasSubscribed :: "eid \<Rightarrow> registration \<Rightarrow> bool" where
  "rg_hasSubscribed e r = oset_mem eid_less e (rg_endpoints r)"

definition rg_subscribe :: "eid \<Rightarrow> registration \<Rightarrow> registration" where
  "rg_subscribe e r = rg_notify NOTIFY_BUNDLE_AVAILABLE (r\<lparr>rg_endpoints := oset_insert eid_less e (rg_endpoints r)\<rparr>)"

definition rg_unsubscribe :: "eid \<Rightarrow> registration \<Rightarrow> registration" where
  "rg_unsubscribe e r = r\<lparr>rg_endpoints := oset_erase eid_less e (rg_endpoints r)\<rparr>"

text \<open>\<open>underflow\<close>: up to ten stored bundles for the endpoints that were not handed out before.\<close>

definition rg_filter :: "registration \<Rightarrow> meta_bundle \<Rightarrow> bool" where
  "rg_filter r m \<longleftrightarrow> oset_mem eid_less (m_destination m) (rg_endpoints r) \<and> \<not> lst_contains (rg_received r) m"

definition rg_underflow :: "clock \<Rightarrow> u64 \<Rightarrow> mem_storage \<Rightarrow> registration \<Rightarrow> storage_error option \<times> registration" where
  "rg_underflow c now st r =
     (let r1 = r\<lparr>rg_received := fst (lst_expire c now (rg_received r))\<rparr>;
          found = ms_query 10 (rg_filter r1) st
      in if found = [] then (Some NoBundleFoundException, r1\<lparr>rg_no_more_bundles := True\<rparr>)
         else (None, r1\<lparr>rg_queue := rg_queue r1 @ found, rg_received := foldl lst_add (rg_received r1) found\<rparr>))"

definition rg_receiveMetaBundle :: "clock \<Rightarrow> u64 \<Rightarrow> mem_storage \<Rightarrow> registration \<Rightarrow> (storage_error + meta_bundle) \<times> registration" where
  "rg_receiveMetaBundle c now st r =
     (case rg_queue r of
        m # ms \<Rightarrow> (Inr m, r\<lparr>rg_queue := ms\<rparr>)
      | [] \<Rightarrow>
          (case rg_underflow c now st r of
             (Some e, r1) \<Rightarrow> (Inl e, r1)
           | (None, r1) \<Rightarrow> (Inr (hd (rg_queue r1)), r1\<lparr>rg_queue := tl (rg_queue r1)\<rparr>)))"

text \<open>\<open>receive\<close> passes over bundles that are not in the storage any more.\<close>

partial_function (option) rg_receive ::
  "clock \<Rightarrow> u64 \<Rightarrow> mem_storage \<Rightarrow> registration \<Rightarrow> ((storage_error + meta_bundle \<times> dtn_bundle) \<times> registration) option" where
  "rg_receive c now st r =
     (case rg_receiveMetaBundle c now st r of
        (Inl e, r1) \<Rightarrow> Some (Inl e, r1)
      | (Inr m, r1) \<Rightarrow> (case ms_get m st of Inr b \<Rightarrow> Some (Inr (m, b), r1) | Inl _ \<Rightarrow> rg_receive c now st r1))"

definition rg_setPersistent :: "u64 \<Rightarrow> u64 \<Rightarrow> registration \<Rightarrow> registration" where
  "rg_setPersistent now lifetime r = r\<lparr>rg_expiry := lifetime + now, rg_persistent := True\<rparr>"

definition rg_unsetPersistent :: "registration \<Rightarrow> registration" where
  "rg_unsetPersistent r = r\<lparr>rg_persistent := False\<rparr>"

text \<open>\<open>isPersistent()\<close> clears the flag of a registration that is expired; the second version does not.\<close>

definition rg_isPersistent :: "u64 \<Rightarrow> registration \<Rightarrow> bool \<times> registration" where
  "rg_isPersistent now r =
     (let r1 = (if rg_expiry r \<le> now then r\<lparr>rg_persistent := False\<rparr> else r) in (rg_persistent r1, r1))"

definition rg_isPersistent_const :: "u64 \<Rightarrow> registration \<Rightarrow> bool" where
  "rg_isPersistent_const now r = (if rg_expiry r \<le> now then False else rg_persistent r)"

definition rg_getExpireTime :: "u64 \<Rightarrow> registration \<Rightarrow> registration_error + u64" where
  "rg_getExpireTime now r = (if rg_isPersistent_const now r then Inr (rg_expiry r) else Inl NotPersistentException)"

definition rg_attach :: "registration \<Rightarrow> registration_error + registration" where
  "rg_attach r = (if \<not> rg_detached r then Inl AlreadyAttachedException else Inr (r\<lparr>rg_detached := False\<rparr>))"

text \<open>Resetting the queues only ends an abort of the threads that wait for them.\<close>

definition rg_detach :: "registration \<Rightarrow> registration" where
  "rg_detach r = r\<lparr>rg_detached := True\<rparr>"

section \<open>The registrations of the server\<close>

fun api_getRegistration :: "u64 \<Rightarrow> string \<Rightarrow> registration list \<Rightarrow> (registration_error + registration) \<times> registration list" where
  "api_getRegistration now handle [] = (Inl NotFoundException, [])"
| "api_getRegistration now handle (r # rs) =
     (if rg_handle r = handle then
        (case rg_isPersistent now r of
           (True, r1) \<Rightarrow> (case rg_attach r1 of Inl e \<Rightarrow> (Inl e, r1 # rs) | Inr r2 \<Rightarrow> (Inr r2, r2 # rs))
         | (False, r1) \<Rightarrow> (Inl NotFoundException, r1 # rs))
      else case api_getRegistration now handle rs of (res, rs') \<Rightarrow> (res, r # rs'))"

text \<open>\<open>timeout\<close>, the garbage collector.\<close>

fun api_collect :: "u64 \<Rightarrow> registration list \<Rightarrow> registration list" where
  "api_collect now [] = []"
| "api_collect now (r # rs) =
     (case rg_attach r of
        Inl _ \<Rightarrow> r # api_collect now rs
      | Inr r1 \<Rightarrow>
          (case rg_isPersistent now r1 of
             (False, r2) \<Rightarrow> api_collect now rs
           | (True, r2) \<Rightarrow> rg_detach r2 # api_collect now rs))"

text \<open>\<open>nextRegistrationExpiry\<close>; \<open>None\<close> is \<open>StopTimerException\<close>.\<close>

fun api_next_expiry :: "u64 \<Rightarrow> u64 option \<Rightarrow> registration list \<Rightarrow> u64 option" where
  "api_next_expiry now best [] = best"
| "api_next_expiry now best (r # rs) =
     (case rg_attach r of
        Inl _ \<Rightarrow> api_next_expiry now best rs
      | Inr r1 \<Rightarrow>
          if \<not> fst (rg_isPersistent now r1) then Some 0
          else
            let t = rg_expiry r - now
            in api_next_expiry now (case best of None \<Rightarrow> Some t | Some b \<Rightarrow> if t < b then Some t else Some b) rs)"

definition api_timeout :: "u64 \<Rightarrow> registration list \<Rightarrow> u64 option \<times> registration list" where
  "api_timeout now rs = (let rs' = api_collect now rs in (api_next_expiry now None rs', rs'))"

fun erase_handle :: "string \<Rightarrow> registration list \<Rightarrow> registration list" where
  "erase_handle h [] = []"
| "erase_handle h (r # rs) = (if rg_handle r = h then rs else r # erase_handle h rs)"

text \<open>\<open>freeRegistration\<close> of the registration in the list with the handle of \<open>r\<close>.\<close>

definition api_freeRegistration :: "u64 \<Rightarrow> registration \<Rightarrow> registration list \<Rightarrow> registration list" where
  "api_freeRegistration now r rs =
     (if fst (rg_isPersistent now r)
      then map (\<lambda>x. if rg_handle x = rg_handle r then rg_detach x else x) rs
      else erase_handle (rg_handle r) rs)"

text \<open>The event of a queued bundle wakes the clients that are connected (\<open>connections\<close> are the handles) and subscribed.\<close>

definition api_queued :: "eid \<Rightarrow> string set \<Rightarrow> registration list \<Rightarrow> registration list" where
  "api_queued dest connections rs =
     map (\<lambda>r. if rg_handle r \<in> connections \<and> rg_hasSubscribed dest r then rg_notify NOTIFY_BUNDLE_AVAILABLE r else r) rs"

text \<open>\<open>processIncomingBundle\<close> without compression and security: the bundle that is raised as received.\<close>

definition client_eid :: eid where
  "client_eid = eid_parse ''api:me''"

definition api_processIncomingBundle :: "eid \<Rightarrow> dtn_bundle \<Rightarrow> dtn_bundle" where
  "api_processIncomingBundle source b =
     (let b1 = b\<lparr>p_source := source\<rparr>;
          b2 = (if p_destination b1 = client_eid then b1\<lparr>p_destination := source\<rparr> else b1);
          b3 = (if p_reportto b2 = client_eid then b2\<lparr>p_reportto := source\<rparr> else b2);
          b4 = (if p_custodian b3 = client_eid then b3\<lparr>p_custodian := source\<rparr> else b3)
      in if p_timestamp b4 = 0
         then (case blocks_get AGE_BLOCK_TYPE AgeK (b_blocks b4) of
                 Inr _ \<Rightarrow> b4
               | Inl _ \<Rightarrow> b4\<lparr>b_blocks := blocks_push_front (b_blocks b4) age_new\<rparr>)
         else b4)"

section \<open>The commands of a client\<close>

text \<open>\<open>processCommand\<close>: the lines that are answered, the endpoint of the client, and its registration.\<close>

type_synonym client = "eid \<times> registration"

definition client_set :: "eid \<Rightarrow> string list \<Rightarrow> client \<Rightarrow> string list \<times> client" where
  "client_set local cmd cl =
     (case cmd of
        a # ''endpoint'' # name # _ \<Rightarrow>
          (let e = eid_append (eid_append local ''/'') name
           in if e = eid_none then ([''406 INVALID ENDPOINT''], (local, snd cl))
              else ([''202 OK''], (e, rg_subscribe e (snd cl))))
      | [a, ''endpoint''] \<Rightarrow> ([''400 ERROR''], cl)
      | [a] \<Rightarrow> ([''400 ERROR''], cl)
      | _ \<Rightarrow> ([''400 UNKNOWN COMMAND''], cl))"

definition client_registration :: "string list \<Rightarrow> client \<Rightarrow> string list \<times> client" where
  "client_registration cmd cl =
     (case cmd of
        a # ''add'' # name # _ \<Rightarrow>
          (let e = eid_parse name
           in if e = eid_none then ([''406 INVALID EID''], cl) else ([''202 OK''], (fst cl, rg_subscribe e (snd cl))))
      | a # ''del'' # name # _ \<Rightarrow>
          (let e = eid_parse name
           in if e = eid_none then ([''406 INVALID EID''], cl) else ([''202 OK''], (fst cl, rg_unsubscribe e (snd cl))))
      | a # ''list'' # _ \<Rightarrow> ([''200 REGISTRATION LIST''] @ map eid_getString (rg_endpoints (snd cl)) @ [[]], cl)
      | [a, ''add''] \<Rightarrow> ([''400 ERROR''], cl)
      | [a, ''del''] \<Rightarrow> ([''400 ERROR''], cl)
      | [a] \<Rightarrow> ([''400 ERROR''], cl)
      | _ \<Rightarrow> ([''400 UNKNOWN COMMAND''], cl))"

definition client_command :: "eid \<Rightarrow> string list \<Rightarrow> client \<Rightarrow> string list \<times> client" where
  "client_command local cmd cl =
     (if hd cmd = ''set'' then client_set local cmd cl
      else if hd cmd = ''registration'' then client_registration cmd cl
      else ([''400 UNKNOWN COMMAND''], cl))"

text \<open>
  A line in \<open>run\<close>: the command is for the client itself or asks for another protocol. An empty line makes the code
  look in front of an empty string, and \<open>protocol\<close> alone behind the end of a vector.
\<close>

datatype client_protocol = BinaryStream | Management | EventProtocol | ExtendedApi | OrderedStream

datatype client_turn = Ignored | Switch client_protocol | Answer "string list" client | Undetermined

definition client_line :: "eid \<Rightarrow> string \<Rightarrow> client \<Rightarrow> client_turn" where
  "client_line local buffer cl =
     (if buffer = [] then Undetermined
      else
        let line = (if last buffer = CHR 0x0D then butlast buffer else buffer)
        in case tokenize '' '' line (2 ^ 64 - 1) of
             None \<Rightarrow> Undetermined
           | Some [] \<Rightarrow> Ignored
           | Some (w # ws) \<Rightarrow>
               if w = ''protocol'' then
                 (case ws of
                    [] \<Rightarrow> Undetermined
                  | p # _ \<Rightarrow>
                      if p = ''tcpcl'' then Switch BinaryStream
                      else if p = ''management'' then Switch Management
                      else if p = ''event'' then Switch EventProtocol
                      else if p = ''extended'' then Switch ExtendedApi
                      else if p = ''streaming'' then Switch OrderedStream
                      else Answer [''406 UNKNOWN PROTOCOL''] cl)
               else (case client_command local (w # ws) cl of (out, cl') \<Rightarrow> Answer out cl'))"

section \<open>Ordered streams of clients\<close>

text \<open>\<open>OrderedStreamHandler\<close>: what \<open>put\<close> makes of a bundle, and the bundles \<open>get\<close> lets through.\<close>

record ordered_stream_handler =
  os_endpoint :: eid
  os_peer :: eid
  os_group :: bool
  os_lifetime :: u64

definition os_put :: "ordered_stream_handler \<Rightarrow> dtn_bundle \<Rightarrow> dtn_bundle" where
  "os_put h b =
     primary_set DESTINATION_IS_SINGLETON (\<not> os_group h)
       (b\<lparr>p_destination := os_peer h, p_source := os_endpoint h, p_lifetime := os_lifetime h\<rparr>)"

definition os_expects :: "ordered_stream_handler \<Rightarrow> meta_bundle \<Rightarrow> bool" where
  "os_expects h m \<longleftrightarrow> \<not> (\<not> os_group h \<and> id_source m \<noteq> os_peer h)"

text \<open>\<open>get\<close> until the registration has nothing; what follows then is to wait for it.\<close>

partial_function (option) os_get ::
  "ordered_stream_handler \<Rightarrow> clock \<Rightarrow> u64 \<Rightarrow> mem_storage \<Rightarrow> registration \<Rightarrow> ((storage_error + meta_bundle) \<times> registration) option" where
  "os_get h c now st r =
     (case rg_receiveMetaBundle c now st r of
        (Inl e, r1) \<Rightarrow> Some (Inl e, r1)
      | (Inr m, r1) \<Rightarrow> if os_expects h m then Some (Inr m, r1) else os_get h c now st r1)"

section \<open>What a registration hands out\<close>

text \<open>
  Histories of a registration, the storage, and the bundles handed out so far, at the times of \<open>N\<close>: receiving, with
  and without success, subscriptions, notifications, and whatever happens to the storage.
\<close>

inductive rg_step ::
  "clock \<Rightarrow> u64 set \<Rightarrow> bool \<Rightarrow> moment set \<Rightarrow> dtn_bundle set \<Rightarrow> registration \<times> mem_storage \<times> meta_bundle list
     \<Rightarrow> registration \<times> mem_storage \<times> meta_bundle list \<Rightarrow> bool"
  for c :: clock and N :: "u64 set" and dup :: bool and M :: "moment set" and B :: "dtn_bundle set" where
  rg_step_get: "now \<in> N \<Longrightarrow> rg_receiveMetaBundle c now st r = (Inr m, r') \<Longrightarrow> rg_step c N dup M B (r, st, log) (r', st, log @ [m])"
| rg_step_none: "now \<in> N \<Longrightarrow> rg_receiveMetaBundle c now st r = (Inl e, r') \<Longrightarrow> rg_step c N dup M B (r, st, log) (r', st, log)"
| rg_step_storage: "ms_step dup M B st st' \<Longrightarrow> rg_step c N dup M B (r, st, log) (r, st', log)"
| rg_step_subscribe: "rg_step c N dup M B (r, st, log) (rg_subscribe e r, st, log)"
| rg_step_unsubscribe: "rg_step c N dup M B (r, st, log) (rg_unsubscribe e r, st, log)"
| rg_step_notify: "rg_step c N dup M B (r, st, log) (rg_notify call r, st, log)"

inductive_cases rg_stepE: "rg_step c N dup M B s s'"

definition rg_inv :: "meta_bundle set \<Rightarrow> registration \<Rightarrow> meta_bundle list \<Rightarrow> bool" where
  "rg_inv U r log \<longleftrightarrow>
     lst_inv U (rg_received r) \<and> set (log @ rg_queue r) \<subseteq> U \<and> distinct (map bid_key (log @ rg_queue r))
     \<and> bid_key ` set (lst_public (rg_received r)) = bid_key ` set (log @ rg_queue r)"

lemma lst_add_all:
  assumes U: "meta_consistent U" and "set ms \<subseteq> U" and "lst_inv U l"
  shows "lst_inv U (foldl lst_add l ms)
    \<and> bid_key ` set (lst_public (foldl lst_add l ms)) = bid_key ` set ms \<union> bid_key ` set (lst_public l)"
  using assms(2,3)
proof (induction ms arbitrary: l)
  case (Cons m ms)
  then have "m \<in> U" by simp
  note add = lst_add_inv [OF U this Cons.prems(2)]
  from Cons.IH [OF _ add(1)] Cons.prems(1) add(2) show ?case by auto
qed simp

lemma lst_expire_keeps:
  assumes "meta_consistent U" and "lst_inv U l" and "\<forall>m \<in> U. now \<le> m_expiretime m"
  shows "lst_inv U (fst (lst_expire c now l)) \<and> set (lst_public (fst (lst_expire c now l))) = set (lst_public l)"
proof (cases "clk_quality_zero c")
  case True
  then show ?thesis using assms(2) by (simp add: lst_expire_def)
next
  case False
  obtain l' events where r: "lst_expire c now l = (l', events)" by fastforce
  show ?thesis
    using lst_expire_inv(1,3) [OF assms(1,2) False r] assms(2,3) r by (auto simp: lst_inv_def)
qed

lemma query_found:
  assumes "ms_core M B st"
  shows "set (ms_query n P st) \<subseteq> {m \<in> set (ms_priority_index st). P m}" and "distinct (map bid_key (ms_query n P st))"
    and "ms_query n P st = [] \<Longrightarrow> \<forall>m \<in> set (ms_priority_index st). \<not> P m"
proof -
  have q: "ms_query n P st = (if n = 0 then filter P (ms_priority_index st) else take n (filter P (ms_priority_index st)))"
    by (simp add: ms_query_def ms_select_take)
  show "set (ms_query n P st) \<subseteq> {m \<in> set (ms_priority_index st). P m}" unfolding q by (auto dest: in_set_takeD)
  have "distinct (map bid_key (filter P (ms_priority_index st)))" using index_keys(2) [OF assms] by (simp add: distinct_map_filter)
  then show "distinct (map bid_key (ms_query n P st))" unfolding q by (simp add: take_map [symmetric])
  show "\<forall>m \<in> set (ms_priority_index st). \<not> P m" if "ms_query n P st = []"
    using that unfolding q by (auto simp: filter_empty_conv split: if_splits)
qed

lemma image_disjoint: "(\<And>m. m \<in> X \<Longrightarrow> f m \<notin> K) \<Longrightarrow> K \<inter> f ` X = {}"
  by auto

lemma rg_underflow_inv:
  assumes U: "steady M B" and st: "ms_inv M B st" and late: "\<forall>m \<in> metas M B. now \<le> m_expiretime m"
    and inv: "rg_inv (metas M B) r log" and res: "rg_underflow c now st r = (res, r')"
  shows "rg_inv (metas M B) r' log"
proof -
  define r1 where "r1 = r\<lparr>rg_received := fst (lst_expire c now (rg_received r))\<rparr>"
  define found where "found = ms_query 10 (rg_filter r1) st"
  have core: "ms_core M B st" using st by (simp add: ms_inv_def)
  note mc = steady_metas [OF U]
  have "lst_inv (metas M B) (rg_received r)" using inv by (simp add: rg_inv_def)
  note keep = lst_expire_keeps [OF mc this late, of c]
  have inv1: "rg_inv (metas M B) r1 log" using keep inv by (simp add: rg_inv_def r1_def)
  show ?thesis
  proof (cases "found = []")
    case True
    then have "r' = r1\<lparr>rg_no_more_bundles := True\<rparr>" using res by (auto simp: rg_underflow_def found_def r1_def Let_def)
    then show ?thesis using inv1 by (simp add: rg_inv_def)
  next
    case False
    then have r': "r' = r1\<lparr>rg_queue := rg_queue r1 @ found, rg_received := foldl lst_add (rg_received r1) found\<rparr>"
      using res by (auto simp: rg_underflow_def found_def r1_def Let_def)
    have idx: "set (ms_priority_index st) \<subseteq> metas M B" using core by (simp add: ms_core_def)
    then have sub: "set found \<subseteq> metas M B" using query_found(1) [OF core] unfolding found_def by blast
    have l1: "lst_inv (metas M B) (rg_received r1)" using inv1 by (simp add: rg_inv_def)
    have new: "bid_key m \<notin> bid_key ` set (lst_public (rg_received r1))" if "m \<in> set found" for m
    proof -
      have m: "m \<in> metas M B" "\<not> lst_contains (rg_received r1) m"
        using that sub query_found(1) [OF core] unfolding found_def rg_filter_def by blast+
      have "set (lst_public (rg_received r1)) \<subseteq> metas M B" using l1 by (simp add: lst_inv_def)
      from lst_contains_key [OF meta_fit [OF mc m(1) this]] m(2) show ?thesis by blast
    qed
    note add = lst_add_all [OF mc sub l1]
    have "distinct (map bid_key found)" using query_found(2) [OF core] by (simp add: found_def)
    moreover have keys: "bid_key ` set (lst_public (rg_received r1)) = bid_key ` set (log @ rg_queue r1)"
      using inv1 unfolding rg_inv_def by (elim conjE)
    have "bid_key ` set (log @ rg_queue r1) \<inter> bid_key ` set found = {}"
      unfolding keys [symmetric] using new by (rule image_disjoint)
    moreover have "distinct (map bid_key (log @ rg_queue r1))" using inv1 by (simp add: rg_inv_def)
    ultimately have "distinct (map bid_key (log @ rg_queue r1) @ map bid_key found)" by (simp only: distinct_append set_map)
    then have "distinct (map bid_key (log @ rg_queue r'))" by (simp add: r')
    moreover have "bid_key ` set (lst_public (rg_received r')) = bid_key ` set (log @ rg_queue r')"
      using conjunct2 [OF add] keys by (simp add: r' image_Un Un_assoc Un_commute Un_left_commute)
    ultimately show ?thesis using add inv1 sub unfolding rg_inv_def by (simp add: r')
  qed
qed

lemma rg_inv_pop: "rg_queue r = m # ms \<Longrightarrow> rg_inv U (r\<lparr>rg_queue := ms\<rparr>) (log @ [m]) = rg_inv U r log"
  by (simp add: rg_inv_def)

lemma rg_get_inv:
  assumes U: "steady M B" and st: "ms_inv M B st" and late: "\<forall>m \<in> metas M B. now \<le> m_expiretime m"
    and inv: "rg_inv (metas M B) r log" and res: "rg_receiveMetaBundle c now st r = (res, r')"
  shows "rg_inv (metas M B) r' (log @ (case res of Inr m \<Rightarrow> [m] | Inl _ \<Rightarrow> []))"
proof (cases "rg_queue r")
  case (Cons m ms)
  then have "res = Inr m" "r' = r\<lparr>rg_queue := ms\<rparr>" using res by (simp_all add: rg_receiveMetaBundle_def)
  then show ?thesis using inv rg_inv_pop [OF Cons] by simp
next
  case Nil
  obtain e r1 where u: "rg_underflow c now st r = (e, r1)" by fastforce
  note inv1 = rg_underflow_inv [OF U st late inv u]
  show ?thesis
  proof (cases e)
    case (Some x)
    then show ?thesis using Nil u res inv1 by (auto simp: rg_receiveMetaBundle_def)
  next
    case None
    have "rg_queue r1 \<noteq> []" using u None Nil by (auto simp: rg_underflow_def Let_def split: if_splits)
    then obtain m ms where q: "rg_queue r1 = m # ms" by (cases "rg_queue r1") auto
    have "res = Inr m" "r' = r1\<lparr>rg_queue := ms\<rparr>" using Nil u res None q by (simp_all add: rg_receiveMetaBundle_def)
    then show ?thesis using inv1 rg_inv_pop [OF q] by simp
  qed
qed

lemma rg_fields_inv:
  "rg_inv U (r\<lparr>rg_endpoints := es\<rparr>) log = rg_inv U r log" "rg_inv U (r\<lparr>rg_no_more_bundles := x\<rparr>) log = rg_inv U r log"
  "rg_inv U (r\<lparr>rg_notify_queue := ns\<rparr>) log = rg_inv U r log"
  by (simp_all add: rg_inv_def)

lemma rg_step_inv:
  assumes "rg_step c N dup M B (r, st, log) (r', st', log')" and U: "steady M B" and late: "\<forall>m \<in> metas M B. \<forall>t \<in> N. t \<le> m_expiretime m"
    and "ms_inv M B st \<and> rg_inv (metas M B) r log"
  shows "ms_inv M B st' \<and> rg_inv (metas M B) r' log'"
  using assms(1)
proof (cases rule: rg_step.cases)
  case (rg_step_get now m)
  then show ?thesis using rg_get_inv [OF U _ _ _ rg_step_get(4)] late assms(4) by fastforce
next
  case (rg_step_none now e)
  then show ?thesis using rg_get_inv [OF U _ _ _ rg_step_none(4)] late assms(4) by fastforce
next
  case rg_step_storage
  then show ?thesis using ms_step_inv [OF _ U] assms(4) by blast
qed (use assms(4) in \<open>auto simp: rg_subscribe_def rg_unsubscribe_def rg_notify_def rg_fields_inv\<close>)

lemma rg_reachable_inv:
  assumes "(rg_step c N dup M B)\<^sup>*\<^sup>* (rg_new handle no_more expiry, ms_new n, []) s" and "steady M B"
    and "\<forall>m \<in> metas M B. \<forall>t \<in> N. t \<le> m_expiretime m"
  shows "ms_inv M B (fst (snd s)) \<and> rg_inv (metas M B) (fst s) (snd (snd s))"
  using assms(1)
proof (induction rule: rtranclp_induct)
  case base
  then show ?case by (simp add: ms_inv_new rg_inv_def rg_new_def lst_inv_new) (simp add: lst_new_def)
next
  case (step y z)
  then show ?case using rg_step_inv [OF _ assms(2,3)] by (cases y, cases z) fastforce
qed

text \<open>C21: as long as no bundle expires (every time at which the registration is asked is at most every expiry time), and
  where bundles have distinct identifiers, none is mixed with a fragment of its own and each has one expiry time
  (\<open>steady\<close>), a registration hands out no bundle twice, whatever is stored, removed, subscribed and asked for in between;
  and when it says that there is none, it has handed out every stored bundle for its endpoints. Without the first
  condition \<open>_received_bundles.expire\<close> forgets a bundle that the storage may still hold.\<close>

theorem registration_once:
  assumes "(rg_step c N dup M B)\<^sup>*\<^sup>* (rg_new handle no_more expiry, ms_new n, []) (r, st, log)" and "steady M B"
    and "inj_on bundle_key B" and "\<forall>m \<in> metas M B. \<forall>t \<in> N. t \<le> m_expiretime m"
  shows "distinct (map bid_key log)
    \<and> (\<forall>now e r'. now \<in> N \<and> rg_receiveMetaBundle c now st r = (Inl e, r') \<longrightarrow>
          (\<forall>b \<in> set (ms_bundles st). rg_hasSubscribed (p_destination b) r \<longrightarrow> bundle_key b \<in> bid_key ` set log))"
proof (intro conjI allI impI ballI)
  have inv: "ms_inv M B st" "rg_inv (metas M B) r log" using rg_reachable_inv [OF assms(1,2,4)] by auto
  then show "distinct (map bid_key log)" by (simp add: rg_inv_def)
  fix now e r' b
  assume fail0: "now \<in> N \<and> rg_receiveMetaBundle c now st r = (Inl e, r')" and b: "b \<in> set (ms_bundles st)" "rg_hasSubscribed (p_destination b) r"
  have late: "\<forall>m \<in> metas M B. now \<le> m_expiretime m" using assms(4) fail0 by blast
  have fail: "rg_receiveMetaBundle c now st r = (Inl e, r')" using fail0 ..
  have core: "ms_core M B st" using inv(1) by (simp add: ms_inv_def)
  define r1 where "r1 = r\<lparr>rg_received := fst (lst_expire c now (rg_received r))\<rparr>"
  have q: "rg_queue r = []" using fail by (auto simp: rg_receiveMetaBundle_def split: list.splits)
  then have "ms_query 10 (rg_filter r1) st = []"
    using fail by (auto simp: rg_receiveMetaBundle_def rg_underflow_def r1_def Let_def split: if_splits)
  from query_found(3) [OF core this] have none: "\<not> rg_filter r1 m" if "m \<in> set (ms_priority_index st)" for m using that by blast
  have "bundle_key b \<in> bid_key ` set (ms_priority_index st)" using index_keys(1) [OF core] b(1) by blast
  then obtain m where m: "m \<in> set (ms_priority_index st)" "bid_key m = bundle_key b" by force
  then have "m \<in> metas M B" using core by (auto simp: ms_core_def)
  then obtain mo b' where b': "m = meta_at mo b'" "b' \<in> B" by (auto simp: metas_def)
  have "b \<in> B" using core b(1) by (auto simp: ms_core_def)
  then have "b' = b" using assms(3) b' m(2) by (simp add: inj_on_def)
  then have "m_destination m = p_destination b" using b'(1) by (simp add: meta_at_def meta_of_bundle_def bundle_id.defs)
  then have "lst_contains (rg_received r1) m" using none [OF m(1)] b(2) by (simp add: rg_filter_def rg_hasSubscribed_def r1_def)
  moreover have keep: "lst_inv (metas M B) (rg_received r1) \<and> set (lst_public (rg_received r1)) = set (lst_public (rg_received r))"
    using lst_expire_keeps [OF steady_metas [OF assms(2)] _ late, of "rg_received r" c] inv(2) by (simp add: rg_inv_def r1_def)
  moreover have "set (lst_public (rg_received r1)) \<subseteq> metas M B" using keep unfolding lst_inv_def by (elim conjE)
  from lst_contains_key [OF meta_fit [OF steady_metas [OF assms(2)] \<open>m \<in> metas M B\<close> this]]
  have "lst_contains (rg_received r1) m \<longleftrightarrow> bid_key m \<in> bid_key ` set (lst_public (rg_received r1))" .
  ultimately have "bid_key m \<in> bid_key ` set (lst_public (rg_received r))" by simp
  then show "bundle_key b \<in> bid_key ` set log" using inv(2) q m(2) by (simp add: rg_inv_def)
qed

text \<open>\<open>receive\<close> returns: it finds a bundle that is stored, or nothing.\<close>

theorem registration_receive:
  assumes "(ms_step dup M B)\<^sup>*\<^sup>* (ms_new n) st" and "steady M B"
  shows "\<exists>res r'. rg_receive c now st r = Some (res, r')
    \<and> (case res of Inr (m, b) \<Rightarrow> ms_get m st = Inr b | Inl e \<Rightarrow> e = NoBundleFoundException \<and> rg_queue r' = [])"
proof (induction "length (rg_queue r)" arbitrary: r)
  case 0
  have core: "ms_core M B st" using ms_reachable_inv [OF assms] by (simp add: ms_inv_def)
  define r1 where "r1 = r\<lparr>rg_received := fst (lst_expire c now (rg_received r))\<rparr>"
  have q: "rg_queue r = []" "rg_queue r1 = []" using 0 by (simp_all add: r1_def)
  show ?case
  proof (cases "ms_query 10 (rg_filter r1) st")
    case Nil
    then have "rg_receive c now st r = Some (Inl NoBundleFoundException, r1\<lparr>rg_no_more_bundles := True\<rparr>)"
      using q by (subst rg_receive.simps) (simp add: rg_receiveMetaBundle_def rg_underflow_def r1_def Let_def)
    then show ?thesis using q by simp
  next
    case (Cons m ms)
    have "m \<in> set (ms_priority_index st)" using query_found(1) [OF core, of 10 "rg_filter r1"] Cons by auto
    then have m: "m \<in> metas M B" and "bid_key m \<in> bundle_key ` set (ms_bundles st)"
      using core index_keys(1) [OF core] by (auto simp: ms_core_def)
    then obtain b where "ms_map st (bid_key m) = Some b" unfolding dom_ms_map [OF core, symmetric] by blast
    then have b: "ms_get m st = Inr b" using ms_get_map [OF core metas_fit [OF assms(2) m]] by simp
    have "fst (rg_receiveMetaBundle c now st r) = Inr m"
      using Cons q by (simp add: rg_receiveMetaBundle_def rg_underflow_def Let_def r1_def [symmetric])
    then show ?thesis
      using b by (cases "rg_receiveMetaBundle c now st r") (subst rg_receive.simps, simp)
  qed
next
  case (Suc k)
  then obtain m ms where q: "rg_queue r = m # ms" by (cases "rg_queue r") auto
  then have get: "rg_receiveMetaBundle c now st r = (Inr m, r\<lparr>rg_queue := ms\<rparr>)" by (simp add: rg_receiveMetaBundle_def)
  show ?case
  proof (cases "ms_get m st")
    case (Inl e)
    then have "rg_receive c now st r = rg_receive c now st (r\<lparr>rg_queue := ms\<rparr>)"
      using get by (subst rg_receive.simps) simp
    then show ?thesis using Suc q by simp
  next
    case (Inr b)
    then show ?thesis using get by (subst rg_receive.simps) simp
  qed
qed

definition sample_registration :: registration where
  "sample_registration = rg_subscribe (p_destination sample_bundle) (rg_new ''abc'' False 0)"

lemma sample_received_bundle:
  "case rg_receiveMetaBundle sample_clock 0 sample_storage sample_registration of
     (res, r) \<Rightarrow> res = Inr (meta_at sample_moment sample_bundle) \<and> rg_hasSubscribed (p_destination sample_bundle) r
       \<and> fst (rg_receiveMetaBundle sample_clock 0 sample_storage r) = Inl NoBundleFoundException"
proof -
  let ?m = "meta_at sample_moment sample_bundle" and ?e = "p_destination sample_bundle"
  have idx: "ms_priority_index sample_storage = [?m]"
    using arg_cong [OF sample_storage_store, of "ms_priority_index \<circ> projr"] by (simp add: ms_store_def ms_new_def sample_length Let_def)
  have dest: "m_destination ?m = ?e" by (simp add: meta_at_def meta_of_bundle_def bundle_id.defs)
  have self: "bid_eq ?m ?m" by (simp add: bid_eq_def)
  have mem: "oset_mem eid_less ?e [?e]" by (simp add: oset_mem_def eid_less_def)
  have exp: "lst_expire c now (lst_add lst_new ?m) = (lst_add lst_new ?m, [])" if "now \<le> m_expiretime ?m" for c now
    using that by (simp add: lst_expire_def lst_add_def lst_new_def)
  show ?thesis
    using idx dest self mem exp [of 0]
    by (simp add: rg_receiveMetaBundle_def rg_underflow_def ms_query_def rg_filter_def sample_registration_def rg_subscribe_def
        rg_notify_def rg_new_def lst_contains_def rg_hasSubscribed_def Let_def lst_expire_def lst_add_def lst_new_def)
qed

theorem registration_once_witness:
  "let r = snd (rg_receiveMetaBundle sample_clock 0 sample_storage sample_registration)
   in fst (rg_receiveMetaBundle sample_clock 0 sample_storage r) = Inl NoBundleFoundException
      \<and> bundle_key sample_bundle \<in> bid_key ` set [meta_at sample_moment sample_bundle]"
proof -
  let ?m = "meta_at sample_moment sample_bundle" and ?U = "metas {sample_moment} {sample_bundle}"
  let ?s = "rg_step sample_clock {0} False {sample_moment} {sample_bundle}"
  define r where "r = snd (rg_receiveMetaBundle sample_clock 0 sample_storage sample_registration)"
  have "bundle_key sample_bundle \<notin> dom (ms_map (ms_new 1000))" by (simp add: ms_map_def ms_new_def)
  then have "ms_step False {sample_moment} {sample_bundle} (ms_new 1000) sample_storage"
    using ms_step_store [OF _ _ _ sample_storage_store] by simp
  then have "?s (rg_new ''abc'' False 0, ms_new 1000, []) (rg_new ''abc'' False 0, sample_storage, [])" by (rule rg_step_storage)
  moreover have "?s (rg_new ''abc'' False 0, sample_storage, []) (sample_registration, sample_storage, [])"
    unfolding sample_registration_def by (rule rg_step_subscribe)
  moreover have "rg_receiveMetaBundle sample_clock 0 sample_storage sample_registration = (Inr ?m, r)"
    unfolding r_def using sample_received_bundle by (simp add: prod_eq_iff split: prod.splits)
  from rg_step_get [OF _ this, of "{0}" False "{sample_moment}" "{sample_bundle}" "[]"]
  have "?s (sample_registration, sample_storage, []) (r, sample_storage, [?m])" by simp
  ultimately have reach: "?s\<^sup>*\<^sup>* (rg_new ''abc'' False 0, ms_new 1000, []) (r, sample_storage, [?m])" by (meson converse_rtranclp_into_rtranclp rtranclp.rtrancl_refl)
  have fail: "fst (rg_receiveMetaBundle sample_clock 0 sample_storage r) = Inl NoBundleFoundException"
    and "rg_hasSubscribed (p_destination sample_bundle) r"
    unfolding r_def using sample_received_bundle by (simp_all split: prod.splits)
  then have "bundle_key sample_bundle \<in> bid_key ` set [?m]"
    using registration_once [OF reach sample_steady] fail sample_storage_holds(1)
    by (cases "rg_receiveMetaBundle sample_clock 0 sample_storage r") (auto simp: metas_def)
  then show ?thesis using fail by (simp add: Let_def r_def)
qed

theorem registration_receive_witness:
  "\<exists>res r'. rg_receive sample_clock 0 sample_storage sample_registration = Some (res, r')
    \<and> (case res of Inr (m, b) \<Rightarrow> ms_get m sample_storage = Inr b | Inl e \<Rightarrow> e = NoBundleFoundException \<and> rg_queue r' = [])"
  by (rule registration_receive [OF sample_storage_reached sample_steady])

section \<open>The life of registrations\<close>

definition rg_kept :: "u64 \<Rightarrow> registration \<Rightarrow> bool" where
  "rg_kept now r \<longleftrightarrow> \<not> rg_detached r \<or> rg_persistent r \<and> now < rg_expiry r"

lemma detached_again: "rg_detached r \<Longrightarrow> r\<lparr>rg_detached := True\<rparr> = r"
  by simp

lemma api_collect_filter: "api_collect now rs = filter (rg_kept now) rs"
  by (induction rs) (auto simp: rg_kept_def rg_attach_def rg_isPersistent_def rg_detach_def detached_again Let_def)

lemma Min_insert_insert: "finite X \<Longrightarrow> Min (insert b (insert t X)) = Min (insert (min b t) X)"
  by (cases "X = {}") (simp_all add: min.assoc)

lemma api_next_expiry_min:
  assumes "\<forall>r \<in> set rs. rg_kept now r"
  shows "api_next_expiry now best rs
    = (let ts = map (\<lambda>r. rg_expiry r - now) (filter rg_detached rs)
       in if best = None \<and> ts = [] then None else Some (Min (set_option best \<union> set ts)))"
  using assms
proof (induction rs arbitrary: best)
  case Nil
  then show ?case by (cases best) simp_all
next
  case (Cons r rs)
  show ?case
  proof (cases "rg_detached r")
    case False
    then show ?thesis using Cons by (simp add: rg_attach_def)
  next
    case True
    let ?t = "rg_expiry r - now" and ?ts = "map (\<lambda>r. rg_expiry r - now) (filter rg_detached rs)"
    let ?best = "case best of None \<Rightarrow> Some ?t | Some b \<Rightarrow> if ?t < b then Some ?t else Some b"
    have "rg_persistent r" "\<not> rg_expiry r \<le> now" using Cons.prems True by (auto simp: rg_kept_def)
    then have "api_next_expiry now best (r # rs) = api_next_expiry now ?best rs"
      using True by (simp add: rg_attach_def rg_isPersistent_def Let_def)
    also have "\<dots> = Some (Min (set_option ?best \<union> set ?ts))"
      using Cons by (simp add: Let_def split: option.splits)
    also have "Min (set_option ?best \<union> set ?ts) = Min (set_option best \<union> insert ?t (set ?ts))"
    proof (cases best)
      case (Some b)
      have "?best = Some (min b ?t)" using Some by (auto simp: min_def)
      then have "set_option ?best \<union> set ?ts = insert (min b ?t) (set ?ts)" by simp
      moreover have "set_option best \<union> insert ?t (set ?ts) = insert b (insert ?t (set ?ts))" using Some by auto
      ultimately show ?thesis using Min_insert_insert [of "set ?ts" b ?t] by (simp only: finite_set)
    qed simp
    finally show ?thesis using True by (simp add: Let_def)
  qed
qed

text \<open>The garbage collector removes exactly the registrations that no client holds and that are not persistent
  any more, and asks to be called when the next of the others expires, or not at all.\<close>

theorem registrations_collected:
  "snd (api_timeout now rs) = filter (rg_kept now) rs
   \<and> fst (api_timeout now rs)
      = (let ts = map (\<lambda>r. rg_expiry r - now) (filter rg_detached (filter (rg_kept now) rs)) in if ts = [] then None else Some (Min (set ts)))"
  using api_next_expiry_min [of "filter (rg_kept now) rs" now None]
  by (simp add: api_timeout_def api_collect_filter Let_def)

text \<open>A persistent registration that its client lets go is found again under its handle, with its endpoints, its
  queue and what it has handed out, until it expires.\<close>

theorem registration_reattached:
  assumes "distinct (map rg_handle rs)" and "r \<in> set rs" and "rg_persistent r" and "now < rg_expiry r" and "now' < rg_expiry r"
  shows "fst (api_getRegistration now' (rg_handle r) (api_freeRegistration now r rs)) = Inr (r\<lparr>rg_detached := False\<rparr>)"
proof -
  have "fst (rg_isPersistent now r)" using assms(3,4) by (simp add: rg_isPersistent_def Let_def)
  then have free: "api_freeRegistration now r rs = map (\<lambda>x. if rg_handle x = rg_handle r then rg_detach x else x) rs"
    by (simp add: api_freeRegistration_def)
  have "fst (api_getRegistration now' (rg_handle r) (map (\<lambda>x. if rg_handle x = rg_handle r then rg_detach x else x) xs))
      = Inr (r\<lparr>rg_detached := False\<rparr>)" if "distinct (map rg_handle xs)" "r \<in> set xs" for xs
    using that
  proof (induction xs)
    case (Cons x xs)
    show ?case
    proof (cases "rg_handle x = rg_handle r")
      case True
      then have "x = r" using Cons.prems by force
      then show ?thesis using assms(3,5) by (simp add: rg_detach_def rg_isPersistent_def rg_attach_def Let_def)
    next
      case False
      then have "r \<in> set xs" using Cons.prems by auto
      then show ?thesis using Cons False by (auto split: prod.splits)
    qed
  qed simp
  then show ?thesis using assms(1,2) free by simp
qed

end
