(* ===== verification/Events.thy ===== *)
theory Events
  imports IbrPrelude "HOL-Library.Multiset"
begin

text \<open>
  The event switch (\<open>daemon/src/core/EventSwitch.cpp\<close>, \<open>daemon/src/core/Event.cpp\<close>): events are objects with a count of
  references, a raised event becomes a task for each of its receivers in one of three queues, and workers take the tasks.
  A step is what a thread does under one lock; every order of steps is an interleaving.
\<close>

section \<open>Events\<close>

record event_object =
  eo_name :: string
  eo_prio :: int
  eo_shutdown :: bool
  eo_ref_count :: nat
  eo_auto_delete :: bool
  eo_processed :: bool

text \<open>
  An event that is just made, by \<open>raiseEvent\<close> with the flag \<open>block_until_processed\<close>. The constructor leaves the count
  unset; it is written before it is read.
\<close>

definition ev_new :: "string \<Rightarrow> int \<Rightarrow> bool \<Rightarrow> bool \<Rightarrow> event_object" where
  "ev_new name prio shutdown blocking =
     \<lparr>eo_name = name, eo_prio = prio, eo_shutdown = shutdown, eo_ref_count = 0, eo_auto_delete = (\<not> blocking),
      eo_processed = False\<rparr>"

definition ev_set_ref_count :: "nat \<Rightarrow> event_object \<Rightarrow> event_object" where
  "ev_set_ref_count c ev = ev\<lparr>eo_ref_count := c\<rparr>"

text \<open>\<open>decrement_ref_count\<close>: \<open>None\<close> is the exception, the flag tells to delete the event.\<close>

definition ev_decrement_ref_count :: "event_object \<Rightarrow> (bool \<times> event_object) option" where
  "ev_decrement_ref_count ev =
     (if eo_ref_count ev = 0 then None
      else let n = eo_ref_count ev - 1
           in Some (eo_auto_delete ev \<and> n = 0, ev\<lparr>eo_ref_count := n, eo_processed := (n = 0)\<rparr>))"

section \<open>The switch\<close>

text \<open>
  Receivers and events are addresses; \<open>es_events\<close> has the events that are not deleted. \<open>es_active\<close> holds the tasks the
  workers execute, its length is \<open>_active_worker\<close>. \<open>es_raising\<close> is the rest of the loop of a thread in \<open>raiseEvent\<close>,
  which holds the lock of the receivers.
\<close>

type_synonym task = "nat \<times> nat"

record event_switch =
  es_list :: "string \<Rightarrow> nat list option"
  es_running :: bool
  es_queue :: "task list"
  es_prio_queue :: "task list"
  es_low_queue :: "task list"
  es_active :: "task list"
  es_pause :: bool
  es_raising :: "(nat \<times> nat list) option"
  es_events :: "nat \<Rightarrow> event_object option"

definition es_new :: event_switch where
  "es_new =
     \<lparr>es_list = (\<lambda>_. None), es_running = True, es_queue = [], es_prio_queue = [], es_low_queue = [], es_active = [],
      es_pause = False, es_raising = None, es_events = (\<lambda>_. None)\<rparr>"

definition es_registerEventReceiver :: "string \<Rightarrow> nat \<Rightarrow> event_switch \<Rightarrow> event_switch" where
  "es_registerEventReceiver name r s =
     s\<lparr>es_list := (es_list s)(name \<mapsto> (case es_list s name of None \<Rightarrow> [] | Some rs \<Rightarrow> rs) @ [r])\<rparr>"

text \<open>\<open>raiseEvent\<close> up to its loop, with an event that is not in the list of a deleted one.\<close>

definition es_raiseEvent :: "nat \<Rightarrow> event_object \<Rightarrow> event_switch \<Rightarrow> event_switch" where
  "es_raiseEvent e ev s =
     (let s0 = s\<lparr>es_events := (es_events s)(e \<mapsto> ev)\<rparr>
      in if \<not> es_running s then s0
         else
           let s1 = (if eo_shutdown ev then s0\<lparr>es_running := False\<rparr> else s0)
           in case es_list s1 (eo_name ev) of
                None \<Rightarrow> s1
              | Some rs \<Rightarrow> s1\<lparr>es_events := (es_events s1)(e \<mapsto> ev_set_ref_count (length rs) ev), es_raising := Some (e, rs)\<rparr>)"

datatype es_result = Proceeds event_switch | Waits | Crashes

text \<open>A turn of the loop: a task for the next receiver. The priority is read from the event, which must be there.\<close>

definition es_push :: "event_switch \<Rightarrow> es_result" where
  "es_push s =
     (case es_raising s of
        None \<Rightarrow> Waits
      | Some (e, []) \<Rightarrow> Proceeds (s\<lparr>es_raising := None\<rparr>)
      | Some (e, r # rs) \<Rightarrow>
          (case es_events s e of
             None \<Rightarrow> Crashes
           | Some ev \<Rightarrow>
               (let s1 = s\<lparr>es_raising := Some (e, rs)\<rparr>
                in if eo_prio ev > 0 then Proceeds (s1\<lparr>es_prio_queue := es_prio_queue s @ [(r, e)]\<rparr>)
                   else if eo_prio ev < 0 then Proceeds (s1\<lparr>es_low_queue := es_low_queue s @ [(r, e)]\<rparr>)
                   else Proceeds (s1\<lparr>es_queue := es_queue s @ [(r, e)]\<rparr>))))"

text \<open>The first part of \<open>process\<close>: the task that is taken, and executed next; \<open>None\<close> waits for one.\<close>

definition es_take :: "event_switch \<Rightarrow> (task \<times> event_switch) option" where
  "es_take s =
     (case es_prio_queue s of
        t # ts \<Rightarrow> Some (t, s\<lparr>es_prio_queue := ts, es_active := es_active s @ [t]\<rparr>)
      | [] \<Rightarrow>
          (case es_queue s of
             t # ts \<Rightarrow> Some (t, s\<lparr>es_queue := ts, es_active := es_active s @ [t]\<rparr>)
           | [] \<Rightarrow>
               (case es_low_queue s of
                  t # ts \<Rightarrow> Some (t, s\<lparr>es_low_queue := ts, es_active := es_active s @ [t]\<rparr>)
                | [] \<Rightarrow> None)))"

text \<open>\<open>Task::~Task\<close>.\<close>

definition es_delete_task :: "task \<Rightarrow> event_switch \<Rightarrow> es_result" where
  "es_delete_task t s =
     (case es_events s (snd t) of
        None \<Rightarrow> Crashes
      | Some ev \<Rightarrow>
          (case ev_decrement_ref_count ev of
             None \<Rightarrow> Crashes
           | Some (del, ev1) \<Rightarrow> Proceeds (s\<lparr>es_events := (es_events s)(snd t := (if del then None else Some ev1))\<rparr>)))"

text \<open>The second part of \<open>process\<close>, when the receiver is done with the event.\<close>

definition es_finish :: "task \<Rightarrow> event_switch \<Rightarrow> es_result" where
  "es_finish t s = es_delete_task t (s\<lparr>es_active := remove1 t (es_active s)\<rparr>)"

definition es_unlist :: "string \<Rightarrow> nat \<Rightarrow> event_switch \<Rightarrow> event_switch" where
  "es_unlist name r s =
     s\<lparr>es_list := (es_list s)(name \<mapsto> remove1 r (case es_list s name of None \<Rightarrow> [] | Some rs \<Rightarrow> rs))\<rparr>"

definition es_freeze :: "nat \<Rightarrow> event_switch \<Rightarrow> event_switch" where
  "es_freeze r s = s\<lparr>es_queue := filter (\<lambda>t. fst t \<noteq> r) (es_queue s)\<rparr>"

text \<open>\<open>unregister\<close> as a whole, in a state in which no worker executes a task.\<close>

definition es_unregister :: "string \<Rightarrow> nat \<Rightarrow> event_switch \<Rightarrow> event_switch" where
  "es_unregister name r s = (es_freeze r ((es_unlist name r s)\<lparr>es_pause := True\<rparr>))\<lparr>es_pause := False\<rparr>"

section \<open>Interleavings\<close>

text \<open>
  The steps of the threads. A step that would have to wait leaves the state as it is. \<open>Reap\<close> is the thread that raised an
  event and waits until it is processed.
\<close>

datatype es_action =
    Register string nat
  | Raise nat string int bool bool
  | Push
  | Take
  | Finish task
  | Unlist string nat
  | Pause
  | Freeze nat
  | Unpause
  | Reap nat

fun es_do :: "es_action \<Rightarrow> event_switch \<Rightarrow> es_result" where
  "es_do (Register name r) s = (if es_raising s \<noteq> None then Waits else Proceeds (es_registerEventReceiver name r s))"
| "es_do (Raise e name prio shutdown blocking) s =
     (if es_raising s \<noteq> None \<or> es_events s e \<noteq> None then Waits
      else Proceeds (es_raiseEvent e (ev_new name prio shutdown blocking) s))"
| "es_do Push s = es_push s"
| "es_do Take s = (case es_take s of None \<Rightarrow> Waits | Some (t, s1) \<Rightarrow> Proceeds s1)"
| "es_do (Finish t) s = (if t \<in> set (es_active s) then es_finish t s else Waits)"
| "es_do (Unlist name r) s = (if es_raising s \<noteq> None then Waits else Proceeds (es_unlist name r s))"
| "es_do Pause s = Proceeds (s\<lparr>es_pause := True\<rparr>)"
| "es_do (Freeze r) s = (if es_pause s then Proceeds (es_freeze r s) else Waits)"
| "es_do Unpause s = Proceeds (s\<lparr>es_pause := False\<rparr>)"
| "es_do (Reap e) s =
     (case es_events s e of
        None \<Rightarrow> Waits
      | Some ev \<Rightarrow>
          if eo_auto_delete ev \<or> \<not> eo_processed ev then Waits else Proceeds (s\<lparr>es_events := (es_events s)(e := None)\<rparr>))"

fun es_run :: "es_action list \<Rightarrow> event_switch \<Rightarrow> es_result" where
  "es_run [] s = Proceeds s"
| "es_run (a # as) s =
     (case es_do a s of Proceeds s1 \<Rightarrow> es_run as s1 | Waits \<Rightarrow> es_run as s | Crashes \<Rightarrow> Crashes)"

section \<open>References\<close>

text \<open>The tasks that are still to be made, that wait in a queue, and that are executed.\<close>

definition es_unmade :: "event_switch \<Rightarrow> task multiset" where
  "es_unmade s = (case es_raising s of None \<Rightarrow> {#} | Some (e, rs) \<Rightarrow> mset (map (\<lambda>r. (r, e)) rs))"

definition es_waiting :: "event_switch \<Rightarrow> task multiset" where
  "es_waiting s = mset (es_prio_queue s) + mset (es_queue s) + mset (es_low_queue s)"

definition es_tasks :: "event_switch \<Rightarrow> task multiset" where
  "es_tasks s = es_unmade s + es_waiting s + mset (es_active s)"

definition es_refs :: "nat \<Rightarrow> task multiset \<Rightarrow> nat" where
  "es_refs e T = size (filter_mset (\<lambda>t. snd t = e) T)"

definition ev_covers :: "nat \<Rightarrow> event_object option \<Rightarrow> bool" where
  "ev_covers n x \<longleftrightarrow>
     (case x of None \<Rightarrow> n = 0 | Some ev \<Rightarrow> n \<le> eo_ref_count ev \<and> (eo_processed ev \<longrightarrow> eo_ref_count ev = 0))"

definition es_inv :: "event_switch \<Rightarrow> bool" where
  "es_inv s \<longleftrightarrow> (\<forall>e. ev_covers (es_refs e (es_tasks s)) (es_events s e))"

lemma es_refs_simps [simp]:
  "es_refs e {#} = 0"
  "es_refs e (add_mset t T) = (if snd t = e then Suc (es_refs e T) else es_refs e T)"
  "es_refs e (S + T) = es_refs e S + es_refs e T"
  by (auto simp: es_refs_def)

lemma es_refs_in: "t \<in># T \<Longrightarrow> es_refs (snd t) T \<noteq> 0"
  by (induction T) auto

lemma ev_covers_less: "ev_covers n x \<Longrightarrow> m \<le> n \<Longrightarrow> ev_covers m x"
  by (auto simp: ev_covers_def split: option.splits)

lemma es_refs_mono: "T \<subseteq># S \<Longrightarrow> es_refs e T \<le> es_refs e S"
  by (auto simp: es_refs_def intro: size_mset_mono multiset_filter_mono)

text \<open>Fewer tasks for the same events keep the invariant.\<close>

lemma es_inv_fewer:
  assumes "es_inv s" and "es_tasks s1 \<subseteq># es_tasks s" and "es_events s1 = es_events s"
  shows "es_inv s1"
  using assms es_refs_mono [OF assms(2)] ev_covers_less by (fastforce simp: es_inv_def)

lemma es_raise_refs [simp]: "es_refs e (image_mset (\<lambda>r. (r, e')) (mset rs)) = (if e = e' then length rs else 0)"
  by (induction rs) auto

lemma es_tasks_raise:
  assumes "es_raising s = None" and "es_raiseEvent e ev s = s1"
  shows "es_tasks s1 = es_tasks s + es_unmade s1"
  using assms by (auto simp: es_raiseEvent_def es_tasks_def es_unmade_def es_waiting_def Let_def split: option.splits)

lemma es_inv_raise:
  assumes "es_inv s" and "es_raising s = None" and "es_events s e = None" and "ev = ev_new name prio shutdown blocking"
  shows "es_inv (es_raiseEvent e ev s)"
proof -
  have none: "es_refs e (es_tasks s) = 0" using assms(1,3) by (auto simp: es_inv_def ev_covers_def dest: spec [of _ e])
  let ?s = "es_raiseEvent e ev s"
  have tasks: "es_tasks ?s = es_tasks s + es_unmade ?s" by (rule es_tasks_raise [OF assms(2) refl])
  have "ev_covers (es_refs f (es_tasks s) + es_refs f (es_unmade ?s)) (es_events ?s f)" for f
  proof (cases "f = e")
    case True
    then show ?thesis
      using none assms(2,4)
      by (auto simp: es_raiseEvent_def es_unmade_def ev_covers_def ev_set_ref_count_def ev_new_def Let_def
          split: option.splits)
  next
    case False
    then have "es_events ?s f = es_events s f" "es_refs f (es_unmade ?s) = 0"
      using assms(2) by (auto simp: es_raiseEvent_def es_unmade_def Let_def split: option.splits)
    then show ?thesis using assms(1) by (simp add: es_inv_def)
  qed
  then show ?thesis by (simp add: es_inv_def tasks)
qed

lemma es_push_step:
  assumes "es_inv s"
  shows "es_push s = Waits \<or> (\<exists>s1. es_push s = Proceeds s1 \<and> es_tasks s1 = es_tasks s \<and> es_events s1 = es_events s)"
proof (cases "es_raising s")
  case (Some x)
  obtain e rs where x: "x = (e, rs)" by (cases x)
  show ?thesis
  proof (cases rs)
    case Nil
    then show ?thesis using Some x by (simp add: es_push_def es_tasks_def es_unmade_def es_waiting_def)
  next
    case (Cons r rs')
    then have "es_refs e (es_tasks s) \<noteq> 0" using Some x by (simp add: es_tasks_def es_unmade_def)
    then obtain ev where "es_events s e = Some ev"
      using assms by (cases "es_events s e") (auto simp: es_inv_def ev_covers_def dest: spec [of _ e])
    then show ?thesis
      using Some x Cons by (simp add: es_push_def es_tasks_def es_unmade_def es_waiting_def Let_def)
  qed
qed (simp add: es_push_def)

lemma es_take_step:
  assumes "es_take s = Some (t, s1)"
  shows "es_tasks s1 = es_tasks s \<and> es_events s1 = es_events s \<and> es_waiting s = add_mset t (es_waiting s1)
    \<and> es_raising s1 = es_raising s"
  using assms by (auto simp: es_take_def es_tasks_def es_unmade_def es_waiting_def split: list.splits)

lemma ev_covers_decrement:
  assumes "ev_covers (Suc n) (Some ev)"
  shows "\<exists>del ev1. ev_decrement_ref_count ev = Some (del, ev1) \<and> ev_covers n (if del then None else Some ev1)"
  using assms by (auto simp: ev_covers_def ev_decrement_ref_count_def Let_def)

lemma es_finish_step:
  assumes inv: "es_inv s" and t: "t \<in> set (es_active s)"
  shows "\<exists>s1. es_finish t s = Proceeds s1 \<and> es_inv s1 \<and> es_waiting s1 = es_waiting s \<and> es_raising s1 = es_raising s"
proof -
  let ?s = "s\<lparr>es_active := remove1 t (es_active s)\<rparr>" and ?e = "snd t"
  have tasks: "es_tasks s = add_mset t (es_tasks ?s)"
    using t by (simp add: es_tasks_def es_unmade_def es_waiting_def)
  have "ev_covers (Suc (es_refs ?e (es_tasks ?s))) (es_events s ?e)"
    using inv tasks by (auto simp: es_inv_def dest: spec [of _ ?e])
  then obtain ev where ev: "es_events s ?e = Some ev" "ev_covers (Suc (es_refs ?e (es_tasks ?s))) (Some ev)"
    by (cases "es_events s ?e") (auto simp: ev_covers_def)
  from ev_covers_decrement [OF ev(2)] obtain del ev1
    where dec: "ev_decrement_ref_count ev = Some (del, ev1)"
      and cov: "ev_covers (es_refs ?e (es_tasks ?s)) (if del then None else Some ev1)" by blast
  let ?s1 = "?s\<lparr>es_events := (es_events s)(?e := (if del then None else Some ev1))\<rparr>"
  have same: "es_tasks ?s1 = es_tasks ?s" by (simp add: es_tasks_def es_unmade_def es_waiting_def)
  have "ev_covers (es_refs f (es_tasks ?s1)) (es_events ?s1 f)" for f
  proof (cases "f = ?e")
    case True
    then show ?thesis using cov by (simp add: same)
  next
    case False
    then show ?thesis using inv tasks by (auto simp: same es_inv_def dest: spec [of _ f])
  qed
  then have "es_inv ?s1" by (simp add: es_inv_def)
  moreover have "es_finish t s = Proceeds ?s1" using ev(1) dec by (simp add: es_finish_def es_delete_task_def)
  moreover have "es_waiting ?s1 = es_waiting s" by (simp add: es_waiting_def)
  ultimately show ?thesis by (intro exI [of _ ?s1]) simp
qed

lemma es_reap_inv:
  assumes inv: "es_inv s" and "es_events s e = Some ev" "eo_processed ev"
  shows "es_inv (s\<lparr>es_events := (es_events s)(e := None)\<rparr>)"
proof -
  let ?s = "s\<lparr>es_events := (es_events s)(e := None)\<rparr>"
  have same: "es_tasks ?s = es_tasks s" by (simp add: es_tasks_def es_unmade_def es_waiting_def)
  have "ev_covers (es_refs f (es_tasks s)) (es_events ?s f)" for f
    using assms by (cases "f = e") (auto simp: es_inv_def ev_covers_def dest: spec [of _ f])
  then show ?thesis by (simp add: es_inv_def same)
qed

lemma es_freeze_tasks: "es_tasks (es_freeze r s) \<subseteq># es_tasks s"
  by (simp add: es_tasks_def es_unmade_def es_waiting_def es_freeze_def)

lemma es_do_inv:
  assumes "es_inv s"
  shows "case es_do a s of Proceeds s1 \<Rightarrow> es_inv s1 | Waits \<Rightarrow> True | Crashes \<Rightarrow> False"
proof (cases a)
  case (Raise e name prio shutdown blocking)
  then show ?thesis using es_inv_raise [OF assms _ _ refl, of e name prio shutdown blocking] by (cases "es_raising s") auto
next
  case Push
  then show ?thesis using es_push_step [OF assms] assms es_inv_fewer by auto
next
  case Take
  then show ?thesis using assms es_take_step [of s] es_inv_fewer by (auto split: option.splits)
next
  case (Finish t)
  then show ?thesis using es_finish_step [OF assms, of t] by auto
next
  case (Freeze r)
  have "es_inv (es_freeze r s)" by (rule es_inv_fewer [OF assms es_freeze_tasks]) (simp add: es_freeze_def)
  then show ?thesis using Freeze by simp
next
  case (Reap e)
  then show ?thesis using es_reap_inv [OF assms] by (auto split: option.splits)
qed (use assms in \<open>auto intro: es_inv_fewer simp: es_registerEventReceiver_def es_unlist_def es_tasks_def es_unmade_def
    es_waiting_def\<close>)

lemma es_run_inv: "es_inv s \<Longrightarrow> \<exists>s1. es_run as s = Proceeds s1 \<and> es_inv s1"
proof (induction as arbitrary: s)
  case (Cons a as)
  then show ?case using es_do_inv [OF Cons.prems, of a] by (auto split: es_result.splits)
qed simp

lemma es_inv_new: "es_inv es_new"
  by (simp add: es_inv_def es_new_def es_tasks_def es_unmade_def es_waiting_def ev_covers_def)

text \<open>C17: In no order of the steps of the threads is an event used after it is deleted, or its count of references
  decremented at zero: every task that is executed has its event, and the switch goes on.\<close>

theorem events_not_dangling:
  "\<exists>s. es_run as es_new = Proceeds s \<and> list_all (\<lambda>t. es_events s (snd t) \<noteq> None) (es_active s @ es_prio_queue s @ es_queue s @ es_low_queue s)"
proof -
  obtain s where run: "es_run as es_new = Proceeds s" "es_inv s" using es_run_inv [OF es_inv_new] by blast
  have "es_events s (snd t) \<noteq> None" if "t \<in># es_tasks s" for t
  proof -
    have "ev_covers (es_refs (snd t) (es_tasks s)) (es_events s (snd t))" using run(2) by (simp add: es_inv_def)
    then show ?thesis using es_refs_in [OF that] by (cases "es_events s (snd t)") (auto simp: ev_covers_def)
  qed
  then show ?thesis using run(1) by (auto simp: list_all_iff es_tasks_def es_waiting_def)
qed

section \<open>Deliveries\<close>

text \<open>
  What the steps do to the tasks, told by the source: the tasks a raise makes, the task a worker takes, and the tasks
  \<open>unregister\<close> takes off the queue.
\<close>

record es_history =
  eh_raised :: "task multiset"
  eh_called :: "task multiset"
  eh_dropped :: "task multiset"

definition eh_none :: es_history where
  "eh_none = \<lparr>eh_raised = {#}, eh_called = {#}, eh_dropped = {#}\<rparr>"

text \<open>The receivers an event is for: those registered for its name when it is raised, if the switch is running.\<close>

definition es_receivers :: "string \<Rightarrow> event_switch \<Rightarrow> nat list" where
  "es_receivers name s = (if es_running s then (case es_list s name of None \<Rightarrow> [] | Some rs \<Rightarrow> rs) else [])"

fun es_note :: "es_action \<Rightarrow> event_switch \<Rightarrow> es_history \<Rightarrow> es_history" where
  "es_note (Raise e name prio shutdown blocking) s h =
     (if es_raising s \<noteq> None \<or> es_events s e \<noteq> None then h
      else h\<lparr>eh_raised := eh_raised h + {#(r, e). r \<in># mset (es_receivers name s)#}\<rparr>)"
| "es_note Take s h = (case es_take s of None \<Rightarrow> h | Some (t, s1) \<Rightarrow> h\<lparr>eh_called := add_mset t (eh_called h)\<rparr>)"
| "es_note (Freeze r) s h =
     (if es_pause s then h\<lparr>eh_dropped := eh_dropped h + mset (filter (\<lambda>t. fst t = r) (es_queue s))\<rparr> else h)"
| "es_note _ s h = h"

fun es_trace :: "es_action list \<Rightarrow> event_switch \<Rightarrow> es_history \<Rightarrow> es_history" where
  "es_trace [] s h = h"
| "es_trace (a # as) s h =
     es_trace as (case es_do a s of Proceeds s1 \<Rightarrow> s1 | _ \<Rightarrow> s) (es_note a s h)"

definition eh_balance :: "event_switch \<Rightarrow> es_history \<Rightarrow> bool" where
  "eh_balance s h \<longleftrightarrow> eh_raised h = eh_called h + eh_dropped h + es_unmade s + es_waiting s"

lemma es_raise_unmade:
  assumes "es_raising s = None"
  shows "es_unmade (es_raiseEvent e (ev_new name prio shutdown blocking) s) = {#(r, e). r \<in># mset (es_receivers name s)#}"
  using assms by (auto simp: es_raiseEvent_def es_unmade_def es_receivers_def ev_new_def Let_def split: option.splits)

lemma es_raise_waiting: "es_waiting (es_raiseEvent e ev s) = es_waiting s"
  by (simp add: es_raiseEvent_def es_waiting_def Let_def split: option.splits)

lemma es_push_waiting:
  "es_push s = Proceeds s1 \<Longrightarrow> es_unmade s1 + es_waiting s1 = es_unmade s + es_waiting s"
  by (auto simp: es_push_def es_unmade_def es_waiting_def Let_def split: option.splits list.splits if_splits)

lemma es_do_balance:
  assumes inv: "es_inv s" and bal: "eh_balance s h" and "es_do a s = Proceeds s1"
  shows "eh_balance s1 (es_note a s h)"
proof (cases a)
  case (Raise e name prio shutdown blocking)
  then have "es_raising s = None" "es_events s e = None"
    and s1: "s1 = es_raiseEvent e (ev_new name prio shutdown blocking) s"
    using assms(3) by (cases "es_raising s"; auto split: if_splits)+
  then show ?thesis
    using bal Raise es_raise_unmade [of s e name prio shutdown blocking]
    by (simp add: eh_balance_def es_raise_waiting) (simp add: es_unmade_def)
next
  case Push
  then show ?thesis using bal assms(3) es_push_waiting [of s s1] by (simp add: eh_balance_def add.assoc)
next
  case Take
  then obtain t where "es_take s = Some (t, s1)" using assms(3) by (auto split: option.splits)
  then show ?thesis using Take bal es_take_step [of s t s1] by (simp add: eh_balance_def es_unmade_def)
next
  case (Finish t)
  then show ?thesis
    using bal assms(3) es_finish_step [OF inv, of t] by (auto simp: eh_balance_def es_unmade_def split: if_splits)
next
  case (Freeze r)
  then have "es_pause s" "s1 = es_freeze r s" using assms(3) by (auto split: if_splits)
  moreover have "mset (es_queue s) = mset (filter (\<lambda>t. fst t = r) (es_queue s)) + mset (filter (\<lambda>t. fst t \<noteq> r) (es_queue s))"
    by (simp flip: multiset_partition)
  ultimately show ?thesis
    using Freeze bal by (simp add: eh_balance_def es_freeze_def es_unmade_def es_waiting_def)
qed (use assms in \<open>auto simp: eh_balance_def es_registerEventReceiver_def es_unlist_def es_unmade_def es_waiting_def
    split: if_splits option.splits\<close>)

lemma es_do_waits: "es_do a s = Waits \<Longrightarrow> es_note a s h = h"
  by (cases a) (auto split: if_splits option.splits)

lemma es_trace_balance:
  assumes "es_inv s" and "eh_balance s h" and "es_run as s = Proceeds s1"
  shows "eh_balance s1 (es_trace as s h)"
  using assms
proof (induction as arbitrary: s h)
  case (Cons a as)
  then show ?case
    using es_do_inv [OF Cons.prems(1), of a] es_do_balance [OF Cons.prems(1,2), of a] es_do_waits [of a s h]
    by (cases "es_do a s") auto
qed simp

lemma es_balance:
  assumes "es_run as es_new = Proceeds s"
  shows "eh_balance s (es_trace as es_new eh_none)"
  by (rule es_trace_balance [OF es_inv_new _ assms]) (simp add: eh_balance_def eh_none_def es_new_def es_unmade_def es_waiting_def)

text \<open>Steps one after the other.\<close>

lemma es_run_append: "es_run as s = Proceeds s1 \<Longrightarrow> es_run (as @ bs) s = es_run bs s1"
  by (induction as arbitrary: s) (auto split: es_result.splits)

lemma es_trace_append: "es_run as s = Proceeds s1 \<Longrightarrow> es_trace (as @ bs) s h = es_trace bs s1 (es_trace as s h)"
  by (induction as arbitrary: s h) (auto split: es_result.splits)

lemma es_note_push_take:
  assumes "a \<in> {Push, Take}"
  shows "eh_raised (es_note a s h) = eh_raised h \<and> eh_dropped (es_note a s h) = eh_dropped h"
  using assms by (auto split: option.splits)

lemma es_trace_push_take:
  "set bs \<subseteq> {Push, Take} \<Longrightarrow> eh_raised (es_trace bs s h) = eh_raised h \<and> eh_dropped (es_trace bs s h) = eh_dropped h"
proof (induction bs arbitrary: s h)
  case (Cons a bs)
  then show ?case using es_note_push_take [of a s h] by simp
qed simp

text \<open>Only receivers that are unregistered lose tasks.\<close>

lemma es_trace_dropped:
  "fst ` set_mset (eh_dropped (es_trace as s h)) \<subseteq> fst ` set_mset (eh_dropped h) \<union> {r. Freeze r \<in> set as}"
proof (induction as arbitrary: s h)
  case (Cons a as)
  have "fst ` set_mset (eh_dropped (es_note a s h)) \<subseteq> fst ` set_mset (eh_dropped h) \<union> {r. Freeze r = a}"
    by (cases a) (auto split: option.splits)
  then have "fst ` set_mset (eh_dropped (es_note a s h)) \<union> {r. Freeze r \<in> set as}
      \<subseteq> fst ` set_mset (eh_dropped h) \<union> {r. Freeze r \<in> set (a # as)}" by auto
  with Cons.IH [of "case es_do a s of Proceeds s1 \<Rightarrow> s1 | _ \<Rightarrow> s" "es_note a s h"] show ?case
    unfolding es_trace.simps by (rule subset_trans)
qed simp

text \<open>A thread in the loop of \<open>raiseEvent\<close> and a worker make progress until nothing is left.\<close>

definition es_left :: "event_switch \<Rightarrow> nat" where
  "es_left s = 2 * size (es_unmade s) + (if es_raising s = None then 0 else 1) + size (es_waiting s)"

lemma es_push_left:
  assumes "es_raising s \<noteq> None" and "es_push s = Proceeds s1"
  shows "es_left s1 < es_left s"
  using assms by (auto simp: es_push_def es_left_def es_unmade_def es_waiting_def Let_def split: option.splits list.splits if_splits)

lemma es_progress:
  assumes "es_inv s" and "es_raising s \<noteq> None \<or> es_waiting s \<noteq> {#}"
  shows "\<exists>a s1. a \<in> {Push, Take} \<and> es_do a s = Proceeds s1 \<and> es_inv s1 \<and> es_left s1 < es_left s"
proof (cases "es_raising s")
  case (Some x)
  then obtain s1 where s1: "es_push s = Proceeds s1"
    using es_push_step [OF assms(1)] by (auto simp: es_push_def Let_def split: prod.splits list.splits option.splits if_splits)
  then show ?thesis using es_do_inv [OF assms(1), of Push] es_push_left [OF _ s1] Some by (intro exI [of _ Push]) simp
next
  case None
  then have "es_prio_queue s \<noteq> [] \<or> es_queue s \<noteq> [] \<or> es_low_queue s \<noteq> []" using assms(2) by (simp add: es_waiting_def)
  then have "es_take s \<noteq> None" by (auto simp add: es_take_def split: list.split)
  then obtain t s1 where s1: "es_take s = Some (t, s1)" by fast
  from es_take_step [OF this] have "es_left s1 < es_left s" by (simp add: es_left_def es_unmade_def)
  then show ?thesis using es_do_inv [OF assms(1), of Take] s1 by (intro exI [of _ Take]) simp
qed

lemma es_drain:
  assumes "es_inv s"
  shows "\<exists>bs s1. set bs \<subseteq> {Push, Take} \<and> es_run bs s = Proceeds s1 \<and> es_unmade s1 = {#} \<and> es_waiting s1 = {#}"
  using assms
proof (induction "es_left s" arbitrary: s rule: less_induct)
  case less
  show ?case
  proof (cases "es_raising s = None \<and> es_waiting s = {#}")
    case True
    then show ?thesis by (intro exI [of _ "[]"]) (simp add: es_unmade_def)
  next
    case False
    then obtain a s1 where a: "a \<in> {Push, Take}" "es_do a s = Proceeds s1" "es_inv s1" "es_left s1 < es_left s"
      using es_progress [OF less.prems] by blast
    obtain bs s2 where "set bs \<subseteq> {Push, Take}" "es_run bs s1 = Proceeds s2" "es_unmade s2 = {#}" "es_waiting s2 = {#}"
      using less.hyps [OF a(4,3)] by blast
    then show ?thesis using a(1,2) by (intro exI [of _ "a # bs"] exI [of _ s2]) simp
  qed
qed

text \<open>C16: In every order of the steps each task of an event for a receiver that was registered when it was raised is
  accounted for exactly once: the receiver was called, or the task was taken off the queue because the receiver unregisters,
  or it is still to be made or in a queue. And whatever has happened, when the thread in \<open>raiseEvent\<close> and a worker go on,
  every receiver that did not lose the task by unregistering is called with the event, once.\<close>

theorem events_delivered_once:
  "\<exists>s bs. es_run as es_new = Proceeds s
    \<and> eh_raised (es_trace as es_new eh_none)
        = eh_called (es_trace as es_new eh_none) + eh_dropped (es_trace as es_new eh_none) + es_unmade s + es_waiting s
    \<and> fst ` set_mset (eh_dropped (es_trace as es_new eh_none)) \<subseteq> {r. Freeze r \<in> set as}
    \<and> set bs \<subseteq> {Push, Take}
    \<and> eh_raised (es_trace as es_new eh_none)
        = eh_called (es_trace (as @ bs) es_new eh_none) + eh_dropped (es_trace as es_new eh_none)"
proof -
  obtain s where run: "es_run as es_new = Proceeds s" "es_inv s" using es_run_inv [OF es_inv_new] by blast
  obtain bs s1 where bs: "set bs \<subseteq> {Push, Take}" "es_run bs s = Proceeds s1" "es_unmade s1 = {#}" "es_waiting s1 = {#}"
    using es_drain [OF run(2)] by blast
  have "es_run (as @ bs) es_new = Proceeds s1" using es_run_append [OF run(1)] bs(2) by simp
  from es_balance [OF this] have "eh_raised (es_trace as es_new eh_none)
      = eh_called (es_trace (as @ bs) es_new eh_none) + eh_dropped (es_trace as es_new eh_none)"
    using es_trace_push_take [OF bs(1)] bs(3,4) by (simp add: eh_balance_def es_trace_append [OF run(1)])
  then show ?thesis
    using run(1) bs(1) es_balance [OF run(1)] es_trace_dropped [of as es_new eh_none]
    by (intro exI [of _ s] exI [of _ bs]) (simp add: eh_balance_def eh_none_def)
qed

text \<open>\<open>unregister\<close> takes the tasks of the receiver off the queue for ordinary events only: a task for it in the queue
  for events of low priority, as a received bundle is, stays, and a worker calls the receiver that is gone.\<close>

theorem unregistered_called:
  assumes "es_prio_queue s = []" and "list_all (\<lambda>t. fst t = r) (es_queue s)" and "es_low_queue s = (r, e) # ts"
  shows "map_option fst (es_take (es_unregister name r s)) = Some (r, e)"
proof -
  have "filter (\<lambda>t. fst t \<noteq> r) (es_queue s) = []" using assms(2) by (simp add: list_all_iff filter_empty_conv)
  then show ?thesis using assms(1,3) by (simp add: es_take_def es_unregister_def es_freeze_def es_unlist_def)
qed

definition es_example :: "es_action list" where
  "es_example =
     [Register ''BundleReceivedEvent'' 7, Raise 1 ''BundleReceivedEvent'' (-1) False False, Push, Push]"

theorem unregistered_called_witness:
  "case es_run es_example es_new of
     Proceeds s \<Rightarrow> map_option fst (es_take (es_unregister ''BundleReceivedEvent'' 7 s)) = Some (7, 1) | _ \<Rightarrow> False"
proof -
  obtain s where run: "es_run es_example es_new = Proceeds s" using es_run_inv [OF es_inv_new] by blast
  then have "es_prio_queue s = []" "es_queue s = []" "es_low_queue s = [(7, 1)]"
    by (auto simp: es_example_def es_new_def es_registerEventReceiver_def es_raiseEvent_def es_push_def ev_new_def
        ev_set_ref_count_def Let_def)
  then show ?thesis using unregistered_called [of s 7 1 "[]" "''BundleReceivedEvent''"] run by simp
qed

end
