(* ===== verification/TcpConn.thy ===== *)
theory TcpConn
  imports Nodes Segment
begin

text \<open>
  The connections of the TCP convergence layer in the daemon (\<open>daemon/src/net/TCPConnection.cpp\<close>,
  \<open>daemon/src/net/TCPConvergenceLayer.cpp\<close>): the queue of the sender, the bundles in transit, what is reported about
  them, and what happens to them when the connection breaks.
\<close>

section \<open>Connections\<close>

datatype tcp_event =
    TcpCompleted eid bundle_id
  | TcpForwarded bundle_id
  | TcpAborted eid bundle_id abort_reason
  | TcpRequeue eid bundle_id
  | TcpUp node
  | TcpDown node
  | TcpTimeout node
  | TcpSetup node

text \<open>
  Where the thread of the sender is: it waits for the queue, it has taken a bundle and looks for it in the storage, it
  sends, or it has ended.
\<close>

datatype sender_state = SenderWaits | SenderLoads | SenderSends | SenderEnded

text \<open>
  \<open>tc_current\<close> is \<open>_current_transfer\<close>, with \<open>None\<close> for the identifier of no bundle. \<open>tc_closed\<close> and
  \<open>tc_cleared\<close> tell how far \<open>finally\<close> has come.
\<close>

record tcp_conn =
  tc_peer :: contact_header
  tc_node :: node
  tc_queue :: "bundle_id list"
  tc_current :: "bundle_id option"
  tc_sender :: sender_state
  tc_sentqueue :: "bundle_id list"
  tc_lastack :: u64
  tc_keepalive_timeout :: u64
  tc_closed :: bool
  tc_cleared :: bool

definition tc_new :: "node \<Rightarrow> tcp_conn" where
  "tc_new n =
     \<lparr>tc_peer = ch_new, tc_node = n, tc_queue = [], tc_current = None, tc_sender = SenderWaits, tc_sentqueue = [],
      tc_lastack = 0, tc_keepalive_timeout = 0, tc_closed = False, tc_cleared = False\<rparr>"

definition node_connected :: "string \<Rightarrow> node \<Rightarrow> node" where
  "node_connected v n =
     node_add_uri \<lparr>nu_type = NODE_CONNECTED, nu_protocol = CONN_TCPIP, nu_value = v, nu_expire = 0\<rparr> (node_clear n)"

text \<open>A connection that was accepted has the identifier of the node itself until the header of the peer has come.\<close>

definition tc_accepted :: "eid \<Rightarrow> tcp_conn" where
  "tc_accepted name = tc_new (node_connected ''0.0.0.0'' (node_new name))"

definition tc_getEID :: "tcp_conn \<Rightarrow> eid" where
  "tc_getEID c = n_eid (tc_node c)"

definition tc_match :: "node \<Rightarrow> tcp_conn \<Rightarrow> bool" where
  "tc_match n c \<longleftrightarrow> n_eid n = n_eid (tc_node c)"

section \<open>Events of the stream\<close>

text \<open>\<open>eventConnectionUp\<close>, without transport layer security.\<close>

definition tc_eventConnectionUp :: "contact_header \<Rightarrow> tcp_conn \<Rightarrow> tcp_event list \<times> tcp_conn" where
  "tc_eventConnectionUp header c =
     (let n = node_plus (node_new (ch_localeid header)) (tc_node c)
      in ([TcpUp n], c\<lparr>tc_peer := header, tc_node := n, tc_keepalive_timeout := of_nat (unat (ch_keepalive header)) * 1000\<rparr>))"

definition tc_eventConnectionDown :: "tcp_conn \<Rightarrow> tcp_event list" where
  "tc_eventConnectionDown c = (if ch_localeid (tc_peer c) \<noteq> eid_none then [TcpDown (tc_node c)] else [])"

definition tc_eventTimeout :: "tcp_conn \<Rightarrow> tcp_event list" where
  "tc_eventTimeout c = [TcpTimeout (tc_node c)]"

text \<open>With an empty queue both write a message to the log.\<close>

definition tc_eventBundleRefused :: "tcp_conn \<Rightarrow> tcp_event list \<times> tcp_conn" where
  "tc_eventBundleRefused c =
     (case tc_sentqueue c of
        [] \<Rightarrow> ([], c)
      | b # bs \<Rightarrow> ([TcpAborted (tc_getEID c) b REASON_REFUSED], c\<lparr>tc_sentqueue := bs, tc_lastack := 0\<rparr>))"

definition tc_eventBundleForwarded :: "tcp_conn \<Rightarrow> tcp_event list \<times> tcp_conn" where
  "tc_eventBundleForwarded c =
     (case tc_sentqueue c of
        [] \<Rightarrow> ([], c)
      | b # bs \<Rightarrow> ([TcpCompleted (tc_getEID c) b, TcpForwarded b], c\<lparr>tc_sentqueue := bs, tc_lastack := 0\<rparr>))"

definition tc_eventBundleAck :: "u64 \<Rightarrow> tcp_conn \<Rightarrow> tcp_conn" where
  "tc_eventBundleAck ack c = c\<lparr>tc_lastack := ack\<rparr>"

section \<open>Receiving\<close>

datatype tcp_received = TcpBundle eid dtn_bundle | TcpReject | TcpStop

text \<open>\<open>getBlock\<close> finds the first block with the number of the type.\<close>

fun blocks_hop :: "block list \<Rightarrow> block list" where
  "blocks_hop [] = []"
| "blocks_hop (x # xs) =
     (if blk_type x = HOPLIMIT_BLOCK_TYPE
      then (case blk_body x of
              HopLimitBody count limit \<Rightarrow>
                x\<lparr>blk_body := case_prod HopLimitBody (hoplimit_increment 1 count limit)\<rparr> # xs
            | _ \<Rightarrow> x # xs)
      else x # blocks_hop xs)"

text \<open>A turn of the loop of \<open>run\<close>, for what the deserializer returns or throws.\<close>

definition tc_received :: "tcp_conn \<Rightarrow> ibr_error + dtn_bundle \<Rightarrow> tcp_received" where
  "tc_received c r =
     (case r of
        Inl e \<Rightarrow> if is_invalid_data e then TcpReject else TcpStop
      | Inr b \<Rightarrow>
          if p_destination b = eid_none \<or> p_source b = eid_none then TcpReject
          else TcpBundle (ch_localeid (tc_peer c)) (b\<lparr>b_blocks := blocks_hop (b_blocks b)\<rparr>))"

section \<open>Sending\<close>

definition tc_push :: "bundle_id \<Rightarrow> tcp_conn \<Rightarrow> tcp_conn" where
  "tc_push b c = c\<lparr>tc_queue := tc_queue c @ [b]\<rparr>"

text \<open>The steps of \<open>Sender::run\<close>; \<open>None\<close> where the thread is not, or waits.\<close>

definition tc_getnpop :: "tcp_conn \<Rightarrow> tcp_conn option" where
  "tc_getnpop c =
     (case tc_queue c of
        b # bs \<Rightarrow> if tc_sender c = SenderWaits then Some (c\<lparr>tc_queue := bs, tc_current := Some b, tc_sender := SenderLoads\<rparr>) else None
      | [] \<Rightarrow> None)"

text \<open>The bundle is not in the storage.\<close>

definition tc_missing :: "tcp_conn \<Rightarrow> (tcp_event list \<times> tcp_conn) option" where
  "tc_missing c =
     (case tc_current c of
        Some b \<Rightarrow>
          if tc_sender c = SenderLoads
          then Some ([TcpAborted (tc_getEID c) b REASON_BUNDLE_DELETED], c\<lparr>tc_current := None, tc_sender := SenderWaits\<rparr>)
          else None
      | None \<Rightarrow> None)"

text \<open>\<open>operator<<\<close> puts the bundle into the queue of sent ones before it writes.\<close>

definition tc_begin :: "tcp_conn \<Rightarrow> tcp_conn option" where
  "tc_begin c =
     (case tc_current c of
        Some b \<Rightarrow>
          if tc_sender c = SenderLoads
          then Some (c\<lparr>tc_sentqueue := tc_sentqueue c @ [b], tc_sender := SenderSends\<rparr>) else None
      | None \<Rightarrow> None)"

text \<open>
  It may return on a closed connection as well: \<open>StreamBuffer::sync\<close> catches the failure of the flush and returns zero.
\<close>

definition tc_sent :: "tcp_conn \<Rightarrow> tcp_conn option" where
  "tc_sent c = (if tc_sender c = SenderSends then Some (c\<lparr>tc_current := None, tc_sender := SenderWaits\<rparr>) else None)"

text \<open>An exception out of the storage, the stream or the queue ends the thread, and \<open>Sender::finally\<close> follows.\<close>

definition tc_end :: "tcp_conn \<Rightarrow> (tcp_event list \<times> tcp_conn) option" where
  "tc_end c =
     (if tc_sender c = SenderEnded then None
      else Some (case tc_current c of None \<Rightarrow> [] | Some b \<Rightarrow> [TcpRequeue (tc_getEID c) b], c\<lparr>tc_sender := SenderEnded\<rparr>))"

text \<open>The turns of the two loops of \<open>clearQueue\<close>, and its end.\<close>

definition tc_clear_queue :: "tcp_conn \<Rightarrow> (tcp_event list \<times> tcp_conn) option" where
  "tc_clear_queue c =
     (case tc_queue c of
        b # bs \<Rightarrow> if tc_closed c then Some ([TcpRequeue (tc_getEID c) b], c\<lparr>tc_queue := bs\<rparr>) else None
      | [] \<Rightarrow> None)"

definition tc_clear_sent :: "tcp_conn \<Rightarrow> (tcp_event list \<times> tcp_conn) option" where
  "tc_clear_sent c =
     (case tc_sentqueue c of
        b # bs \<Rightarrow>
          if tc_closed c \<and> tc_queue c = []
          then Some ([TcpRequeue (tc_getEID c) b], c\<lparr>tc_sentqueue := bs, tc_lastack := 0\<rparr>) else None
      | [] \<Rightarrow> None)"

definition tc_clear_done :: "tcp_conn \<Rightarrow> tcp_conn option" where
  "tc_clear_done c = (if tc_closed c \<and> tc_queue c = [] \<and> tc_sentqueue c = [] then Some (c\<lparr>tc_cleared := True\<rparr>) else None)"

section \<open>The convergence layer\<close>

text \<open>The connections in their order, and the events.\<close>

fun tcl_queue :: "node \<Rightarrow> bundle_id \<Rightarrow> tcp_conn list \<Rightarrow> tcp_event list \<times> tcp_conn list" where
  "tcl_queue n b [] = ([TcpSetup n], [tc_push b (tc_new n)])"
| "tcl_queue n b (c # cs) =
     (if tc_match n c then ([], tc_push b c # cs) else (case tcl_queue n b cs of (evs, cs1) \<Rightarrow> (evs, c # cs1)))"

definition tcl_open :: "node \<Rightarrow> tcp_conn list \<Rightarrow> tcp_event list \<times> tcp_conn list" where
  "tcl_open n cs = (if list_ex (tc_match n) cs then ([], cs) else ([TcpSetup n], cs @ [tc_new n]))"

section \<open>A connection from its start to its end\<close>

text \<open>
  The steps of the threads: jobs that are queued, as long as the connection is in the list of the convergence layer, the
  sender, the events of the stream, and \<open>finally\<close>, which stops the sender, closes the stream, takes the connection off
  the list (\<open>Close\<close>) and clears the queues.
\<close>

datatype tcp_action =
    TcpPush bundle_id | TcpPop | TcpMissing | TcpBegin | TcpSent | TcpEnd | ConnUp contact_header | BundleRefused
  | BundleForwarded | BundleAcked u64 | Close | ClearQueue | ClearSent | ClearDone

definition quietly :: "tcp_conn option \<Rightarrow> (tcp_event list \<times> tcp_conn) option" where
  "quietly x = map_option (\<lambda>c. ([], c)) x"

fun tc_do :: "tcp_action \<Rightarrow> tcp_conn \<Rightarrow> (tcp_event list \<times> tcp_conn) option" where
  "tc_do (TcpPush b) c = (if tc_closed c then None else Some ([], tc_push b c))"
| "tc_do TcpPop c = quietly (tc_getnpop c)"
| "tc_do TcpMissing c = tc_missing c"
| "tc_do TcpBegin c = quietly (tc_begin c)"
| "tc_do TcpSent c = quietly (tc_sent c)"
| "tc_do TcpEnd c = tc_end c"
| "tc_do (ConnUp h) c = Some (tc_eventConnectionUp h c)"
| "tc_do BundleRefused c = Some (tc_eventBundleRefused c)"
| "tc_do BundleForwarded c = Some (tc_eventBundleForwarded c)"
| "tc_do (BundleAcked n) c = Some ([], tc_eventBundleAck n c)"
| "tc_do Close c = Some (tc_eventConnectionDown c, c\<lparr>tc_closed := True\<rparr>)"
| "tc_do ClearQueue c = tc_clear_queue c"
| "tc_do ClearSent c = tc_clear_sent c"
| "tc_do ClearDone c = quietly (tc_clear_done c)"

text \<open>A step that is not possible is skipped; the first part of the result are the jobs that were taken.\<close>

fun tc_job :: "tcp_action \<Rightarrow> tcp_conn \<Rightarrow> bundle_id list" where
  "tc_job (TcpPush b) c = (if tc_closed c then [] else [b])"
| "tc_job _ c = []"

fun tc_run :: "tcp_action list \<Rightarrow> tcp_conn \<Rightarrow> bundle_id list \<times> tcp_event list \<times> tcp_conn" where
  "tc_run [] c = ([], [], c)"
| "tc_run (a # as) c =
     (case tc_do a c of
        None \<Rightarrow> tc_run as c
      | Some (evs, c1) \<Rightarrow> (case tc_run as c1 of (jobs, evs2, c2) \<Rightarrow> (tc_job a c @ jobs, evs @ evs2, c2)))"

fun told_of :: "tcp_event \<Rightarrow> bundle_id set" where
  "told_of (TcpCompleted e b) = {b}"
| "told_of (TcpAborted e b r) = {b}"
| "told_of (TcpRequeue e b) = {b}"
| "told_of _ = {}"

definition told :: "tcp_event list \<Rightarrow> bundle_id set" where
  "told evs = (\<Union>x\<in>set evs. told_of x)"

lemma told_simps [simp]: "told [] = {}" "told (x # xs) = told_of x \<union> told xs" "told (xs @ ys) = told xs \<union> told ys"
  by (auto simp: told_def)

text \<open>The bundles whose transfer begins after the queues have been cleared.\<close>

definition tc_late_of :: "tcp_action \<Rightarrow> tcp_conn \<Rightarrow> bundle_id list" where
  "tc_late_of a c =
     (if a = TcpBegin \<and> tc_cleared c then (case tc_current c of None \<Rightarrow> [] | Some b \<Rightarrow> [b]) else [])"

fun tc_late :: "tcp_action list \<Rightarrow> tcp_conn \<Rightarrow> bundle_id list" where
  "tc_late [] c = []"
| "tc_late (a # as) c =
     (case tc_do a c of
        None \<Rightarrow> tc_late as c
      | Some (evs, c1) \<Rightarrow> tc_late_of a c @ tc_late as c1)"

text \<open>
  \<open>J\<close> are the jobs so far, \<open>T\<close> the bundles that were reported, \<open>L\<close> the late ones: a job is reported, in the queue,
  the current one, or in transit; and in transit after the queues were cleared are late ones.
\<close>

definition tc_inv :: "bundle_id set \<Rightarrow> bundle_id set \<Rightarrow> bundle_id set \<Rightarrow> tcp_conn \<Rightarrow> bool" where
  "tc_inv J T L c \<longleftrightarrow>
     J \<subseteq> T \<union> set (tc_queue c) \<union> set_option (tc_current c) \<union> set (tc_sentqueue c)
     \<and> (tc_cleared c \<longrightarrow> tc_closed c \<and> tc_queue c = [] \<and> set (tc_sentqueue c) \<subseteq> L)
     \<and> (tc_sender c = SenderEnded \<longrightarrow> set_option (tc_current c) \<subseteq> T)
     \<and> (tc_sender c = SenderWaits \<longrightarrow> tc_current c = None)
     \<and> (tc_sender c = SenderSends \<longrightarrow> set_option (tc_current c) \<subseteq> T \<union> set (tc_sentqueue c))"

lemma tc_inv_reported:
  assumes "tc_inv J T L c" and "tc_sentqueue c = b # bs"
  shows "tc_inv J (insert b T) L (c\<lparr>tc_sentqueue := bs, tc_lastack := 0\<rparr>)"
proof -
  have "set (tc_sentqueue c) = insert b (set bs)" using assms(2) by simp
  then show ?thesis using assms(1) unfolding tc_inv_def by (simp) blast
qed

lemma tc_inv_requeued:
  assumes "tc_inv J T L c" and "tc_queue c = b # bs"
  shows "tc_inv J (insert b T) L (c\<lparr>tc_queue := bs\<rparr>)"
proof -
  have "set (tc_queue c) = insert b (set bs)" "\<not> tc_cleared c" using assms by (auto simp: tc_inv_def)
  then show ?thesis using assms(1) unfolding tc_inv_def by (simp) blast
qed

lemma tc_inv_same:
  "tc_inv J T L (c\<lparr>tc_lastack := n\<rparr>) = tc_inv J T L c"
  "tc_inv J T L (c\<lparr>tc_peer := h, tc_node := nd, tc_keepalive_timeout := k\<rparr>) = tc_inv J T L c"
  by (simp_all add: tc_inv_def)

lemma tc_inv_close:
  assumes "tc_inv J T L c"
  shows "tc_inv J T L (c\<lparr>tc_closed := True\<rparr>)"
  using assms by (simp add: tc_inv_def)

lemma tc_do_inv:
  assumes inv: "tc_inv J T L c" and step: "tc_do a c = Some (evs, c1)"
  shows "tc_inv (J \<union> set (tc_job a c)) (T \<union> told evs) (L \<union> set (tc_late_of a c)) c1"
proof (cases a)
  case (TcpPush b)
  then show ?thesis using inv step by (auto simp: tc_late_of_def tc_inv_def tc_push_def split: if_splits)
next
  case TcpPop
  then show ?thesis
    using inv step by (auto simp: tc_late_of_def tc_inv_def quietly_def tc_getnpop_def split: list.splits if_splits)
next
  case TcpMissing
  then show ?thesis
    using inv step by (auto simp: tc_late_of_def tc_inv_def tc_missing_def split: option.splits if_splits)
next
  case TcpBegin
  with step obtain b where b: "tc_current c = Some b" "evs = []"
      "c1 = c\<lparr>tc_sentqueue := tc_sentqueue c @ [b], tc_sender := SenderSends\<rparr>"
    by (auto simp: quietly_def tc_begin_def split: option.splits if_splits)
  have late: "set (tc_late_of a c) = (if tc_cleared c then {b} else {})"
    by (cases "tc_cleared c") (simp_all add: TcpBegin tc_late_of_def b(1))
  have "tc_inv J T (L \<union> set (tc_late_of a c)) c1"
    using inv b(1) unfolding tc_inv_def b(3) late by auto
  then show ?thesis by (simp add: TcpBegin b(2))
next
  case TcpSent
  then show ?thesis
    using inv step by (auto simp: tc_late_of_def tc_inv_def quietly_def tc_sent_def split: if_splits)
next
  case TcpEnd
  then show ?thesis
    using inv step by (auto simp: tc_late_of_def tc_inv_def tc_end_def split: option.splits if_splits)
next
  case (ConnUp h)
  then show ?thesis using inv step by (auto simp: tc_late_of_def tc_eventConnectionUp_def tc_inv_same Let_def)
next
  case BundleRefused
  then show ?thesis
    using inv step by (cases "tc_sentqueue c") (auto simp: tc_late_of_def tc_eventBundleRefused_def intro: tc_inv_reported)
next
  case BundleForwarded
  then show ?thesis
    using inv step by (cases "tc_sentqueue c") (auto simp: tc_late_of_def tc_eventBundleForwarded_def intro: tc_inv_reported)
next
  case (BundleAcked n)
  then show ?thesis using inv step by (auto simp: tc_late_of_def tc_eventBundleAck_def tc_inv_same)
next
  case Close
  then show ?thesis using tc_inv_close [OF inv] step by (auto simp: tc_late_of_def tc_eventConnectionDown_def split: if_splits)
next
  case ClearQueue
  then show ?thesis
    using inv step by (cases "tc_queue c") (auto simp: tc_late_of_def tc_clear_queue_def intro: tc_inv_requeued split: if_splits)
next
  case ClearSent
  then show ?thesis
    using inv step
    by (cases "tc_sentqueue c") (auto simp: tc_late_of_def tc_clear_sent_def intro: tc_inv_reported split: if_splits)
next
  case ClearDone
  then show ?thesis using inv step by (auto simp: tc_late_of_def tc_inv_def quietly_def tc_clear_done_def split: if_splits)
qed

lemma tc_inv_end:
  assumes "tc_inv J T L c" and "tc_sender c = SenderEnded" and "tc_cleared c"
  shows "J \<subseteq> T \<union> L"
proof -
  have "J \<subseteq> T \<union> set (tc_queue c) \<union> set_option (tc_current c) \<union> set (tc_sentqueue c)"
    using assms(1) by (simp add: tc_inv_def)
  moreover have "set (tc_queue c) \<subseteq> T" "set (tc_sentqueue c) \<subseteq> L" "set_option (tc_current c) \<subseteq> T"
    using assms by (simp_all add: tc_inv_def)
  ultimately show ?thesis by blast
qed

lemma tc_run_inv:
  assumes "tc_inv J T L c" and "tc_run as c = (jobs, evs, c1)"
  shows "tc_inv (J \<union> set jobs) (T \<union> told evs) (L \<union> set (tc_late as c)) c1"
  using assms
proof (induction as arbitrary: J T L c jobs evs)
  case (Cons a as)
  show ?case
  proof (cases "tc_do a c")
    case None
    then show ?thesis using Cons.IH [OF Cons.prems(1)] Cons.prems(2) by simp
  next
    case (Some x)
    obtain evs1 c2 where x: "x = (evs1, c2)" by (cases x)
    obtain jobs2 evs2 where rest: "tc_run as c2 = (jobs2, evs2, c1)" "jobs = tc_job a c @ jobs2" "evs = evs1 @ evs2"
      using Cons.prems(2) Some x by (auto split: prod.splits)
    have inv: "tc_inv (J \<union> set (tc_job a c)) (T \<union> told evs1) (L \<union> set (tc_late_of a c)) c2"
      using tc_do_inv [OF Cons.prems(1)] Some x by simp
    have late: "tc_late (a # as) c = tc_late_of a c @ tc_late as c2" by (simp add: Some x)
    from Cons.IH [OF inv rest(1)] show ?thesis unfolding late rest set_append told_simps by (simp only: Un_assoc)
  qed
qed simp

text \<open>After the queues have been cleared there is at most one bundle left to be sent: the one the sender has taken.\<close>

lemma tc_late_cleared:
  assumes "tc_cleared c" and "tc_closed c" and "tc_queue c = []"
  shows "length (tc_late as c) \<le> (if tc_sender c = SenderLoads then 1 else 0)"
  using assms
proof (induction as arbitrary: c)
  case (Cons a as)
  show ?case
  proof (cases "tc_do a c")
    case None
    then show ?thesis using Cons by simp
  next
    case (Some x)
    obtain evs c1 where x: "x = (evs, c1)" by (cases x)
    have c1: "tc_cleared c1 \<and> tc_closed c1 \<and> tc_queue c1 = []
        \<and> (tc_sender c1 = SenderLoads \<longrightarrow> tc_sender c = SenderLoads \<and> a \<noteq> TcpBegin)
        \<and> (a = TcpBegin \<longrightarrow> tc_sender c = SenderLoads)"
      using Some Cons.prems unfolding x
      by (cases a)
        (auto simp: quietly_def tc_getnpop_def tc_missing_def tc_begin_def tc_sent_def tc_end_def tc_eventConnectionUp_def Let_def
          tc_eventBundleRefused_def tc_eventBundleForwarded_def tc_eventBundleAck_def tc_clear_queue_def tc_clear_sent_def
          tc_clear_done_def split: option.splits if_splits list.splits)
    then have "length (tc_late as c1) \<le> (if tc_sender c1 = SenderLoads then 1 else 0)" using Cons.IH [of c1] by simp
    moreover have "length (tc_late_of a c) \<le> (if tc_sender c = SenderLoads \<and> a = TcpBegin then 1 else 0)"
      using c1 by (auto simp: tc_late_of_def split: option.split)
    moreover have "tc_late (a # as) c = tc_late_of a c @ tc_late as c1" by (simp add: Some x)
    ultimately show ?thesis using c1 by (auto split: if_splits)
  qed
qed simp

lemma tc_late_once:
  assumes "tc_inv J T L c"
  shows "length (tc_late as c) \<le> 1"
  using assms
proof (induction as arbitrary: J T L c)
  case (Cons a as)
  show ?case
  proof (cases "tc_cleared c")
    case True
    then have "length (tc_late (a # as) c) \<le> (if tc_sender c = SenderLoads then 1 else 0)"
      using Cons.prems by (intro tc_late_cleared) (simp_all add: tc_inv_def)
    then show ?thesis by (auto split: if_splits)
  next
    case False
    then have "tc_late_of a c = []" by (simp add: tc_late_of_def)
    then show ?thesis
      using Cons.IH [OF Cons.prems] Cons.IH [OF tc_do_inv [OF Cons.prems]] by (auto split: option.split)
  qed
qed simp

text \<open>C18: In every order of the steps of the threads, when the sender of a connection has ended and its queues have been
  cleared, every bundle that was queued to it has been reported, as completed, as aborted, or for another attempt, but for
  at most one: a bundle that the sender had taken before and whose transfer begins after the queues were cleared.\<close>

theorem tcp_none_lost:
  assumes "tc_run as (tc_new n) = (jobs, evs, c)" and "tc_sender c = SenderEnded" and "tc_cleared c"
  shows "set jobs \<subseteq> told evs \<union> set (tc_late as (tc_new n)) \<and> length (tc_late as (tc_new n)) \<le> 1"
proof -
  have inv: "tc_inv {} {} {} (tc_new n)" by (simp add: tc_inv_def tc_new_def)
  from tc_inv_end [OF tc_run_inv [OF this assms(1)] assms(2,3)] tc_late_once [OF inv] show ?thesis by simp
qed

text \<open>That one is lost: a bundle the sender has taken when the connection ends is neither sent nor reported, if its
  transfer begins after the queues were cleared and the flush of the closed connection is taken for a success.\<close>

theorem tcp_late_lost:
  "\<exists>c. tc_run [TcpPush b, TcpPop, Close, ClearDone, TcpBegin, TcpSent, TcpEnd] (tc_new n) = ([b], [], c)
    \<and> tc_sender c = SenderEnded \<and> tc_cleared c \<and> tc_current c = None"
  by (simp add: tc_new_def tc_push_def quietly_def tc_getnpop_def tc_begin_def tc_sent_def tc_eventConnectionDown_def
      tc_end_def tc_clear_done_def ch_new_def)

definition tcp_example :: "bundle_id \<Rightarrow> bundle_id \<Rightarrow> tcp_action list" where
  "tcp_example a b =
     [TcpPush a, TcpPush b, TcpPop, TcpBegin, TcpSent, BundleForwarded, TcpPop, TcpBegin, Close, TcpEnd, ClearSent, ClearDone]"

lemmas tcp_steps =
  tc_new_def tc_push_def quietly_def tc_getnpop_def tc_begin_def tc_sent_def tc_eventBundleForwarded_def
  tc_eventConnectionDown_def tc_end_def tc_clear_sent_def tc_clear_done_def ch_new_def tc_getEID_def

theorem tcp_none_lost_witness:
  "{sample_id, sample_id\<lparr>id_timestamp := 1\<rparr>}
     \<subseteq> told (fst (snd (tc_run (tcp_example sample_id (sample_id\<lparr>id_timestamp := 1\<rparr>)) (tc_new (node_new eid_none)))))"
proof -
  define a b where "a = sample_id" and "b = sample_id\<lparr>id_timestamp := 1\<rparr>"
  obtain jobs evs c where run: "tc_run (tcp_example a b) (tc_new (node_new eid_none)) = (jobs, evs, c)"
    by (metis prod.exhaust)
  then have "tc_sender c = SenderEnded" "tc_cleared c" "set jobs = {a, b}"
    by (auto simp: tcp_example_def tcp_steps)
  moreover have "tc_late (tcp_example a b) (tc_new (node_new eid_none)) = []" by (simp add: tcp_example_def tcp_steps tc_late_of_def)
  ultimately show ?thesis using tcp_none_lost [OF run] run unfolding a_def b_def by simp
qed

text \<open>A bundle whose transfer breaks with the connection is put back twice: by \<open>clearQueue\<close>, as one that was sent and
  not acknowledged, and by the end of the sender, as its current transfer.\<close>

theorem tcp_requeued_twice:
  "fst (snd (tc_run [TcpPush b, TcpPop, TcpBegin, Close, TcpEnd, ClearSent, ClearDone] (tc_new n)))
     = [TcpRequeue (n_eid n) b, TcpRequeue (n_eid n) b]"
  by (simp add: tcp_steps)

text \<open>A job ends in the queue of a connection to the node.\<close>

lemma tcl_queue_once:
  "\<exists>i < length (snd (tcl_queue n b cs)). tc_match n (snd (tcl_queue n b cs) ! i)
      \<and> tc_queue (snd (tcl_queue n b cs) ! i) \<noteq> [] \<and> last (tc_queue (snd (tcl_queue n b cs) ! i)) = b"
proof (induction cs)
  case Nil
  show ?case by (simp add: tc_push_def tc_new_def tc_match_def)
next
  case (Cons c cs)
  show ?case
  proof (cases "tc_match n c")
    case True
    then show ?thesis by (intro exI [of _ 0]) (simp add: tc_push_def tc_match_def)
  next
    case False
    obtain i where "i < length (snd (tcl_queue n b cs))" "tc_match n (snd (tcl_queue n b cs) ! i)"
      "tc_queue (snd (tcl_queue n b cs) ! i) \<noteq> []" "last (tc_queue (snd (tcl_queue n b cs) ! i)) = b"
      using Cons.IH by blast
    then show ?thesis using False by (intro exI [of _ "Suc i"]) (simp add: case_prod_beta)
  qed
qed

end
