(* ===== verification/FileStorage.thy ===== *)
theory FileStorage
  imports Reports
begin

text \<open>
  The bundle storage in files (\<open>daemon/src/core/SimpleBundleStorage.cpp\<close> over
  \<open>daemon/src/core/DataStorage.cpp\<close>): the index is in memory, and a thread writes and deletes the files by tasks, so a
  bundle is pending until its file is written.
\<close>

section \<open>Names of files\<close>

text \<open>\<open>Hash::hash\<close>: every character in hexadecimal; characters are signed, so those above 127 come out with eight digits.\<close>

definition hex_digit :: "nat \<Rightarrow> char" where
  "hex_digit n = ''0123456789abcdef'' ! n"

definition hash_char :: "char \<Rightarrow> string" where
  "hash_char c =
     (let n = of_char c :: nat; two = [hex_digit (n div 16), hex_digit (n mod 16)]
      in if n < 128 then two else ''ffffff'' @ two)"

definition file_hash :: "string \<Rightarrow> string" where
  "file_hash key = concat (map hash_char key)"

section \<open>State\<close>

datatype data_task = StoreDataTask string dtn_bundle | RemoveDataTask string

text \<open>
  \<open>fs_files\<close> are the files of the directory, \<open>fs_tasks\<close> the queue of the thread. The maps from hashes are not iterated.
\<close>

record file_storage =
  fs_list :: bundle_list
  fs_priority_index :: "meta_bundle list"
  fs_pending :: "string \<Rightarrow> dtn_bundle option"
  fs_stored :: "(bundle_id \<times> string) list"
  fs_sizes :: "(bundle_id \<times> u64) list"
  fs_maxsize :: u64
  fs_currentsize :: u64
  fs_tasks :: "data_task list"
  fs_files :: "string \<Rightarrow> byte list option"

definition id_of_meta :: "'a bundle_id_scheme \<Rightarrow> bundle_id" where
  "id_of_meta m = bundle_id.truncate m"

definition fs_size_of :: "bundle_id \<Rightarrow> file_storage \<Rightarrow> u64" where
  "fs_size_of i st = (case omap_find bid_less i (fs_sizes st) of Some n \<Rightarrow> n | None \<Rightarrow> 0)"

section \<open>The thread of the data storage\<close>

text \<open>
  \<open>eventDataStorageStored\<close>. The bundle is looked up with \<open>operator[]\<close>, which makes a new one if none is pending.
\<close>

definition fs_eventStored :: "dtn_bundle \<Rightarrow> string \<Rightarrow> file_storage \<Rightarrow> file_storage" where
  "fs_eventStored fresh h st =
     (let b = (case fs_pending st h of Some b \<Rightarrow> b | None \<Rightarrow> fresh)
      in st\<lparr>fs_pending := (fs_pending st)(h := None), fs_stored := omap_update bid_less (bid_of_bundle b) h (fs_stored st)\<rparr>)"

definition fs_eventStoreFailed :: "dtn_bundle \<Rightarrow> string \<Rightarrow> file_storage \<Rightarrow> file_storage" where
  "fs_eventStoreFailed fresh h st =
     (let i = bid_of_bundle (case fs_pending st h of Some b \<Rightarrow> b | None \<Rightarrow> fresh)
      in st\<lparr>fs_currentsize := fs_currentsize st - fs_size_of i st, fs_sizes := omap_erase bid_less i (fs_sizes st),
            fs_pending := (fs_pending st)(h := None)\<rparr>)"

definition fs_eventRemoved :: "string \<Rightarrow> file_storage \<Rightarrow> file_storage" where
  "fs_eventRemoved h st =
     (case find (\<lambda>x. snd x = h) (fs_stored st) of
        None \<Rightarrow> st
      | Some (i, _) \<Rightarrow>
          st\<lparr>fs_currentsize := fs_currentsize st - fs_size_of i st, fs_sizes := omap_erase bid_less i (fs_sizes st),
             fs_stored := erase_first (\<lambda>x. snd x = h) (fs_stored st)\<rparr>)"

text \<open>\<open>BundleContainer::serialize\<close>: the bytes, or an exception.\<close>

definition container_serialize :: "dtn_bundle \<Rightarrow> byte list option" where
  "container_serialize b =
     (case ser_bundle ser_new b of
        Inl _ \<Rightarrow> None
      | Inr (bytes, _) \<Rightarrow> if length bytes < fst (ser_getLength_bundle ser_new b) then None else Some bytes)"

text \<open>
  What the disk does with a file that is written: it cannot be opened, or it can, and what is in it when writing fails.
\<close>

datatype disk = DiskClosed | DiskWorks "byte list" | DiskBreaks "byte list"

definition fs_write :: "disk \<Rightarrow> dtn_bundle \<Rightarrow> string \<Rightarrow> file_storage \<Rightarrow> bool \<times> file_storage" where
  "fs_write disk b h st =
     (case disk of
        DiskClosed \<Rightarrow> (False, st)
      | DiskBreaks part \<Rightarrow> (False, st\<lparr>fs_files := (fs_files st)(h \<mapsto> part)\<rparr>)
      | DiskWorks part \<Rightarrow>
          (case container_serialize b of
             None \<Rightarrow> (False, st\<lparr>fs_files := (fs_files st)(h \<mapsto> part)\<rparr>)
           | Some bytes \<Rightarrow> (True, st\<lparr>fs_files := (fs_files st)(h \<mapsto> bytes)\<rparr>)))"

text \<open>A turn of the loop of \<open>run\<close>; it waits for a task.\<close>

definition fs_work :: "dtn_bundle \<Rightarrow> disk \<Rightarrow> file_storage \<Rightarrow> file_storage" where
  "fs_work fresh disk st =
     (case fs_tasks st of
        [] \<Rightarrow> st
      | StoreDataTask h b # ts \<Rightarrow>
          (case fs_write disk b h (st\<lparr>fs_tasks := ts\<rparr>) of
             (ok, st1) \<Rightarrow> if ok then fs_eventStored fresh h st1 else fs_eventStoreFailed fresh h st1)
      | RemoveDataTask h # ts \<Rightarrow>
          (case fs_files st h of
             None \<Rightarrow> st\<lparr>fs_tasks := ts\<rparr>
           | Some _ \<Rightarrow> fs_eventRemoved h (st\<lparr>fs_tasks := ts, fs_files := (fs_files st)(h := None)\<rparr>)))"

definition fs_unlink :: "string \<Rightarrow> file_storage \<Rightarrow> file_storage" where
  "fs_unlink h st = st\<lparr>fs_tasks := fs_tasks st @ [RemoveDataTask h]\<rparr>"

section \<open>Operations\<close>

text \<open>\<open>iterateDataStorage\<close>, for one file.\<close>

definition fs_iterate :: "(nat \<Rightarrow> byte list reader) \<Rightarrow> factories \<Rightarrow> moment \<Rightarrow> dtn_bundle \<Rightarrow> string \<times> byte list \<Rightarrow> file_storage \<Rightarrow> file_storage" where
  "fs_iterate copy fs mo obj f st =
     (case des_bundle copy accept_validator fs (mo_now mo) des_new obj (snd f) of
        Inl _ \<Rightarrow> fs_unlink (fst f) st
      | Inr ((b, _), rest) \<Rightarrow>
          (let m = meta_at mo b; n = word_of_nat (length (snd f) - length rest)
           in st\<lparr>fs_stored := omap_update bid_less (id_of_meta m) (fst f) (fs_stored st),
                 fs_sizes := omap_update bid_less (id_of_meta m) n (fs_sizes st),
                 fs_currentsize := fs_currentsize st + n, fs_list := lst_add (fs_list st) m,
                 fs_priority_index := oset_insert priority_less m (fs_priority_index st)\<rparr>))"

definition fs_new :: "(nat \<Rightarrow> byte list reader) \<Rightarrow> factories \<Rightarrow> moment \<Rightarrow> dtn_bundle \<Rightarrow> u64 \<Rightarrow> (string \<times> byte list) list \<Rightarrow> file_storage" where
  "fs_new copy fs mo obj maxsize files =
     foldl (\<lambda>st f. fs_iterate copy fs mo obj f st)
       \<lparr>fs_list = lst_new, fs_priority_index = [], fs_pending = (\<lambda>_. None), fs_stored = [], fs_sizes = [],
        fs_maxsize = maxsize, fs_currentsize = 0, fs_tasks = [], fs_files = map_of files\<rparr> files"

text \<open>
  \<open>store\<close>; the argument is what \<open>acceptCustody\<close> returns. The container that is written has the bundle as it was given.
\<close>

definition fs_kept :: "custody_error + eid \<Rightarrow> dtn_bundle \<Rightarrow> dtn_bundle" where
  "fs_kept custody b = (case custody of Inr custodian \<Rightarrow> b\<lparr>p_custodian := custodian\<rparr> | Inl _ \<Rightarrow> b)"

definition fs_store :: "moment \<Rightarrow> custody_error + eid \<Rightarrow> dtn_bundle \<Rightarrow> file_storage \<Rightarrow> storage_error + file_storage" where
  "fs_store mo custody b st =
     (let sz = ms_length b; h = file_hash (bid_toString (bid_of_bundle b))
      in if fs_maxsize st > 0 \<and> fs_currentsize st + sz > fs_maxsize st then Inl StorageSizeExeededException
         else
           let m = meta_at mo (fs_kept custody b)
           in Inr (st\<lparr>fs_pending := (fs_pending st)(h \<mapsto> fs_kept custody b), fs_sizes := omap_update bid_less (id_of_meta m) sz (fs_sizes st),
                      fs_currentsize := fs_currentsize st + sz, fs_list := lst_add (fs_list st) m,
                      fs_priority_index := oset_insert priority_less m (fs_priority_index st),
                      fs_tasks := fs_tasks st @ [StoreDataTask h b]\<rparr>))"

text \<open>The age block gets older by the age of the file.\<close>

fun blocks_age :: "u64 \<Rightarrow> block list \<Rightarrow> block list" where
  "blocks_age seconds [] = []"
| "blocks_age seconds (x # xs) =
     (if blk_type x = AGE_BLOCK_TYPE
      then (case blk_body x of
              AgeBody age a c \<Rightarrow> x\<lparr>blk_body := AgeBody (age_addSeconds age seconds) a c\<rparr> # xs
            | _ \<Rightarrow> x # xs)
      else x # blocks_age seconds xs)"

datatype load_error = LoadNotFound | LoadFailed

text \<open>\<open>__get\<close>; the age of a file is the time from its last change to the last access.\<close>

definition fs_load :: "(nat \<Rightarrow> byte list reader) \<Rightarrow> factories \<Rightarrow> dtntime \<Rightarrow> dtn_bundle \<Rightarrow> u64 \<Rightarrow> meta_bundle \<Rightarrow> file_storage
    \<Rightarrow> load_error + dtn_bundle" where
  "fs_load copy fs now obj age m st =
     (let h = file_hash (bid_toString m)
      in case fs_pending st h of
           Some b \<Rightarrow> Inr b
         | None \<Rightarrow>
             (case fs_files st h of
                None \<Rightarrow> Inl LoadNotFound
              | Some bytes \<Rightarrow>
                  (case des_bundle copy accept_validator fs now des_new obj bytes of
                     Inl _ \<Rightarrow> Inl LoadFailed
                   | Inr ((b, _), _) \<Rightarrow> Inr (b\<lparr>b_blocks := blocks_age age (b_blocks b)\<rparr>))))"

definition fs_find :: "'a bundle_id_scheme \<Rightarrow> file_storage \<Rightarrow> meta_bundle option" where
  "fs_find i st = find (\<lambda>m. bid_eq i m) (lst_public (fs_list st))"

definition fs_forget :: "meta_bundle \<Rightarrow> file_storage \<Rightarrow> file_storage" where
  "fs_forget m st =
     fs_unlink (file_hash (bid_toString m))
       (st\<lparr>fs_list := lst_remove (fs_list st) m, fs_priority_index := oset_erase priority_less m (fs_priority_index st)\<rparr>)"

definition fs_remove :: "'a bundle_id_scheme \<Rightarrow> file_storage \<Rightarrow> storage_error + file_storage" where
  "fs_remove i st =
     (case find (\<lambda>m. bid_eq m i) (lst_public (fs_list st)) of
        None \<Rightarrow> Inl NoBundleFoundException
      | Some m \<Rightarrow> Inr (fs_forget m st))"

text \<open>\<open>get\<close>: a bundle that cannot be read is removed, which may fail in turn.\<close>

definition fs_get :: "(nat \<Rightarrow> byte list reader) \<Rightarrow> factories \<Rightarrow> dtntime \<Rightarrow> dtn_bundle \<Rightarrow> u64 \<Rightarrow> 'a bundle_id_scheme \<Rightarrow> file_storage
    \<Rightarrow> (storage_error + dtn_bundle) \<times> file_storage" where
  "fs_get copy fs now obj age i st =
     (case fs_find i st of
        None \<Rightarrow> (Inl NoBundleFoundException, st)
      | Some m \<Rightarrow>
          (case fs_load copy fs now obj age m st of
             Inr b \<Rightarrow> (Inr b, st)
           | Inl LoadNotFound \<Rightarrow> (Inl NoBundleFoundException, st)
           | Inl LoadFailed \<Rightarrow>
               (case fs_remove i st of Inl e \<Rightarrow> (Inl e, st) | Inr st1 \<Rightarrow> (Inl BundleLoadException, st1))))"

definition fs_query :: "nat \<Rightarrow> (meta_bundle \<Rightarrow> bool) \<Rightarrow> file_storage \<Rightarrow> meta_bundle list" where
  "fs_query limit shouldAdd st = ms_select limit shouldAdd [] (fs_priority_index st)"

definition fs_getDistinctDestinations :: "file_storage \<Rightarrow> eid list" where
  "fs_getDistinctDestinations st = []"

definition fs_empty :: "file_storage \<Rightarrow> bool" where
  "fs_empty st = (lst_public (fs_list st) = [])"

definition fs_count :: "file_storage \<Rightarrow> nat" where
  "fs_count st = length (lst_public (fs_list st))"

definition fs_size :: "file_storage \<Rightarrow> u64" where
  "fs_size st = fs_currentsize st"

definition fs_remove_filter :: "(string \<Rightarrow> bool) \<Rightarrow> file_storage \<Rightarrow> storage_error + meta_bundle \<times> file_storage" where
  "fs_remove_filter contains st =
     (case find (\<lambda>m. contains (bid_toString m)) (lst_public (fs_list st)) of
        None \<Rightarrow> Inl NoBundleFoundException
      | Some m \<Rightarrow> Inr (m, fs_forget m st))"

definition fs_clear :: "file_storage \<Rightarrow> file_storage" where
  "fs_clear st =
     (foldl (\<lambda>s m. fs_unlink (file_hash (bid_toString m)) s) st (lst_public (fs_list st)))
       \<lparr>fs_priority_index := [], fs_list := lst_clear (fs_list st), fs_currentsize := 0\<rparr>"

text \<open>
  \<open>eventBundleExpired\<close> looks for the bundle in the public list, from which \<open>expire\<close> takes it after the call.
\<close>

definition fs_expired :: "meta_bundle list \<Rightarrow> meta_bundle \<Rightarrow> file_storage \<Rightarrow> file_storage" where
  "fs_expired public m st =
     (case find (\<lambda>x. bid_eq x m) public of
        None \<Rightarrow> st
      | Some x \<Rightarrow>
          fs_unlink (file_hash (bid_toString x)) (st\<lparr>fs_priority_index := oset_erase priority_less x (fs_priority_index st)\<rparr>))"

fun fs_expire_loop :: "meta_bundle list \<Rightarrow> meta_bundle list \<Rightarrow> file_storage \<Rightarrow> file_storage" where
  "fs_expire_loop public [] st = st"
| "fs_expire_loop public (m # gone) st = fs_expire_loop (oset_erase bid_less m public) gone (fs_expired public m st)"

definition fs_tick :: "clock \<Rightarrow> u64 \<Rightarrow> file_storage \<Rightarrow> file_storage \<times> storage_event list" where
  "fs_tick c timestamp st =
     (case lst_expire c timestamp (fs_list st) of
        (l, gone) \<Rightarrow>
          ((fs_expire_loop (lst_public (fs_list st)) gone st)\<lparr>fs_list := l\<rparr>,
           concat (map (\<lambda>m. [BundleDeletedEvent m, BundleExpiredEvent m]) gone)))"

section \<open>Names\<close>

lemma hex_digit_inj: "m < 16 \<Longrightarrow> n < 16 \<Longrightarrow> hex_digit m = hex_digit n \<longleftrightarrow> m = n"
  unfolding hex_digit_def by (rule nth_eq_iff_index_eq) simp_all

lemma hash_char_append:
  assumes "hash_char c @ r = hash_char d @ t"
  shows "c = d \<and> r = t"
proof -
  let ?m = "of_char c :: nat" and ?n = "of_char d :: nat"
  have bounds: "?m < 256" "?n < 256" by simp_all
  have f: "hex_digit (k div 16) \<noteq> CHR ''f''" if "k < 128" for k
  proof -
    have "CHR ''f'' = hex_digit 15" by (simp add: hex_digit_def)
    moreover have "k div 16 < 15" using that by simp
    ultimately show ?thesis using hex_digit_inj [of "k div 16" 15] by simp
  qed
  have two: "?m = ?n" if "hex_digit (?m div 16) = hex_digit (?n div 16)" "hex_digit (?m mod 16) = hex_digit (?n mod 16)"
  proof -
    have "?m div 16 = ?n div 16" "?m mod 16 = ?n mod 16"
      using that bounds hex_digit_inj [of "?m div 16" "?n div 16"] hex_digit_inj [of "?m mod 16" "?n mod 16"] by auto
    then show ?thesis by (metis div_mult_mod_eq)
  qed
  have "?m = ?n \<and> r = t"
    using assms two f [of ?m] f [of ?n] by (auto simp: hash_char_def Let_def split: if_splits)
  then show ?thesis by simp
qed

text \<open>Different identifiers have different files.\<close>

lemma file_hash_inj: "file_hash a = file_hash b \<Longrightarrow> a = b"
proof (induction a arbitrary: b)
  case Nil
  then show ?case by (cases b) (auto simp: file_hash_def hash_char_def Let_def split: if_splits)
next
  case (Cons c a)
  show ?case
  proof (cases b)
    case Nil
    then show ?thesis using Cons.prems by (auto simp: file_hash_def hash_char_def Let_def split: if_splits)
  next
    case (Cons d b')
    then have "hash_char c @ file_hash a = hash_char d @ file_hash b'" using Cons.prems by (simp add: file_hash_def)
    then show ?thesis using hash_char_append Cons.IH Cons by blast
  qed
qed

lemma bid_toString_key:
  assumes "bid_compat a b" and "bid_key a = bid_key b"
  shows "bid_toString a = bid_toString b"
  using assms by (auto simp: bid_compat_def bid_key_def bid_toString_def)

section \<open>Storing\<close>

lemma fs_kept_id [simp]: "bid_of_bundle (fs_kept custody b) = bid_of_bundle b"
  by (simp add: fs_kept_def bid_of_bundle_def primary_get_def split: sum.splits)

lemma fs_store_eq:
  assumes "fs_store mo custody b st = Inr st1"
  shows "st1 = st\<lparr>fs_pending := (fs_pending st)(file_hash (bid_toString (bid_of_bundle b)) \<mapsto> fs_kept custody b),
      fs_sizes := omap_update bid_less (id_of_meta (meta_at mo (fs_kept custody b))) (ms_length b) (fs_sizes st),
      fs_currentsize := fs_currentsize st + ms_length b, fs_list := lst_add (fs_list st) (meta_at mo (fs_kept custody b)),
      fs_priority_index := oset_insert priority_less (meta_at mo (fs_kept custody b)) (fs_priority_index st),
      fs_tasks := fs_tasks st @ [StoreDataTask (file_hash (bid_toString (bid_of_bundle b))) b]\<rparr>"
  using assms by (simp add: fs_store_def Let_def split: if_splits)

text \<open>A stored bundle is found under its identifier, by meta data that name its file.\<close>

lemma fs_find_stored:
  assumes U: "meta_consistent U" "lst_inv U (fs_list st)" "meta_at mo (fs_kept custody b) \<in> U"
    and st: "fs_store mo custody b st = Inr st1"
  shows "\<exists>m. find (\<lambda>m. bid_eq (bid_of_bundle b) m) (lst_public (fs_list st1)) = Some m
    \<and> bid_toString m = bid_toString (bid_of_bundle b)"
proof -
  let ?b = "fs_kept custody b" and ?l = "lst_add (fs_list st) (meta_at mo (fs_kept custody b))"
  have key: "bundle_key ?b = bid_key (bid_of_bundle b)" by (simp add: bundle_key_def)
  have inv: "lst_inv U ?l" and keys: "bid_key ` set (lst_public ?l) = insert (bundle_key ?b) (bid_key ` set (lst_public (fs_list st)))"
    using lst_add_inv [OF U(1,3,2)] by simp_all
  have compat: "bid_compat (bid_of_bundle b) m" if "m \<in> set (lst_public ?l)" for m
  proof -
    have "bid_compat (meta_at mo ?b) m" using U(1,3) inv that by (auto simp: meta_consistent_def lst_inv_def)
    moreover have "bid_compat (meta_at mo ?b) m = bid_compat (bid_of_bundle ?b) m"
      by (simp add: bid_compat_def meta_at_def meta_of_bundle_def bundle_id.defs bid_of_bundle_def)
    ultimately show ?thesis by simp
  qed
  have eq: "bid_eq (bid_of_bundle b) m \<longleftrightarrow> bid_key m = bundle_key ?b" if "m \<in> set (lst_public ?l)" for m
    using bid_eq_key [OF compat [OF that]] key by auto
  have "bundle_key ?b \<in> bid_key ` set (lst_public ?l)" using keys by simp
  then obtain m0 where "m0 \<in> set (lst_public ?l)" "bid_key m0 = bundle_key ?b" by (elim imageE) simp
  then have "find (\<lambda>m. bid_eq (bid_of_bundle b) m) (lst_public ?l) \<noteq> None"
    unfolding find_None_iff using eq by blast
  then obtain m where m: "find (\<lambda>m. bid_eq (bid_of_bundle b) m) (lst_public ?l) = Some m" by blast
  then have in_l: "m \<in> set (lst_public ?l)" and "bid_eq (bid_of_bundle b) m" by (auto simp: find_Some_iff)
  then have "bid_key m = bid_key (bid_of_bundle b)" using eq key by simp
  then have "bid_toString m = bid_toString (bid_of_bundle b)"
    using bid_toString_key [OF compat [OF in_l]] by simp
  moreover have "fs_list st1 = ?l" using fs_store_eq [OF st] by simp
  ultimately show ?thesis using m by auto
qed

section \<open>Reading what was stored\<close>

definition fs_aged :: "u64 \<Rightarrow> dtn_bundle \<Rightarrow> dtn_bundle" where
  "fs_aged age b = b\<lparr>b_blocks := blocks_age age (b_blocks b)\<rparr>"

lemma fs_get_pending:
  assumes U: "meta_consistent U" "lst_inv U (fs_list st)" "meta_at mo (fs_kept custody b) \<in> U"
    and st: "fs_store mo custody b st = Inr st1"
  shows "fst (fs_get copy fs now obj age (bid_of_bundle b) st1) = Inr (fs_kept custody b)"
proof -
  obtain m where "fs_find (bid_of_bundle b) st1 = Some m" "bid_toString m = bid_toString (bid_of_bundle b)"
    using fs_find_stored [OF U st] by (auto simp: fs_find_def)
  then show ?thesis using fs_store_eq [OF st] by (simp add: fs_get_def fs_load_def)
qed

lemma fs_get_written:
  assumes U: "meta_consistent U" "lst_inv U (fs_list st)" "meta_at mo (fs_kept custody b) \<in> U"
    and st: "fs_store mo custody b st = Inr st1" and idle: "fs_tasks st = []"
    and b: "blob_copy_ok copy" "bundle_sendable fs b" "container_serialize b \<noteq> None"
  shows "fst (fs_get copy fs now obj age (bid_of_bundle b) (fs_work fresh (DiskWorks part) st1))
    = Inr (fs_aged age (bundle_arrived fs now obj b))"
proof -
  let ?h = "file_hash (bid_toString (bid_of_bundle b))" and ?st = "fs_work fresh (DiskWorks part) st1"
  obtain bytes where bytes: "container_serialize b = Some bytes" using b(3) by blast
  then obtain w where ser: "ser_bundle ser_new b = Inr (bytes, w)"
    by (auto simp: container_serialize_def split: sum.splits prod.splits if_splits)
  have "\<not> dict_fail (ser_dict ser_new)" "\<not> dict_fail (des_dict des_new)"
    by (simp_all add: ser_new_def des_new_def dict_new_def)
  from des_bundle_ser_bundle [OF b(1) this b(2), of now obj] obtain bytes' w'
    where ser': "ser_bundle ser_new b = Inr (bytes', w')"
      and all: "\<forall>s. \<exists>r. des_bundle copy accept_validator fs now des_new obj (bytes' @ s) = Inr ((bundle_arrived fs now obj b, r), s)
        \<and> \<not> dict_fail (des_dict r)" by blast
  have "bytes' = bytes" using ser ser' by simp
  with all obtain r where des: "des_bundle copy accept_validator fs now des_new obj bytes = Inr ((bundle_arrived fs now obj b, r), [])"
    by (metis append_Nil2)
  obtain m where "fs_find (bid_of_bundle b) st1 = Some m" and m: "bid_toString m = bid_toString (bid_of_bundle b)"
    using fs_find_stored [OF U st] by (auto simp: fs_find_def)
  moreover have work: "fs_list ?st = fs_list st1" "fs_files ?st ?h = Some bytes" "fs_pending ?st ?h = None"
    using fs_store_eq [OF st] idle bytes by (simp_all add: fs_work_def fs_write_def fs_eventStored_def Let_def)
  ultimately have "fs_find (bid_of_bundle b) ?st = Some m" by (simp add: fs_find_def)
  then show ?thesis using work m des by (simp add: fs_get_def fs_load_def fs_aged_def)
qed

text \<open>C33: A bundle that is stored without a request for custody, while the worker has nothing else to do, is read back, before its
  file is written and directly afterwards, when it has gone through the file and has only got older. The storage may hold
  whatever other bundles, as long as none is mixed with a fragment of its own and an identifier has one expiry time; the
  bundle is one that can be sent and be put into a container, and copying the BLOB of a payload works.\<close>

theorem file_storage_roundtrip:
  assumes "meta_consistent U" and "lst_inv U (fs_list st)" and "meta_at mo b \<in> U" and "fs_tasks st = []"
    and "blob_copy_ok copy" and "bundle_sendable fs b" and "container_serialize b \<noteq> None"
    and "fs_store mo (Inl CustodyNotRequested) b st = Inr st1"
  shows "fst (fs_get copy fs now obj age (bid_of_bundle b) st1) = Inr b
    \<and> fst (fs_get copy fs now obj age (bid_of_bundle b) (fs_work fresh (DiskWorks part) st1))
        = Inr (fs_aged age (bundle_arrived fs now obj b))"
proof -
  have kept: "fs_kept (Inl CustodyNotRequested) b = b" by (simp add: fs_kept_def)
  have m: "meta_at mo (fs_kept (Inl CustodyNotRequested) b) \<in> U" using assms(3) by (simp add: kept)
  show ?thesis
    using fs_get_pending [OF assms(1,2) m assms(8)] fs_get_written [OF assms(1,2) m assms(8,4-7)] by (simp add: kept)
qed

text \<open>C30: When the storage accepts the custody of a bundle, the bundle it gives out has the new custodian only until the
  file is written: the file has the bundle as it came, with the custodian it had before.\<close>

theorem file_storage_custodian:
  assumes "meta_consistent U" and "lst_inv U (fs_list st)" and "meta_at mo (fs_kept (Inr custodian) b) \<in> U"
    and "fs_tasks st = []" and "blob_copy_ok copy" and "bundle_sendable fs b" and "container_serialize b \<noteq> None"
    and "fs_store mo (Inr custodian) b st = Inr st1"
  shows "map_sum id p_custodian (fst (fs_get copy fs now obj age (bid_of_bundle b) st1)) = Inr custodian
    \<and> map_sum id p_custodian (fst (fs_get copy fs now obj age (bid_of_bundle b) (fs_work fresh (DiskWorks part) st1)))
        = Inr (p_custodian b)"
  using fs_get_pending [OF assms(1-3,8)] fs_get_written [OF assms(1-3,8,4-7)]
  by (simp add: fs_kept_def fs_aged_def bundle_arrived_def primary.extend_def primary_arrived_def)

lemma sample_container: "container_serialize sample_bundle \<noteq> None"
  by code_simp

definition file_storage_example :: file_storage where
  "file_storage_example = fs_new rtake default_factories sample_moment sample_object 1000 []"

lemma file_storage_example_simps:
  "fs_tasks file_storage_example = []" "fs_list file_storage_example = lst_new" "fs_currentsize file_storage_example = 0"
  "fs_maxsize file_storage_example = 1000" "fs_files file_storage_example h = None"
  by (simp_all add: file_storage_example_def fs_new_def)

lemma file_storage_example_store:
  "\<exists>st. fs_store sample_moment custody sample_bundle file_storage_example = Inr st"
  by (simp add: fs_store_def file_storage_example_simps sample_length Let_def)

theorem file_storage_roundtrip_witness:
  "\<exists>st. fs_store sample_moment (Inl CustodyNotRequested) sample_bundle file_storage_example = Inr st
    \<and> fst (fs_get rtake default_factories sample_time sample_object 3 (bid_of_bundle sample_bundle) (fs_work sample_object (DiskWorks []) st))
        = Inr (fs_aged 3 (bundle_arrived default_factories sample_time sample_object sample_bundle))"
proof -
  obtain st where st: "fs_store sample_moment (Inl CustodyNotRequested) sample_bundle file_storage_example = Inr st"
    using file_storage_example_store by blast
  have "lst_inv (metas {sample_moment} {sample_bundle}) (fs_list file_storage_example)"
    by (simp add: file_storage_example_simps lst_inv_new)
  moreover have "meta_at sample_moment sample_bundle \<in> metas {sample_moment} {sample_bundle}" by (auto simp: metas_def)
  ultimately show ?thesis
    using file_storage_roundtrip [OF steady_metas [OF sample_steady] _ _ _ blob_copy_ok_rtake sample_bundle_sendable
        sample_container st, of sample_time sample_object 3 sample_object "[]"] st
    by (simp add: file_storage_example_simps)
qed

theorem file_storage_custodian_witness:
  "\<exists>st. fs_store sample_moment (Inr eid_none) sample_bundle file_storage_example = Inr st
    \<and> map_sum id p_custodian (fst (fs_get rtake default_factories sample_time sample_object 3 (bid_of_bundle sample_bundle)
          (fs_work sample_object (DiskWorks []) st))) = Inr (p_custodian sample_bundle)"
proof -
  let ?b = "fs_kept (Inr eid_none) sample_bundle"
  obtain st where st: "fs_store sample_moment (Inr eid_none) sample_bundle file_storage_example = Inr st"
    using file_storage_example_store by blast
  have "meta_consistent {meta_at sample_moment ?b}" by (simp add: meta_consistent_def bid_compat_def)
  from file_storage_custodian [OF this _ _ _ blob_copy_ok_rtake sample_bundle_sendable sample_container st,
      of sample_time sample_object 3 sample_object "[]"] st
  show ?thesis by (simp add: file_storage_example_simps lst_inv_new)
qed

section \<open>Clearing and failing\<close>

lemma meta_at_toString [simp]: "bid_toString (meta_at mo b) = bid_toString (bid_of_bundle b)"
  by (simp add: bid_toString_def meta_at_def meta_of_bundle_def bundle_id.defs bid_of_bundle_def)

lemma id_of_meta_at [simp]: "id_of_meta (meta_at mo b) = bid_of_bundle b"
  by (simp add: id_of_meta_def meta_at_def meta_of_bundle_def bundle_id.defs)

lemma bid_less_irrefl [simp]: "\<not> bid_less i i"
  using bid_less_key [of i i] by (simp add: bid_compat_def)

text \<open>C29: \<open>clear\<close> sets the size in use to zero, but the thread that deletes the files afterwards subtracts their sizes once
  more: the size wraps around, although the storage is empty, and one with a limit refuses bundles.\<close>

theorem file_storage_clear:
  assumes "container_serialize b \<noteq> None"
    and "fs_store mo custody b (fs_new copy fs mo obj maxsize []) = Inr st1"
    and "st2 = fs_work fresh2 disk (fs_clear (fs_work fresh (DiskWorks part) st1))"
  shows "fs_size st2 = - ms_length b \<and> fs_empty st2 \<and> fs_tasks st2 = [] \<and> fs_files st2 = (\<lambda>_. None)"
proof -
  obtain bytes where bytes: "container_serialize b = Some bytes" using assms(1) by blast
  note st1 = fs_store_eq [OF assms(2)]
  show ?thesis
    unfolding assms(3) st1
    by (simp add: fs_new_def fs_work_def fs_write_def bytes fs_eventStored_def fs_clear_def fs_unlink_def lst_add_def
        lst_new_def lst_clear_def fs_eventRemoved_def fs_size_of_def fs_size_def fs_empty_def Let_def)
qed

theorem file_storage_clear_witness:
  "\<exists>st. fs_store sample_moment (Inl CustodyNotRequested) sample_bundle file_storage_example = Inr st
    \<and> fs_size (fs_work sample_object DiskClosed (fs_clear (fs_work sample_object (DiskWorks []) st))) = 2 ^ 64 - 46"
proof -
  obtain st where st: "fs_store sample_moment (Inl CustodyNotRequested) sample_bundle file_storage_example = Inr st"
    using file_storage_example_store by blast
  from file_storage_clear [OF sample_container st [unfolded file_storage_example_def] refl, of sample_object DiskClosed sample_object "[]"]
  show ?thesis using st by (simp add: sample_length)
qed

text \<open>A bundle whose file could not be written stays in the list of the storage, where the routing finds it, but it
  cannot be read any more.\<close>

theorem file_storage_write_failed:
  assumes "meta_consistent U" and "lst_inv U (fs_list st)" and "meta_at mo (fs_kept custody b) \<in> U" and "fs_tasks st = []"
    and "fs_files st (file_hash (bid_toString (bid_of_bundle b))) = None"
    and "fs_store mo custody b st = Inr st1" and "st2 = fs_work fresh DiskClosed st1"
  shows "fs_find (bid_of_bundle b) st2 \<noteq> None
    \<and> fst (fs_get copy fs now obj age (bid_of_bundle b) st2) = Inl NoBundleFoundException"
proof -
  obtain m where m: "fs_find (bid_of_bundle b) st1 = Some m" "bid_toString m = bid_toString (bid_of_bundle b)"
    using fs_find_stored [OF assms(1-3,6)] by (auto simp: fs_find_def)
  have work: "fs_list st2 = fs_list st1" "fs_pending st2 (file_hash (bid_toString (bid_of_bundle b))) = None"
    "fs_files st2 (file_hash (bid_toString (bid_of_bundle b))) = None"
    using fs_store_eq [OF assms(6)] assms(4,5) by (simp_all add: assms(7) fs_work_def fs_write_def fs_eventStoreFailed_def Let_def)
  then have "fs_find (bid_of_bundle b) st2 = Some m" using m(1) by (simp add: fs_find_def)
  then show ?thesis using work m by (simp add: fs_get_def fs_load_def)
qed

theorem file_storage_write_failed_witness:
  "\<exists>st. fs_store sample_moment (Inl CustodyNotRequested) sample_bundle file_storage_example = Inr st
    \<and> fs_find (bid_of_bundle sample_bundle) (fs_work sample_object DiskClosed st) \<noteq> None"
proof -
  obtain st where st: "fs_store sample_moment (Inl CustodyNotRequested) sample_bundle file_storage_example = Inr st"
    using file_storage_example_store by blast
  have "lst_inv (metas {sample_moment} {sample_bundle}) (fs_list file_storage_example)"
    by (simp add: file_storage_example_simps lst_inv_new)
  moreover have "meta_at sample_moment (fs_kept (Inl CustodyNotRequested) sample_bundle) \<in> metas {sample_moment} {sample_bundle}"
    by (auto simp: metas_def fs_kept_def)
  ultimately show ?thesis
    using file_storage_write_failed [OF steady_metas [OF sample_steady] _ _ _ _ st refl, of sample_object] st
    by (simp add: file_storage_example_simps)
qed

end
