(* ===== verification/Security.thy ===== *)
theory Security
  imports RoundTrip StdSet
begin

text \<open>
  The formats of the bundle security protocol (\<open>ibrdtn/security/SecurityBlock.cpp\<close>,
  \<open>ibrdtn/security/MutualSerializer.cpp\<close>): lists of type-length-value entries, security blocks, and the canonical form of
  a bundle over which signatures are made. Digests, signatures and ciphers are OpenSSL's and not modelled.
\<close>

section \<open>Type-length-value entries\<close>

record tlv =
  tlv_type :: byte
  tlv_value :: string

text \<open>\<open>operator<\<close> compares enumerators: types are unsigned, a negative character is one of the greatest.\<close>

definition tlv_less :: "tlv \<Rightarrow> tlv \<Rightarrow> bool" where
  "tlv_less a b \<longleftrightarrow> tlv_type a < tlv_type b"

definition tlv_bytes :: "tlv \<Rightarrow> byte list" where
  "tlv_bytes t = tlv_type t # bstr_bytes (tlv_value t)"

definition get_tlv :: "tlv reader" where
  "get_tlv = rbind rbyte (\<lambda>t. rbind get_bstr (\<lambda>v. rret \<lparr>tlv_type = t, tlv_value = v\<rparr>))"

definition tlv_getLength :: "tlv \<Rightarrow> nat" where
  "tlv_getLength t = bstr_getLength (tlv_value t) + 1"

type_synonym tlv_list = "tlv list"

definition tlvs_getLength :: "tlv_list \<Rightarrow> nat" where
  "tlvs_getLength l = sum_list (map tlv_getLength l)"

definition tlvs_toString :: "tlv_list \<Rightarrow> byte list" where
  "tlvs_toString l = concat (map tlv_bytes l)"

definition tlvs_get :: "byte \<Rightarrow> tlv_list \<Rightarrow> ibr_error + string" where
  "tlvs_get type l = (case find (\<lambda>t. tlv_type t = type) l of Some t \<Rightarrow> Inr (tlv_value t) | None \<Rightarrow> Inl IbrException)"

definition tlvs_set :: "byte \<Rightarrow> string \<Rightarrow> tlv_list \<Rightarrow> tlv_list" where
  "tlvs_set type v l =
     (let t = \<lparr>tlv_type = type, tlv_value = v\<rparr> in oset_insert tlv_less t (oset_erase tlv_less t l))"

definition tlvs_remove :: "byte \<Rightarrow> tlv_list \<Rightarrow> tlv_list" where
  "tlvs_remove type l = oset_erase tlv_less \<lparr>tlv_type = type, tlv_value = []\<rparr> l"

definition tlvs_bytes :: "tlv_list \<Rightarrow> byte list" where
  "tlvs_bytes l = sdnv_bytes (word_of_nat (tlvs_getLength l)) @ tlvs_toString l"

text \<open>The loop of \<open>operator>>\<close>; an entry counts two bytes or more.\<close>

lemma tlv_getLength_pos: "0 < tlv_getLength t"
  by (simp add: tlv_getLength_def)

function get_tlvs_loop :: "nat \<Rightarrow> nat \<Rightarrow> tlv_list \<Rightarrow> tlv_list reader" where
  "get_tlvs_loop len read l s =
     (if read < len
      then rbind get_tlv (\<lambda>t. get_tlvs_loop len (read + tlv_getLength t) (oset_insert tlv_less t l)) s
      else Inr (l, s))"
  by pat_completeness auto

termination
  by (relation "measure (\<lambda>(len, read, l, s). len - read)") (use tlv_getLength_pos in \<open>auto intro: diff_less_mono2\<close>)

definition get_tlvs :: "tlv_list \<Rightarrow> tlv_list reader" where
  "get_tlvs l = rbind get_sdnv (\<lambda>len. get_tlvs_loop (unat len) 0 l)"

section \<open>Security blocks\<close>

definition BUNDLE_AUTHENTICATION_BLOCK :: byte where "BUNDLE_AUTHENTICATION_BLOCK = 2"

definition PAYLOAD_INTEGRITY_BLOCK :: byte where "PAYLOAD_INTEGRITY_BLOCK = 3"

definition PAYLOAD_CONFIDENTIAL_BLOCK :: byte where "PAYLOAD_CONFIDENTIAL_BLOCK = 4"

definition EXTENSION_SECURITY_BLOCK :: byte where "EXTENSION_SECURITY_BLOCK = 9"

definition CONTAINS_SECURITY_RESULT :: u64 where "CONTAINS_SECURITY_RESULT = bit_flag 0"

definition CONTAINS_CORRELATOR :: u64 where "CONTAINS_CORRELATOR = bit_flag 1"

definition CONTAINS_CIPHERSUITE_PARAMS :: u64 where "CONTAINS_CIPHERSUITE_PARAMS = bit_flag 2"

definition CONTAINS_SECURITY_DESTINATION :: u64 where "CONTAINS_SECURITY_DESTINATION = bit_flag 3"

definition CONTAINS_SECURITY_SOURCE :: u64 where "CONTAINS_SECURITY_SOURCE = bit_flag 4"

lemmas ciphersuite_flag_defs =
  CONTAINS_SECURITY_RESULT_def CONTAINS_CORRELATOR_def CONTAINS_CIPHERSUITE_PARAMS_def CONTAINS_SECURITY_DESTINATION_def
  CONTAINS_SECURITY_SOURCE_def

text \<open>The last field is \<open>result_size\<close> of payload integrity blocks.\<close>

record security_block =
  sc_blocktype :: byte
  sc_procflags :: u64
  sc_eids :: "eid list"
  sc_ciphersuite_id :: u64
  sc_flags :: u64
  sc_correlator :: u64
  sc_params :: tlv_list
  sc_result :: tlv_list
  sc_destination :: eid
  sc_source :: eid
  sc_result_size :: nat

definition sc_new :: "byte \<Rightarrow> u64 \<Rightarrow> security_block" where
  "sc_new type cid =
     \<lparr>sc_blocktype = type, sc_procflags = 0, sc_eids = [], sc_ciphersuite_id = cid, sc_flags = 0, sc_correlator = 0,
      sc_params = [], sc_result = [], sc_destination = eid_none, sc_source = eid_none, sc_result_size = 0\<rparr>"

definition sc_has :: "u64 \<Rightarrow> security_block \<Rightarrow> bool" where
  "sc_has f b = get_flag f (sc_flags b)"

definition store_security_references :: "security_block \<Rightarrow> security_block" where
  "store_security_references b =
     (let eids = (if sc_source b = eid_none then [] else [sc_source b]) @ (if sc_destination b = eid_none then [] else [sc_destination b])
      in b\<lparr>sc_eids := eids,
           sc_flags := set_flag CONTAINS_SECURITY_DESTINATION (sc_destination b \<noteq> eid_none)
                         (set_flag CONTAINS_SECURITY_SOURCE (sc_source b \<noteq> eid_none) (sc_flags b)),
           sc_procflags := set_flag BLOCK_CONTAINS_EIDS (eids \<noteq> []) (sc_procflags b)\<rparr>)"

definition setSecuritySource :: "eid \<Rightarrow> security_block \<Rightarrow> security_block" where
  "setSecuritySource e b = store_security_references (b\<lparr>sc_source := e\<rparr>)"

definition setSecurityDestination :: "eid \<Rightarrow> security_block \<Rightarrow> security_block" where
  "setSecurityDestination e b = store_security_references (b\<lparr>sc_destination := e\<rparr>)"

definition setCorrelator :: "u64 \<Rightarrow> security_block \<Rightarrow> security_block" where
  "setCorrelator corr b = b\<lparr>sc_correlator := corr, sc_flags := sc_flags b OR CONTAINS_CORRELATOR\<rparr>"

datatype any_block = PlainBlock block | SecurityBlock security_block

definition isCorrelatorPresent :: "any_block list \<Rightarrow> u64 \<Rightarrow> bool" where
  "isCorrelatorPresent blocks corr =
     list_ex (\<lambda>b. case b of PlainBlock _ \<Rightarrow> False | SecurityBlock s \<Rightarrow> sc_correlator s = corr) blocks"

text \<open>\<open>createCorrelatorValue\<close> draws until a number is not in use; the draws of \<open>random()\<close> are an argument, and there may be
  too few of them.\<close>

primrec createCorrelatorValue :: "any_block list \<Rightarrow> u64 list \<Rightarrow> u64 option" where
  "createCorrelatorValue blocks [] = None"
| "createCorrelatorValue blocks (r # rs) = (if isCorrelatorPresent blocks r then createCorrelatorValue blocks rs else Some r)"

text \<open>With the source or the destination of the bundle, if the block does not say another.\<close>

definition getSecuritySource :: "'a primary_scheme \<Rightarrow> security_block \<Rightarrow> ibr_error + eid" where
  "getSecuritySource bundle b = (if sc_source b = eid_none then eid_getNode (p_source bundle) else Inr (sc_source b))"

definition getSecurityDestination :: "'a primary_scheme \<Rightarrow> security_block \<Rightarrow> ibr_error + eid" where
  "getSecurityDestination bundle b =
     (if sc_destination b = eid_none then eid_getNode (p_destination bundle) else Inr (sc_destination b))"

definition isSecuritySource :: "'a primary_scheme \<Rightarrow> eid \<Rightarrow> security_block \<Rightarrow> ibr_error + bool" where
  "isSecuritySource bundle e b =
     (case getSecuritySource bundle b of Inl x \<Rightarrow> Inl x
      | Inr s \<Rightarrow> (case eid_getNode e of Inl x \<Rightarrow> Inl x | Inr n \<Rightarrow> Inr (s = n)))"

definition isSecurityDestination :: "'a primary_scheme \<Rightarrow> eid \<Rightarrow> security_block \<Rightarrow> ibr_error + bool" where
  "isSecurityDestination bundle e b =
     (case getSecurityDestination bundle b of Inl x \<Rightarrow> Inl x
      | Inr s \<Rightarrow> (case eid_getNode e of Inl x \<Rightarrow> Inl x | Inr n \<Rightarrow> Inr (s = n)))"

text \<open>
  \<open>getSecurityResultSize\<close> is virtual: that of a bundle authentication block is made of the size \<open>md\<close> of a digest, and
  that of a payload integrity block of the size of the key, if it is known.
\<close>

definition getSecurityResultSize :: "nat \<Rightarrow> security_block \<Rightarrow> nat" where
  "getSecurityResultSize md b =
     (if sc_blocktype b = BUNDLE_AUTHENTICATION_BLOCK then 1 + sdnv_count (word_of_nat md) + md
      else if sc_blocktype b = PAYLOAD_INTEGRITY_BLOCK \<and> 0 < sc_result_size b then sc_result_size b
      else tlvs_getLength (sc_result b))"

definition sc_getLength :: "nat \<Rightarrow> security_block \<Rightarrow> nat" where
  "sc_getLength md b =
     sdnv_count (sc_ciphersuite_id b) + sdnv_count (sc_flags b)
     + (if sc_has CONTAINS_CORRELATOR b then sdnv_count (sc_correlator b) else 0)
     + (if sc_has CONTAINS_CIPHERSUITE_PARAMS b
        then sdnv_count (word_of_nat (tlvs_getLength (sc_params b))) + tlvs_getLength (sc_params b) else 0)
     + (if sc_has CONTAINS_SECURITY_RESULT b
        then sdnv_count (word_of_nat (getSecurityResultSize md b)) + getSecurityResultSize md b else 0)"

definition sc_serialize :: "security_block \<Rightarrow> byte list" where
  "sc_serialize b =
     sdnv_bytes (sc_ciphersuite_id b) @ sdnv_bytes (sc_flags b)
     @ (if sc_has CONTAINS_CORRELATOR b then sdnv_bytes (sc_correlator b) else [])
     @ (if sc_has CONTAINS_CIPHERSUITE_PARAMS b then tlvs_bytes (sc_params b) else [])
     @ (if sc_has CONTAINS_SECURITY_RESULT b then tlvs_bytes (sc_result b) else [])"

text \<open>The strict form has the size of the security result only.\<close>

definition sc_serialize_strict  :: "nat \<Rightarrow> security_block \<Rightarrow> byte list" where
  "sc_serialize_strict md b =
     sdnv_bytes (sc_ciphersuite_id b) @ sdnv_bytes (sc_flags b)
     @ (if sc_has CONTAINS_CORRELATOR b then sdnv_bytes (sc_correlator b) else [])
     @ (if sc_has CONTAINS_CIPHERSUITE_PARAMS b then tlvs_bytes (sc_params b) else [])
     @ (if sc_has CONTAINS_SECURITY_RESULT b then sdnv_bytes (word_of_nat (getSecurityResultSize md b)) else [])"

text \<open>
  The source and the destination, from the identifiers of the header of the block. \<open>*(_eids.begin())++\<close> is the first
  one: the iterator is moved after it is used.
\<close>

definition sc_references :: "security_block \<Rightarrow> ibr_error + security_block" where
  "sc_references b =
     (let source = sc_has CONTAINS_SECURITY_SOURCE b; destination = sc_has CONTAINS_SECURITY_DESTINATION b
      in if source \<and> sc_eids b = [] then Inl SerializationFailedException
         else if destination \<and> length (sc_eids b) < (if source then 2 else 1) then Inl SerializationFailedException
         else Inr (b\<lparr>sc_source := (if source then hd (sc_eids b) else sc_source b),
                     sc_destination := (if destination then hd (sc_eids b) else sc_destination b)\<rparr>))"

definition ropt :: "bool \<Rightarrow> 'a \<Rightarrow> 'a reader \<Rightarrow> 'a reader" where
  "ropt c x m = (if c then m else rret x)"

definition sc_deserialize :: "security_block \<Rightarrow> security_block reader" where
  "sc_deserialize b =
     rbind get_sdnv (\<lambda>cid. rbind get_sdnv (\<lambda>flags.
     case sc_references (b\<lparr>sc_ciphersuite_id := cid, sc_flags := flags\<rparr>) of
       Inl e \<Rightarrow> rfail e
     | Inr b1 \<Rightarrow>
         rbind (ropt (sc_has CONTAINS_CORRELATOR b1) (sc_correlator b1) get_sdnv) (\<lambda>corr.
         rbind (ropt (sc_has CONTAINS_CIPHERSUITE_PARAMS b1) (sc_params b1) (get_tlvs (sc_params b1))) (\<lambda>params.
         rbind (ropt (sc_has CONTAINS_SECURITY_RESULT b1) (sc_result b1) (get_tlvs (sc_result b1))) (\<lambda>result.
         rret (b1\<lparr>sc_correlator := corr, sc_params := params, sc_result := result\<rparr>))))))"

text \<open>\<open>deserialize\<close> is virtual: a payload integrity block takes the size of its result.\<close>

definition sc_read :: "security_block \<Rightarrow> security_block reader" where
  "sc_read b =
     rbind (sc_deserialize b) (\<lambda>r. rret (if sc_blocktype r = PAYLOAD_INTEGRITY_BLOCK
       then r\<lparr>sc_result_size := tlvs_getLength (sc_result r)\<rparr> else r))"

section \<open>The mutable canonical form\<close>

text \<open>Numbers in network byte order: words of 32 bits, and SDNVs as words of 64 bits.\<close>

definition be_bytes :: "nat \<Rightarrow> 'a :: len word \<Rightarrow> byte list" where
  "be_bytes n w = map (\<lambda>i. ucast (drop_bit (8 * i) w)) (rev [0..<n])"

definition mut_u32 :: "32 word \<Rightarrow> byte list" where
  "mut_u32 v = be_bytes 4 v"

definition mut_sdnv :: "u64 \<Rightarrow> byte list" where
  "mut_sdnv v = be_bytes 8 v"

definition mut_eid :: "eid \<Rightarrow> byte list" where
  "mut_eid e = mut_u32 (word_of_nat (length (eid_getString e))) @ str_bytes (eid_getString e)"

definition mut_tlvs :: "tlv_list \<Rightarrow> byte list" where
  "mut_tlvs l = mut_sdnv (word_of_nat (tlvs_getLength l)) @ tlvs_toString l"

definition mut_getLength_primary :: "'a primary_scheme \<Rightarrow> 32 word" where
  "mut_getLength_primary p =
     word_of_nat (4 + length (eid_getString (p_destination p)) + 4 + length (eid_getString (p_source p))
       + 4 + length (eid_getString (p_reportto p)) + 2 * 8 + 8)"

definition mut_primary :: "'a primary_scheme \<Rightarrow> byte list" where
  "mut_primary p =
     BUNDLE_VERSION # mut_sdnv (p_procflags p AND 0x7C1BE) @ mut_u32 (mut_getLength_primary p)
     @ mut_eid (p_destination p) @ mut_eid (p_source p) @ mut_eid (p_reportto p)
     @ mut_sdnv (p_timestamp p) @ mut_sdnv (p_sequencenumber p) @ mut_sdnv (p_lifetime p)"

definition sc_getLength_mutable :: "nat \<Rightarrow> security_block \<Rightarrow> nat" where
  "sc_getLength_mutable md b =
     8 + 8 + (if sc_has CONTAINS_CORRELATOR b then 8 else 0)
     + (if sc_has CONTAINS_CIPHERSUITE_PARAMS b then 8 + tlvs_getLength (sc_params b) else 0)
     + (if sc_has CONTAINS_SECURITY_RESULT b then 8 + getSecurityResultSize md b else 0)"

text \<open>Where the block has a correlator the flags are written a second time.\<close>

definition sc_mutable_head :: "security_block \<Rightarrow> byte list" where
  "sc_mutable_head b =
     mut_sdnv (sc_ciphersuite_id b) @ mut_sdnv (sc_flags b)
     @ (if sc_has CONTAINS_CORRELATOR b then mut_sdnv (sc_flags b) else [])
     @ (if sc_has CONTAINS_CIPHERSUITE_PARAMS b then mut_tlvs (sc_params b) else [])"

definition sc_serialize_mutable :: "security_block \<Rightarrow> byte list" where
  "sc_serialize_mutable b =
     sc_mutable_head b @ (if sc_has CONTAINS_SECURITY_RESULT b then mut_tlvs (sc_result b) else [])"

definition sc_serialize_mutable_without_result :: "nat \<Rightarrow> security_block \<Rightarrow> byte list" where
  "sc_serialize_mutable_without_result md b =
     sc_mutable_head b
     @ (if sc_has CONTAINS_SECURITY_RESULT b then mut_sdnv (word_of_nat (getSecurityResultSize md b)) else [])"

definition mut_block_head :: "byte \<Rightarrow> u64 \<Rightarrow> eid list \<Rightarrow> byte list" where
  "mut_block_head type flags eids =
     type # mut_sdnv (flags AND 0x77) @ (if get_flag BLOCK_CONTAINS_EIDS flags then concat (map mut_eid eids) else [])"

fun mut_block :: "nat \<Rightarrow> any_block \<Rightarrow> byte list" where
  "mut_block md (PlainBlock b) =
     (if blk_type b \<noteq> PAYLOAD_BLOCK_TYPE \<and> blk_type b \<noteq> PAYLOAD_INTEGRITY_BLOCK
         \<and> blk_type b \<noteq> PAYLOAD_CONFIDENTIAL_BLOCK then []
      else mut_block_head (blk_type b) (blk_flags b) (blk_eids b)
           @ mut_sdnv (word_of_nat (body_getLength (blk_body b))) @ body_bytes (blk_body b))"
| "mut_block md (SecurityBlock b) =
     (if sc_blocktype b = PAYLOAD_INTEGRITY_BLOCK \<or> sc_blocktype b = PAYLOAD_CONFIDENTIAL_BLOCK
      then mut_block_head (sc_blocktype b) (sc_procflags b) (sc_eids b)
           @ mut_sdnv (word_of_nat (sc_getLength_mutable md b)) @ sc_serialize_mutable_without_result md b
      else [])"

text \<open>
  A bundle: the blocks in front of the one that is given, by its position, are left out.
\<close>

definition mut_bundle :: "nat \<Rightarrow> nat option \<Rightarrow> 'a primary_scheme \<Rightarrow> any_block list \<Rightarrow> byte list" where
  "mut_bundle md ignore p blocks =
     mut_primary p @ concat (map (mut_block md) (case ignore of None \<Rightarrow> blocks | Some k \<Rightarrow> drop k blocks))"

text \<open>\<open>getLength(Block)\<close> of the serializer counts the identifiers without their lengths.\<close>

fun mut_getLength_block :: "nat \<Rightarrow> any_block \<Rightarrow> nat" where
  "mut_getLength_block md (PlainBlock b) =
     1 + 8 + (if block_get BLOCK_CONTAINS_EIDS b then sum_list (map (length \<circ> eid_getString) (blk_eids b)) else 0) + 8
     + body_getLength (blk_body b)"
| "mut_getLength_block md (SecurityBlock b) =
     1 + 8 + (if get_flag BLOCK_CONTAINS_EIDS (sc_procflags b) then sum_list (map (length \<circ> eid_getString) (sc_eids b)) else 0) + 8
     + sc_getLength_mutable md b"

section \<open>Parameters\<close>

definition TLV_fragment_range :: byte where "TLV_fragment_range = 4"

definition TLV_salt :: byte where "TLV_salt = 7"

definition addSalt :: "32 word \<Rightarrow> tlv_list \<Rightarrow> tlv_list" where
  "addSalt salt l = tlvs_set TLV_salt (bytes_str (be_bytes 4 salt)) l"

text \<open>\<open>get\<close> into an array of four bytes, which are zero where the value is too short.\<close>

definition be_value :: "byte list \<Rightarrow> 32 word" where
  "be_value bs = foldl (\<lambda>w b. push_bit 8 w OR ucast b) 0 bs"

definition getSalt :: "tlv_list \<Rightarrow> ibr_error + 32 word" where
  "getSalt l =
     (case tlvs_get TLV_salt l of
        Inl e \<Rightarrow> Inl e
      | Inr v \<Rightarrow> Inr (be_value (take 4 (str_bytes v @ [0, 0, 0, 0]))))"

definition addFragmentRange :: "u64 \<Rightarrow> u64 \<Rightarrow> tlv_list \<Rightarrow> tlv_list" where
  "addFragmentRange offset len l = tlvs_set TLV_fragment_range (bytes_str (sdnv_bytes offset @ sdnv_bytes len)) l"

section \<open>Lists of entries\<close>

text \<open>The comparator orders the lists by the type.\<close>

interpretation tlvs: key_order tlv_less "\<lambda>t. uint (tlv_type t)" "\<lambda>a b. True"
  by unfold_locales (auto simp: tlv_less_def word_less_def)

definition tlvs_ok :: "tlv_list \<Rightarrow> bool" where
  "tlvs_ok l \<longleftrightarrow> key_sorted (\<lambda>t. uint (tlv_type t)) l \<and> list_all (\<lambda>t. length (tlv_value t) < 2 ^ 63) l \<and> tlvs_getLength l < 2 ^ 64"

lemma length_tlv_bytes: "length (tlv_bytes t) = tlv_getLength t"
  by (simp add: tlv_bytes_def tlv_getLength_def bstr_bytes_def bstr_getLength_def length_sdnv_bytes)

lemma length_tlvs_toString: "length (tlvs_toString l) = tlvs_getLength l"
  by (induction l) (simp_all add: tlvs_toString_def tlvs_getLength_def length_tlv_bytes)

lemma get_tlv_bytes: "length (tlv_value t) < 2 ^ 63 \<Longrightarrow> get_tlv (tlv_bytes t @ s) = Inr (t, s)"
  by (simp add: get_tlv_def tlv_bytes_def rbind_def get_bstr_bytes)

lemma get_tlvs_loop_bytes:
  assumes "key_sorted (\<lambda>t. uint (tlv_type t)) (l @ rest)" and "list_all (\<lambda>t. length (tlv_value t) < 2 ^ 63) rest"
    and "len = read + tlvs_getLength rest"
  shows "get_tlvs_loop len read l (tlvs_toString rest @ s) = Inr (l @ rest, s)"
  using assms
proof (induction rest arbitrary: l read)
  case Nil
  then show ?case by (simp add: tlvs_getLength_def tlvs_toString_def)
next
  case (Cons t rest)
  have less: "read < len" using Cons.prems(3) tlv_getLength_pos [of t] by (simp add: tlvs_getLength_def)
  have "\<forall>y \<in> set l. uint (tlv_type y) < uint (tlv_type t)"
    using Cons.prems(1) by (auto simp: key_sorted_def sorted_wrt_append)
  then have ins: "oset_insert tlv_less t l = l @ [t]" using tlvs.insert_back by (simp add: list_all_iff)
  have "get_tlv (tlvs_toString (t # rest) @ s) = Inr (t, tlvs_toString rest @ s)"
    using Cons.prems(2) get_tlv_bytes [of t "tlvs_toString rest @ s"] by (simp add: tlvs_toString_def)
  moreover have "get_tlvs_loop len (read + tlv_getLength t) (l @ [t]) (tlvs_toString rest @ s) = Inr ((l @ [t]) @ rest, s)"
    using Cons.prems by (intro Cons.IH) (simp_all add: tlvs_getLength_def)
  ultimately show ?case
    by (subst get_tlvs_loop.simps) (simp add: less rbind_def ins del: get_tlvs_loop.simps)
qed

lemma get_tlvs_bytes:
  assumes "tlvs_ok l"
  shows "get_tlvs [] (tlvs_bytes l @ s) = Inr (l, s)"
proof -
  have "unat (word_of_nat (tlvs_getLength l) :: u64) = tlvs_getLength l" using assms by (simp add: tlvs_ok_def unat_of_nat)
  then show ?thesis
    using assms get_tlvs_loop_bytes [of "[]" l "tlvs_getLength l" 0 s]
    by (simp add: get_tlvs_def tlvs_bytes_def wire_simps tlvs_ok_def del: get_tlvs_loop.simps)
qed

interpretation tlv_codec: sized_codec tlvs_bytes "get_tlvs []" tlvs_ok
    "\<lambda>l. sdnv_count (word_of_nat (tlvs_getLength l)) + tlvs_getLength l"
proof
  show "get_tlvs [] (tlvs_bytes l @ s) = Inr (l, s)" if "tlvs_ok l" for l s using that by (rule get_tlvs_bytes)
qed (simp add: tlvs_bytes_def length_sdnv_bytes length_tlvs_toString)

lemma tlvs_get_set:
  assumes "key_sorted (\<lambda>t. uint (tlv_type t)) l"
  shows "tlvs_get type (tlvs_set type v l) = Inr v"
proof -
  let ?t = "\<lparr>tlv_type = type, tlv_value = v\<rparr>" and ?l = "oset_erase tlv_less \<lparr>tlv_type = type, tlv_value = v\<rparr> l"
  have fit: "list_all (\<lambda>b. True) xs" for xs :: tlv_list by (simp add: list_all_iff)
  have erased: "set ?l = {x \<in> set l. uint (tlv_type x) \<noteq> uint type}" "key_sorted (\<lambda>t. uint (tlv_type t)) ?l"
    using tlvs.erase_set [OF assms fit, of ?t] tlvs.erase_sorted [OF assms fit, of ?t] by simp_all
  then have "set (tlvs_set type v l) = insert ?t (set ?l)"
    using tlvs.insert_set [OF erased(2) fit, of ?t] by (auto simp: tlvs_set_def Let_def)
  then have only: "x = ?t" if "x \<in> set (tlvs_set type v l)" "tlv_type x = type" for x
    using that erased(1) by auto
  have "find (\<lambda>t. tlv_type t = type) (tlvs_set type v l) \<noteq> None"
    using \<open>set (tlvs_set type v l) = insert ?t (set ?l)\<close> unfolding find_None_iff by auto
  then obtain x where x: "find (\<lambda>t. tlv_type t = type) (tlvs_set type v l) = Some x" by blast
  then have "x \<in> set (tlvs_set type v l)" "tlv_type x = type" by (auto simp: find_Some_iff)
  then have "x = ?t" by (rule only)
  then show ?thesis using x by (simp add: tlvs_get_def)
qed

section \<open>Numbers in network byte order\<close>

lemma length_be_bytes [simp]: "length (be_bytes n w) = n"
  by (simp add: be_bytes_def)

lemma be_bytes_inj:
  fixes v w :: "'a :: len word"
  assumes "LENGTH('a) \<le> 8 * n" and "be_bytes n v = be_bytes n w"
  shows "v = w"
proof (rule bit_word_eqI)
  fix m
  assume "m < LENGTH('a)"
  then have m: "m div 8 < n" using assms(1) by linarith
  then have "(ucast (drop_bit (8 * (m div 8)) v) :: byte) = ucast (drop_bit (8 * (m div 8)) w)"
    using assms(2) by (simp add: be_bytes_def)
  then have "bit (ucast (drop_bit (8 * (m div 8)) v) :: byte) (m mod 8) = bit (ucast (drop_bit (8 * (m div 8)) w) :: byte) (m mod 8)"
    by simp
  moreover have "m mod 8 < 8" by simp
  ultimately show "bit v m = bit w m" by (simp add: bit_simps)
qed

lemma mut_sdnv_append: "mut_sdnv v @ s = mut_sdnv w @ t \<longleftrightarrow> v = w \<and> s = t"
  using be_bytes_inj [of 8 v w] by (auto simp: mut_sdnv_def)

lemma mut_u32_append: "mut_u32 v @ s = mut_u32 w @ t \<longleftrightarrow> v = w \<and> s = t"
  using be_bytes_inj [of 4 v w] by (auto simp: mut_u32_def)

definition eid_mutable :: "eid \<Rightarrow> bool" where
  "eid_mutable e \<longleftrightarrow> length (eid_getString e) < 2 ^ 32"

lemma mut_eid_append:
  assumes "eid_mutable e" and "eid_mutable f"
  shows "mut_eid e @ s = mut_eid f @ t \<longleftrightarrow> eid_getString e = eid_getString f \<and> s = t"
proof -
  have "(word_of_nat (length (eid_getString e)) :: 32 word) = word_of_nat (length (eid_getString f))
      \<longleftrightarrow> length (eid_getString e) = length (eid_getString f)"
    using assms by (simp add: eid_mutable_def word_of_nat_eq_iff take_bit_nat_eq_self)
  moreover have "str_bytes x = str_bytes y \<longleftrightarrow> x = y" for x y by (metis bytes_str_str_bytes)
  ultimately show ?thesis by (auto simp: mut_eid_def mut_u32_append)
qed

section \<open>What a signature covers\<close>

definition primary_mutable :: "'a primary_scheme \<Rightarrow> bool" where
  "primary_mutable p \<longleftrightarrow> eid_mutable (p_destination p) \<and> eid_mutable (p_source p) \<and> eid_mutable (p_reportto p)"

text \<open>C15: The canonical form of the primary block says exactly this much: two bundles have the same one if and only if they
  agree in the endpoints by their names, the timestamp, the sequence number, the lifetime and the flags under the mask,
  whatever follows. So a signature over it covers these, and custodian and fragment offset may change on the way.\<close>

theorem canonical_primary:
  assumes "primary_mutable p" and "primary_mutable q"
  shows "mut_primary p @ s = mut_primary q @ t \<longleftrightarrow>
    p_procflags p AND 0x7C1BE = p_procflags q AND 0x7C1BE
    \<and> eid_getString (p_destination p) = eid_getString (p_destination q)
    \<and> eid_getString (p_source p) = eid_getString (p_source q)
    \<and> eid_getString (p_reportto p) = eid_getString (p_reportto q)
    \<and> p_timestamp p = p_timestamp q \<and> p_sequencenumber p = p_sequencenumber q \<and> p_lifetime p = p_lifetime q \<and> s = t"
  using assms
  by (auto simp: mut_primary_def primary_mutable_def mut_sdnv_append mut_u32_append mut_eid_append mut_getLength_primary_def)

definition sample_forwarded :: primary where
  "sample_forwarded = sample_primary\<lparr>p_custodian := eid_parse ''dtn:relay'', p_fragmentoffset := 7\<rparr>"

theorem canonical_primary_witness:
  "mut_primary sample_primary @ [1] = mut_primary sample_forwarded @ [1]"
proof -
  have "length (eid_getString (p_destination sample_primary)) < 100 \<and> length (eid_getString (p_source sample_primary)) < 100
      \<and> length (eid_getString (p_reportto sample_primary)) < 100"
    by code_simp
  then have "primary_mutable sample_primary" by (simp add: primary_mutable_def eid_mutable_def)
  moreover have "primary_mutable sample_forwarded" using calculation by (simp add: primary_mutable_def sample_forwarded_def)
  ultimately show ?thesis using canonical_primary [of sample_primary sample_forwarded "[1]" "[1]"] by (simp add: sample_forwarded_def)
qed

text \<open>The length in the primary block is that of what follows it.\<close>

lemma mut_primary_length:
  "mut_primary p = BUNDLE_VERSION # mut_sdnv (p_procflags p AND 0x7C1BE) @ mut_u32 (mut_getLength_primary p) @ rest
    \<Longrightarrow> mut_getLength_primary p = word_of_nat (length rest)"
  by (auto simp: mut_primary_def mut_getLength_primary_def mut_eid_def mut_sdnv_def mut_u32_def)

section \<open>Security blocks on the wire\<close>

definition sc_ok :: "security_block \<Rightarrow> bool" where
  "sc_ok b \<longleftrightarrow> store_security_references b = b \<and> tlvs_ok (sc_params b) \<and> tlvs_ok (sc_result b)
     \<and> (\<not> sc_has CONTAINS_CORRELATOR b \<longrightarrow> sc_correlator b = 0)
     \<and> (\<not> sc_has CONTAINS_CIPHERSUITE_PARAMS b \<longrightarrow> sc_params b = [])
     \<and> (\<not> sc_has CONTAINS_SECURITY_RESULT b \<longrightarrow> sc_result b = [])
     \<and> sc_result_size b = (if sc_blocktype b = PAYLOAD_INTEGRITY_BLOCK then tlvs_getLength (sc_result b) else 0)"

text \<open>Setting the source or the destination keeps the flags, the identifiers and the fields together.\<close>

lemma store_security_references_flags:
  "sc_has CONTAINS_SECURITY_SOURCE (store_security_references b) = (sc_source b \<noteq> eid_none)"
  "sc_has CONTAINS_SECURITY_DESTINATION (store_security_references b) = (sc_destination b \<noteq> eid_none)"
  by (simp_all add: store_security_references_def sc_has_def ciphersuite_flag_defs get_flag_bit bit_set_flag Let_def)

lemma store_security_references_again: "store_security_references (store_security_references b) = store_security_references b"
proof -
  have "set_flag (bit_flag 3) d (set_flag (bit_flag 4) s (set_flag (bit_flag 3) d (set_flag (bit_flag 4) s w)))
      = set_flag (bit_flag 3) d (set_flag (bit_flag 4) s w)" for d s w
    by (rule bit_eqI) (simp add: bit_set_flag)
  then show ?thesis
    by (simp add: store_security_references_def ciphersuite_flag_defs Let_def)
qed

text \<open>The block a factory makes, with what the header of the block has already given.\<close>

definition sc_received :: "security_block \<Rightarrow> security_block" where
  "sc_received b = (sc_new (sc_blocktype b) 0)\<lparr>sc_procflags := sc_procflags b, sc_eids := sc_eids b\<rparr>"

definition sc_arrived :: "security_block \<Rightarrow> security_block" where
  "sc_arrived b = (if sc_source b \<noteq> eid_none \<and> sc_destination b \<noteq> eid_none then b\<lparr>sc_destination := sc_source b\<rparr> else b)"

lemma sc_references_arrived:
  assumes "sc_ok b" and "r = (sc_received b)\<lparr>sc_ciphersuite_id := sc_ciphersuite_id b, sc_flags := sc_flags b\<rparr>"
  shows "sc_references r = Inr ((sc_arrived b)\<lparr>sc_correlator := 0, sc_params := [], sc_result := [], sc_result_size := 0\<rparr>)"
proof -
  have refs: "store_security_references b = b" using assms(1) by (simp add: sc_ok_def)
  have eids: "sc_eids b = (if sc_source b = eid_none then [] else [sc_source b]) @ (if sc_destination b = eid_none then [] else [sc_destination b])"
    using arg_cong [OF refs, of sc_eids] by (simp add: store_security_references_def Let_def)
  have has: "sc_has CONTAINS_SECURITY_SOURCE b = (sc_source b \<noteq> eid_none)"
    "sc_has CONTAINS_SECURITY_DESTINATION b = (sc_destination b \<noteq> eid_none)"
    using store_security_references_flags [of b] by (simp_all add: refs)
  have r: "sc_has f r = sc_has f b" "sc_eids r = sc_eids b" for f by (simp_all add: assms(2) sc_has_def sc_received_def)
  show ?thesis
    unfolding sc_references_def r has eids
    by (cases b) (auto simp: assms(2) sc_received_def sc_new_def sc_arrived_def Let_def)
qed

lemma ropt_arrived:
  assumes "c \<Longrightarrow> m (enc @ s) = Inr (x, s)" and "\<not> c \<Longrightarrow> y = x"
  shows "ropt c y m ((if c then enc else []) @ s) = Inr (x, s)"
  using assms by (simp add: ropt_def)

lemma sc_deserialize_arrived:
  assumes ok: "sc_ok b"
  shows "sc_read (sc_received b) (sc_serialize b @ s) = Inr (sc_arrived b, s)"
proof -
  let ?r = "(sc_received b)\<lparr>sc_ciphersuite_id := sc_ciphersuite_id b, sc_flags := sc_flags b\<rparr>"
    and ?b = "(sc_arrived b)\<lparr>sc_correlator := 0, sc_params := [], sc_result := [], sc_result_size := 0\<rparr>"
  have size: "sc_result_size b = (if sc_blocktype b = PAYLOAD_INTEGRITY_BLOCK then tlvs_getLength (sc_result b) else 0)"
    using ok by (simp add: sc_ok_def)
  have refs: "sc_references ?r = Inr ?b" by (rule sc_references_arrived [OF ok refl])
  have has: "sc_has f ?b = sc_has f b" for f by (simp add: sc_has_def sc_arrived_def)
  note lists = get_tlvs_bytes [of "sc_params b"] get_tlvs_bytes [of "sc_result b"]
  have corr: "ropt (sc_has CONTAINS_CORRELATOR b) 0 get_sdnv
      ((if sc_has CONTAINS_CORRELATOR b then sdnv_bytes (sc_correlator b) else []) @ t) = Inr (sc_correlator b, t)" for t
    using ok by (intro ropt_arrived) (simp_all add: sc_ok_def get_sdnv_bytes)
  have params: "ropt (sc_has CONTAINS_CIPHERSUITE_PARAMS b) [] (get_tlvs [])
      ((if sc_has CONTAINS_CIPHERSUITE_PARAMS b then tlvs_bytes (sc_params b) else []) @ t) = Inr (sc_params b, t)" for t
    using ok lists by (intro ropt_arrived) (simp_all add: sc_ok_def)
  have result: "ropt (sc_has CONTAINS_SECURITY_RESULT b) [] (get_tlvs [])
      ((if sc_has CONTAINS_SECURITY_RESULT b then tlvs_bytes (sc_result b) else []) @ t) = Inr (sc_result b, t)" for t
    using ok lists by (intro ropt_arrived) (simp_all add: sc_ok_def)
  let ?whole = "\<lambda>r. r\<lparr>sc_correlator := sc_correlator b, sc_params := sc_params b, sc_result := sc_result b\<rparr>"
  have "(?whole (sc_arrived b))\<lparr>sc_result_size := tlvs_getLength (sc_result b)\<rparr> = sc_arrived b"
    if "sc_blocktype b = PAYLOAD_INTEGRITY_BLOCK"
    using size that by (intro security_block.equality) (simp_all add: sc_arrived_def)
  moreover have "?whole ((sc_arrived b)\<lparr>sc_result_size := 0\<rparr>) = sc_arrived b" if "sc_blocktype b \<noteq> PAYLOAD_INTEGRITY_BLOCK"
    using size that by (intro security_block.equality) (simp_all add: sc_arrived_def)
  moreover have "sc_blocktype ?b = sc_blocktype b" by (simp add: sc_arrived_def)
  ultimately show ?thesis
    by (simp add: sc_read_def sc_deserialize_def sc_serialize_def get_sdnv_bytes rbind_def refs has corr params result)
qed

text \<open>C28: A security block is read back as it was written, with its correlator, parameters and result in the order of their
  types, unless it names a security source and a security destination: then the destination that is read is the source.\<close>

theorem security_block_arrives:
  assumes "sc_ok b"
  shows "sc_read (sc_received b) (sc_serialize b @ s)
    = Inr (if sc_source b \<noteq> eid_none \<and> sc_destination b \<noteq> eid_none then b\<lparr>sc_destination := sc_source b\<rparr> else b, s)"
  using sc_deserialize_arrived [OF assms] by (simp add: sc_arrived_def)

definition sample_security :: security_block where
  "sample_security =
     setSecurityDestination (eid_parse ''dtn:b'') (setSecuritySource (eid_parse ''dtn:a'')
       ((sc_new PAYLOAD_CONFIDENTIAL_BLOCK 3)\<lparr>sc_flags := CONTAINS_CIPHERSUITE_PARAMS, sc_params := [\<lparr>tlv_type = 7, tlv_value = ''salt''\<rparr>]\<rparr>))"

lemma sample_security_ok: "sc_ok sample_security"
proof -
  have "store_security_references sample_security = sample_security"
    by (simp add: sample_security_def setSecurityDestination_def store_security_references_again)
  moreover have "sc_params sample_security = [\<lparr>tlv_type = 7, tlv_value = ''salt''\<rparr>]" "sc_result sample_security = []"
      "sc_result_size sample_security = 0" "sc_blocktype sample_security \<noteq> PAYLOAD_INTEGRITY_BLOCK"
      "sc_correlator sample_security = 0" "sc_has CONTAINS_CIPHERSUITE_PARAMS sample_security"
    by code_simp+
  moreover have "tlvs_getLength [\<lparr>tlv_type = 7, tlv_value = ''salt''\<rparr>] = 6" by code_simp
  ultimately show ?thesis by (simp add: sc_ok_def tlvs_ok_def tlvs_getLength_def)
qed

theorem security_block_arrives_witness:
  "\<exists>b. sc_read (sc_received sample_security) (sc_serialize sample_security @ [5]) = Inr (b, [5])
    \<and> sc_destination b = eid_parse ''dtn:a'' \<and> sc_destination sample_security = eid_parse ''dtn:b''"
proof -
  have "sc_source sample_security = eid_parse ''dtn:a''" "sc_destination sample_security = eid_parse ''dtn:b''"
      "eid_parse ''dtn:a'' \<noteq> eid_none" "eid_parse ''dtn:b'' \<noteq> eid_none"
    by code_simp+
  with security_block_arrives [OF sample_security_ok, of "[5]"] show ?thesis by simp
qed

text \<open>The predicted length is the length that is written.\<close>

lemma sc_getLength_exact:
  "getSecurityResultSize md b = tlvs_getLength (sc_result b) \<Longrightarrow> sc_getLength md b = length (sc_serialize b)"
  by (simp add: sc_getLength_def sc_serialize_def length_sdnv_bytes tlvs_bytes_def length_tlvs_toString)

lemma be_value_bytes: "be_value (be_bytes 4 w) = w"
proof (rule bit_word_eqI)
  fix n
  assume "n < LENGTH(32)"
  then consider "n < 8" | "8 \<le> n \<and> n < 16" | "16 \<le> n \<and> n < 24" | "24 \<le> n \<and> n < 32" by fastforce
  then show "bit (be_value (be_bytes 4 w)) n = bit w n"
    by cases (auto simp: be_value_def be_bytes_def upt_rec bit_simps)
qed

text \<open>A salt is found again among the parameters.\<close>

lemma salt_roundtrip:
  assumes "key_sorted (\<lambda>t. uint (tlv_type t)) l"
  shows "getSalt (addSalt w l) = Inr w"
proof -
  have "str_bytes (bytes_str bs) = bs" for bs by (simp add: str_bytes_def bytes_str_def comp_def)
  then show ?thesis using tlvs_get_set [OF assms] by (simp add: getSalt_def addSalt_def be_value_bytes)
qed

end
