(* ===== verification/Authentic.thy ===== *)
theory Authentic
  imports Security
begin

text \<open>
  Authentication of bundles (\<open>ibrdtn/security/BundleAuthenticationBlock.cpp\<close>, \<open>PayloadIntegrityBlock.cpp\<close>,
  \<open>StrictSerializer.cpp\<close>): a bundle authentication block holds a digest of the strict canonical form under a shared key, a
  payload integrity block a signature of the mutable one. The digest and the signatures, which OpenSSL computes, are
  arguments.
\<close>

section \<open>Keys and the functions of the library\<close>

record security_key =
  sk_reference :: eid
  sk_data :: "byte list"

text \<open>
  \<open>HMacStream\<close> over the data of a key, \<open>getEVP\<close>, \<open>EVP_PKEY_size\<close> and \<open>RSASHA256Stream\<close>; a signature may fail.
\<close>

record crypto =
  cy_md_size :: nat
  cy_hmac :: "byte list \<Rightarrow> byte list \<Rightarrow> byte list"
  cy_key_loads :: "byte list \<Rightarrow> bool"
  cy_key_size :: "byte list \<Rightarrow> nat"
  cy_sign :: "byte list \<Rightarrow> byte list \<Rightarrow> byte list option"
  cy_verify :: "byte list \<Rightarrow> byte list \<Rightarrow> byte list \<Rightarrow> int"

section \<open>Bundles with security blocks\<close>

record sec_bundle = primary +
  xb_blocks :: "any_block list"

fun xb_type :: "any_block \<Rightarrow> byte" where
  "xb_type (PlainBlock b) = blk_type b"
| "xb_type (SecurityBlock s) = sc_blocktype s"

fun xb_eids :: "any_block \<Rightarrow> eid list" where
  "xb_eids (PlainBlock b) = blk_eids b"
| "xb_eids (SecurityBlock s) = sc_eids s"

definition sc_set :: "u64 \<Rightarrow> bool \<Rightarrow> security_block \<Rightarrow> security_block" where
  "sc_set f v s = s\<lparr>sc_procflags := set_flag f v (sc_procflags s)\<rparr>"

fun xb_set :: "u64 \<Rightarrow> bool \<Rightarrow> any_block \<Rightarrow> any_block" where
  "xb_set f v (PlainBlock b) = PlainBlock (block_set f v b)"
| "xb_set f v (SecurityBlock s) = SecurityBlock (sc_set f v s)"

definition xb_set_last :: "bool \<Rightarrow> any_block list \<Rightarrow> any_block list" where
  "xb_set_last v xs = (if xs = [] then [] else butlast xs @ [xb_set LAST_BLOCK v (last xs)])"

definition xb_push_front :: "any_block \<Rightarrow> any_block list \<Rightarrow> any_block list" where
  "xb_push_front x xs = (if xs = [] then xb_set LAST_BLOCK True x else x) # xs"

definition xb_push_back :: "any_block \<Rightarrow> any_block list \<Rightarrow> any_block list" where
  "xb_push_back x xs = xb_set_last False xs @ [xb_set LAST_BLOCK True x]"

definition xb_remove :: "nat \<Rightarrow> any_block list \<Rightarrow> any_block list" where
  "xb_remove k xs = (if k < length xs then xb_set_last True (take k xs @ drop (Suc k) xs) else xs)"

text \<open>Blocks are removed one after the other, in the order of their positions in the list that is given.\<close>

definition xb_remove_each :: "nat list \<Rightarrow> any_block list \<Rightarrow> any_block list" where
  "xb_remove_each ks xs = foldl (\<lambda>ys (i, k). xb_remove (k - i) ys) xs (enumerate 0 ks)"

text \<open>And from the last one to the first one.\<close>

definition xb_remove_back :: "nat list \<Rightarrow> any_block list \<Rightarrow> any_block list" where
  "xb_remove_back ks xs = foldl (\<lambda>ys k. xb_remove k ys) xs ks"

text \<open>\<open>getBlocks<T>()\<close> for the class of a security block, with positions.\<close>

fun xb_of_type :: "byte \<Rightarrow> nat \<Rightarrow> any_block list \<Rightarrow> (nat \<times> security_block) list" where
  "xb_of_type t k [] = []"
| "xb_of_type t k (PlainBlock b # xs) = xb_of_type t (Suc k) xs"
| "xb_of_type t k (SecurityBlock s # xs) =
     (if sc_blocktype s = t then (k, s) # xb_of_type t (Suc k) xs else xb_of_type t (Suc k) xs)"

definition getBlocks :: "byte \<Rightarrow> sec_bundle \<Rightarrow> (nat \<times> security_block) list" where
  "getBlocks t b = xb_of_type t 0 (xb_blocks b)"

text \<open>\<open>getBlock<PayloadBlock>()\<close>.\<close>

fun xb_payload :: "any_block list \<Rightarrow> ibr_error + byte list" where
  "xb_payload [] = Inl NoSuchBlockFoundException"
| "xb_payload (x # xs) =
     (if xb_type x = PAYLOAD_BLOCK_TYPE
      then (case x of
              PlainBlock b \<Rightarrow> (case blk_body b of PayloadBody bs \<Rightarrow> Inr bs | _ \<Rightarrow> Inl NoSuchBlockFoundException)
            | SecurityBlock s \<Rightarrow> Inl NoSuchBlockFoundException)
      else xb_payload xs)"

section \<open>The strict canonical form\<close>

text \<open>Ages are left out, and so are the results of security blocks.\<close>

fun body_getLength_strict :: "block_body \<Rightarrow> nat" where
  "body_getLength_strict (AgeBody age t_len t_ser) = 1"
| "body_getLength_strict body = body_getLength body"

fun body_bytes_strict :: "block_body \<Rightarrow> byte list" where
  "body_bytes_strict (AgeBody age t_len t_ser) = [0]"
| "body_bytes_strict body = body_bytes body"

definition strict_head :: "serializer \<Rightarrow> byte \<Rightarrow> u64 \<Rightarrow> eid list \<Rightarrow> byte list" where
  "strict_head st type flags eids =
     type # sdnv_bytes flags @ wopt (get_flag BLOCK_CONTAINS_EIDS flags) (eidrefs_bytes st eids)"

fun strict_block :: "nat \<Rightarrow> serializer \<Rightarrow> any_block \<Rightarrow> byte list" where
  "strict_block md st (PlainBlock b) =
     strict_head st (blk_type b) (blk_flags b) (blk_eids b)
     @ sdnv_bytes (word_of_nat (body_getLength_strict (blk_body b))) @ body_bytes_strict (blk_body b)"
| "strict_block md st (SecurityBlock s) =
     strict_head st (sc_blocktype s) (sc_procflags s) (sc_eids s)
     @ sdnv_bytes (word_of_nat (sc_getLength md s)) @ sc_serialize_strict md s"

definition strict_serializer :: "sec_bundle \<Rightarrow> serializer" where
  "strict_serializer b =
     ser_new\<lparr>ser_dict :=
       foldl dict_add_list
         (dict_add_eid (dict_add_eid (dict_add_eid (dict_add_eid dict_new (p_destination b)) (p_source b)) (p_reportto b)) (p_custodian b))
         (map xb_eids (xb_blocks b))\<rparr>"

text \<open>
  A bundle without a selection by a correlator, as \<open>calcMAC\<close> is always called. The first block is written in any case:
  without one the code goes behind the end of the list.
\<close>

definition strict_bundle :: "nat \<Rightarrow> sec_bundle \<Rightarrow> ibr_error + byte list" where
  "strict_bundle md b =
     (case ser_primary (strict_serializer b) (primary.truncate b) of
        Inl e \<Rightarrow> Inl e
      | Inr (bs, st) \<Rightarrow>
          if xb_blocks b = [] then Inl Indeterminate else Inr (bs @ concat (map (strict_block md st) (xb_blocks b))))"

section \<open>Bundle authentication blocks\<close>

definition TLV_integrity_signature :: byte where "TLV_integrity_signature = 5"

definition BAB_HMAC :: u64 where "BAB_HMAC = 1"

definition PIB_RSA_SHA256 :: u64 where "PIB_RSA_SHA256 = 2"

definition calcMAC :: "crypto \<Rightarrow> security_key \<Rightarrow> sec_bundle \<Rightarrow> ibr_error + string" where
  "calcMAC cy key b =
     (case strict_bundle (cy_md_size cy) b of Inl e \<Rightarrow> Inl e | Inr bs \<Rightarrow> Inr (bytes_str (cy_hmac cy (sk_data key) bs)))"

text \<open>
  \<open>auth\<close>; an exception leaves the bundle as far as it has been changed. There is no result if the draws of the correlator
  run out.
\<close>

definition bab_auth ::
  "crypto \<Rightarrow> u64 list \<Rightarrow> security_key \<Rightarrow> sec_bundle \<Rightarrow> (ibr_error \<times> sec_bundle + sec_bundle) option" where
  "bab_auth cy draws key b =
     (let bab = sc_set DISCARD_IF_NOT_PROCESSED True (sc_new BUNDLE_AUTHENTICATION_BLOCK BAB_HMAC);
          front = (\<lambda>s. xb_push_front (SecurityBlock s) (xb_blocks b))
      in case eid_getNode (p_source b) of
           Inl e \<Rightarrow> Some (Inl (e, b\<lparr>xb_blocks := front bab\<rparr>))
         | Inr node \<Rightarrow>
             let bab1 = (if sk_reference key \<noteq> node then setSecuritySource (sk_reference key) bab else bab)
             in (case createCorrelatorValue (front bab1) draws of
                  None \<Rightarrow> None
                | Some corr \<Rightarrow>
                    let bab_begin = (setCorrelator corr bab1)\<lparr>sc_ciphersuite_id := BAB_HMAC\<rparr>;
                        bab2 = setCorrelator corr bab;
                        bab_end = bab2\<lparr>sc_flags := sc_flags bab2 OR CONTAINS_SECURITY_RESULT\<rparr>;
                        whole = (\<lambda>s. b\<lparr>xb_blocks := xb_push_back (SecurityBlock s) (front bab_begin)\<rparr>)
                    in (case calcMAC cy key (whole bab_end) of
                         Inl e \<Rightarrow> Some (Inl (e, whole bab_end))
                       | Inr mac \<Rightarrow>
                           Some (Inr (whole (bab_end\<lparr>sc_result := tlvs_set TLV_integrity_signature mac (sc_result bab_end)\<rparr>))))))"

text \<open>The loop of \<open>verify\<close> with the correlators it knows.\<close>

fun bab_verify_loop ::
  "string \<Rightarrow> sec_bundle \<Rightarrow> security_key \<Rightarrow> u64 list \<Rightarrow> (nat \<times> security_block) list \<Rightarrow> ibr_error + u64" where
  "bab_verify_loop mac b key known [] = Inl IbrException"
| "bab_verify_loop mac b key known ((k, s) # babs) =
     (if sc_has CONTAINS_SECURITY_RESULT s then
        (if sc_correlator s \<notin> set known then bab_verify_loop mac b key known babs
         else (case tlvs_get TLV_integrity_signature (sc_result s) of
                 Inl e \<Rightarrow> Inl e
               | Inr r \<Rightarrow> if mac = r then Inr (sc_correlator s) else bab_verify_loop mac b key known babs))
      else if sc_has CONTAINS_CORRELATOR s then
        (if sc_ciphersuite_id s \<noteq> BAB_HMAC then bab_verify_loop mac b key known babs
         else (case isSecuritySource b (sk_reference key) s of
                 Inl e \<Rightarrow> Inl e
               | Inr ok \<Rightarrow> bab_verify_loop mac b key (if ok then sc_correlator s # known else known) babs))
      else bab_verify_loop mac b key known babs)"

definition bab_verify :: "crypto \<Rightarrow> security_key \<Rightarrow> sec_bundle \<Rightarrow> ibr_error + u64" where
  "bab_verify cy key b =
     (case calcMAC cy key b of
        Inl e \<Rightarrow> Inl e
      | Inr mac \<Rightarrow> bab_verify_loop mac b key [] (getBlocks BUNDLE_AUTHENTICATION_BLOCK b))"

definition bab_strip :: "crypto \<Rightarrow> security_key \<Rightarrow> sec_bundle \<Rightarrow> ibr_error + sec_bundle" where
  "bab_strip cy key b =
     (case bab_verify cy key b of
        Inl e \<Rightarrow> Inl e
      | Inr corr \<Rightarrow>
          Inr (b\<lparr>xb_blocks := xb_remove_each
            (map fst (filter (\<lambda>(k, s). sc_has CONTAINS_CORRELATOR s \<and> sc_correlator s = corr) (getBlocks BUNDLE_AUTHENTICATION_BLOCK b)))
            (xb_blocks b)\<rparr>))"

definition xb_strip_all :: "byte \<Rightarrow> sec_bundle \<Rightarrow> sec_bundle" where
  "xb_strip_all t b = b\<lparr>xb_blocks := xb_remove_each (map fst (getBlocks t b)) (xb_blocks b)\<rparr>"

definition bab_strip_all :: "sec_bundle \<Rightarrow> sec_bundle" where
  "bab_strip_all b = xb_strip_all BUNDLE_AUTHENTICATION_BLOCK b"

section \<open>Payload integrity blocks\<close>

definition pib_setResultSize :: "crypto \<Rightarrow> security_key \<Rightarrow> security_block \<Rightarrow> security_block" where
  "pib_setResultSize cy key s =
     (let n = cy_key_size cy (sk_data key)
      in s\<lparr>sc_result_size := (if 0 < n then n + sdnv_count (word_of_nat n) + 1 else tlvs_getLength (sc_result s))\<rparr>)"

text \<open>The block that is being made is at the front. A signature that fails is empty.\<close>

definition pib_calcHash :: "crypto \<Rightarrow> security_key \<Rightarrow> sec_bundle \<Rightarrow> string" where
  "pib_calcHash cy key b =
     (case cy_sign cy (sk_data key) (mut_bundle (cy_md_size cy) (Some 0) b (xb_blocks b)) of
        None \<Rightarrow> []
      | Some s \<Rightarrow> bytes_str s)"

definition pib_sign :: "crypto \<Rightarrow> security_key \<Rightarrow> eid \<Rightarrow> sec_bundle \<Rightarrow> ibr_error \<times> sec_bundle + sec_bundle" where
  "pib_sign cy key destination b =
     (let pib = sc_set REPLICATE_IN_EVERY_FRAGMENT True (sc_new PAYLOAD_INTEGRITY_BLOCK PIB_RSA_SHA256);
          whole = (\<lambda>s. b\<lparr>xb_blocks := xb_push_front (SecurityBlock s) (xb_blocks b)\<rparr>)
      in case (if primary_get FRAGMENT b then xb_payload (xb_blocks b) else Inr []) of
           Inl e \<Rightarrow> Inl (e, whole pib)
         | Inr bs \<Rightarrow>
             let pib1 = (if primary_get FRAGMENT b
                         then pib\<lparr>sc_params := addFragmentRange (p_fragmentoffset b) (word_of_nat (length bs)) (sc_params pib)\<rparr>
                         else pib)
             in (case eid_getNode (p_source b) of
                  Inl e \<Rightarrow> Inl (e, whole pib1)
                | Inr source \<Rightarrow>
                    let pib2 = (if sk_reference key \<noteq> source then setSecuritySource (sk_reference key) pib1 else pib1)
                    in (case eid_getNode (p_destination b) of
                         Inl e \<Rightarrow> Inl (e, whole pib2)
                       | Inr dest \<Rightarrow>
                           let pib3 = (if destination \<noteq> dest then setSecurityDestination destination pib2 else pib2);
                               pib4 = (pib_setResultSize cy key pib3)\<lparr>sc_ciphersuite_id := PIB_RSA_SHA256\<rparr>;
                               pib5 = pib4\<lparr>sc_flags := sc_flags pib4 OR CONTAINS_SECURITY_RESULT\<rparr>;
                               sign = pib_calcHash cy key (whole pib5)
                           in Inr (whole (pib5\<lparr>sc_result := tlvs_set TLV_integrity_signature sign (sc_result pib5)\<rparr>)))))"

text \<open>\<open>verify\<close> of the block at a position.\<close>

definition pib_verify :: "crypto \<Rightarrow> security_key \<Rightarrow> bool \<Rightarrow> sec_bundle \<Rightarrow> nat \<times> security_block \<Rightarrow> ibr_error + unit" where
  "pib_verify cy key use_eid b ks =
     (case (if use_eid then isSecuritySource b (sk_reference key) (snd ks) else Inr True) of
        Inl e \<Rightarrow> Inl e
      | Inr ok \<Rightarrow>
          if \<not> ok then Inl IbrException
          else if sc_ciphersuite_id (snd ks) \<noteq> PIB_RSA_SHA256 then Inl IbrException
          else if \<not> cy_key_loads cy (sk_data key) then Inl IbrException
          else (case tlvs_get TLV_integrity_signature (sc_result (snd ks)) of
                  Inl e \<Rightarrow> Inl e
                | Inr sign \<Rightarrow>
                    if cy_verify cy (sk_data key) (mut_bundle (cy_md_size cy) (Some (fst ks)) b (xb_blocks b)) (str_bytes sign) \<le> 0
                    then Inl IbrException else Inr ()))"

definition pib_verify_all :: "crypto \<Rightarrow> security_key \<Rightarrow> sec_bundle \<Rightarrow> ibr_error + unit" where
  "pib_verify_all cy key b =
     (case find (\<lambda>ks. pib_verify cy key True b ks \<noteq> Inr ()) (getBlocks PAYLOAD_INTEGRITY_BLOCK b) of
        None \<Rightarrow> Inr ()
      | Some ks \<Rightarrow> pib_verify cy key True b ks)"

text \<open>The first valid block goes, and those in front of it if all are to go.\<close>

definition pib_strip :: "crypto \<Rightarrow> security_key \<Rightarrow> bool \<Rightarrow> sec_bundle \<Rightarrow> sec_bundle" where
  "pib_strip cy key all b =
     (let pibs = getBlocks PAYLOAD_INTEGRITY_BLOCK b;
          before = takeWhile (\<lambda>ks. pib_verify cy key True b ks \<noteq> Inr ()) pibs
      in case drop (length before) pibs of
           [] \<Rightarrow> b
         | ks # _ \<Rightarrow>
             b\<lparr>xb_blocks := xb_remove_back (fst ks # (if all then rev (map fst before) else [])) (xb_blocks b)\<rparr>)"

definition pib_strip_all :: "sec_bundle \<Rightarrow> sec_bundle" where
  "pib_strip_all b = xb_strip_all PAYLOAD_INTEGRITY_BLOCK b"

section \<open>Lists of blocks\<close>

lemma xb_set_type [simp]: "xb_type (xb_set f v x) = xb_type x" "xb_eids (xb_set f v x) = xb_eids x"
  by (cases x; simp add: block_set_def sc_set_def)+

lemma xb_of_type_append: "xb_of_type t k (xs @ ys) = xb_of_type t k xs @ xb_of_type t (k + length xs) ys"
  by (induction t k xs rule: xb_of_type.induct) simp_all

definition xb_free :: "byte \<Rightarrow> any_block list \<Rightarrow> bool" where
  "xb_free t xs = list_all (\<lambda>x. case x of PlainBlock b \<Rightarrow> True | SecurityBlock s \<Rightarrow> sc_blocktype s \<noteq> t) xs"

lemma xb_of_type_free: "xb_free t xs \<Longrightarrow> xb_of_type t k xs = []"
  by (induction t k xs rule: xb_of_type.induct) (simp_all add: xb_free_def)

lemma length_xb_set_last [simp]: "length (xb_set_last v xs) = length xs"
  by (simp add: xb_set_last_def)

lemma xb_free_set_last: "xb_free t xs \<Longrightarrow> xb_free t (xb_set_last v xs)"
proof (cases xs rule: rev_cases)
  case (snoc ys y)
  assume "xb_free t xs"
  with snoc show ?thesis by (cases y) (simp_all add: xb_free_def xb_set_last_def sc_set_def)
qed (simp add: xb_set_last_def)

text \<open>The last block has the flag.\<close>

definition xb_last_ok :: "any_block list \<Rightarrow> bool" where
  "xb_last_ok xs \<longleftrightarrow> xs \<noteq> [] \<and> xb_set LAST_BLOCK True (last xs) = last xs"

lemma xb_set_set: "xb_set f v (xb_set f w x) = xb_set f v x"
  by (cases x) (simp_all add: block_set_def sc_set_def)

lemma xb_set_last_again: "xb_last_ok xs \<Longrightarrow> xb_set_last True (xb_set_last v xs) = xs"
  by (simp add: xb_set_last_def xb_last_ok_def xb_set_set)

lemma xb_set_last_ok: "xb_last_ok xs \<Longrightarrow> xb_set_last True xs = xs"
  by (simp add: xb_set_last_def xb_last_ok_def)

text \<open>What \<open>push_front\<close> and \<open>push_back\<close> add is taken off again.\<close>

lemma xb_remove_front: "xb_last_ok xs \<Longrightarrow> xb_remove 0 (x # xs) = xs"
  by (simp add: xb_remove_def xb_set_last_ok)

lemma xb_remove_both:
  assumes "xb_last_ok xs"
  shows "xb_remove_each [0, Suc (length xs)] (x # xb_set_last False xs @ [y]) = xs"
proof -
  have "xb_set_last True (xb_set_last False xs @ [y]) = xb_set_last False xs @ [xb_set LAST_BLOCK True y]"
    by (simp add: xb_set_last_def)
  then show ?thesis
    using assms by (simp add: xb_remove_each_def xb_remove_def xb_set_last_again)
qed

section \<open>Bundle authentication blocks: what is authenticated is verified\<close>

lemma strict_block_result:
  "sc_blocktype s = BUNDLE_AUTHENTICATION_BLOCK
    \<Longrightarrow> strict_block md st (SecurityBlock (s\<lparr>sc_result := r\<rparr>)) = strict_block md st (SecurityBlock s)"
  by (simp add: sc_getLength_def sc_serialize_strict_def sc_has_def getSecurityResultSize_def)

text \<open>The digest does not depend on the result of an authentication block.\<close>

lemma calcMAC_result:
  assumes "sc_blocktype s = BUNDLE_AUTHENTICATION_BLOCK"
  shows "calcMAC cy key (b\<lparr>xb_blocks := xs @ [SecurityBlock (s\<lparr>sc_result := r\<rparr>)]\<rparr>) = calcMAC cy key (b\<lparr>xb_blocks := xs @ [SecurityBlock s]\<rparr>)"
proof -
  let ?b = "\<lambda>s. b\<lparr>xb_blocks := xs @ [SecurityBlock s]\<rparr>"
  have "strict_serializer (?b (s\<lparr>sc_result := r\<rparr>)) = strict_serializer (?b s)" by (simp add: strict_serializer_def)
  moreover have "concat (map (strict_block md st) (xs @ [SecurityBlock (s\<lparr>sc_result := r\<rparr>)]))
      = concat (map (strict_block md st) (xs @ [SecurityBlock s]))" for md st
    by (simp only: map_append list.map concat_append concat.simps strict_block_result [OF assms])
  ultimately have "strict_bundle md (?b (s\<lparr>sc_result := r\<rparr>)) = strict_bundle md (?b s)" for md
    by (simp add: strict_bundle_def primary.truncate_def del: strict_block.simps map_append split: sum.split)
  then show ?thesis by (simp add: calcMAC_def)
qed

text \<open>The two blocks that \<open>auth\<close> adds.\<close>

definition bab_first :: "security_key \<Rightarrow> eid \<Rightarrow> u64 \<Rightarrow> security_block \<Rightarrow> bool" where
  "bab_first key node corr s \<longleftrightarrow>
     sc_blocktype s = BUNDLE_AUTHENTICATION_BLOCK \<and> sc_ciphersuite_id s = BAB_HMAC \<and> sc_correlator s = corr
     \<and> sc_has CONTAINS_CORRELATOR s \<and> \<not> sc_has CONTAINS_SECURITY_RESULT s
     \<and> sc_source s = (if sk_reference key \<noteq> node then sk_reference key else eid_none)"

definition bab_last :: "string \<Rightarrow> u64 \<Rightarrow> security_block \<Rightarrow> bool" where
  "bab_last mac corr s \<longleftrightarrow>
     sc_blocktype s = BUNDLE_AUTHENTICATION_BLOCK \<and> sc_correlator s = corr
     \<and> sc_has CONTAINS_CORRELATOR s \<and> sc_has CONTAINS_SECURITY_RESULT s
     \<and> tlvs_get TLV_integrity_signature (sc_result s) = Inr mac"

lemma bab_first_made:
  "bab_first key node corr ((setCorrelator corr (if sk_reference key \<noteq> node then setSecuritySource (sk_reference key) s else s))\<lparr>sc_ciphersuite_id := BAB_HMAC\<rparr>)"
  if "s = sc_set DISCARD_IF_NOT_PROCESSED True (sc_new BUNDLE_AUTHENTICATION_BLOCK BAB_HMAC)"
  by (simp add: that bab_first_def setCorrelator_def setSecuritySource_def store_security_references_def sc_set_def sc_new_def
      sc_has_def ciphersuite_flag_defs Let_def get_flag_bit bit_or_iff bit_set_flag bit_bit_flag)

lemma tlvs_get_single: "tlvs_get t (tlvs_set t v []) = Inr v"
  by (rule tlvs_get_set) (simp add: key_sorted_def)

lemma bab_last_made:
  "bab_last mac corr (s\<lparr>sc_flags := sc_flags s OR CONTAINS_SECURITY_RESULT, sc_result := tlvs_set TLV_integrity_signature mac (sc_result s)\<rparr>)"
  if "s = setCorrelator corr (sc_set DISCARD_IF_NOT_PROCESSED True (sc_new BUNDLE_AUTHENTICATION_BLOCK BAB_HMAC))"
  by (simp add: that bab_last_def setCorrelator_def sc_set_def sc_new_def sc_has_def ciphersuite_flag_defs get_flag_bit bit_or_iff
      bit_bit_flag tlvs_get_single)

lemma bab_auth_shape:
  assumes "bab_auth cy draws key b = Some (Inr b')" and "xb_blocks b \<noteq> []"
  obtains node corr mac s e where "eid_getNode (p_source b) = Inr node"
    and "b' = b\<lparr>xb_blocks := SecurityBlock s # xb_set_last False (xb_blocks b) @ [SecurityBlock e]\<rparr>"
    and "bab_first key node corr s" and "bab_last mac corr e" and "calcMAC cy key b' = Inr mac"
proof -
  let ?bab = "sc_set DISCARD_IF_NOT_PROCESSED True (sc_new BUNDLE_AUTHENTICATION_BLOCK BAB_HMAC)"
  obtain node where node: "eid_getNode (p_source b) = Inr node"
    using assms(1) by (cases "eid_getNode (p_source b)") (simp_all add: bab_auth_def Let_def)
  let ?bab1 = "if sk_reference key \<noteq> node then setSecuritySource (sk_reference key) ?bab else ?bab"
  obtain corr where corr: "createCorrelatorValue (xb_push_front (SecurityBlock ?bab1) (xb_blocks b)) draws = Some corr"
    using assms(1) node by (auto simp: bab_auth_def Let_def split: option.splits)
  define s where "s = (setCorrelator corr ?bab1)\<lparr>sc_ciphersuite_id := BAB_HMAC\<rparr>"
  define e where "e = (setCorrelator corr ?bab)\<lparr>sc_flags := sc_flags (setCorrelator corr ?bab) OR CONTAINS_SECURITY_RESULT\<rparr>"
  define whole where "whole = (\<lambda>e. b\<lparr>xb_blocks := xb_push_back (SecurityBlock e) (xb_push_front (SecurityBlock s) (xb_blocks b))\<rparr>)"
  obtain mac where mac: "calcMAC cy key (whole e) = Inr mac"
    using assms(1) node corr by (auto simp: bab_auth_def Let_def s_def e_def whole_def split: sum.splits)
  have b': "b' = whole (e\<lparr>sc_result := tlvs_set TLV_integrity_signature mac (sc_result e)\<rparr>)"
    using assms(1) node corr mac by (simp add: bab_auth_def Let_def s_def e_def whole_def)
  have whole: "whole f = b\<lparr>xb_blocks := (SecurityBlock s # xb_set_last False (xb_blocks b)) @ [SecurityBlock (sc_set LAST_BLOCK True f)]\<rparr>" for f
    using assms(2) by (simp add: whole_def xb_push_back_def xb_push_front_def xb_set_last_def)
  let ?e = "sc_set LAST_BLOCK True e" and ?r = "tlvs_set TLV_integrity_signature mac (sc_result e)"
  have set: "sc_set LAST_BLOCK True (e\<lparr>sc_result := ?r\<rparr>) = ?e\<lparr>sc_result := ?r\<rparr>" by (simp add: sc_set_def)
  have type: "sc_blocktype ?e = BUNDLE_AUTHENTICATION_BLOCK" by (simp add: sc_set_def e_def setCorrelator_def sc_new_def)
  have "calcMAC cy key b' = Inr mac" using mac calcMAC_result [OF type] by (simp only: b' whole set)
  moreover have "bab_last mac corr (e\<lparr>sc_result := ?r\<rparr>)" using bab_last_made [OF refl, of mac corr] by (simp add: e_def)
  then have "bab_last mac corr (?e\<lparr>sc_result := ?r\<rparr>)" by (simp add: bab_last_def sc_set_def sc_has_def)
  moreover have "bab_first key node corr s" unfolding s_def by (rule bab_first_made) (rule refl)
  ultimately show ?thesis using that [OF node, of s "?e\<lparr>sc_result := ?r\<rparr>" corr mac] b' whole set by simp
qed

lemma getBlocks_auth:
  assumes "xb_free t xs" and "sc_blocktype s = t" and "sc_blocktype e = t"
  shows "getBlocks t (b\<lparr>xb_blocks := SecurityBlock s # xb_set_last v xs @ [SecurityBlock e]\<rparr>) = [(0, s), (Suc (length xs), e)]"
  using xb_of_type_free [OF xb_free_set_last [OF assms(1)]] assms(2,3)
  by (simp add: getBlocks_def xb_of_type_append)

text \<open>The key's node is taken for the security source of the first block.\<close>

lemma bab_first_source:
  assumes "bab_first key node corr s" and "eid_getNode (p_source b) = Inr node"
    and "eid_getNode (sk_reference key) = Inr (sk_reference key)" and "sk_reference key \<noteq> eid_none"
  shows "isSecuritySource b (sk_reference key) s = Inr True"
  using assms by (simp add: isSecuritySource_def getSecuritySource_def bab_first_def)

lemma bab_auth_verify:
  assumes "bab_auth cy draws key b = Some (Inr b')" and "xb_blocks b \<noteq> []" and "xb_free BUNDLE_AUTHENTICATION_BLOCK (xb_blocks b)"
    and "eid_getNode (sk_reference key) = Inr (sk_reference key)" and "sk_reference key \<noteq> eid_none"
  obtains corr s e where "bab_verify cy key b' = Inr corr"
    and "b' = b\<lparr>xb_blocks := SecurityBlock s # xb_set_last False (xb_blocks b) @ [SecurityBlock e]\<rparr>"
    and "getBlocks BUNDLE_AUTHENTICATION_BLOCK b' = [(0, s), (Suc (length (xb_blocks b)), e)]"
    and "bab_first key (projr (eid_getNode (p_source b))) corr s" and "sc_has CONTAINS_CORRELATOR e \<and> sc_correlator e = corr"
proof -
  obtain node corr mac s e where node: "eid_getNode (p_source b) = Inr node"
    and b': "b' = b\<lparr>xb_blocks := SecurityBlock s # xb_set_last False (xb_blocks b) @ [SecurityBlock e]\<rparr>"
    and s: "bab_first key node corr s" and e: "bab_last mac corr e" and mac: "calcMAC cy key b' = Inr mac"
    by (rule bab_auth_shape [OF assms(1,2)])
  have blocks: "getBlocks BUNDLE_AUTHENTICATION_BLOCK b' = [(0, s), (Suc (length (xb_blocks b)), e)]"
    unfolding b' using s e by (intro getBlocks_auth [OF assms(3)]) (simp_all add: bab_first_def bab_last_def)
  have "p_source b' = p_source b" by (simp add: b')
  then have "isSecuritySource b' (sk_reference key) s = Inr True"
    using bab_first_source [OF s _ assms(4,5), of b'] node by simp
  then have first: "bab_verify_loop mac b' key [] ((0, s) # es) = bab_verify_loop mac b' key [corr] es" for es
    using s by (simp add: bab_first_def)
  have "sc_has CONTAINS_SECURITY_RESULT e" "sc_correlator e = corr" "tlvs_get TLV_integrity_signature (sc_result e) = Inr mac"
    using e by (simp_all add: bab_last_def)
  then have "bab_verify_loop mac b' key [corr] [(k, e)] = Inr corr" for k by simp
  then have "bab_verify cy key b' = Inr corr"
    by (simp only: bab_verify_def mac blocks first sum.case)
  moreover have "projr (eid_getNode (p_source b)) = node" by (simp add: node)
  moreover have "sc_has CONTAINS_CORRELATOR e \<and> sc_correlator e = corr" using e by (simp add: bab_last_def)
  ultimately show ?thesis using that b' blocks s by blast
qed

text \<open>C12: Whatever the digest is, a bundle that was authenticated with a key passes the verification with the same key, and
  \<open>strip\<close> gives back the bundle as it was before, the flags of its blocks included.\<close>

theorem bab_auth_strip:
  assumes "bab_auth cy draws key b = Some (Inr b')" and "xb_last_ok (xb_blocks b)"
    and "xb_free BUNDLE_AUTHENTICATION_BLOCK (xb_blocks b)"
    and "eid_getNode (sk_reference key) = Inr (sk_reference key)" and "sk_reference key \<noteq> eid_none"
  shows "bab_strip cy key b' = Inr b"
proof -
  have ne: "xb_blocks b \<noteq> []" using assms(2) by (simp add: xb_last_ok_def)
  obtain corr s e where verify: "bab_verify cy key b' = Inr corr"
    and b': "b' = b\<lparr>xb_blocks := SecurityBlock s # xb_set_last False (xb_blocks b) @ [SecurityBlock e]\<rparr>"
    and blocks: "getBlocks BUNDLE_AUTHENTICATION_BLOCK b' = [(0, s), (Suc (length (xb_blocks b)), e)]"
    and s: "bab_first key (projr (eid_getNode (p_source b))) corr s" and e: "sc_has CONTAINS_CORRELATOR e \<and> sc_correlator e = corr"
    by (rule bab_auth_verify [OF assms(1) ne assms(3-5)])
  have "map fst (filter (\<lambda>(k, s). sc_has CONTAINS_CORRELATOR s \<and> sc_correlator s = corr) (getBlocks BUNDLE_AUTHENTICATION_BLOCK b'))
      = [0, Suc (length (xb_blocks b))]"
    using s e by (simp add: blocks bab_first_def)
  moreover have "xb_remove_each [0, Suc (length (xb_blocks b))] (xb_blocks b') = xb_blocks b"
    using xb_remove_both [OF assms(2)] by (simp add: b')
  ultimately have "bab_strip cy key b' = Inr (b'\<lparr>xb_blocks := xb_blocks b\<rparr>)"
    by (simp add: bab_strip_def verify del: enumerate_simps)
  then show ?thesis by (simp add: b')
qed

text \<open>What a verified bundle has: a block that holds the digest, and in front of it one with the same correlator that names
  the node of the key.\<close>

definition bab_authentic :: "crypto \<Rightarrow> security_key \<Rightarrow> sec_bundle \<Rightarrow> u64 \<Rightarrow> bool" where
  "bab_authentic cy key b corr \<longleftrightarrow>
     (\<exists>mac front s mid e post. calcMAC cy key b = Inr mac
       \<and> map snd (getBlocks BUNDLE_AUTHENTICATION_BLOCK b) = front @ s # mid @ e # post
       \<and> sc_correlator s = corr \<and> sc_ciphersuite_id s = BAB_HMAC \<and> isSecuritySource b (sk_reference key) s = Inr True
       \<and> sc_correlator e = corr \<and> tlvs_get TLV_integrity_signature (sc_result e) = Inr mac)"

definition bab_known :: "sec_bundle \<Rightarrow> security_key \<Rightarrow> security_block list \<Rightarrow> u64 \<Rightarrow> bool" where
  "bab_known b key babs corr \<longleftrightarrow>
     (\<exists>s \<in> set babs. sc_correlator s = corr \<and> sc_ciphersuite_id s = BAB_HMAC \<and> isSecuritySource b (sk_reference key) s = Inr True)"

lemma bab_verify_loop_sound:
  assumes "bab_verify_loop mac b key known babs = Inr corr" and "list_all (bab_known b key seen) known"
  shows "\<exists>pre k e post. babs = pre @ (k, e) # post \<and> bab_known b key (seen @ map snd pre) corr
    \<and> sc_correlator e = corr \<and> tlvs_get TLV_integrity_signature (sc_result e) = Inr mac"
  using assms
proof (induction babs arbitrary: known seen)
  case Nil
  then show ?case by simp
next
  case (Cons ks babs)
  obtain k s where ks: "ks = (k, s)" by (cases ks)
  have more: "bab_known b key (seen @ [s]) c" if "bab_known b key seen c" for c using that by (auto simp: bab_known_def)
  have all: "list_all (bab_known b key (seen @ [s])) known" using Cons.prems(2) more by (simp add: list_all_iff)
  have step: ?case if go: "bab_verify_loop mac b key known' babs = Inr corr" "list_all (bab_known b key (seen @ [s])) known'" for known'
  proof -
    obtain pre l e post where "babs = pre @ (l, e) # post" "bab_known b key ((seen @ [s]) @ map snd pre) corr"
      "sc_correlator e = corr" "tlvs_get TLV_integrity_signature (sc_result e) = Inr mac"
      using Cons.IH [OF go] by blast
    then show ?thesis unfolding ks by (intro exI [of _ "(k, s) # pre"] exI [of _ l] exI [of _ e] exI [of _ post]) simp
  qed
  note prem = Cons.prems(1) [unfolded ks bab_verify_loop.simps]
  consider (result) "sc_has CONTAINS_SECURITY_RESULT s" "sc_correlator s \<in> set known"
    | (source) "\<not> sc_has CONTAINS_SECURITY_RESULT s" "sc_has CONTAINS_CORRELATOR s" "sc_ciphersuite_id s = BAB_HMAC"
    | (skip) "bab_verify_loop mac b key known babs = Inr corr"
    using prem by (simp split: if_splits)
  then show ?case
  proof cases
    case result
    then obtain r where r: "tlvs_get TLV_integrity_signature (sc_result s) = Inr r"
      using prem by (simp split: sum.splits)
    show ?thesis
    proof (cases "mac = r")
      case True
      then have "sc_correlator s = corr" using prem result r by simp
      moreover from this have "bab_known b key seen corr"
        using Cons.prems(2) result by (auto simp: list_all_iff)
      ultimately show ?thesis
        unfolding ks using r True by (intro exI [of _ "[]"] exI [of _ k] exI [of _ s] exI [of _ babs]) simp
    next
      case False
      then show ?thesis using prem result r by (intro step [OF _ all]) simp
    qed
  next
    case source
    then obtain ok where ok: "isSecuritySource b (sk_reference key) s = Inr ok"
      using prem by (simp split: sum.splits)
    then have "bab_known b key (seen @ [s]) (sc_correlator s)" if ok
      using source that by (auto simp: bab_known_def)
    then show ?thesis using prem source ok all by (intro step [of "if ok then sc_correlator s # known else known"]) simp_all
  next
    case skip
    then show ?thesis by (rule step [OF _ all])
  qed
qed

text \<open>C13: Whatever blocks a bundle has, the verification succeeds only if one of its authentication blocks holds the digest of
  the bundle under the key, and a block in front of it with the same correlator names the node of the key as its security
  source.\<close>

theorem bab_verify_sound:
  assumes "bab_verify cy key b = Inr corr"
  shows "bab_authentic cy key b corr"
proof -
  obtain mac where mac: "calcMAC cy key b = Inr mac"
    using assms by (cases "calcMAC cy key b") (simp_all add: bab_verify_def)
  then have "bab_verify_loop mac b key [] (getBlocks BUNDLE_AUTHENTICATION_BLOCK b) = Inr corr"
    using assms by (simp add: bab_verify_def)
  moreover have "list_all (bab_known b key []) []" by simp
  ultimately obtain pre k e post where blocks: "getBlocks BUNDLE_AUTHENTICATION_BLOCK b = pre @ (k, e) # post"
    and known: "bab_known b key ([] @ map snd pre) corr"
    and e: "sc_correlator e = corr" "tlvs_get TLV_integrity_signature (sc_result e) = Inr mac"
    using bab_verify_loop_sound by blast
  from known obtain s where s: "s \<in> set (map snd pre)" "sc_correlator s = corr" "sc_ciphersuite_id s = BAB_HMAC"
    "isSecuritySource b (sk_reference key) s = Inr True"
    unfolding bab_known_def append_Nil by blast
  obtain front mid where "map snd pre = front @ s # mid" using split_list [OF s(1)] by blast
  then have "map snd (getBlocks BUNDLE_AUTHENTICATION_BLOCK b) = front @ s # mid @ e # map snd post" by (simp add: blocks)
  then show ?thesis unfolding bab_authentic_def using mac s e by blast
qed

section \<open>Payload integrity blocks: a signature survives the way\<close>

text \<open>A block that is written and read again: see \<open>security_block_arrives\<close>.\<close>

fun xb_arrived :: "any_block \<Rightarrow> any_block" where
  "xb_arrived (PlainBlock b) = PlainBlock b"
| "xb_arrived (SecurityBlock s) =
     SecurityBlock ((sc_arrived s)\<lparr>sc_result_size := (if sc_blocktype s = PAYLOAD_INTEGRITY_BLOCK then tlvs_getLength (sc_result s) else 0)\<rparr>)"

fun xb_flags :: "any_block \<Rightarrow> u64" where
  "xb_flags (PlainBlock b) = blk_flags b"
| "xb_flags (SecurityBlock s) = sc_procflags s"

fun xb_with_flags :: "u64 \<Rightarrow> any_block \<Rightarrow> any_block" where
  "xb_with_flags w (PlainBlock b) = PlainBlock (b\<lparr>blk_flags := w\<rparr>)"
| "xb_with_flags w (SecurityBlock s) = SecurityBlock (s\<lparr>sc_procflags := w\<rparr>)"

text \<open>On the way the flags of a block may change that the mask of the canonical form leaves out, as its mark for the last block.\<close>

definition xb_relays :: "any_block \<Rightarrow> any_block \<Rightarrow> bool" where
  "xb_relays x y \<longleftrightarrow> (\<exists>w. w AND 0x77 = xb_flags x AND 0x77 \<and> y = xb_with_flags w (xb_arrived x))"

text \<open>The size that a block predicts for its result is the size of the result.\<close>

fun xb_settled :: "any_block \<Rightarrow> bool" where
  "xb_settled (PlainBlock b) = True"
| "xb_settled (SecurityBlock s) =
     (sc_blocktype s = PAYLOAD_INTEGRITY_BLOCK \<longrightarrow> sc_result_size s = 0 \<or> sc_result_size s = tlvs_getLength (sc_result s))"

definition xb_signed :: "any_block \<Rightarrow> bool" where
  "xb_signed x \<longleftrightarrow>
     xb_type x = PAYLOAD_BLOCK_TYPE \<or> xb_type x = PAYLOAD_INTEGRITY_BLOCK \<or> xb_type x = PAYLOAD_CONFIDENTIAL_BLOCK"

definition primary_covered :: "'a primary_scheme \<Rightarrow> u64 \<times> eid \<times> eid \<times> eid \<times> u64 \<times> u64 \<times> u64" where
  "primary_covered p =
     (p_procflags p AND 0x7C1BE, p_destination p, p_source p, p_reportto p, p_timestamp p, p_sequencenumber p, p_lifetime p)"

text \<open>
  A bundle \<open>b2\<close> made of \<open>b\<close> on the way, whose signed blocks begin at the position \<open>k\<close>: of the primary block what a
  signature covers is the same, and the blocks with payload or for its integrity or confidentiality are those of \<open>b\<close>, in
  their order, up to the flags outside the mask. The custodian, the fragment, the other flags, all other blocks,
  wherever they are, and whatever is in front of \<open>k\<close>, do not matter.
\<close>

definition bundle_relayed :: "sec_bundle \<Rightarrow> nat \<Rightarrow> sec_bundle \<Rightarrow> bool" where
  "bundle_relayed b k b2 \<longleftrightarrow>
     primary_covered b2 = primary_covered b \<and> k < length (xb_blocks b2) \<and> xb_signed (xb_blocks b2 ! k)
     \<and> list_all2 xb_relays (filter xb_signed (xb_blocks b)) (filter xb_signed (drop k (xb_blocks b2)))"

lemma mut_block_unsigned: "\<not> xb_signed x \<Longrightarrow> mut_block md x = []"
  by (cases x) (simp_all add: xb_signed_def)

lemma mut_blocks_signed: "concat (map (mut_block md) (filter xb_signed xs)) = concat (map (mut_block md) xs)"
  by (induction xs) (simp_all add: mut_block_unsigned)

lemma masked_eids:
  assumes "w AND 0x77 = v AND (0x77 :: u64)"
  shows "get_flag BLOCK_CONTAINS_EIDS w = get_flag BLOCK_CONTAINS_EIDS v"
proof -
  have "bit (w AND 0x77) 6 = bit (v AND 0x77) 6" by (simp only: assms)
  moreover have "bit (0x77 :: u64) 6" by simp
  ultimately have "bit w 6 = bit v 6" by (simp add: bit_and_iff)
  then show ?thesis by (simp add: BLOCK_CONTAINS_EIDS_def get_flag_bit)
qed

lemma mut_block_head_masked: "w AND 0x77 = v AND 0x77 \<Longrightarrow> mut_block_head t w es = mut_block_head t v es"
  using masked_eids [of w v] by (simp add: mut_block_head_def)

lemma mut_block_with_flags: "w AND 0x77 = xb_flags x AND 0x77 \<Longrightarrow> mut_block md (xb_with_flags w x) = mut_block md x"
  using mut_block_head_masked [of w "xb_flags x"]
  by (cases x)
    (simp_all add: sc_getLength_mutable_def sc_serialize_mutable_without_result_def
      sc_mutable_head_def sc_has_def getSecurityResultSize_def)

lemma sc_arrived_fields:
  "sc_blocktype (sc_arrived s) = sc_blocktype s" "sc_procflags (sc_arrived s) = sc_procflags s" "sc_eids (sc_arrived s) = sc_eids s"
  "sc_ciphersuite_id (sc_arrived s) = sc_ciphersuite_id s" "sc_flags (sc_arrived s) = sc_flags s"
  "sc_correlator (sc_arrived s) = sc_correlator s" "sc_params (sc_arrived s) = sc_params s" "sc_result (sc_arrived s) = sc_result s"
  "sc_source (sc_arrived s) = sc_source s"
  by (simp_all add: sc_arrived_def)

lemma sc_arrived_size:
  assumes "xb_settled (SecurityBlock s)" and "n = (if sc_blocktype s = PAYLOAD_INTEGRITY_BLOCK then tlvs_getLength (sc_result s) else 0)"
  shows "getSecurityResultSize md ((sc_arrived s)\<lparr>sc_result_size := n\<rparr>) = getSecurityResultSize md s"
  using assms by (auto simp: getSecurityResultSize_def sc_arrived_fields)

lemma mut_block_arrived: "xb_settled x \<Longrightarrow> mut_block md (xb_arrived x) = mut_block md x"
proof (cases x)
  case (SecurityBlock s)
  assume "xb_settled x"
  define n where "n = (if sc_blocktype s = PAYLOAD_INTEGRITY_BLOCK then tlvs_getLength (sc_result s) else 0)"
  have "getSecurityResultSize md ((sc_arrived s)\<lparr>sc_result_size := n\<rparr>) = getSecurityResultSize md s"
    using SecurityBlock \<open>xb_settled x\<close> by (intro sc_arrived_size) (simp_all add: n_def)
  moreover have "xb_arrived x = SecurityBlock ((sc_arrived s)\<lparr>sc_result_size := n\<rparr>)" by (simp add: SecurityBlock n_def)
  ultimately show ?thesis
    by (simp add: SecurityBlock sc_getLength_mutable_def sc_serialize_mutable_without_result_def sc_mutable_head_def sc_has_def sc_arrived_fields)
qed simp

lemma xb_flags_arrived: "xb_flags (xb_arrived x) = xb_flags x"
  by (cases x) (simp_all add: sc_arrived_fields)

lemma mut_blocks_relayed:
  assumes "list_all2 xb_relays xs ys" and "list_all xb_settled xs"
  shows "map (mut_block md) ys = map (mut_block md) xs"
  using assms by (induction rule: list_all2_induct) (auto simp: xb_relays_def mut_block_with_flags xb_flags_arrived mut_block_arrived)

text \<open>A pair of keys: what one signs the other verifies, and a signature has the size of the key.\<close>

definition key_pair :: "crypto \<Rightarrow> security_key \<Rightarrow> security_key \<Rightarrow> bool" where
  "key_pair cy key pub \<longleftrightarrow>
     sk_reference pub = sk_reference key \<and> cy_key_loads cy (sk_data pub)
     \<and> 0 < cy_key_size cy (sk_data key)
     \<and> (\<forall>msg. \<exists>sign. cy_sign cy (sk_data key) msg = Some sign \<and> length sign = cy_key_size cy (sk_data key)
          \<and> 0 < cy_verify cy (sk_data pub) msg sign)"

definition pib_made :: "crypto \<Rightarrow> security_key \<Rightarrow> eid \<Rightarrow> string \<Rightarrow> security_block \<Rightarrow> bool" where
  "pib_made cy key node sign s \<longleftrightarrow>
     sc_blocktype s = PAYLOAD_INTEGRITY_BLOCK \<and> sc_ciphersuite_id s = PIB_RSA_SHA256
     \<and> sc_source s = (if sk_reference key \<noteq> node then sk_reference key else eid_none)
     \<and> sc_result s = [\<lparr>tlv_type = TLV_integrity_signature, tlv_value = sign\<rparr>]
     \<and> sc_result_size s = cy_key_size cy (sk_data key) + sdnv_count (word_of_nat (cy_key_size cy (sk_data key))) + 1"

lemma xb_blocks_updated: "xb_blocks (b\<lparr>xb_blocks := xs\<rparr>) = xs"
  by simp

text \<open>What the canonical form of the primary block leaves out.\<close>

lemma mut_primary_blocks: "mut_primary (b\<lparr>xb_blocks := xs\<rparr>) = mut_primary b"
  by (simp add: mut_primary_def mut_getLength_primary_def)

lemma mut_primary_covered: "primary_covered p = primary_covered q \<Longrightarrow> mut_primary p = mut_primary q"
  by (simp add: mut_primary_def mut_getLength_primary_def primary_covered_def)

text \<open>The block at the front of a signed bundle.\<close>

lemma pib_sign_shape:
  assumes "pib_sign cy key destination b = Inr b'" and "xb_blocks b \<noteq> []" and size: "0 < cy_key_size cy (sk_data key)"
  obtains node s sign where "eid_getNode (p_source b) = Inr node"
    and "b' = b\<lparr>xb_blocks := SecurityBlock s # xb_blocks b\<rparr>" and "pib_made cy key node sign s"
    and "sign = pib_calcHash cy key b'"
proof -
  let ?pib = "sc_set REPLICATE_IN_EVERY_FRAGMENT True (sc_new PAYLOAD_INTEGRITY_BLOCK PIB_RSA_SHA256)"
  define whole where "whole = (\<lambda>s. b\<lparr>xb_blocks := SecurityBlock s # xb_blocks b\<rparr>)"
  have push: "b\<lparr>xb_blocks := xb_push_front (SecurityBlock s) (xb_blocks b)\<rparr> = whole s" for s
    using assms(2) by (simp add: whole_def xb_push_front_def)
  obtain bs where bs: "(if primary_get FRAGMENT b then xb_payload (xb_blocks b) else Inr []) = Inr bs"
    using assms(1) by (cases "if primary_get FRAGMENT b then xb_payload (xb_blocks b) else Inr []") (simp_all add: pib_sign_def Let_def)
  obtain node where node: "eid_getNode (p_source b) = Inr node"
    using assms(1) bs by (cases "eid_getNode (p_source b)") (simp_all add: pib_sign_def Let_def)
  obtain dest where dest: "eid_getNode (p_destination b) = Inr dest"
    using assms(1) bs node by (cases "eid_getNode (p_destination b)") (simp_all add: pib_sign_def Let_def)
  define pib1 where "pib1 = (if primary_get FRAGMENT b
    then ?pib\<lparr>sc_params := addFragmentRange (p_fragmentoffset b) (word_of_nat (length bs)) (sc_params ?pib)\<rparr> else ?pib)"
  define pib2 where "pib2 = (if sk_reference key \<noteq> node then setSecuritySource (sk_reference key) pib1 else pib1)"
  define pib3 where "pib3 = (if destination \<noteq> dest then setSecurityDestination destination pib2 else pib2)"
  define pib4 where "pib4 = (pib_setResultSize cy key pib3)\<lparr>sc_ciphersuite_id := PIB_RSA_SHA256\<rparr>"
  define pib5 where "pib5 = pib4\<lparr>sc_flags := sc_flags pib4 OR CONTAINS_SECURITY_RESULT\<rparr>"
  define sign where "sign = pib_calcHash cy key (whole pib5)"
  have b': "b' = whole (pib5\<lparr>sc_result := tlvs_set TLV_integrity_signature sign (sc_result pib5)\<rparr>)"
    using assms(1) unfolding pib_sign_def Let_def bs node dest sum.case push sign_def pib5_def pib4_def pib3_def pib2_def pib1_def
    by simp
  have p1: "sc_blocktype pib1 = PAYLOAD_INTEGRITY_BLOCK" "sc_source pib1 = eid_none" "sc_result pib1 = []"
    by (simp_all add: pib1_def sc_set_def sc_new_def)
  have p2: "sc_blocktype pib2 = PAYLOAD_INTEGRITY_BLOCK" "sc_result pib2 = []"
    "sc_source pib2 = (if sk_reference key \<noteq> node then sk_reference key else eid_none)"
    using p1 by (simp_all add: pib2_def setSecuritySource_def store_security_references_def Let_def)
  have p3: "sc_blocktype pib3 = PAYLOAD_INTEGRITY_BLOCK" "sc_result pib3 = []" "sc_source pib3 = sc_source pib2"
    using p2 by (simp_all add: pib3_def setSecurityDestination_def store_security_references_def Let_def)
  have p5: "sc_blocktype pib5 = PAYLOAD_INTEGRITY_BLOCK" "sc_result pib5 = []" "sc_source pib5 = sc_source pib2"
    "sc_ciphersuite_id pib5 = PIB_RSA_SHA256"
    "sc_result_size pib5 = cy_key_size cy (sk_data key) + sdnv_count (word_of_nat (cy_key_size cy (sk_data key))) + 1"
    using p3 size by (simp_all add: pib5_def pib4_def pib_setResultSize_def Let_def)
  have made: "pib_made cy key node sign (pib5\<lparr>sc_result := tlvs_set TLV_integrity_signature sign (sc_result pib5)\<rparr>)"
    using p5 p2(3) by (simp add: pib_made_def tlvs_set_def Let_def)
  have "mut_block md (SecurityBlock (pib5\<lparr>sc_result := r\<rparr>)) = mut_block md (SecurityBlock pib5)" for md r
    using p5 by (simp add: sc_getLength_mutable_def sc_serialize_mutable_without_result_def sc_mutable_head_def sc_has_def
        getSecurityResultSize_def)
  then have "pib_calcHash cy key (whole (pib5\<lparr>sc_result := r\<rparr>)) = pib_calcHash cy key (whole pib5)" for r
    by (simp only: whole_def xb_blocks_updated pib_calcHash_def mut_bundle_def mut_primary_blocks option.case drop_0 list.map)
  then have "sign = pib_calcHash cy key b'" unfolding b' by (simp only: sign_def)
  then show ?thesis by (rule that [OF node b' [unfolded whole_def] made])
qed

text \<open>C14: A signature survives the way to the receiver: whoever signs a bundle with one key of a pair (the key of a node, so
  that its reference names this node), the bundle is verified with the other one after its blocks have been written and read again,
  although the custodian, the fragment offset and the length of the data, the flags outside the masks of the canonical form, and all
  blocks other than payload, integrity and confidentiality blocks have been changed, inserted or removed (as the
  age block is), and although any blocks have been put in front of the signature. The integrity blocks that the bundle
  already has predict the size of their result.\<close>

theorem pib_sign_verify:
  assumes "pib_sign cy key destination b = Inr b'" and "xb_blocks b \<noteq> []" and "list_all xb_settled (xb_blocks b)"
    and "key_pair cy key pub" and "eid_getNode (sk_reference key) = Inr (sk_reference key)" and "sk_reference key \<noteq> eid_none"
    and "bundle_relayed b' k b2"
  shows "\<exists>s. xb_blocks b2 ! k = SecurityBlock s \<and> pib_verify cy pub True b2 (k, s) = Inr ()"
proof -
  have pair: "sk_reference pub = sk_reference key" "cy_key_loads cy (sk_data pub)" "0 < cy_key_size cy (sk_data key)"
    using assms(4) by (simp_all add: key_pair_def)
  obtain node s sign where node: "eid_getNode (p_source b) = Inr node"
    and b': "b' = b\<lparr>xb_blocks := SecurityBlock s # xb_blocks b\<rparr>" and s: "pib_made cy key node sign s"
    and sign: "sign = pib_calcHash cy key b'"
    by (rule pib_sign_shape [OF assms(1,2) pair(3)])
  define msg where "msg = mut_bundle (cy_md_size cy) (Some 0) b' (xb_blocks b')"
  obtain sig where sig: "cy_sign cy (sk_data key) msg = Some sig" "length sig = cy_key_size cy (sk_data key)"
      "0 < cy_verify cy (sk_data pub) msg sig"
    using assms(4) by (auto simp: key_pair_def)
  have sign': "sign = bytes_str sig" using sig(1) by (simp add: sign pib_calcHash_def msg_def)
  have covered: "primary_covered b2 = primary_covered b'" and at: "k < length (xb_blocks b2)" "xb_signed (xb_blocks b2 ! k)"
    and ys: "list_all2 xb_relays (filter xb_signed (xb_blocks b')) (filter xb_signed (drop k (xb_blocks b2)))"
    using assms(7) by (auto simp: bundle_relayed_def)
  have "sc_result_size s = tlvs_getLength (sc_result s)"
    using s sig(2) by (simp add: pib_made_def sign' tlvs_getLength_def tlv_getLength_def bstr_getLength_def bytes_str_def)
  then have "list_all xb_settled (xb_blocks b')" using assms(3) by (simp add: b')
  then have "list_all xb_settled (filter xb_signed (xb_blocks b'))" by (auto simp: list_all_iff)
  note same = mut_blocks_relayed [OF ys this]
  have "concat (map (mut_block md) (drop k (xb_blocks b2))) = concat (map (mut_block md) (xb_blocks b'))" for md
    using same [of md] mut_blocks_signed by metis
  then have msg2: "mut_bundle (cy_md_size cy) (Some k) b2 (xb_blocks b2) = msg"
    by (simp add: msg_def mut_bundle_def mut_primary_covered [OF covered])
  have "xb_signed (SecurityBlock s)" using s by (simp add: xb_signed_def pib_made_def)
  then have "xb_relays (SecurityBlock s) (xb_blocks b2 ! k)"
    using ys at by (simp add: b' Cons_nth_drop_Suc [symmetric])
  then obtain s2 where at2: "xb_blocks b2 ! k = SecurityBlock s2" and s2: "sc_source s2 = sc_source s" "sc_result s2 = sc_result s"
      "sc_ciphersuite_id s2 = sc_ciphersuite_id s"
    by (auto simp: xb_relays_def sc_arrived_def)
  have "p_source b2 = p_source b" using covered by (simp add: b' primary_covered_def)
  then have source: "isSecuritySource b2 (sk_reference pub) s2 = Inr True"
    using node s assms(5,6) by (simp add: pair(1) isSecuritySource_def getSecuritySource_def s2 pib_made_def)
  have "str_bytes (bytes_str bs) = bs" for bs by (simp add: str_bytes_def bytes_str_def comp_def)
  then have "pib_verify cy pub True b2 (k, s2) = Inr ()"
    using s sig(3) by (simp add: pib_verify_def source msg2 pair(2) s2 pib_made_def tlvs_get_def sign')
  then show ?thesis by (simp add: at2)
qed

section \<open>An authenticated and a signed bundle\<close>

text \<open>A digest that is easy to compute; a signature is made like it.\<close>

definition sample_crypto :: crypto where
  "sample_crypto =
     \<lparr>cy_md_size = 1, cy_hmac = (\<lambda>key msg. [sum_list (key @ msg)]), cy_key_loads = (\<lambda>key. True), cy_key_size = (\<lambda>key. 1),
      cy_sign = (\<lambda>key msg. Some [sum_list (key @ msg)]),
      cy_verify = (\<lambda>key msg sign. if sign = [sum_list (key @ msg)] then 1 else 0)\<rparr>"

definition sample_key :: security_key where
  "sample_key = \<lparr>sk_reference = \<lparr>scheme = ''dtn'', ssp = ''//c''\<rparr>, sk_data = [1, 2]\<rparr>"

definition sample_secured :: sec_bundle where
  "sample_secured =
     \<lparr>p_procflags = 0x10, p_timestamp = 300, p_sequencenumber = 1, p_lifetime = 3600,
      p_fragmentoffset = 0, p_appdatalength = 0, p_source = \<lparr>scheme = ''dtn'', ssp = ''//a/x''\<rparr>,
      p_destination = \<lparr>scheme = ''dtn'', ssp = ''//b/y''\<rparr>, p_reportto = eid_none, p_custodian = eid_none,
      xb_blocks = [PlainBlock \<lparr>blk_type = 10, blk_eids = [], blk_flags = 1, blk_body = AgeBody 5 0 0\<rparr>,
                   PlainBlock \<lparr>blk_type = 1, blk_eids = [], blk_flags = 8, blk_body = PayloadBody [1, 2, 3]\<rparr>]\<rparr>"

definition sample_authenticated :: sec_bundle where
  "sample_authenticated =
     (case bab_auth sample_crypto [0, 77] sample_key sample_secured of Some (Inr b) \<Rightarrow> b | _ \<Rightarrow> sample_secured)"

lemma sample_key_node: "eid_getNode (sk_reference sample_key) = Inr (sk_reference sample_key)" "sk_reference sample_key \<noteq> eid_none"
  by code_simp+

lemma sample_secured_ok: "xb_last_ok (xb_blocks sample_secured)" "xb_free BUNDLE_AUTHENTICATION_BLOCK (xb_blocks sample_secured)"
  by code_simp+

lemma sample_auth: "bab_auth sample_crypto [0, 77] sample_key sample_secured = Some (Inr sample_authenticated)"
proof -
  have "(case bab_auth sample_crypto [0, 77] sample_key sample_secured of Some (Inr b) \<Rightarrow> True | _ \<Rightarrow> False)"
    by code_simp
  then show ?thesis by (simp add: sample_authenticated_def split: option.splits sum.splits)
qed

theorem bab_auth_strip_witness:
  "bab_strip sample_crypto sample_key sample_authenticated = Inr sample_secured"
  by (rule bab_auth_strip [OF sample_auth sample_secured_ok sample_key_node])

theorem bab_verify_sound_witness:
  "\<exists>corr. bab_authentic sample_crypto sample_key sample_authenticated corr"
proof -
  have "xb_blocks sample_secured \<noteq> []" by (simp add: sample_secured_def)
  then obtain corr where "bab_verify sample_crypto sample_key sample_authenticated = Inr corr"
    using bab_auth_verify [OF sample_auth _ sample_secured_ok(2) sample_key_node] by metis
  then show ?thesis by (intro exI) (rule bab_verify_sound)
qed

definition sample_signed :: sec_bundle where
  "sample_signed =
     (case pib_sign sample_crypto sample_key \<lparr>scheme = ''dtn'', ssp = ''//b''\<rparr> sample_secured of Inr b \<Rightarrow> b | Inl e \<Rightarrow> sample_secured)"

lemma sample_sign: "pib_sign sample_crypto sample_key \<lparr>scheme = ''dtn'', ssp = ''//b''\<rparr> sample_secured = Inr sample_signed"
proof -
  have "(case pib_sign sample_crypto sample_key \<lparr>scheme = ''dtn'', ssp = ''//b''\<rparr> sample_secured of Inr b \<Rightarrow> True | Inl e \<Rightarrow> False)"
    by code_simp
  then show ?thesis by (simp add: sample_signed_def split: sum.splits)
qed

lemma sample_key_pair: "key_pair sample_crypto sample_key sample_key"
  by (simp add: key_pair_def sample_crypto_def)

text \<open>A relay has taken the custody, put an age block in front, and counted up the age of the other one.\<close>

definition sample_age :: "u64 \<Rightarrow> any_block" where
  "sample_age n = PlainBlock \<lparr>blk_type = 10, blk_eids = [], blk_flags = 1, blk_body = AgeBody n 0 0\<rparr>"

definition sample_forwarded_signed :: sec_bundle where
  "sample_forwarded_signed =
     sample_signed\<lparr>p_custodian := \<lparr>scheme = ''dtn'', ssp = ''//d''\<rparr>,
       xb_blocks := sample_age 5 # map (\<lambda>x. if xb_type x = 10 then sample_age 9 else xb_arrived x) (xb_blocks sample_signed)\<rparr>"

lemma sample_signed_blocks: "\<exists>s p. xb_blocks sample_signed = [SecurityBlock s, sample_age 5, PlainBlock p]
    \<and> sc_blocktype s = PAYLOAD_INTEGRITY_BLOCK \<and> blk_type p = PAYLOAD_BLOCK_TYPE"
proof -
  have "\<exists>s node sign. sample_signed = sample_secured\<lparr>xb_blocks := SecurityBlock s # xb_blocks sample_secured\<rparr>
      \<and> pib_made sample_crypto sample_key node sign s"
    using pib_sign_shape [OF sample_sign] by (fastforce simp: sample_crypto_def sample_secured_def)
  then obtain s node sign where s: "sample_signed = sample_secured\<lparr>xb_blocks := SecurityBlock s # xb_blocks sample_secured\<rparr>"
      "pib_made sample_crypto sample_key node sign s"
    by blast
  show ?thesis by (intro exI [of _ s]) (use s(2) in \<open>simp add: s(1) sample_secured_def sample_age_def pib_made_def PAYLOAD_BLOCK_TYPE_def\<close>)
qed

lemma xb_relays_arrived: "xb_relays x (xb_arrived x)"
  unfolding xb_relays_def by (cases x) (auto simp: sc_arrived_fields intro!: exI [of _ "xb_flags x"])

lemma sample_relayed: "bundle_relayed sample_signed 1 sample_forwarded_signed"
proof -
  obtain s p where b: "xb_blocks sample_signed = [SecurityBlock s, sample_age 5, PlainBlock p]"
    and t: "sc_blocktype s = PAYLOAD_INTEGRITY_BLOCK" "blk_type p = PAYLOAD_BLOCK_TYPE"
    using sample_signed_blocks by blast
  have fresh: "xb_type (sample_age n) = 10" "\<not> xb_signed (sample_age n)" for n
    by (simp_all add: sample_age_def xb_signed_def PAYLOAD_BLOCK_TYPE_def PAYLOAD_INTEGRITY_BLOCK_def PAYLOAD_CONFIDENTIAL_BLOCK_def)
  have signed: "xb_type (SecurityBlock s) \<noteq> 10" "xb_type (PlainBlock p) \<noteq> 10" "xb_signed (SecurityBlock s)" "xb_signed (PlainBlock p)"
      "xb_signed (xb_arrived (SecurityBlock s))" "xb_signed (xb_arrived (PlainBlock p))"
    using t by (simp_all add: xb_signed_def sc_arrived_fields PAYLOAD_BLOCK_TYPE_def PAYLOAD_INTEGRITY_BLOCK_def)
  have "xb_blocks sample_forwarded_signed
      = [sample_age 5, xb_arrived (SecurityBlock s), sample_age 9, xb_arrived (PlainBlock p)]"
    using b fresh(1) signed(1,2) by (simp add: sample_forwarded_signed_def)
  moreover have "primary_covered sample_forwarded_signed = primary_covered sample_signed"
    by (simp add: primary_covered_def sample_forwarded_signed_def)
  ultimately show ?thesis
    using b fresh(2) signed(3-6) xb_relays_arrived [of "SecurityBlock s"] xb_relays_arrived [of "PlainBlock p"]
    by (simp add: bundle_relayed_def del: xb_arrived.simps)
qed

theorem pib_sign_verify_witness:
  "\<exists>s. xb_blocks sample_forwarded_signed ! 1 = SecurityBlock s
    \<and> pib_verify sample_crypto sample_key True sample_forwarded_signed (1, s) = Inr ()"
proof -
  have "xb_blocks sample_secured \<noteq> []" "list_all xb_settled (xb_blocks sample_secured)" by (simp_all add: sample_secured_def)
  from pib_sign_verify [OF sample_sign this sample_key_pair sample_key_node sample_relayed] show ?thesis .
qed

end
