(* ===== verification/Spec2Isabelle.thy ===== *)
theory Spec2Isabelle
  imports Separate Capsule Refusal Handshake Datagram Admission Registrations Events TcpConn FileStorage
    Authentic
begin

text \<open>
  A verification development for IBR-DTN, an implementation of the bundle protocol in C++: the library
  \<open>ibrdtn\<close> (bundles, their blocks, their wire formats, the streams of the TCP convergence layer) and the daemon
  \<open>dtnd\<close> (storage, routing, neighbors, custody, discovery, clients). Paths are below \<open>src/\<close>; \<open>data/\<close>,
  \<open>streams/\<close>, \<open>security/\<close> and \<open>utils/\<close> are in \<open>ibrdtn/ibrdtn/\<close>, \<open>core/\<close>, \<open>net/\<close>, \<open>routing/\<close> and \<open>api/\<close>
  in \<open>daemon/src/\<close>.

  How the program works. A bundle is a primary block and a list of blocks. It comes in over a convergence layer as a
  stream of bytes, is read by the deserializer under the validator of the core, and is raised as an event to the router,
  which stores it unless it is known. The routing extensions look for stored bundles whenever a neighbor turns up; a
  handshake of Bloom filters tells what the neighbor has. A transfer goes to the connection manager, which picks a
  convergence layer for an address of the node. What discovery and the configuration find out about nodes ends there.
  Bundles for the node itself go to the registrations of clients, to the core (custody signals) or become reports.

  Representation. Classes are records, one field for a member, enumerations and class hierarchies are datatypes; integers
  are words of their width, so they wrap around as in the code. \<open>std::set\<close> and \<open>std::map\<close> with a comparator are
  the lists of their elements in order, kept by the operations of \<open>StdSet\<close>, which compare with the comparator of the
  code alone. Input streams are lists of bytes, output streams are the bytes they get; reading is a function to an error
  or a value and the rest (\<open>IbrPrelude\<close>). Exceptions are values. Each has its class as its constructor; three more,
  \<open>EndOfStream\<close>, \<open>Indeterminate\<close> and \<open>StreamFailed\<close>, mark executions the source does not determine. Clocks,
  timers and the counter of sequence numbers are arguments. Locks and log messages are left out: an operation is a step,
  threads are orders of steps. Recursion is structural or by a measure; there is no fuel.

  Library. \<open>IbrPrelude\<close> (words, readers, the contracts \<open>codec\<close> and \<open>sized_codec\<close> of a wire format) and
  \<open>StdSet\<close> (ordered sets and maps with the contract \<open>key_order\<close> of a comparator) are generic; every format and
  every comparator of the code is an interpretation.

  Data of the library \<open>ibrdtn\<close>.
  \<^item> \<open>Sdnv\<close>: \<open>data/SDNV.cpp\<close>; encoding, decoding, lengths and bounds of the numbers on the wire.
  \<^item> \<open>Eid\<close>, \<open>Dictionary\<close>, \<open>Clock\<close>, \<open>Primary\<close>, \<open>Admin\<close>, \<open>Block\<close>: \<open>data/EID.cpp\<close>, \<open>data/Dictionary.cpp\<close>,
    \<open>utils/Clock.cpp\<close>, \<open>data/DTNTime.cpp\<close>, \<open>data/PrimaryBlock.cpp\<close>, the two administrative records, and the
    classes of blocks with their factories; each with its round trip and its predicted length.
  \<^item> \<open>Serializer\<close>, \<open>Deserializer\<close>, \<open>RoundTrip\<close>, \<open>Separate\<close>, \<open>Fragment\<close>: \<open>data/Serializer.cpp\<close> and
    \<open>data/BundleMerger.cpp\<close>; what is written is read back, with or without the compressed header, whole or as a
    fragment, and every turn of the loop over the blocks takes a byte.
  \<^item> \<open>BlockList\<close>: \<open>data/Bundle.cpp\<close> over a store of shared blocks; the flag of the last block is an invariant, and
    the lists implement what the serializers assume.
  \<^item> \<open>BundleId\<close>, \<open>BundleList\<close>, \<open>Capsule\<close>: identifiers and meta data, expiring lists, \<open>utils/Utils.cpp\<close>.

  Security.
  \<^item> \<open>Security\<close>: \<open>security/SecurityBlock.cpp\<close>, \<open>security/MutualSerializer.cpp\<close>; security blocks on the wire and the
    canonical form that signatures are made of.
  \<^item> \<open>Authentic\<close>: \<open>security/BundleAuthenticationBlock.cpp\<close>, \<open>security/PayloadIntegrityBlock.cpp\<close>,
    \<open>security/StrictSerializer.cpp\<close>; what is authenticated or signed is verified and stripped, and what a verified
    bundle has. The digest and the signatures are arguments, with \<open>key_pair\<close> for what a pair of keys promises.

  Connections.
  \<^item> \<open>Segment\<close>, \<open>StreamBuffer\<close>, \<open>Transmission\<close>, \<open>Refusal\<close>: \<open>streams/\<close>; bytes cut into segments arrive
    and are acknowledged, bundles are reported once unless their length fills the buffer exactly, rejected ones are skipped. \<open>bundle_over_connection\<close> below composes them
    with the serializers.
  \<^item> \<open>BundleStream\<close>: \<open>api/BundleStreamBuf.cpp\<close>; a stream of bytes over bundles, put in order by their numbers,
    and which orders of arrival a reader gets over.
  \<^item> \<open>TcpConn\<close>: \<open>net/TCPConnection.cpp\<close>; of the bundles that are queued at most one is lost, whenever the
    connection breaks: one whose transfer begins after the queues were cleared.
  \<^item> \<open>Datagram\<close>: \<open>net/DatagramConnection.cpp\<close>; bundles cut into numbered and marked datagrams, over a link that loses some.

  The daemon.
  \<^item> \<open>Storage\<close>, \<open>StorageSpec\<close>: \<open>core/MemoryBundleStorage.cpp\<close>; a refinement of finite maps with expiry, the size
    in use, queries by priority.
  \<^item> \<open>FileStorage\<close>: \<open>core/SimpleBundleStorage.cpp\<close>, \<open>core/DataStorage.cpp\<close>; what is written to a file by an
    idle worker is read back.
  \<^item> \<open>Summary\<close>, \<open>Neighbors\<close>, \<open>Handshake\<close>, \<open>Routing\<close>, \<open>Router\<close>, \<open>Retransmission\<close>: \<open>routing/\<close>; Bloom
    filters with the set they stand for, the slots for transfers, the messages of the handshake, what each extension
    sends, the event handler of the router with its invariant, transfers that are put off.
  \<^item> \<open>Reports\<close>, \<open>Admission\<close>: \<open>core/StatusReportGenerator.cpp\<close>, \<open>core/BundleStorage.cpp\<close>,
    \<open>core/BundleCore.cpp\<close>; status reports and custody signals end to end, and the validator.
  \<^item> \<open>Nodes\<close>, \<open>Discovery\<close>: \<open>core/Node.cpp\<close>, \<open>net/ConnectionManager.cpp\<close>, \<open>net/Discovery*.cpp\<close>,
    \<open>net/IPNDAgent.cpp\<close>; neighbors come and go with their announcements, and \<open>ipnd_discovers\<close> follows a datagram
    from one daemon to the choice of a convergence layer in the other.
  \<^item> \<open>Registrations\<close>: \<open>api/Registration.cpp\<close>, \<open>api/ApiServer.cpp\<close>, \<open>api/ClientHandler.cpp\<close>; what a client gets
    from the storage, and how registrations are kept, found and collected.
  \<^item> \<open>Events\<close>: \<open>core/EventSwitch.cpp\<close>; the queues of events and the threads that work on them, in all orders of
    their steps: every receiver that does not unregister is called once, and no event is used after its deletion.

  Parameters. The library \<open>ibrcommon\<close> is not part of the repository: Bloom filters, \<open>BLOB::copy\<close>, queues that
  block, regular expressions and sockets are arguments, and what is assumed of them is a named hypothesis
  (\<open>bloom_ok\<close>: what was added is contained; \<open>blob_copy_ok\<close>: a copy of what is there succeeds).

  Conditions. \<open>BundleID::operator<\<close> is no order between a bundle and a fragment of it, so the histories of lists, summaries,
  storages, neighbors, the router and the registrations are those over bundles none of which is together with a fragment of
  its own (\<open>bid_compat\<close>), where an identifier has one expiry time (\<open>meta_consistent\<close>, and \<open>steady\<close> at all moments of the
  history). Each property says which of these it needs, and \<open>bundle_id_fragment_confusion\<close> what happens without them.

  Not modelled: the storage in SQLite (the database does the work), sockets, threads and the loops around
  \<open>select\<close>, the encryption of blocks and compressed payloads (ciphers of OpenSSL, and zlib), parsing of the configuration and of command
  lines, the tools, and the text protocols of the management and event connections.
\<close>

section \<open>Bundles over a connection\<close>

text \<open>C2: a bundle that is serialised into a connection of the TCP convergence layer, flushed, and
  deserialised at the other end is the bundle that was sent, whatever the sizes of the buffers
  are.\<close>

theorem bundle_over_connection:
  assumes "ready a" and "ready c" and "blob_copy_ok copy" and "\<not> dict_fail (ser_dict w)"
    and "\<not> dict_fail (des_dict r)" and "bundle_sendable fs b"
  shows "\<exists>bytes w' got a2 c2 r'. ser_bundle w b = Inr (bytes, w') \<and> transfer bytes a c = (Inr got, a2, c2)
      \<and> sb_segments a2 = []
      \<and> des_bundle copy accept_validator fs now r obj got = Inr ((bundle_arrived fs now obj b, r'), [])"
proof -
  obtain bytes w' where ser: "ser_bundle w b = Inr (bytes, w')"
      and des: "\<forall>s. \<exists>r'. des_bundle copy accept_validator fs now r obj (bytes @ s)
                 = Inr ((bundle_arrived fs now obj b, r'), s) \<and> \<not> dict_fail (des_dict r')"
    using des_bundle_ser_bundle [OF assms(3-6)] by blast
  from des obtain r' where "des_bundle copy accept_validator fs now r obj bytes = Inr ((bundle_arrived fs now obj b, r'), [])"
    by (metis append_Nil2)
  moreover obtain a2 c2 where "transfer bytes a c = (Inr bytes, a2, c2)" "sb_segments a2 = []"
    using transfer_calls [OF assms(1,2) refl] by blast
  ultimately show ?thesis using ser by blast
qed

theorem bundle_over_connection_witness:
  "\<exists>bytes w' got a2 c2 r'. ser_bundle ser_new sample_bundle = Inr (bytes, w')
      \<and> transfer bytes (sample_conn 16) (sample_conn 7) = (Inr got, a2, c2) \<and> sb_segments a2 = []
      \<and> des_bundle rtake accept_validator default_factories sample_time des_new sample_object got
          = Inr ((bundle_arrived default_factories sample_time sample_object sample_bundle, r'), [])"
  by (rule bundle_over_connection [OF sample_conn_ready sample_conn_ready blob_copy_ok_rtake _ _ sample_bundle_sendable])
     (simp_all add: ser_new_def des_new_def dict_new_def)

end
